(* ===== verification/Prelude.thy ===== *)
theory Prelude
  imports Main "HOL-Library.Word" "HOL-Library.Signed_Division"
begin

text \<open>
  Shared vocabulary of the development.

  \<^item> \<open>nachos_error\<close> names the ways in which the simulated system stops: a failed
    \<open>ASSERT\<close> (threads/utility.h), an access through a pointer or an index that does not
    denote storage, a trap of the host processor, and the clean power-down.
  \<^item> \<open>res\<close> is the result type of every fallible routine, and \<open>rbind\<close> sequences two of
    them, stopping at the first error as the program does.
  \<^item> \<open>divRoundDown\<close>, \<open>divRoundUp\<close> are the macros of threads/utility.h, on C integers
    (division truncates towards zero).
  \<^item> generic lemmas on results, lists updated by index and C division.
\<close>

section \<open>Results\<close>

datatype nachos_error =
    AssertFail      \<comment> \<open>\<open>ASSERT\<close> failed: the simulator aborts\<close>
  | WildAccess      \<comment> \<open>a pointer or index outside the storage it belongs to\<close>
  | HostTrap        \<comment> \<open>the host processor traps (integer division overflow)\<close>
  | IntOverflow     \<comment> \<open>a C \<open>int\<close> leaves its 32 bits, which is undefined in C\<close>
  | BadAlloc        \<comment> \<open>the host allocator throws (\<open>std::bad_alloc\<close>)\<close>
  | PowerDown       \<comment> \<open>\<open>Interrupt::Powerdown\<close>: Nachos halts\<close>

type_synonym 'a res = "nachos_error + 'a"

definition rbind :: "'a res \<Rightarrow> ('a \<Rightarrow> 'b res) \<Rightarrow> 'b res" where
  "rbind r f = (case r of Inl e \<Rightarrow> Inl e | Inr x \<Rightarrow> f x)"

definition ASSERT :: "bool \<Rightarrow> unit res" where
  "ASSERT c = (if c then Inr () else Inl AssertFail)"

named_theorems res_simps "simplification rules for results"

lemma rbind_simps [simp, res_simps]:
  "rbind (Inr x) f = f x"
  "rbind (Inl e) f = Inl e"
  by (simp_all add: rbind_def)

lemma rbind_Inr_iff [res_simps]:
  "rbind r f = Inr y \<longleftrightarrow> (\<exists>x. r = Inr x \<and> f x = Inr y)"
  by (cases r) simp_all

lemma rbind_assoc: "rbind (rbind r f) g = rbind r (\<lambda>x. rbind (f x) g)"
  by (cases r) simp_all

lemma rbind_cong [fundef_cong]:
  "r = r' \<Longrightarrow> (\<And>x. r' = Inr x \<Longrightarrow> f x = f' x) \<Longrightarrow> rbind r f = rbind r' f'"
  by (cases r') simp_all

lemma ASSERT_simps [simp, res_simps]:
  "ASSERT True = Inr ()" "ASSERT False = Inl AssertFail"
  by (simp_all add: ASSERT_def)

lemma ASSERT_Inr_iff [simp]: "ASSERT c = Inr u \<longleftrightarrow> c"
  by (simp add: ASSERT_def)

lemma ASSERT_I [intro]: "c \<Longrightarrow> ASSERT c = Inr ()"
  by simp

text \<open>\<open>res_sat r P\<close>: the routine succeeds and its result satisfies \<open>P\<close>; evaluates on closed terms.\<close>

definition res_sat :: "'a res \<Rightarrow> ('a \<Rightarrow> bool) \<Rightarrow> bool" where
  "res_sat r P = (case r of Inl e \<Rightarrow> False | Inr x \<Rightarrow> P x)"

lemma res_satE:
  assumes "res_sat r P"
  obtains x where "r = Inr x" "P x"
  using assms by (cases r) (auto simp: res_sat_def)

lemma res_sat_simps [simp, res_simps]:
  "res_sat (Inr x) P = P x" "\<not> res_sat (Inl e) P"
  by (simp_all add: res_sat_def)

text \<open>Routines with a loop that may run for ever return \<open>None\<close> in that case; \<open>obind\<close> sequences them.\<close>

definition obind :: "'a res option \<Rightarrow> ('a \<Rightarrow> 'b res option) \<Rightarrow> 'b res option" where
  "obind r f = (case r of None \<Rightarrow> None | Some (Inl e) \<Rightarrow> Some (Inl e) | Some (Inr x) \<Rightarrow> f x)"

lemma obind_simps [simp, res_simps]:
  "obind None f = None"
  "obind (Some (Inl e)) f = Some (Inl e)"
  "obind (Some (Inr x)) f = f x"
  by (simp_all add: obind_def)

lemma obind_Inr_iff [res_simps]:
  "obind r f = Some (Inr y) \<longleftrightarrow> (\<exists>x. r = Some (Inr x) \<and> f x = Some (Inr y))"
  by (auto simp: obind_def split: option.splits sum.splits)

lemma obind_rbind: "obind (Some r) (\<lambda>x. Some (f x)) = Some (rbind r f)"
  by (cases r) simp_all

text \<open>\<open>x++\<close> on a C \<open>int\<close>.\<close>

definition int_inc :: "int \<Rightarrow> int res" where
  "int_inc v = (if v = 2147483647 then Inl IntOverflow else Inr (v + 1))"

lemma int_inc_simps [simp, res_simps]:
  "v \<noteq> 2147483647 \<Longrightarrow> int_inc v = Inr (v + 1)" "int_inc 2147483647 = Inl IntOverflow"
  by (simp_all add: int_inc_def)

section \<open>C integer division\<close>

definition divRoundDown :: "int \<Rightarrow> int \<Rightarrow> int" where
  "divRoundDown n s = n sdiv s"

definition divRoundUp :: "int \<Rightarrow> int \<Rightarrow> int" where
  "divRoundUp n s = n sdiv s + (if n smod s > 0 then 1 else 0)"

lemma sdiv_nonneg: "0 \<le> n \<Longrightarrow> 0 < s \<Longrightarrow> (n::int) sdiv s = n div s"
  by (cases "n = 0") (simp_all add: signed_divide_int_def)

lemma smod_nonneg: "0 \<le> n \<Longrightarrow> 0 < s \<Longrightarrow> (n::int) smod s = n mod s"
  by (cases "n = 0") (simp_all add: signed_modulo_int_def)

lemma divRoundDown_nonneg: "0 \<le> n \<Longrightarrow> 0 < s \<Longrightarrow> divRoundDown n s = n div s"
  by (simp add: divRoundDown_def sdiv_nonneg)

text \<open>\<open>divRoundUp\<close> is the least number of chunks of size \<open>s\<close> that hold \<open>n\<close> items.\<close>

lemma divRoundUp_le_iff:
  assumes "0 \<le> n" "0 < s"
  shows "divRoundUp n s \<le> k \<longleftrightarrow> n \<le> k * s"
proof -
  have nq: "n = n div s * s + n mod s" by simp
  have m: "0 \<le> n mod s" "n mod s < s" using assms by simp_all
  have up: "divRoundUp n s = n div s + (if 0 < n mod s then 1 else 0)"
    using assms by (simp add: divRoundUp_def sdiv_nonneg smod_nonneg)
  show ?thesis
  proof (cases "n mod s = 0")
    case True
    then have "n = n div s * s" using nq by simp
    then obtain q where q: "n = q * s" by blast
    then have "n \<le> k * s \<longleftrightarrow> n div s \<le> k" using assms(2) by simp
    then show ?thesis using up True by simp
  next
    case False
    then have pos: "0 < n mod s" using m by simp
    have "n \<le> k * s \<longleftrightarrow> n div s < k"
    proof
      assume "n \<le> k * s"
      show "n div s < k"
      proof (rule ccontr)
        assume "\<not> n div s < k"
        then have "k * s \<le> n div s * s" using assms(2) by simp
        then show False using \<open>n \<le> k * s\<close> nq pos by linarith
      qed
    next
      assume "n div s < k"
      then have "(n div s + 1) * s \<le> k * s" using assms(2) by simp
      then show "n \<le> k * s" using nq m(2) unfolding distrib_right by linarith
    qed
    then show ?thesis using up pos by auto
  qed
qed

lemma divRoundUp_nonneg: "0 \<le> n \<Longrightarrow> 0 < s \<Longrightarrow> 0 \<le> divRoundUp n s"
  by (simp add: divRoundUp_def sdiv_nonneg pos_imp_zdiv_nonneg_iff)

section \<open>Pointers\<close>

text \<open>Addresses of objects of the simulator; \<open>NULL\<close> is address 0.\<close>

type_synonym addr = nat

abbreviation NULL :: addr where
  "NULL \<equiv> 0"

section \<open>Lists updated by index\<close>

lemma nth_list_update_if:
  "i < length xs \<Longrightarrow> xs[i := v] ! j = (if i = j then v else xs ! j)"
  by (cases "i = j") simp_all

end
