(* ===== verification/NachosList.thy ===== *)
theory NachosList
  imports Prelude "HOL-Library.Multiset"
begin

text \<open>
  The list class of the thread system (threads/list.h, threads/list.cc): singly linked
  \<open>ListElement\<close>s in an explicit store, a \<open>first\<close> and a \<open>last\<close> pointer, and every
  operation on pointers as the source performs it. Items are opaque addresses, and the
  \<open>NULL\<close> result of \<open>Remove\<close> is address 0. A walk along \<open>next\<close> pointers is a
  \<^theory_text>\<open>partial_function\<close>: \<open>None\<close> is a walk that never ends (a cyclic list).

  The abstract view is the list of (key, item) pairs. The locale \<open>list_queue\<close> is the
  contract the scheduler, the semaphores and the interrupt simulation rely on; it is
  interpreted on the pointer operations.
\<close>

section \<open>Data\<close>

record list_element =
  nextp :: addr
  key :: int
  item :: addr

record nlist =
  firstp :: addr
  lastp :: addr

text \<open>The store of list elements; \<open>brk\<close> is the next address the allocator hands out.\<close>

record lheap =
  cells :: "addr \<rightharpoonup> list_element"
  brk :: addr

type_synonym lstate = "lheap \<times> nlist"

definition empty_heap :: lheap where
  "empty_heap = \<lparr>cells = Map.empty, brk = 1\<rparr>"

definition set_nextp :: "addr \<Rightarrow> addr \<Rightarrow> lheap \<Rightarrow> lheap res" where
  "set_nextp a n h = (case cells h a of
      None \<Rightarrow> Inl WildAccess
    | Some e \<Rightarrow> Inr (h\<lparr>cells := (cells h)(a \<mapsto> e\<lparr>nextp := n\<rparr>)\<rparr>))"

definition free_element :: "addr \<Rightarrow> lheap \<Rightarrow> lheap" where
  "free_element a h = h\<lparr>cells := (cells h)(a := None)\<rparr>"

section \<open>Operations\<close>

definition ListElement_new :: "addr \<Rightarrow> int \<Rightarrow> lheap \<Rightarrow> addr \<times> lheap" where
  "ListElement_new itemPtr sortKey h =
     (brk h, h\<lparr>cells := (cells h)(brk h \<mapsto> \<lparr>nextp = NULL, key = sortKey, item = itemPtr\<rparr>),
               brk := Suc (brk h)\<rparr>)"

definition List_new :: nlist where
  "List_new = \<lparr>firstp = NULL, lastp = NULL\<rparr>"

definition IsEmpty :: "nlist \<Rightarrow> bool" where
  "IsEmpty l \<longleftrightarrow> firstp l = NULL"

definition FirstElement :: "nlist \<Rightarrow> addr" where
  "FirstElement l = firstp l"

definition Append :: "addr \<Rightarrow> lstate \<Rightarrow> lstate res" where
  "Append it = (\<lambda>(h, l).
     let (element, h1) = ListElement_new it 0 h in
     if IsEmpty l then Inr (h1, l\<lparr>firstp := element, lastp := element\<rparr>)
     else rbind (set_nextp (lastp l) element h1) (\<lambda>h2. Inr (h2, l\<lparr>lastp := element\<rparr>)))"

definition Prepend :: "addr \<Rightarrow> lstate \<Rightarrow> lstate res" where
  "Prepend it = (\<lambda>(h, l).
     let (element, h1) = ListElement_new it 0 h in
     if IsEmpty l then Inr (h1, l\<lparr>firstp := element, lastp := element\<rparr>)
     else rbind (set_nextp element (firstp l) h1) (\<lambda>h2. Inr (h2, l\<lparr>firstp := element\<rparr>)))"

text \<open>
  \<open>SortedRemove (&key)\<close>: the item (\<open>NULL\<close> when the list is empty) and the key stored
  through \<open>keyPtr\<close> (\<open>None\<close>: nothing was stored).
\<close>

definition SortedRemove :: "lstate \<Rightarrow> ((addr \<times> int option) \<times> lstate) res" where
  "SortedRemove = (\<lambda>(h, l).
     let element = firstp l in
     if IsEmpty l then Inr ((NULL, None), (h, l))
     else case cells h element of
       None \<Rightarrow> Inl WildAccess
     | Some e \<Rightarrow>
         let thing = item e;
             l' = (if firstp l = lastp l then l\<lparr>firstp := NULL, lastp := NULL\<rparr>
                   else l\<lparr>firstp := nextp e\<rparr>)
         in Inr ((thing, Some (key e)), (free_element element h, l')))"

definition Remove :: "lstate \<Rightarrow> (addr \<times> lstate) res" where
  "Remove s = rbind (SortedRemove s) (\<lambda>((thing, _), s'). Inr (thing, s'))"

text \<open>
  \<open>Remove (item)\<close>: \<open>cur\<close> is the address of the pointer to the element looked at, that
  is \<open>&first\<close> while \<open>prec\<close> is \<open>NULL\<close> and \<open>&prec->next\<close> afterwards; \<open>c\<close> is \<open>*cur\<close>.
\<close>

partial_function (option) RemoveItem_loop ::
  "addr \<Rightarrow> lheap \<Rightarrow> nlist \<Rightarrow> addr \<Rightarrow> addr \<Rightarrow> lstate res option" where
  "RemoveItem_loop it h l prec c =
     (if c = NULL then Some (Inl AssertFail)
      else case cells h c of
        None \<Rightarrow> Some (Inl WildAccess)
      | Some e \<Rightarrow>
          if item e = it then
            (let l1 = (if c = lastp l then l\<lparr>lastp := prec\<rparr> else l);
                 nxt = nextp e;
                 h1 = free_element c h
             in Some (if prec = NULL then Inr (h1, l1\<lparr>firstp := nxt\<rparr>)
                      else rbind (set_nextp prec nxt h1) (\<lambda>h2. Inr (h2, l1))))
          else RemoveItem_loop it h l c (nextp e))"

definition RemoveItem :: "addr \<Rightarrow> lstate \<Rightarrow> lstate res option" where
  "RemoveItem it = (\<lambda>(h, l). RemoveItem_loop it h l NULL (firstp l))"

partial_function (option) Length_loop :: "lheap \<Rightarrow> addr \<Rightarrow> int \<Rightarrow> int res option" where
  "Length_loop h cur n =
     (if cur = NULL then Some (Inr n)
      else case cells h cur of
        None \<Rightarrow> Some (Inl WildAccess)
      | Some e \<Rightarrow> Length_loop h (nextp e) (n + 1))"

definition Length :: "lstate \<Rightarrow> int res option" where
  "Length = (\<lambda>(h, l). Length_loop h (firstp l) 0)"

text \<open>\<open>Mapcar\<close> reads the successor before it calls \<open>func\<close>, which may change the store.\<close>

partial_function (option) Mapcar_loop ::
  "(addr \<Rightarrow> lheap \<times> 's \<Rightarrow> lheap \<times> 's) \<Rightarrow> addr \<Rightarrow> lheap \<times> 's \<Rightarrow> (lheap \<times> 's) res option" where
  "Mapcar_loop func ptr hs =
     (if ptr = NULL then Some (Inr hs)
      else case cells (fst hs) ptr of
        None \<Rightarrow> Some (Inl WildAccess)
      | Some e \<Rightarrow> Mapcar_loop func (nextp e) (func (item e) hs))"

definition Mapcar :: "(addr \<Rightarrow> lheap \<times> 's \<Rightarrow> lheap \<times> 's) \<Rightarrow> lstate \<Rightarrow> 's \<Rightarrow> (lheap \<times> 's) res option" where
  "Mapcar func = (\<lambda>(h, l) s. Mapcar_loop func (firstp l) (h, s))"

partial_function (option) SortedInsert_loop ::
  "int \<Rightarrow> addr \<Rightarrow> lheap \<Rightarrow> nlist \<Rightarrow> addr \<Rightarrow> lstate res option" where
  "SortedInsert_loop sortKey element h l ptr =
     (case cells h ptr of
        None \<Rightarrow> Some (Inl WildAccess)
      | Some e \<Rightarrow>
          if nextp e = NULL then
            Some (rbind (set_nextp (lastp l) element h) (\<lambda>h1. Inr (h1, l\<lparr>lastp := element\<rparr>)))
          else case cells h (nextp e) of
            None \<Rightarrow> Some (Inl WildAccess)
          | Some e' \<Rightarrow>
              if sortKey < key e' then
                Some (rbind (set_nextp element (nextp e) h) (\<lambda>h1.
                      rbind (set_nextp ptr element h1) (\<lambda>h2. Inr (h2, l))))
              else SortedInsert_loop sortKey element h l (nextp e))"

definition SortedInsert :: "addr \<Rightarrow> int \<Rightarrow> lstate \<Rightarrow> lstate res option" where
  "SortedInsert it sortKey = (\<lambda>(h, l).
     let (element, h1) = ListElement_new it sortKey h in
     if IsEmpty l then Some (Inr (h1, l\<lparr>firstp := element, lastp := element\<rparr>))
     else case cells h1 (firstp l) of
       None \<Rightarrow> Some (Inl WildAccess)
     | Some e \<Rightarrow>
         if sortKey < key e then
           Some (rbind (set_nextp element (firstp l) h1) (\<lambda>h2. Inr (h2, l\<lparr>firstp := element\<rparr>)))
         else SortedInsert_loop sortKey element h1 l (firstp l))"

text \<open>The destructor removes elements until \<open>Remove\<close> returns \<open>NULL\<close>.\<close>

partial_function (option) List_delete :: "lstate \<Rightarrow> lstate res option" where
  "List_delete s =
     (case Remove s of
        Inl err \<Rightarrow> Some (Inl err)
      | Inr (thing, s') \<Rightarrow> if thing \<noteq> NULL then List_delete s' else Some (Inr s'))"

section \<open>Representation of an abstract list\<close>

text \<open>\<open>lpath c p as q\<close>: following \<open>next\<close> from \<open>p\<close> visits the cells \<open>as\<close> and ends in \<open>q\<close>.\<close>

primrec lpath :: "(addr \<rightharpoonup> list_element) \<Rightarrow> addr \<Rightarrow> addr list \<Rightarrow> addr \<Rightarrow> bool" where
  "lpath c p [] q \<longleftrightarrow> p = q"
| "lpath c p (a # as) q \<longleftrightarrow>
     p = a \<and> a \<noteq> NULL \<and> (case c a of None \<Rightarrow> False | Some e \<Rightarrow> lpath c (nextp e) as q)"

definition heap_ok :: "lheap \<Rightarrow> bool" where
  "heap_ok h \<longleftrightarrow> 0 < brk h \<and> (\<forall>a. brk h \<le> a \<longrightarrow> cells h a = None)"

definition content :: "lheap \<Rightarrow> addr list \<Rightarrow> (int \<times> addr) list" where
  "content h as = map (\<lambda>a. case cells h a of None \<Rightarrow> (0, NULL) | Some e \<Rightarrow> (key e, item e)) as"

definition list_at :: "lstate \<Rightarrow> addr list \<Rightarrow> bool" where
  "list_at = (\<lambda>(h, l) as.
     heap_ok h \<and> distinct as \<and> lpath (cells h) (firstp l) as NULL
     \<and> lastp l = (if as = [] then NULL else last as))"

definition list_repr :: "lstate \<Rightarrow> (int \<times> addr) list \<Rightarrow> bool" where
  "list_repr s xs \<longleftrightarrow> (\<exists>as. list_at s as \<and> content (fst s) as = xs)"

text \<open>The abstract insertion of \<open>SortedInsert\<close>: before the first element with a greater key.\<close>

fun sorted_ins :: "int \<Rightarrow> 'a \<Rightarrow> (int \<times> 'a) list \<Rightarrow> (int \<times> 'a) list" where
  "sorted_ins k x [] = [(k, x)]"
| "sorted_ins k x (y # ys) = (if k < fst y then (k, x) # y # ys else y # sorted_ins k x ys)"

lemma mset_sorted_ins [simp]: "mset (sorted_ins k x ys) = add_mset (k, x) (mset ys)"
  by (induction ys) auto

lemma set_sorted_ins [simp]: "set (sorted_ins k x ys) = insert (k, x) (set ys)"
  by (induction ys) auto

lemma sorted_sorted_ins: "sorted (map fst ys) \<Longrightarrow> sorted (map fst (sorted_ins k x ys))"
  by (induction ys) auto

lemma sorted_ins_split:
  "(\<forall>y \<in> set xs. fst y \<le> k) \<Longrightarrow> (ys = [] \<or> k < fst (hd ys)) \<Longrightarrow>
   sorted_ins k x (xs @ ys) = xs @ (k, x) # ys"
proof (induction xs)
  case Nil
  then show ?case by (cases ys) auto
next
  case (Cons y xs)
  then show ?case by auto
qed

subsection \<open>Paths\<close>

lemma lpath_append:
  "lpath c p (as @ bs) q \<longleftrightarrow> (\<exists>r. lpath c p as r \<and> lpath c r bs q)"
  by (induction as arbitrary: p) (auto split: option.splits)

lemma lpath_dom: "lpath c p as q \<Longrightarrow> a \<in> set as \<Longrightarrow> a \<noteq> NULL \<and> (\<exists>e. c a = Some e)"
  by (induction as arbitrary: p) (auto split: option.splits)

lemma lpath_upd [simp]: "a \<notin> set as \<Longrightarrow> lpath (c(a := v)) p as q = lpath c p as q"
  by (induction as arbitrary: p) (auto split: option.splits)

lemma lpath_hd: "lpath c p as q \<Longrightarrow> as \<noteq> [] \<Longrightarrow> p = hd as"
  by (cases as) auto

lemma lpath_NULL_iff: "lpath c p as NULL \<Longrightarrow> (p = NULL \<longleftrightarrow> as = [])"
  by (cases as) auto

lemma content_simps [simp]:
  "content h [] = []"
  "content h (a # as) = (case cells h a of None \<Rightarrow> (0, NULL) | Some e \<Rightarrow> (key e, item e)) # content h as"
  "content h (as @ bs) = content h as @ content h bs"
  by (simp_all add: content_def)

lemma content_upd:
  "a \<notin> set as \<Longrightarrow> content (h\<lparr>cells := (cells h)(a := v)\<rparr>) as = content h as"
  by (induction as) (auto simp: content_def)

lemma content_upd_brk [simp]: "content (h\<lparr>brk := n\<rparr>) as = content h as"
  by (simp add: content_def)

lemma content_next:
  "cells h a = Some e \<Longrightarrow> content (h\<lparr>cells := (cells h)(a \<mapsto> e\<lparr>nextp := n\<rparr>)\<rparr>) as = content h as"
  by (induction as) (auto simp: content_def)

lemma length_content [simp]: "length (content h as) = length as"
  by (simp add: content_def)

lemma content_eq_Nil [simp]: "content h as = [] \<longleftrightarrow> as = []"
  by (simp add: content_def)

lemma list_at_fresh: "heap_ok h \<Longrightarrow> lpath (cells h) p as q \<Longrightarrow> brk h \<notin> set as"
  by (metis heap_ok_def lpath_dom option.distinct(1) order_refl)

lemma list_at_IsEmpty: "list_at (h, l) as \<Longrightarrow> IsEmpty l \<longleftrightarrow> as = []"
  by (auto simp: list_at_def IsEmpty_def dest: lpath_NULL_iff)

lemmas list_ops = ListElement_new_def set_nextp_def free_element_def


lemma lpath_snoc:
  "lpath c p (bs @ [b]) q \<longleftrightarrow> lpath c p bs b \<and> b \<noteq> NULL \<and> (\<exists>e. c b = Some e \<and> nextp e = q)"
  by (auto simp: lpath_append split: option.splits)

text \<open>Cells outside a list keep their value: the frame of every operation.\<close>

definition frame_except :: "addr set \<Rightarrow> lheap \<Rightarrow> lheap \<Rightarrow> bool" where
  "frame_except A h h' \<longleftrightarrow> brk h \<le> brk h' \<and> (\<forall>a. a < brk h \<longrightarrow> a \<notin> A \<longrightarrow> cells h' a = cells h a)"

lemma list_at_frame:
  assumes "list_at (h, l) as" "frame_except A h h'" "A \<inter> set as = {}" "heap_ok h'"
  shows "list_at (h', l) as \<and> content h' as = content h as"
proof -
  from assms(1) have P: "lpath (cells h) (firstp l) as NULL" and "heap_ok h"
    by (auto simp: list_at_def)
  have eq: "cells h' a = cells h a" if "a \<in> set as" for a
  proof -
    have "a < brk h" using lpath_dom [OF P that] \<open>heap_ok h\<close>
      by (metis heap_ok_def not_le_imp_less option.distinct(1))
    moreover have "a \<notin> A" using assms(3) that by blast
    ultimately show ?thesis using assms(2) by (simp add: frame_except_def)
  qed
  have "lpath (cells h') p bs NULL = lpath (cells h) p bs NULL" if "set bs \<subseteq> set as" for p bs
    using that by (induction bs arbitrary: p) (auto simp: eq split: option.splits)
  moreover have "content h' as = content h as"
    by (simp add: content_def eq)
  ultimately show ?thesis using assms(1,4) P by (auto simp: list_at_def)
qed

section \<open>Every operation refines the abstract list\<close>

lemma list_at_List_new [simp]: "heap_ok h \<Longrightarrow> list_at (h, List_new) []"
  by (simp add: list_at_def List_new_def)

lemma heap_ok_empty [simp]: "heap_ok empty_heap"
  by (simp add: heap_ok_def empty_heap_def)

lemma Append_at:
  assumes "list_at (h, l) as"
  shows "\<exists>h' l'. Append it (h, l) = Inr (h', l') \<and> list_at (h', l') (as @ [brk h])
     \<and> content h' (as @ [brk h]) = content h as @ [(0, it)] \<and> frame_except (set as) h h'"
proof (cases as rule: rev_cases)
  case Nil
  then show ?thesis using assms list_at_IsEmpty [OF assms]
    by (auto simp: Append_def list_ops list_at_def heap_ok_def frame_except_def)
next
  case (snoc bs b)
  from assms snoc obtain e where b: "cells h b = Some e" "b \<noteq> NULL" "nextp e = NULL"
      and P: "lpath (cells h) (firstp l) bs b" and dist: "distinct (bs @ [b])"
      and H: "heap_ok h" and last: "lastp l = b"
    by (auto simp: list_at_def lpath_snoc)
  have fresh: "brk h \<notin> set bs" "brk h \<noteq> b" "brk h \<noteq> NULL"
    using list_at_fresh [OF H P] b H by (auto simp: heap_ok_def)
  have ne: "\<not> IsEmpty l" using list_at_IsEmpty [OF assms] snoc by simp
  let ?h2 = "\<lparr>cells = (cells h)(brk h \<mapsto> \<lparr>nextp = NULL, key = 0, item = it\<rparr>, b \<mapsto> e\<lparr>nextp := brk h\<rparr>),
              brk = Suc (brk h)\<rparr>"
  have run: "Append it (h, l) = Inr (?h2, l\<lparr>lastp := brk h\<rparr>)"
    using ne b last fresh by (simp add: Append_def list_ops)
  have "list_at (?h2, l\<lparr>lastp := brk h\<rparr>) (as @ [brk h])"
    using snoc P dist fresh b H by (auto simp: list_at_def lpath_append heap_ok_def)
  moreover have "content ?h2 (as @ [brk h]) = content h as @ [(0, it)]"
    using snoc dist fresh b by (auto simp: content_def)
  moreover have "frame_except (set as) h ?h2"
    using snoc by (auto simp: frame_except_def)
  ultimately show ?thesis using run by blast
qed

lemma Prepend_at:
  assumes "list_at (h, l) as"
  shows "\<exists>h' l'. Prepend it (h, l) = Inr (h', l') \<and> list_at (h', l') (brk h # as)
     \<and> content h' (brk h # as) = (0, it) # content h as \<and> frame_except (set as) h h'"
proof -
  from assms have P: "lpath (cells h) (firstp l) as NULL" and H: "heap_ok h"
    by (auto simp: list_at_def)
  have fresh: "brk h \<notin> set as" "brk h \<noteq> NULL"
    using list_at_fresh [OF H P] H by (auto simp: heap_ok_def)
  let ?h2 = "\<lparr>cells = (cells h)(brk h \<mapsto> \<lparr>nextp = firstp l, key = 0, item = it\<rparr>), brk = Suc (brk h)\<rparr>"
  let ?l2 = "if as = [] then l\<lparr>firstp := brk h, lastp := brk h\<rparr> else l\<lparr>firstp := brk h\<rparr>"
  have empty: "firstp l = NULL" if "as = []" using P that by simp
  have "Prepend it (h, l) = Inr (?h2, ?l2)"
    using list_at_IsEmpty [OF assms] empty by (simp add: Prepend_def list_ops)
  moreover have "list_at (?h2, ?l2) (brk h # as)"
    using assms P H fresh by (auto simp: list_at_def heap_ok_def)
  moreover have "content ?h2 (brk h # as) = (0, it) # content h as"
    using fresh by (auto simp: content_def)
  moreover have "frame_except (set as) h ?h2"
    by (auto simp: frame_except_def)
  ultimately show ?thesis by blast
qed

lemma SortedRemove_at_Nil:
  "list_at (h, l) [] \<Longrightarrow> SortedRemove (h, l) = Inr ((NULL, None), (h, l))"
  by (simp add: SortedRemove_def list_at_IsEmpty)

lemma SortedRemove_at_Cons:
  assumes "list_at (h, l) (a # as)"
  shows "\<exists>h' l' e. cells h a = Some e \<and> SortedRemove (h, l) = Inr ((item e, Some (key e)), (h', l'))
     \<and> list_at (h', l') as \<and> content h' as = content h as \<and> frame_except {a} h h'"
proof -
  from assms obtain e where e: "cells h a = Some e" and P: "lpath (cells h) (nextp e) as NULL"
      and F: "firstp l = a" "a \<noteq> NULL" and D: "a \<notin> set as" "distinct as" and H: "heap_ok h"
      and L: "lastp l = (if as = [] then a else last as)"
    by (auto simp: list_at_def split: option.splits)
  let ?h' = "free_element a h"
  let ?l' = "if as = [] then l\<lparr>firstp := NULL, lastp := NULL\<rparr> else l\<lparr>firstp := nextp e\<rparr>"
  have one: "firstp l = lastp l \<longleftrightarrow> as = []"
    using D F L by (metis last_in_set)
  have "SortedRemove (h, l) = Inr ((item e, Some (key e)), (?h', ?l'))"
    using e F one by (simp add: SortedRemove_def IsEmpty_def Let_def)
  moreover have "list_at (?h', ?l') as"
    using P D H L by (auto simp: list_at_def free_element_def heap_ok_def)
  moreover have "content ?h' as = content h as"
    using D by (simp add: free_element_def content_upd)
  moreover have "frame_except {a} h ?h'"
    by (simp add: frame_except_def free_element_def)
  ultimately show ?thesis using e by blast
qed

lemma Length_loop_path:
  "lpath (cells h) p as NULL \<Longrightarrow> Length_loop h p n = Some (Inr (n + int (length as)))"
proof (induction as arbitrary: p n)
  case Nil
  then show ?case by (simp add: Length_loop.simps)
next
  case (Cons a as)
  then show ?case by (subst Length_loop.simps) (auto split: option.splits)
qed


text \<open>The element looked at holds the item: it is unlinked and freed.\<close>

lemma RemoveItem_loop_found:
  assumes at: "list_at (h, l) (pre @ a # as)" and e: "cells h a = Some e" and it: "item e = it"
    and prec: "prec = (if pre = [] then NULL else last pre)"
  shows "\<exists>h' l'. RemoveItem_loop it h l prec a = Some (Inr (h', l'))
     \<and> list_at (h', l') (pre @ as) \<and> content h' (pre @ as) = content h (pre @ as)
     \<and> frame_except (set (pre @ a # as)) h h'"
proof -
  let ?h1 = "free_element a h"
  let ?l1 = "if a = lastp l then l\<lparr>lastp := prec\<rparr> else l"
  from at have D: "distinct (pre @ a # as)" and H: "heap_ok h" and L: "lastp l = last (a # as)"
      and Q: "lpath (cells h) (firstp l) (pre @ a # as) NULL"
    by (auto simp: list_at_def)
  from Q e have P: "lpath (cells h) (nextp e) as NULL" and a: "a \<noteq> NULL"
    by (auto simp: lpath_append)
  have isl: "a = lastp l \<longleftrightarrow> as = []" using L D by (cases as) auto
  show ?thesis
  proof (cases pre rule: rev_cases)
    case Nil
    then have "RemoveItem_loop it h l prec a = Some (Inr (?h1, ?l1\<lparr>firstp := nextp e\<rparr>))"
      using a e it prec by (subst RemoveItem_loop.simps) (simp add: Let_def)
    moreover have "list_at (?h1, ?l1\<lparr>firstp := nextp e\<rparr>) (pre @ as)"
      using Nil P D H L isl prec by (auto simp: list_at_def free_element_def heap_ok_def)
    moreover have "content ?h1 (pre @ as) = content h (pre @ as)"
      using D by (simp add: free_element_def content_upd)
    ultimately show ?thesis by (auto simp: frame_except_def free_element_def)
  next
    case (snoc ps p)
    from Q snoc obtain ep where ep: "cells h p = Some ep" "p \<noteq> NULL"
        and R: "lpath (cells h) (firstp l) ps p"
      by (auto simp: lpath_append split: option.splits)
    let ?h2 = "?h1\<lparr>cells := (cells ?h1)(p \<mapsto> ep\<lparr>nextp := nextp e\<rparr>)\<rparr>"
    have pa: "p \<noteq> a" using D snoc by auto
    then have "RemoveItem_loop it h l prec a = Some (Inr (?h2, ?l1))"
      using a e it prec snoc ep
      by (subst RemoveItem_loop.simps) (simp add: Let_def set_nextp_def free_element_def)
    moreover have "list_at (?h2, ?l1) (pre @ as)"
      using snoc R P D H L isl prec ep pa
      by (auto simp: list_at_def free_element_def heap_ok_def lpath_append)
    moreover have "content ?h2 (pre @ as) = content h (pre @ as)"
      using D ep pa by (subst content_next) (simp_all add: free_element_def content_upd)
    ultimately show ?thesis using snoc by (auto simp: frame_except_def free_element_def)
  qed
qed

lemma RemoveItem_loop_path:
  assumes "list_at (h, l) (pre @ as)" "lpath (cells h) c as NULL"
    "prec = (if pre = [] then NULL else last pre)"
    "it \<in> snd ` set (content h as)"
  shows "\<exists>h' l' as1 a as2. RemoveItem_loop it h l prec c = Some (Inr (h', l'))
     \<and> as = as1 @ a # as2 \<and> it \<notin> snd ` set (content h as1) \<and> snd (content h [a] ! 0) = it
     \<and> list_at (h', l') (pre @ as1 @ as2) \<and> content h' (pre @ as1 @ as2) = content h (pre @ as1 @ as2)
     \<and> frame_except (set (pre @ as)) h h'"
  using assms
proof (induction as arbitrary: c pre prec)
  case Nil
  then show ?case by simp
next
  case (Cons a as)
  from Cons.prems(2) obtain e where c: "c = a" "a \<noteq> NULL" and e: "cells h a = Some e"
      and P: "lpath (cells h) (nextp e) as NULL"
    by (auto split: option.splits)
  show ?case
  proof (cases "item e = it")
    case False
    then have "it \<in> snd ` set (content h as)" using Cons.prems(4) e by auto
    moreover have "list_at (h, l) ((pre @ [a]) @ as)" using Cons.prems(1) by simp
    ultimately obtain h' l' as1 b as2 where
      IH: "RemoveItem_loop it h l a (nextp e) = Some (Inr (h', l'))" "as = as1 @ b # as2"
        "it \<notin> snd ` set (content h as1)" "snd (content h [b] ! 0) = it"
        "list_at (h', l') ((pre @ [a]) @ as1 @ as2)"
        "content h' ((pre @ [a]) @ as1 @ as2) = content h ((pre @ [a]) @ as1 @ as2)"
        "frame_except (set ((pre @ [a]) @ as)) h h'"
      using Cons.IH [of "pre @ [a]" "nextp e" a] P by auto
    have "RemoveItem_loop it h l prec c = Some (Inr (h', l'))"
      using IH(1) c e False by (subst RemoveItem_loop.simps) simp
    moreover have "a # as = (a # as1) @ b # as2" "it \<notin> snd ` set (content h (a # as1))"
      using IH(2,3) e False by auto
    moreover have "list_at (h', l') (pre @ (a # as1) @ as2)"
      "content h' (pre @ (a # as1) @ as2) = content h (pre @ (a # as1) @ as2)"
      "frame_except (set (pre @ a # as)) h h'"
      using IH(5,6,7) by simp_all
    ultimately show ?thesis using IH(4) by blast
  next
    case True
    then obtain h' l' where "RemoveItem_loop it h l prec c = Some (Inr (h', l'))"
      "list_at (h', l') (pre @ [] @ as)" "content h' (pre @ [] @ as) = content h (pre @ [] @ as)"
      "frame_except (set (pre @ a # as)) h h'"
      using RemoveItem_loop_found [OF Cons.prems(1) e True Cons.prems(3)] c by auto
    moreover have "a # as = [] @ a # as" "it \<notin> snd ` set (content h [])" "snd (content h [a] ! 0) = it"
      using e True by auto
    ultimately show ?thesis by blast
  qed
qed

lemma RemoveItem_loop_absent:
  "lpath (cells h) c as NULL \<Longrightarrow> it \<notin> snd ` set (content h as) \<Longrightarrow>
   RemoveItem_loop it h l prec c = Some (Inl AssertFail)"
proof (induction as arbitrary: c prec)
  case Nil
  then show ?case by (subst RemoveItem_loop.simps) simp
next
  case (Cons a as)
  from Cons.prems obtain e where e: "c = a" "a \<noteq> NULL" "cells h a = Some e" "item e \<noteq> it"
      "lpath (cells h) (nextp e) as NULL" "it \<notin> snd ` set (content h as)"
    by (auto split: option.splits)
  then show ?case using Cons.IH by (subst RemoveItem_loop.simps) simp
qed

text \<open>Linking a fresh element \<open>el\<close> behind \<open>p\<close>.\<close>

lemma link_after:
  assumes P: "lpath (cells h) f (pre @ p # post) NULL" and D: "distinct (pre @ p # post)"
    and H: "heap_ok h" and el: "cells h el = Some e" "el \<notin> set (pre @ p # post)" "el \<noteq> NULL"
    and p: "cells h p = Some ep"
  defines "h' \<equiv> h\<lparr>cells := (cells h)(el \<mapsto> e\<lparr>nextp := nextp ep\<rparr>, p \<mapsto> ep\<lparr>nextp := el\<rparr>)\<rparr>"
  shows "lpath (cells h') f (pre @ p # el # post) NULL \<and> distinct (pre @ p # el # post) \<and> heap_ok h'
     \<and> content h' (pre @ p # el # post) = content h (pre @ [p]) @ (key e, item e) # content h post
     \<and> frame_except (insert el (set (pre @ p # post))) h h'"
proof -
  from P p have "lpath (cells h) f pre p" "p \<noteq> NULL" "lpath (cells h) (nextp ep) post NULL"
    by (auto simp: lpath_append)
  then have "lpath (cells h') f (pre @ p # el # post) NULL"
    using D el by (auto simp: h'_def lpath_append)
  moreover have "heap_ok h'" using H el p by (auto simp: h'_def heap_ok_def)
  moreover have "content h' (pre @ p # el # post) = content h (pre @ [p]) @ (key e, item e) # content h post"
    using D el p by (auto simp: h'_def content_def)
  moreover have "frame_except (insert el (set (pre @ p # post))) h h'"
    by (auto simp: h'_def frame_except_def)
  ultimately show ?thesis using D el by auto
qed


lemma SortedInsert_loop_path:
  assumes "lpath (cells h) (firstp l) (pre @ p # post) NULL" "distinct (pre @ p # post)" "heap_ok h"
    and "lastp l = last (p # post)" and "cells h el = Some e" "el \<notin> set (pre @ p # post)" "el \<noteq> NULL"
    and "nextp e = NULL" and "\<forall>y \<in> set (content h (pre @ [p])). fst y \<le> key e"
  shows "\<exists>h' l' as'. SortedInsert_loop (key e) el h l p = Some (Inr (h', l')) \<and> list_at (h', l') as'
     \<and> content h' as' = sorted_ins (key e) (item e) (content h (pre @ p # post))
     \<and> frame_except (insert el (set (pre @ p # post))) h h'"
  using assms
proof (induction post arbitrary: p pre)
  case Nil
  from Nil.prems(1) obtain ep where ep: "cells h p = Some ep" "nextp ep = NULL" "p \<noteq> NULL"
    by (auto simp: lpath_snoc)
  let ?h' = "h\<lparr>cells := (cells h)(el \<mapsto> e\<lparr>nextp := nextp ep\<rparr>, p \<mapsto> ep\<lparr>nextp := el\<rparr>)\<rparr>"
  have eeq: "e\<lparr>nextp := NULL\<rparr> = e" using Nil.prems(8) by simp
  have "SortedInsert_loop (key e) el h l p = Some (Inr (?h', l\<lparr>lastp := el\<rparr>))"
    using ep Nil.prems(4,5,6) eeq by (subst SortedInsert_loop.simps) (simp add: set_nextp_def map_upd_triv)
  moreover have "list_at (?h', l\<lparr>lastp := el\<rparr>) (pre @ [p, el])"
    using link_after [OF Nil.prems(1-3,5-7) ep(1)] by (simp add: list_at_def)
  moreover have "content ?h' (pre @ [p, el]) = sorted_ins (key e) (item e) (content h (pre @ [p]))"
    using link_after [OF Nil.prems(1-3,5-7) ep(1)] sorted_ins_split [OF Nil.prems(9), of "[]" "item e"] by simp
  ultimately show ?case using link_after [OF Nil.prems(1-3,5-7) ep(1)] by blast
next
  case (Cons b bs)
  from Cons.prems(1) obtain ep eb where ep: "cells h p = Some ep" "nextp ep = b" "p \<noteq> NULL"
      and eb: "cells h b = Some eb" "b \<noteq> NULL"
    by (auto simp: lpath_append split: option.splits)
  show ?case
  proof (cases "key e < key eb")
    case True
    note lk = link_after [OF Cons.prems(1-3,5-7) ep(1)]
    let ?h' = "h\<lparr>cells := (cells h)(el \<mapsto> e\<lparr>nextp := nextp ep\<rparr>, p \<mapsto> ep\<lparr>nextp := el\<rparr>)\<rparr>"
    have "p \<noteq> el" using Cons.prems(6) by auto
    then have "SortedInsert_loop (key e) el h l p = Some (Inr (?h', l))"
      using ep eb True Cons.prems(5) by (subst SortedInsert_loop.simps) (simp add: set_nextp_def)
    moreover have "list_at (?h', l) (pre @ p # el # b # bs)"
      using lk Cons.prems(4) by (simp add: list_at_def)
    moreover have "content ?h' (pre @ p # el # b # bs)
        = sorted_ins (key e) (item e) (content h (pre @ p # b # bs))"
      using lk sorted_ins_split [OF Cons.prems(9), of "content h (b # bs)" "item e"] True eb by simp
    ultimately show ?thesis using lk by blast
  next
    case False
    then have "\<forall>y \<in> set (content h ((pre @ [p]) @ [b])). fst y \<le> key e"
      using Cons.prems(9) eb by auto
    then obtain h' l' as' where "SortedInsert_loop (key e) el h l b = Some (Inr (h', l'))" "list_at (h', l') as'"
        "content h' as' = sorted_ins (key e) (item e) (content h ((pre @ [p]) @ b # bs))"
        "frame_except (insert el (set ((pre @ [p]) @ b # bs))) h h'"
      using Cons.IH [of "pre @ [p]" b] Cons.prems by auto
    moreover have "SortedInsert_loop (key e) el h l p = SortedInsert_loop (key e) el h l b"
      using ep eb False by (subst SortedInsert_loop.simps) simp
    ultimately show ?thesis by (intro exI [of _ h'] exI [of _ l'] exI [of _ as']) simp
  qed
qed

lemma SortedInsert_at:
  assumes "list_at (h, l) as"
  shows "\<exists>h' l' as'. SortedInsert it k (h, l) = Some (Inr (h', l')) \<and> list_at (h', l') as'
     \<and> content h' as' = sorted_ins k it (content h as) \<and> frame_except (set as) h h'"
proof -
  from assms have P: "lpath (cells h) (firstp l) as NULL" and H: "heap_ok h" and D: "distinct as"
    by (auto simp: list_at_def)
  have fresh: "brk h \<notin> set as" "brk h \<noteq> NULL"
    using list_at_fresh [OF H P] H by (auto simp: heap_ok_def)
  let ?e = "\<lparr>nextp = NULL, key = k, item = it\<rparr>"
  let ?h1 = "h\<lparr>cells := (cells h)(brk h \<mapsto> ?e), brk := Suc (brk h)\<rparr>"
  have H1: "heap_ok ?h1" and C1: "content ?h1 as = content h as"
    using H fresh by (auto simp: heap_ok_def content_def)
  have fr: "frame_except (set as) h h'" if "frame_except (insert (brk h) (set as)) ?h1 h'" for h'
    using that by (auto simp: frame_except_def)
  show ?thesis
  proof (cases as)
    case Nil
    then show ?thesis using assms H1 fresh list_at_IsEmpty [OF assms]
      by (auto simp: SortedInsert_def ListElement_new_def list_at_def frame_except_def heap_ok_def
          intro!: exI [of _ "[brk h]"])
  next
    case (Cons a bs)
    with P obtain e where e: "cells h a = Some e" "a \<noteq> NULL" "firstp l = a"
      by (auto split: option.splits)
    have ne: "\<not> IsEmpty l" "a \<noteq> brk h" using list_at_IsEmpty [OF assms] Cons fresh by auto
    show ?thesis
    proof (cases "k < key e")
      case True
      let ?h2 = "\<lparr>cells = (cells h)(brk h \<mapsto> ?e\<lparr>nextp := a\<rparr>), brk = Suc (brk h)\<rparr>"
      have "SortedInsert it k (h, l) = Some (Inr (?h2, l\<lparr>firstp := brk h\<rparr>))"
        using ne e True by (simp add: SortedInsert_def list_ops)
      moreover have "list_at (?h2, l\<lparr>firstp := brk h\<rparr>) (brk h # as)"
        using assms P H fresh Cons e by (auto simp: list_at_def heap_ok_def)
      moreover have "content ?h2 (brk h # as) = sorted_ins k it (content h as)"
        using fresh Cons e True by (auto simp: content_def)
      moreover have "frame_except (set as) h ?h2" by (auto simp: frame_except_def)
      ultimately show ?thesis by blast
    next
      case False
      have "SortedInsert it k (h, l) = SortedInsert_loop (key ?e) (brk h) ?h1 l a"
        using ne e False by (simp add: SortedInsert_def ListElement_new_def)
      moreover have "\<exists>h' l' as'. SortedInsert_loop (key ?e) (brk h) ?h1 l a = Some (Inr (h', l'))
         \<and> list_at (h', l') as' \<and> content h' as' = sorted_ins (key ?e) (item ?e) (content ?h1 ([] @ a # bs))
         \<and> frame_except (insert (brk h) (set ([] @ a # bs))) ?h1 h'"
        by (rule SortedInsert_loop_path)
           (use assms P D H1 fresh Cons e False ne in \<open>auto simp: list_at_def\<close>)
      ultimately show ?thesis using C1 Cons fr by auto
    qed
  qed
qed


section \<open>The contract of the class\<close>

fun append_all :: "(addr \<Rightarrow> 's \<Rightarrow> 's res) \<Rightarrow> addr list \<Rightarrow> 's \<Rightarrow> 's res" where
  "append_all app [] s = Inr s"
| "append_all app (x # xs) s = rbind (app x s) (append_all app xs)"

fun remove_n :: "('s \<Rightarrow> (addr \<times> 's) res) \<Rightarrow> nat \<Rightarrow> 's \<Rightarrow> (addr list \<times> 's) res" where
  "remove_n rem 0 s = Inr ([], s)"
| "remove_n rem (Suc n) s =
     rbind (rem s) (\<lambda>(x, s1). rbind (remove_n rem n s1) (\<lambda>(xs, s2). Inr (x # xs, s2)))"

fun insert_all :: "(addr \<Rightarrow> int \<Rightarrow> 's \<Rightarrow> 's res option) \<Rightarrow> (int \<times> addr) list \<Rightarrow> 's \<Rightarrow> 's res option" where
  "insert_all ins [] s = Some (Inr s)"
| "insert_all ins (y # ys) s = (case ins (snd y) (fst y) s of
      None \<Rightarrow> None
    | Some (Inl err) \<Rightarrow> Some (Inl err)
    | Some (Inr s') \<Rightarrow> insert_all ins ys s')"

locale list_queue =
  fixes repr :: "'s \<Rightarrow> (int \<times> addr) list \<Rightarrow> bool"
    and app :: "addr \<Rightarrow> 's \<Rightarrow> 's res"
    and rem :: "'s \<Rightarrow> (addr \<times> 's) res"
  assumes app_law: "repr s xs \<Longrightarrow> \<exists>s'. app x s = Inr s' \<and> repr s' (xs @ [(0, x)])"
    and rem_Nil: "repr s [] \<Longrightarrow> rem s = Inr (NULL, s)"
    and rem_Cons: "repr s (y # ys) \<Longrightarrow> \<exists>s'. rem s = Inr (snd y, s') \<and> repr s' ys"
begin

lemma append_all_repr:
  "repr s xs \<Longrightarrow> \<exists>s'. append_all app ys s = Inr s' \<and> repr s' (xs @ map (Pair 0) ys)"
proof (induction ys arbitrary: s xs)
  case Nil
  then show ?case by simp
next
  case (Cons y ys)
  from app_law [OF Cons.prems, of y] obtain s1 where "app y s = Inr s1" "repr s1 (xs @ [(0, y)])"
    by blast
  then show ?case using Cons.IH [of s1 "xs @ [(0, y)]"] by simp
qed

lemma remove_n_repr:
  "repr s (xs @ zs) \<Longrightarrow> n = length xs \<Longrightarrow> \<exists>s'. remove_n rem n s = Inr (map snd xs, s') \<and> repr s' zs"
proof (induction xs arbitrary: s n)
  case Nil
  then show ?case by simp
next
  case (Cons x xs)
  from Cons.prems(1) obtain s1 where "rem s = Inr (snd x, s1)" "repr s1 (xs @ zs)"
    using rem_Cons [of s x "xs @ zs"] by auto
  moreover from this obtain s2 where "remove_n rem (length xs) s1 = Inr (map snd xs, s2)" "repr s2 zs"
    using Cons.IH by blast
  ultimately show ?case using Cons.prems(2) by simp
qed

lemma fifo:
  assumes "repr s xs"
  shows "\<exists>s'. rbind (append_all app ys s) (remove_n rem (length xs + length ys)) = Inr (map snd xs @ ys, s')
     \<and> repr s' []"
proof -
  obtain s1 where "append_all app ys s = Inr s1" "repr s1 (xs @ map (Pair 0) ys)"
    using append_all_repr [OF assms] by blast
  then show ?thesis
    using remove_n_repr [of s1 "xs @ map (Pair 0) ys" "[]" "length xs + length ys"]
    by (auto simp: comp_def)
qed

end

locale sorted_queue = list_queue +
  fixes ins :: "addr \<Rightarrow> int \<Rightarrow> 's \<Rightarrow> 's res option"
  assumes ins_law: "repr s xs \<Longrightarrow> \<exists>s'. ins x k s = Some (Inr s') \<and> repr s' (sorted_ins k x xs)"
begin

lemma insert_all_repr:
  "repr s xs \<Longrightarrow> sorted (map fst xs) \<Longrightarrow>
   \<exists>s' zs. insert_all ins ys s = Some (Inr s') \<and> repr s' zs \<and> sorted (map fst zs) \<and> mset zs = mset xs + mset ys"
proof (induction ys arbitrary: s xs)
  case Nil
  then show ?case by auto
next
  case (Cons y ys)
  from ins_law [OF Cons.prems(1)] obtain s1
    where s1: "ins (snd y) (fst y) s = Some (Inr s1)" "repr s1 (sorted_ins (fst y) (snd y) xs)" by blast
  show ?case
    using Cons.IH [OF s1(2) sorted_sorted_ins [OF Cons.prems(2)]] s1(1) by simp
qed

lemma priority_order:
  assumes "repr s []"
  shows "\<exists>s' s'' zs. insert_all ins ys s = Some (Inr s') \<and> remove_n rem (length ys) s' = Inr (map snd zs, s'')
     \<and> sorted (map fst zs) \<and> mset zs = mset ys \<and> repr s'' []"
proof -
  obtain s' zs where s': "insert_all ins ys s = Some (Inr s')" "repr s' zs" "sorted (map fst zs)" "mset zs = mset ys"
    using insert_all_repr [OF assms, of ys] by auto
  moreover have "length ys = length zs" using s'(4) by (metis size_mset)
  ultimately show ?thesis using remove_n_repr [of s' zs "[]"] by auto
qed

end

lemma Append_repr: "list_repr s xs \<Longrightarrow> \<exists>s'. Append it s = Inr s' \<and> list_repr s' (xs @ [(0, it)])"
  by (cases s) (metis Append_at fst_conv list_repr_def)

lemma Remove_repr_Nil: "list_repr s [] \<Longrightarrow> Remove s = Inr (NULL, s)"
  by (cases s) (auto simp: list_repr_def Remove_def SortedRemove_at_Nil)

lemma SortedRemove_repr_Cons:
  assumes "list_repr s (y # ys)"
  shows "\<exists>s'. SortedRemove s = Inr ((snd y, Some (fst y)), s') \<and> list_repr s' ys"
proof -
  obtain h l where s: "s = (h, l)" by fastforce
  with assms obtain a as where at: "list_at (h, l) (a # as)" "content h (a # as) = y # ys"
    unfolding list_repr_def by (metis content_eq_Nil fst_conv list.exhaust list.distinct(1))
  from SortedRemove_at_Cons [OF at(1)] obtain h' l' e where
    e: "cells h a = Some e" "SortedRemove (h, l) = Inr ((item e, Some (key e)), (h', l'))"
      "list_at (h', l') as" "content h' as = content h as" by blast
  then have "list_repr (h', l') ys" using at(2) by (auto simp: list_repr_def)
  then show ?thesis using e at(2) s by auto
qed

lemma Remove_repr_Cons: "list_repr s (y # ys) \<Longrightarrow> \<exists>s'. Remove s = Inr (snd y, s') \<and> list_repr s' ys"
  by (auto simp: Remove_def dest!: SortedRemove_repr_Cons)

lemma SortedInsert_repr:
  "list_repr s xs \<Longrightarrow> \<exists>s'. SortedInsert it k s = Some (Inr s') \<and> list_repr s' (sorted_ins k it xs)"
  by (cases s) (metis SortedInsert_at fst_conv list_repr_def)

interpretation lq: sorted_queue list_repr Append Remove SortedInsert
  by unfold_locales (rule Append_repr Remove_repr_Nil Remove_repr_Cons SortedInsert_repr; assumption)+


section \<open>Properties\<close>

text \<open>A two-element list in the store, for the witnesses.\<close>

definition demo_list :: lstate where
  "demo_list =
     (\<lparr>cells = [1 \<mapsto> \<lparr>nextp = 2, key = 3, item = 7\<rparr>, 2 \<mapsto> \<lparr>nextp = NULL, key = 5, item = 9\<rparr>], brk = 3\<rparr>,
      \<lparr>firstp = 1, lastp = 2\<rparr>)"

lemma demo_list_at: "list_at demo_list [1, 2]"
  by (simp add: list_at_def demo_list_def heap_ok_def)

lemma demo_list_repr: "list_repr demo_list [(3, 7), (5, 9)]"
  unfolding list_repr_def using demo_list_at
  by (intro exI [of _ "[1, 2]"]) (simp add: demo_list_def)

lemma empty_list_repr: "list_repr (empty_heap, List_new) []"
  by (auto simp: list_repr_def intro!: exI [of _ "[]"])

text \<open>Items appended to a list come off its front in the order they were appended, after
  the items that were already there; no pointer access goes wrong, and at the end the list is
  empty again.\<close>

lemma list_fifo_order:
  assumes "list_repr s xs"
  shows "\<exists>s'. rbind (append_all Append ys s) (remove_n Remove (length xs + length ys))
       = Inr (map snd xs @ ys, s') \<and> list_repr s' []"
  using assms by (rule lq.fifo)

text \<open>Inserting any (key, item) pairs with \<open>SortedInsert\<close> into an empty list terminates, and
  removing from the front then yields exactly these items in non-decreasing order of key.\<close>

lemma list_priority_order:
  assumes "list_repr s []"
  shows "\<exists>s' s'' zs. insert_all SortedInsert ys s = Some (Inr s')
     \<and> remove_n Remove (length ys) s' = Inr (map snd zs, s'')
     \<and> sorted (map fst zs) \<and> mset zs = mset ys \<and> list_repr s'' []"
  using assms by (rule lq.priority_order)

text \<open>C23: \<open>SortedInsert\<close> puts the item before the first element with a strictly greater key (so
  behind the elements with the same key) and keeps a sorted list sorted.\<close>

theorem SortedInsert_refines:
  assumes "list_repr s xs" "sorted (map fst xs)"
  shows "\<exists>s'. SortedInsert it k s = Some (Inr s') \<and> list_repr s' (sorted_ins k it xs)
     \<and> sorted (map fst (sorted_ins k it xs))"
  using SortedInsert_repr [OF assms(1)] sorted_sorted_ins [OF assms(2)] by blast

theorem SortedInsert_refines_witness:
  "\<exists>s'. SortedInsert 8 3 demo_list = Some (Inr s') \<and> list_repr s' [(3, 7), (3, 8), (5, 9)]"
  using SortedInsert_refines [OF demo_list_repr, of 8 3] by simp

text \<open>\<open>Remove (item)\<close> unlinks the first element that holds the item, wherever it is in the list,
  and fails its assertion exactly when no element holds it.\<close>

lemma RemoveItem_refines:
  assumes "list_repr s xs"
  shows "if it \<in> snd ` set xs
    then \<exists>s' ys k zs. RemoveItem it s = Some (Inr s') \<and> xs = ys @ (k, it) # zs \<and> it \<notin> snd ` set ys
           \<and> list_repr s' (ys @ zs)
    else RemoveItem it s = Some (Inl AssertFail)"
proof -
  obtain h l where s: "s = (h, l)" by fastforce
  with assms obtain as where at: "list_at (h, l) as" "content h as = xs"
    by (auto simp: list_repr_def)
  then have P: "lpath (cells h) (firstp l) as NULL" by (simp add: list_at_def)
  show ?thesis
  proof (cases "it \<in> snd ` set xs")
    case True
    then obtain h' l' as1 a as2 where
      r: "RemoveItem it s = Some (Inr (h', l'))" "as = as1 @ a # as2" "it \<notin> snd ` set (content h as1)"
        "snd (content h [a] ! 0) = it" "list_at (h', l') (as1 @ as2)"
        "content h' (as1 @ as2) = content h (as1 @ as2)"
      using RemoveItem_loop_path [of h l "[]" as "firstp l" NULL it] at P s
      by (auto simp: RemoveItem_def)
    then have "xs = content h as1 @ (fst (content h [a] ! 0), it) # content h as2"
      using at(2) by auto
    moreover have "list_repr (h', l') (content h as1 @ content h as2)"
      using r(5,6) unfolding list_repr_def by (intro exI [of _ "as1 @ as2"]) simp
    ultimately show ?thesis using True r(1,3) by auto
  next
    case False
    then show ?thesis using RemoveItem_loop_absent [OF P] at s by (simp add: RemoveItem_def)
  qed
qed

text \<open>An operation on one list leaves another list in the same store alone: \<open>Append\<close> to the
  first keeps the cells, the pointers and the content of the second, and the two stay disjoint.\<close>

lemma list_separation:
  assumes "list_at (h, l1) as" "list_at (h, l2) bs" "set as \<inter> set bs = {}"
  shows "\<exists>h' l1' as'. Append it (h, l1) = Inr (h', l1') \<and> list_at (h', l1') as'
     \<and> content h' as' = content h as @ [(0, it)] \<and> list_at (h', l2) bs \<and> content h' bs = content h bs
     \<and> set as' \<inter> set bs = {}"
proof -
  from Append_at [OF assms(1)] obtain h' l1' where
    r: "Append it (h, l1) = Inr (h', l1')" "list_at (h', l1') (as @ [brk h])"
      "content h' (as @ [brk h]) = content h as @ [(0, it)]" "frame_except (set as) h h'" by blast
  have "heap_ok h'" using r(2) by (simp add: list_at_def)
  with list_at_frame [OF assms(2) r(4) assms(3)] have "list_at (h', l2) bs" "content h' bs = content h bs"
    by auto
  moreover have "brk h \<notin> set bs" using assms(2) by (auto simp: list_at_def dest: list_at_fresh)
  ultimately show ?thesis using r assms(3) by (intro exI [of _ h'] exI [of _ l1'] exI [of _ "as @ [brk h]"]) auto
qed

lemma Mapcar_loop_path:
  "lpath (cells h) p as NULL \<Longrightarrow>
   Mapcar_loop (\<lambda>x (g, t). (g, f x t)) p (h, t) = Some (Inr (h, fold f (map snd (content h as)) t))"
proof (induction as arbitrary: p t)
  case Nil
  then show ?case by (subst Mapcar_loop.simps) simp
next
  case (Cons a as)
  then obtain e where "p = a" "a \<noteq> NULL" "cells h a = Some e" "lpath (cells h) (nextp e) as NULL"
    by (auto split: option.splits)
  then show ?case using Cons.IH by (subst Mapcar_loop.simps) simp
qed

text \<open>C37: the walks along the list end: \<open>Length\<close> returns the number of elements, and \<open>Mapcar\<close>
  applies the function to every item once, in list order.\<close>

theorem list_walks_return:
  assumes "list_repr s xs"
  shows "Length s = Some (Inr (int (length xs)))
    \<and> Mapcar (\<lambda>x (g, t). (g, f x t)) s t = Some (Inr (fst s, fold f (map snd xs) t))"
proof -
  obtain h l where s: "s = (h, l)" by fastforce
  with assms obtain as where "list_at (h, l) as" "content h as = xs" by (auto simp: list_repr_def)
  moreover from this have "lpath (cells h) (firstp l) as NULL" by (simp add: list_at_def)
  ultimately show ?thesis
    using s by (auto simp: Length_def Mapcar_def Length_loop_path Mapcar_loop_path)
qed

theorem list_walks_return_witness:
  "Length demo_list = Some (Inr 2)
   \<and> Mapcar (\<lambda>x (g, t). (g, t @ [x])) demo_list [] = Some (Inr (fst demo_list, [7, 9]))"
  using list_walks_return [OF demo_list_repr, of "\<lambda>x t. t @ [x]" "[]"] by simp

text \<open>The destructor terminates and leaves the list empty when no item is \<open>NULL\<close>.\<close>

lemma List_delete_empties:
  assumes "list_repr s xs" "NULL \<notin> snd ` set xs"
  shows "\<exists>s'. List_delete s = Some (Inr s') \<and> list_repr s' []"
  using assms
proof (induction xs arbitrary: s)
  case Nil
  then show ?case by (subst List_delete.simps) (simp add: Remove_repr_Nil)
next
  case (Cons x xs)
  from Remove_repr_Cons [OF Cons.prems(1)] obtain s' where "Remove s = Inr (snd x, s')" "list_repr s' xs" by blast
  then show ?case using Cons.IH [of s'] Cons.prems(2) by (subst List_delete.simps) auto
qed

end
