(* ===== verification/BitMapModel.thy ===== *)
theory BitMapModel
  imports Prelude
begin

unbundle bit_operations_syntax

text \<open>
  The bit map of userprog/bitmap.h and userprog/bitmap.cc: an array of 32-bit words, each
  routine with its \<open>ASSERT\<close> and its array access. The abstract view is the set of marked
  numbers. The locale \<open>allocator\<close> is the contract on which the file headers and the file
  system rely; it is interpreted on the bit map.
\<close>

section \<open>Data and operations\<close>

record bitmap =
  numBits :: int
  numWords :: int
  wmap :: "32 word list"

abbreviation BitsInWord :: int where
  "BitsInWord \<equiv> 32"

definition Mark :: "int \<Rightarrow> bitmap \<Rightarrow> bitmap res" where
  "Mark which b =
     rbind (ASSERT (which \<ge> 0 \<and> which < numBits b)) (\<lambda>_.
     let w = nat (which sdiv BitsInWord) in
     if w < length (wmap b)
     then Inr (b\<lparr>wmap := (wmap b)[w := wmap b ! w OR push_bit (nat (which smod BitsInWord)) 1]\<rparr>)
     else Inl WildAccess)"

definition Clear :: "int \<Rightarrow> bitmap \<Rightarrow> bitmap res" where
  "Clear which b =
     rbind (ASSERT (which \<ge> 0 \<and> which < numBits b)) (\<lambda>_.
     let w = nat (which sdiv BitsInWord) in
     if w < length (wmap b)
     then Inr (b\<lparr>wmap := (wmap b)[w := wmap b ! w AND NOT (push_bit (nat (which smod BitsInWord)) 1)]\<rparr>)
     else Inl WildAccess)"

definition Test :: "int \<Rightarrow> bitmap \<Rightarrow> bool res" where
  "Test which b =
     rbind (ASSERT (which \<ge> 0 \<and> which < numBits b)) (\<lambda>_.
     let w = nat (which sdiv BitsInWord) in
     if w < length (wmap b)
     then Inr (wmap b ! w AND push_bit (nat (which smod BitsInWord)) 1 \<noteq> 0)
     else Inl WildAccess)"

text \<open>
  The constructor: \<open>new unsigned int[numWords]\<close> leaves the words uninitialised, so their
  first contents are a parameter \<open>garbage\<close>; the loop then clears bit by bit.
\<close>

fun clear_upto :: "nat \<Rightarrow> bitmap \<Rightarrow> bitmap res" where
  "clear_upto 0 b = Inr b"
| "clear_upto (Suc n) b = rbind (clear_upto n b) (Clear (int n))"

definition BitMap_new :: "(nat \<Rightarrow> 32 word) \<Rightarrow> int \<Rightarrow> bitmap res" where
  "BitMap_new garbage nitems =
     (let words = divRoundUp nitems BitsInWord in
      if words < 0 then Inl BadAlloc
      else clear_upto (nat nitems)
             \<lparr>numBits = nitems, numWords = words, wmap = map garbage [0..<nat words]\<rparr>)"

function Find_loop :: "int \<Rightarrow> bitmap \<Rightarrow> (int \<times> bitmap) res" where
  "Find_loop i b =
     (if i < numBits b then
        rbind (Test i b) (\<lambda>t.
          if \<not> t then rbind (Mark i b) (\<lambda>b'. Inr (i, b'))
          else Find_loop (i + 1) b)
      else Inr (- 1, b))"
  by pat_completeness auto
termination
  by (relation "measure (\<lambda>(i, b). nat (numBits b - i))") auto

definition Find :: "bitmap \<Rightarrow> (int \<times> bitmap) res" where
  "Find b = Find_loop 0 b"

function NumClear_loop :: "int \<Rightarrow> int \<Rightarrow> bitmap \<Rightarrow> int res" where
  "NumClear_loop i count b =
     (if i < numBits b then
        rbind (Test i b) (\<lambda>t. NumClear_loop (i + 1) (if \<not> t then count + 1 else count) b)
      else Inr count)"
  by pat_completeness auto
termination
  by (relation "measure (\<lambda>(i, c, b). nat (numBits b - i))") auto

definition NumClear :: "bitmap \<Rightarrow> int res" where
  "NumClear b = NumClear_loop 0 0 b"

text \<open>\<open>Print\<close>: the numbers it prints, in order.\<close>

function BitMap_Print_loop :: "int \<Rightarrow> bitmap \<Rightarrow> int list res" where
  "BitMap_Print_loop i b =
     (if i < numBits b then
        rbind (Test i b) (\<lambda>t. rbind (BitMap_Print_loop (i + 1) b) (\<lambda>out.
          Inr (if t then i # out else out)))
      else Inr [])"
  by pat_completeness auto
termination
  by (relation "measure (\<lambda>(i, b). nat (numBits b - i))") auto

definition BitMap_Print :: "bitmap \<Rightarrow> int list res" where
  "BitMap_Print b = BitMap_Print_loop 0 b"

declare Find_loop.simps [simp del] NumClear_loop.simps [simp del] BitMap_Print_loop.simps [simp del]

section \<open>The abstract set of marked bits\<close>

definition bm_ok :: "bitmap \<Rightarrow> bool" where
  "bm_ok b \<longleftrightarrow> 0 \<le> numBits b \<and> numWords b = divRoundUp (numBits b) BitsInWord
     \<and> length (wmap b) = nat (numWords b)"

definition marked :: "bitmap \<Rightarrow> int set" where
  "marked b = {i. 0 \<le> i \<and> i < numBits b \<and> bit (wmap b ! nat (i div 32)) (nat (i mod 32))}"

lemma word_index_less:
  assumes "bm_ok b" "0 \<le> i" "i < numBits b"
  shows "nat (i div 32) < length (wmap b)"
proof -
  have "numBits b \<le> numWords b * 32"
    using assms(1) divRoundUp_le_iff [of "numBits b" 32 "numWords b"] by (simp add: bm_ok_def)
  then have "i div 32 < numWords b" using assms(3) by linarith
  moreover have "length (wmap b) = nat (numWords b)" using assms(1) by (simp add: bm_ok_def)
  ultimately show ?thesis using assms(2) by simp
qed

lemma and_bit_neq_0: "(w :: 32 word) AND push_bit n 1 \<noteq> 0 \<longleftrightarrow> n < 32 \<and> bit w n"
proof
  assume "w AND push_bit n 1 \<noteq> 0"
  then obtain m where "bit (w AND push_bit n 1) m"
    by (metis bit_0_eq bit_eqI bot_apply bot_bool_def)
  then show "n < 32 \<and> bit w n"
    by (auto simp: bit_simps dest: bit_imp_le_length)
next
  assume "n < 32 \<and> bit w n"
  then have "bit (w AND push_bit n 1) n" by (simp add: bit_simps)
  then show "w AND push_bit n 1 \<noteq> 0" by auto
qed

lemma and_exp_neq_0: "(w :: 32 word) AND 2 ^ n \<noteq> 0 \<longleftrightarrow> n < 32 \<and> bit w n"
  using and_bit_neq_0 [of w n] by (simp add: push_bit_eq_mult)

lemma bit_or_exp: "n < 32 \<Longrightarrow> bit ((w :: 32 word) OR push_bit n 1) m \<longleftrightarrow> bit w m \<or> m = n"
  by (auto simp: bit_simps)

lemma bit_and_not_exp: "n < 32 \<Longrightarrow> m < 32 \<Longrightarrow> bit ((w :: 32 word) AND NOT (push_bit n 1)) m \<longleftrightarrow> bit w m \<and> m \<noteq> n"
  by (auto simp: bit_simps)

lemma Test_eq:
  assumes "bm_ok b" "0 \<le> i" "i < numBits b"
  shows "Test i b = Inr (i \<in> marked b)"
  using assms word_index_less [OF assms]
  by (auto simp: Test_def marked_def sdiv_nonneg smod_nonneg and_exp_neq_0 Let_def nat_less_iff)

lemma word_neq_cases:
  assumes "0 \<le> (j::int)" "0 \<le> (i::int)" "nat (i div 32) = nat (j div 32)" "nat (j mod 32) = nat (i mod 32)"
  shows "j = i"
proof -
  have "i div 32 = j div 32"
    using assms by (subst eq_nat_nat_iff [symmetric]) (simp_all add: pos_imp_zdiv_nonneg_iff)
  moreover have "i mod 32 = j mod 32"
    using assms by (subst eq_nat_nat_iff [symmetric]) simp_all
  ultimately show ?thesis by (metis div_mult_mod_eq)
qed

lemma Mark_ok:
  assumes "bm_ok b" "0 \<le> i" "i < numBits b"
  shows "\<exists>b'. Mark i b = Inr b' \<and> bm_ok b' \<and> numBits b' = numBits b \<and> marked b' = insert i (marked b)"
proof -
  let ?w = "nat (i div 32)" and ?n = "nat (i mod 32)"
  note lt = word_index_less [OF assms]
  let ?b' = "b\<lparr>wmap := (wmap b)[?w := wmap b ! ?w OR push_bit ?n 1]\<rparr>"
  have run: "Mark i b = Inr ?b'"
    using assms lt by (simp add: Mark_def sdiv_nonneg smod_nonneg Let_def)
  have n: "?n < 32" by (simp add: nat_less_iff)
  have "j \<in> marked ?b' \<longleftrightarrow> j \<in> insert i (marked b)" for j
    using assms lt n word_neq_cases [of j i]
    by (cases "0 \<le> j \<and> j < numBits b")
       (auto simp: marked_def nth_list_update_if bit_or_exp simp del: push_bit_of_1)
  then have "marked ?b' = insert i (marked b)" by blast
  moreover have "bm_ok ?b'" using assms(1) by (simp add: bm_ok_def)
  ultimately show ?thesis using run by auto
qed

lemma Clear_ok:
  assumes "bm_ok b" "0 \<le> i" "i < numBits b"
  shows "\<exists>b'. Clear i b = Inr b' \<and> bm_ok b' \<and> numBits b' = numBits b \<and> marked b' = marked b - {i}"
proof -
  let ?w = "nat (i div 32)" and ?n = "nat (i mod 32)"
  note lt = word_index_less [OF assms]
  let ?b' = "b\<lparr>wmap := (wmap b)[?w := wmap b ! ?w AND NOT (push_bit ?n 1)]\<rparr>"
  have run: "Clear i b = Inr ?b'"
    using assms lt by (simp add: Clear_def sdiv_nonneg smod_nonneg Let_def)
  have n: "?n < 32" by (simp add: nat_less_iff)
  have "j \<in> marked ?b' \<longleftrightarrow> j \<in> marked b - {i}" for j
    using assms lt n word_neq_cases [of j i]
    by (cases "0 \<le> j \<and> j < numBits b")
       (auto simp: marked_def nth_list_update_if bit_and_not_exp nat_less_iff simp del: push_bit_of_1)
  then have "marked ?b' = marked b - {i}" by blast
  moreover have "bm_ok ?b'" using assms(1) by (simp add: bm_ok_def)
  ultimately show ?thesis using run by auto
qed

lemma Mark_out_of_range:
  "\<not> (0 \<le> i \<and> i < numBits b) \<Longrightarrow> Mark i b = Inl AssertFail"
  "\<not> (0 \<le> i \<and> i < numBits b) \<Longrightarrow> Clear i b = Inl AssertFail"
  "\<not> (0 \<le> i \<and> i < numBits b) \<Longrightarrow> Test i b = Inl AssertFail"
  by (auto simp: Mark_def Clear_def Test_def ASSERT_def)


lemma marked_range: "marked b \<subseteq> {0..<numBits b}"
  by (auto simp: marked_def)

lemma finite_marked [simp]: "finite (marked b)"
  by (rule finite_subset [OF marked_range]) simp

lemma Find_loop_full:
  assumes "bm_ok b" "0 \<le> i" "{i..<numBits b} \<subseteq> marked b"
  shows "Find_loop i b = Inr (- 1, b)"
  using assms
proof (induction i b rule: Find_loop.induct)
  case (1 i b)
  show ?case
  proof (cases "i < numBits b")
    case True
    then have "i \<in> marked b" "{i + 1..<numBits b} \<subseteq> marked b" using "1.prems" by auto
    then show ?thesis using 1 True by (subst Find_loop.simps) (simp add: Test_eq)
  next
    case False
    then show ?thesis by (subst Find_loop.simps) simp
  qed
qed

lemma Find_loop_free:
  assumes "bm_ok b" "0 \<le> i" "\<not> {i..<numBits b} \<subseteq> marked b"
  shows "\<exists>k b'. Find_loop i b = Inr (k, b') \<and> i \<le> k \<and> k < numBits b \<and> k \<notin> marked b
    \<and> {i..<k} \<subseteq> marked b \<and> bm_ok b' \<and> numBits b' = numBits b \<and> marked b' = insert k (marked b)"
  using assms
proof (induction i b rule: Find_loop.induct)
  case (1 i b)
  have lt: "i < numBits b" using "1.prems"(3) by (auto simp: subset_eq)
  show ?case
  proof (cases "i \<in> marked b")
    case True
    have split: "{i..<k} \<subseteq> insert i {i + 1..<k}" for k by auto
    have "\<not> {i + 1..<numBits b} \<subseteq> marked b" using "1.prems"(3) True split [of "numBits b"] by blast
    then obtain k b' where k: "Find_loop (i + 1) b = Inr (k, b')" "i + 1 \<le> k" "k < numBits b" "k \<notin> marked b"
        "{i + 1..<k} \<subseteq> marked b" "bm_ok b'" "numBits b' = numBits b" "marked b' = insert k (marked b)"
      using "1.IH" [OF lt, of True, OF _ _ "1.prems"(1)] True "1.prems"(1,2) lt by (force simp: Test_eq)
    have "Find_loop i b = Inr (k, b')"
      using k(1) lt True "1.prems" by (subst Find_loop.simps) (simp add: Test_eq)
    then show ?thesis using k True split [of k] by (intro exI [of _ k] exI [of _ b']) auto
  next
    case False
    obtain b' where "Mark i b = Inr b'" "bm_ok b'" "numBits b' = numBits b" "marked b' = insert i (marked b)"
      using Mark_ok [OF "1.prems"(1,2) lt] by blast
    moreover from this have "Find_loop i b = Inr (i, b')"
      using lt False "1.prems" by (subst Find_loop.simps) (simp add: Test_eq)
    ultimately show ?thesis using lt False by auto
  qed
qed

lemma NumClear_loop_eq:
  assumes "bm_ok b" "0 \<le> i"
  shows "NumClear_loop i c b = Inr (c + int (card ({i..<numBits b} - marked b)))"
  using assms
proof (induction i c b rule: NumClear_loop.induct)
  case (1 i c b)
  show ?case
  proof (cases "i < numBits b")
    case True
    then have sp: "{i..<numBits b} = insert i {i + 1..<numBits b}" by auto
    have "NumClear_loop i c b
        = Inr ((if i \<in> marked b then c else c + 1) + int (card ({i + 1..<numBits b} - marked b)))"
      using "1.IH" [OF True, of "i \<in> marked b"] "1.prems" True
      by (subst NumClear_loop.simps) (simp add: Test_eq)
    also have "\<dots> = Inr (c + int (card ({i..<numBits b} - marked b)))"
      by (cases "i \<in> marked b") (simp_all add: sp insert_Diff_if)
    finally show ?thesis .
  next
    case False
    then show ?thesis by (subst NumClear_loop.simps) simp
  qed
qed

lemma NumClear_eq:
  assumes "bm_ok b"
  shows "NumClear b = Inr (numBits b - int (card (marked b)))"
proof -
  have "card ({0..<numBits b} - marked b) = card {0..<numBits b} - card (marked b)"
    by (rule card_Diff_subset) (simp_all add: marked_range)
  moreover have "card (marked b) \<le> card {0..<numBits b}"
    by (rule card_mono) (simp_all add: marked_range)
  ultimately show ?thesis
    using NumClear_loop_eq [OF assms, of 0 0] assms by (simp add: NumClear_def bm_ok_def)
qed

lemma Print_loop_eq:
  assumes "bm_ok b" "0 \<le> i"
  shows "BitMap_Print_loop i b = Inr (filter (\<lambda>j. j \<in> marked b) [i..numBits b - 1])"
  using assms
proof (induction i b rule: BitMap_Print_loop.induct)
  case (1 i b)
  show ?case
  proof (cases "i < numBits b")
    case True
    then show ?thesis
      using "1.IH" [OF True, of "i \<in> marked b"] "1.prems"
      by (subst BitMap_Print_loop.simps) (simp add: Test_eq upto_rec1)
  next
    case False
    then show ?thesis by (subst BitMap_Print_loop.simps) simp
  qed
qed

lemma clear_upto_ok:
  "bm_ok b \<Longrightarrow> int n \<le> numBits b \<Longrightarrow>
   \<exists>b'. clear_upto n b = Inr b' \<and> bm_ok b' \<and> numBits b' = numBits b \<and> marked b' = marked b - {0..<int n}"
proof (induction n)
  case 0
  then show ?case by simp
next
  case (Suc n)
  then obtain b1 where b1: "clear_upto n b = Inr b1" "bm_ok b1" "numBits b1 = numBits b"
      "marked b1 = marked b - {0..<int n}" by auto
  then obtain b' where "Clear (int n) b1 = Inr b'" "bm_ok b'" "numBits b' = numBits b1"
      "marked b' = marked b1 - {int n}"
    using Clear_ok [of b1 "int n"] Suc.prems by auto
  moreover have "{0..<int (Suc n)} = insert (int n) {0..<int n}" by auto
  ultimately show ?case using b1 by (simp add: Diff_insert2 [symmetric]) blast
qed

section \<open>The allocator contract\<close>

fun find_n :: "('s \<Rightarrow> (int \<times> 's) res) \<Rightarrow> nat \<Rightarrow> 's \<Rightarrow> (int list \<times> 's) res" where
  "find_n fnd 0 s = Inr ([], s)"
| "find_n fnd (Suc n) s =
     rbind (fnd s) (\<lambda>(k, s1). rbind (find_n fnd n s1) (\<lambda>(ks, s2). Inr (k # ks, s2)))"

locale allocator =
  fixes ok :: "'s \<Rightarrow> bool" and cap :: "'s \<Rightarrow> int" and used :: "'s \<Rightarrow> int set"
    and fnd :: "'s \<Rightarrow> (int \<times> 's) res" and numclear :: "'s \<Rightarrow> int res"
  assumes used_range: "ok s \<Longrightarrow> used s \<subseteq> {0..<cap s}"
    and cap_nonneg: "ok s \<Longrightarrow> 0 \<le> cap s"
    and find_full: "ok s \<Longrightarrow> {0..<cap s} \<subseteq> used s \<Longrightarrow> fnd s = Inr (- 1, s)"
    and find_free: "ok s \<Longrightarrow> \<not> {0..<cap s} \<subseteq> used s \<Longrightarrow>
        \<exists>k s'. fnd s = Inr (k, s') \<and> k \<in> {0..<cap s} - used s \<and> ok s' \<and> cap s' = cap s
          \<and> used s' = insert k (used s)"
    and numclear_law: "ok s \<Longrightarrow> numclear s = Inr (cap s - int (card (used s)))"
begin

lemma find_n_fresh:
  assumes "ok s" "numclear s = Inr c" "int n \<le> c"
  shows "\<exists>ks s'. find_n fnd n s = Inr (ks, s') \<and> length ks = n \<and> distinct ks
     \<and> set ks \<subseteq> {0..<cap s} - used s \<and> used s' = used s \<union> set ks \<and> ok s' \<and> cap s' = cap s"
  using assms
proof (induction n arbitrary: s c)
  case 0
  then show ?case by auto
next
  case (Suc n)
  have fin: "finite (used s)" using used_range [OF Suc.prems(1)] finite_subset by blast
  have c: "c = cap s - int (card (used s))" using numclear_law [OF Suc.prems(1)] Suc.prems(2) by simp
  have "\<not> {0..<cap s} \<subseteq> used s"
  proof
    assume "{0..<cap s} \<subseteq> used s"
    then have "card {0..<cap s} \<le> card (used s)" by (rule card_mono [OF fin])
    then show False using c Suc.prems(3) cap_nonneg [OF Suc.prems(1)] by simp
  qed
  then obtain k s1 where k: "fnd s = Inr (k, s1)" "k \<in> {0..<cap s} - used s" "ok s1" "cap s1 = cap s"
      "used s1 = insert k (used s)" using find_free [OF Suc.prems(1)] by blast
  have "numclear s1 = Inr (c - 1)"
    using numclear_law [OF k(3)] k c fin by simp
  then obtain ks s' where "find_n fnd n s1 = Inr (ks, s')" "length ks = n" "distinct ks"
      "set ks \<subseteq> {0..<cap s1} - used s1" "used s' = used s1 \<union> set ks" "ok s'" "cap s' = cap s1"
    using Suc.IH [OF k(3), of "c - 1"] Suc.prems(3) by auto
  then show ?case using k by auto
qed

end

interpretation bm: allocator bm_ok numBits marked Find NumClear
proof unfold_locales
  fix b
  assume ok: "bm_ok b"
  show "marked b \<subseteq> {0..<numBits b}" by (rule marked_range)
  show "0 \<le> numBits b" using ok by (simp add: bm_ok_def)
  show "NumClear b = Inr (numBits b - int (card (marked b)))" using ok by (rule NumClear_eq)
  show "Find b = Inr (- 1, b)" if "{0..<numBits b} \<subseteq> marked b"
    using Find_loop_full [OF ok _ that] by (simp add: Find_def)
  show "\<exists>k b'. Find b = Inr (k, b') \<and> k \<in> {0..<numBits b} - marked b \<and> bm_ok b' \<and> numBits b' = numBits b
       \<and> marked b' = insert k (marked b)" if "\<not> {0..<numBits b} \<subseteq> marked b"
    using Find_loop_free [OF ok _ that] by (auto simp: Find_def)
qed


section \<open>Properties\<close>

definition small_map :: bitmap where
  "small_map = \<lparr>numBits = 4, numWords = 1, wmap = [5]\<rparr>"

definition demo_map :: bitmap where
  "demo_map = \<lparr>numBits = 40, numWords = 2, wmap = [5, 0]\<rparr>"

lemma demo_map_ok: "bm_ok demo_map"
  by (simp add: bm_ok_def demo_map_def divRoundUp_def sdiv_nonneg smod_nonneg)

text \<open>On a well-formed bit map and a number in range, \<open>Mark\<close>, \<open>Clear\<close> and \<open>Test\<close> never leave the
  word array, add, remove and test exactly that number, and keep the map well formed; out of
  range each of them fails its assertion.\<close>

lemma bitmap_set_operations:
  assumes "bm_ok b"
  shows "if 0 \<le> i \<and> i < numBits b
    then Test i b = Inr (i \<in> marked b)
      \<and> (\<exists>b'. Mark i b = Inr b' \<and> bm_ok b' \<and> numBits b' = numBits b \<and> marked b' = insert i (marked b))
      \<and> (\<exists>b'. Clear i b = Inr b' \<and> bm_ok b' \<and> numBits b' = numBits b \<and> marked b' = marked b - {i})
    else Test i b = Inl AssertFail \<and> Mark i b = Inl AssertFail \<and> Clear i b = Inl AssertFail"
  using Test_eq [OF assms] Mark_ok [OF assms] Clear_ok [OF assms] Mark_out_of_range by (auto simp del: not_le)

text \<open>\<open>Find\<close> returns the least clear number and marks it and nothing else; it returns -1 and
  changes nothing exactly when every number is marked.\<close>

lemma Find_least_clear:
  assumes "bm_ok b"
  shows "if {0..<numBits b} \<subseteq> marked b then Find b = Inr (- 1, b)
    else \<exists>k b'. Find b = Inr (k, b') \<and> 0 \<le> k \<and> k < numBits b \<and> k \<notin> marked b \<and> {0..<k} \<subseteq> marked b
       \<and> bm_ok b' \<and> numBits b' = numBits b \<and> marked b' = insert k (marked b)"
  using Find_loop_full [OF assms, of 0] Find_loop_free [OF assms, of 0] by (auto simp: Find_def)

text \<open>\<open>NumClear\<close> is the number of clear bits, and that many calls of \<open>Find\<close> succeed, each
  with a different number that was clear: allocation never hands out a sector twice.\<close>

lemma NumClear_allocations:
  assumes "bm_ok b" "NumClear b = Inr c" "int n \<le> c"
  shows "c = int (card ({0..<numBits b} - marked b))
     \<and> (\<exists>ks b'. find_n Find n b = Inr (ks, b') \<and> length ks = n \<and> distinct ks
          \<and> set ks \<subseteq> {0..<numBits b} - marked b \<and> marked b' = marked b \<union> set ks \<and> bm_ok b')"
proof -
  have "c = int (card ({0..<numBits b} - marked b))"
    using NumClear_loop_eq [OF assms(1), of 0 0] assms(2) by (simp add: NumClear_def)
  then show ?thesis using bm.find_n_fresh [OF assms] by blast
qed

text \<open>Whatever the uninitialised words hold, the constructor yields a well-formed map with
  every number clear.\<close>

lemma BitMap_new_all_clear:
  assumes "0 \<le> n"
  shows "\<exists>b. BitMap_new garbage n = Inr b \<and> bm_ok b \<and> numBits b = n \<and> marked b = {} \<and> BitMap_Print b = Inr []"
proof -
  let ?b = "\<lparr>numBits = n, numWords = divRoundUp n 32, wmap = map garbage [0..<nat (divRoundUp n 32)]\<rparr>"
  have "bm_ok ?b" using assms by (simp add: bm_ok_def)
  then obtain b where b: "clear_upto (nat n) ?b = Inr b" "bm_ok b" "numBits b = n" "marked b = marked ?b - {0..<n}"
    using clear_upto_ok [of ?b "nat n"] assms by auto
  have "marked b = {}" using b(4) marked_range [of ?b] by auto
  moreover have "BitMap_Print b = Inr []"
    using Print_loop_eq [OF b(2), of 0] calculation by (simp add: BitMap_Print_def)
  moreover have "BitMap_new garbage n = Inr b"
    using b(1) divRoundUp_nonneg [OF assms, of 32] by (simp add: BitMap_new_def Let_def)
  ultimately show ?thesis using b by blast
qed

end
