(* ===== verification/MachineModel.thy ===== *)
theory MachineModel
  imports Prelude
begin

unbundle bit_operations_syntax

text \<open>
  The simulated workstation as user programs see it (machine/machine.h, machine/machine.cc,
  machine/translate.h, machine/translate.cc): registers, physical memory, page table or TLB,
  address translation, and the memory accesses of the processor.

  Registers and addresses are 32-bit words. The kernel's exception handler, which
  \<open>RaiseException\<close> calls, is an argument \<open>H\<close>; theory UserProgModel instantiates it with the
  handler of userprog/exception.cc. The byte order of the host (\<open>HOST_IS_BIG_ENDIAN\<close>) is the
  argument \<open>be\<close>.
\<close>

section \<open>Data\<close>

abbreviation (input) "PageSize \<equiv> (128 :: nat)"
abbreviation (input) "NumPhysPages \<equiv> (64 :: nat)"
abbreviation (input) "MemorySize \<equiv> (8192 :: nat)"
abbreviation (input) "TLBSize \<equiv> (4 :: nat)"

abbreviation (input) "StackReg \<equiv> (29 :: nat)"
abbreviation (input) "RetAddrReg \<equiv> (31 :: nat)"
abbreviation (input) "HiReg \<equiv> (32 :: nat)"
abbreviation (input) "LoReg \<equiv> (33 :: nat)"
abbreviation (input) "PCReg \<equiv> (34 :: nat)"
abbreviation (input) "NextPCReg \<equiv> (35 :: nat)"
abbreviation (input) "PrevPCReg \<equiv> (36 :: nat)"
abbreviation (input) "LoadReg \<equiv> (37 :: nat)"
abbreviation (input) "LoadValueReg \<equiv> (38 :: nat)"
abbreviation (input) "BadVAddrReg \<equiv> (39 :: nat)"
abbreviation (input) "NumTotalRegs \<equiv> (40 :: nat)"

datatype ExceptionType =
    NoException | SyscallException | PageFaultException | ReadOnlyException
  | BusErrorException | AddressErrorException | OverflowException | IllegalInstrException

datatype MachineStatus = IdleMode | SystemMode | UserMode

record TranslationEntry =
  virtualPage :: "32 word"
  physicalPage :: "32 word"
  valid :: bool
  readOnly :: bool
  usebit :: bool
  dirty :: bool

text \<open>
  \<open>mainMemory\<close> and \<open>registers\<close> are total functions; every access is guarded by the bound of
  the C array. \<open>mstatus\<close> is the mode kept by the interrupt simulation, which
  \<open>RaiseException\<close> saves and restores.
\<close>

record machine =
  mainMemory :: "nat \<Rightarrow> 8 word"
  registers :: "nat \<Rightarrow> 32 word"
  tlb :: "TranslationEntry list option"
  currentPageTable :: "TranslationEntry list option"
  currentPageTableSize :: "32 word"
  singleStep :: bool
  runUntilTime :: int
  mstatus :: MachineStatus

type_synonym exc_handler = "ExceptionType \<Rightarrow> machine \<Rightarrow> machine res"

definition Machine_new :: "bool \<Rightarrow> bool \<Rightarrow> MachineStatus \<Rightarrow> machine" where
  "Machine_new USE_TLB debug st =
     \<lparr>mainMemory = (\<lambda>_. 0), registers = (\<lambda>_. 0),
      tlb = (if USE_TLB then Some (replicate TLBSize
               \<lparr>virtualPage = 0, physicalPage = 0, valid = False, readOnly = False, usebit = False, dirty = False\<rparr>)
             else None),
      currentPageTable = None, currentPageTableSize = 0,
      singleStep = debug, runUntilTime = 0, mstatus = st\<rparr>"

definition ReadRegister :: "int \<Rightarrow> machine \<Rightarrow> (32 word) res" where
  "ReadRegister num m =
     rbind (ASSERT (num \<ge> 0 \<and> num < int NumTotalRegs)) (\<lambda>_. Inr (registers m (nat num)))"

definition setReg :: "nat \<Rightarrow> 32 word \<Rightarrow> machine \<Rightarrow> machine" where
  "setReg r v m = m\<lparr>registers := (registers m)(r := v)\<rparr>"

definition WriteRegister :: "int \<Rightarrow> 32 word \<Rightarrow> machine \<Rightarrow> machine res" where
  "WriteRegister num v m =
     rbind (ASSERT (num \<ge> 0 \<and> num < int NumTotalRegs)) (\<lambda>_. Inr (setReg (nat num) v m))"

text \<open>\<open>DelayedLoad\<close> indexes the register file by the contents of \<open>LoadReg\<close>.\<close>

definition DelayedLoad :: "32 word \<Rightarrow> 32 word \<Rightarrow> machine \<Rightarrow> machine res" where
  "DelayedLoad nextReg nextValue m =
     (let r = registers m LoadReg in
      if unat r < NumTotalRegs
      then Inr (setReg 0 0 (setReg LoadValueReg nextValue (setReg LoadReg nextReg
                 (setReg (unat r) (registers m LoadValueReg) m))))
      else Inl WildAccess)"

definition RaiseException :: "exc_handler \<Rightarrow> ExceptionType \<Rightarrow> 32 word \<Rightarrow> machine \<Rightarrow> machine res" where
  "RaiseException H which badVAddr m =
     (let oldStatus = mstatus m in
      rbind (DelayedLoad 0 0 (setReg BadVAddrReg badVAddr m)) (\<lambda>m1.
      rbind (H which (m1\<lparr>mstatus := SystemMode\<rparr>)) (\<lambda>m2.
      Inr (m2\<lparr>mstatus := oldStatus\<rparr>))))"

section \<open>Byte order\<close>

definition WordToHost :: "bool \<Rightarrow> 32 word \<Rightarrow> 32 word" where
  "WordToHost be word =
     (if be then (drop_bit 24 word AND 0x000000ff) OR (drop_bit 8 word AND 0x0000ff00)
               OR (push_bit 8 word AND 0x00ff0000) OR (push_bit 24 word AND 0xff000000)
      else word)"

definition ShortToHost :: "bool \<Rightarrow> 16 word \<Rightarrow> 16 word" where
  "ShortToHost be shortword =
     (if be then (push_bit 8 shortword AND 0xff00) OR (drop_bit 8 shortword AND 0x00ff)
      else shortword)"

definition WordToMachine :: "bool \<Rightarrow> 32 word \<Rightarrow> 32 word" where
  "WordToMachine be word = WordToHost be word"

definition ShortToMachine :: "bool \<Rightarrow> 16 word \<Rightarrow> 16 word" where
  "ShortToMachine be shortword = ShortToHost be shortword"

text \<open>A host load or store of 2 or 4 bytes: in the byte order of the host.\<close>

definition host_load16 :: "bool \<Rightarrow> (nat \<Rightarrow> 8 word) \<Rightarrow> nat \<Rightarrow> 16 word" where
  "host_load16 be mem p =
     (if be then push_bit 8 (ucast (mem p)) OR ucast (mem (p + 1))
      else ucast (mem p) OR push_bit 8 (ucast (mem (p + 1))))"

definition host_load32 :: "bool \<Rightarrow> (nat \<Rightarrow> 8 word) \<Rightarrow> nat \<Rightarrow> 32 word" where
  "host_load32 be mem p =
     (if be then push_bit 24 (ucast (mem p)) OR push_bit 16 (ucast (mem (p + 1)))
               OR push_bit 8 (ucast (mem (p + 2))) OR ucast (mem (p + 3))
      else ucast (mem p) OR push_bit 8 (ucast (mem (p + 1)))
               OR push_bit 16 (ucast (mem (p + 2))) OR push_bit 24 (ucast (mem (p + 3))))"

definition host_store16 :: "bool \<Rightarrow> nat \<Rightarrow> 16 word \<Rightarrow> (nat \<Rightarrow> 8 word) \<Rightarrow> (nat \<Rightarrow> 8 word)" where
  "host_store16 be p w mem =
     (if be then mem(p := ucast (drop_bit 8 w), p + 1 := ucast w)
      else mem(p := ucast w, p + 1 := ucast (drop_bit 8 w)))"

definition host_store32 :: "bool \<Rightarrow> nat \<Rightarrow> 32 word \<Rightarrow> (nat \<Rightarrow> 8 word) \<Rightarrow> (nat \<Rightarrow> 8 word)" where
  "host_store32 be p w mem =
     (if be then mem(p := ucast (drop_bit 24 w), p + 1 := ucast (drop_bit 16 w),
                     p + 2 := ucast (drop_bit 8 w), p + 3 := ucast w)
      else mem(p := ucast w, p + 1 := ucast (drop_bit 8 w),
               p + 2 := ucast (drop_bit 16 w), p + 3 := ucast (drop_bit 24 w)))"

section \<open>Address translation\<close>

text \<open>
  Where an entry lives: in the page table or in the TLB. The loop over the TLB looks at its
  \<open>TLBSize\<close> entries in order.
\<close>

datatype entry_loc = InTable nat | InTLB nat

fun tlb_find :: "TranslationEntry list \<Rightarrow> 32 word \<Rightarrow> nat \<Rightarrow> nat option" where
  "tlb_find [] vpn i = None"
| "tlb_find (e # es) vpn i =
     (if valid e \<and> virtualPage e = vpn then Some i else tlb_find es vpn (Suc i))"

definition lookup_entry :: "32 word \<Rightarrow> machine \<Rightarrow> (ExceptionType + entry_loc \<times> TranslationEntry) res" where
  "lookup_entry vpn m = (case tlb m of
      None \<Rightarrow> (case currentPageTable m of
          None \<Rightarrow> Inl WildAccess
        | Some pt \<Rightarrow>
            if vpn \<ge> currentPageTableSize m then Inr (Inl AddressErrorException)
            else if \<not> unat vpn < length pt then Inl WildAccess
            else if \<not> valid (pt ! unat vpn) then Inr (Inl PageFaultException)
            else Inr (Inr (InTable (unat vpn), pt ! unat vpn)))
    | Some es \<Rightarrow> (case tlb_find es vpn 0 of
          None \<Rightarrow> Inr (Inl PageFaultException)
        | Some i \<Rightarrow> Inr (Inr (InTLB i, es ! i))))"

definition update_entry :: "entry_loc \<Rightarrow> TranslationEntry \<Rightarrow> machine \<Rightarrow> machine" where
  "update_entry loc e m = (case loc of
      InTable i \<Rightarrow> m\<lparr>currentPageTable := map_option (\<lambda>pt. pt[i := e]) (currentPageTable m)\<rparr>
    | InTLB i \<Rightarrow> m\<lparr>tlb := map_option (\<lambda>es. es[i := e]) (tlb m)\<rparr>)"

text \<open>
  \<open>Translate\<close>: either the exception to raise, or the physical address with the use and dirty
  bits of the entry set.
\<close>

definition Translate :: "32 word \<Rightarrow> nat \<Rightarrow> bool \<Rightarrow> machine \<Rightarrow> (ExceptionType + 32 word \<times> machine) res" where
  "Translate virtAddr sz writing m =
     (if (sz = 4 \<and> virtAddr AND 3 \<noteq> 0) \<or> (sz = 2 \<and> virtAddr AND 1 \<noteq> 0)
      then Inr (Inl AddressErrorException)
      else
        rbind (ASSERT (tlb m = None \<or> currentPageTable m = None)) (\<lambda>_.
        rbind (ASSERT (tlb m \<noteq> None \<or> currentPageTable m \<noteq> None)) (\<lambda>_.
        let vpn = virtAddr div 128; offset = virtAddr mod 128 in
        rbind (lookup_entry vpn m) (\<lambda>found. case found of
            Inl e \<Rightarrow> Inr (Inl e)
          | Inr (loc, entry) \<Rightarrow>
              if readOnly entry \<and> writing then Inr (Inl ReadOnlyException)
              else let pageFrame = physicalPage entry in
                if pageFrame \<ge> 64 then Inr (Inl BusErrorException)
                else let entry' = entry\<lparr>usebit := True, dirty := (writing \<or> dirty entry)\<rparr>;
                         physAddr = pageFrame * 128 + offset in
                  rbind (ASSERT (sint physAddr \<ge> 0 \<and> sint physAddr + int sz \<le> int MemorySize)) (\<lambda>_.
                  Inr (Inr (physAddr, update_entry loc entry' m)))))))"

section \<open>Memory accesses\<close>

text \<open>\<open>ReadMem\<close>: \<open>None\<close> when it returns \<open>FALSE\<close>, after the exception was raised.\<close>

definition ReadMem :: "bool \<Rightarrow> exc_handler \<Rightarrow> 32 word \<Rightarrow> nat \<Rightarrow> machine \<Rightarrow> ((32 word) option \<times> machine) res" where
  "ReadMem be H addr sz m =
     rbind (Translate addr sz False m) (\<lambda>t. case t of
         Inl exception \<Rightarrow> rbind (RaiseException H exception addr m) (\<lambda>m'. Inr (None, m'))
       | Inr (pa, m') \<Rightarrow>
           let p = unat pa in
           if sz = 1 then Inr (Some (scast (mainMemory m' p)), m')
           else if sz = 2 then Inr (Some (ucast (ShortToHost be (host_load16 be (mainMemory m') p))), m')
           else if sz = 4 then Inr (Some (WordToHost be (host_load32 be (mainMemory m') p)), m')
           else Inl AssertFail)"

definition WriteMem :: "bool \<Rightarrow> exc_handler \<Rightarrow> 32 word \<Rightarrow> nat \<Rightarrow> 32 word \<Rightarrow> machine \<Rightarrow> (bool \<times> machine) res" where
  "WriteMem be H addr sz value m =
     rbind (Translate addr sz True m) (\<lambda>t. case t of
         Inl exception \<Rightarrow> rbind (RaiseException H exception addr m) (\<lambda>m'. Inr (False, m'))
       | Inr (pa, m') \<Rightarrow>
           let p = unat pa in
           if sz = 1 then Inr (True, m'\<lparr>mainMemory := (mainMemory m')(p := ucast (value AND 0xff))\<rparr>)
           else if sz = 2 then
             Inr (True, m'\<lparr>mainMemory := host_store16 be p (ShortToMachine be (ucast (value AND 0xffff))) (mainMemory m')\<rparr>)
           else if sz = 4 then
             Inr (True, m'\<lparr>mainMemory := host_store32 be p (WordToMachine be value) (mainMemory m')\<rparr>)
           else Inl AssertFail)"


section \<open>Translation stays inside physical memory\<close>

text \<open>The kernel's side of the contract: one translation mechanism, of the announced size.\<close>

definition mmu_ok :: "machine \<Rightarrow> bool" where
  "mmu_ok m \<longleftrightarrow> (case tlb m of
      None \<Rightarrow> (case currentPageTable m of None \<Rightarrow> False
                | Some pt \<Rightarrow> unat (currentPageTableSize m) \<le> length pt)
    | Some es \<Rightarrow> currentPageTable m = None)"

definition access_size :: "nat \<Rightarrow> bool" where
  "access_size sz \<longleftrightarrow> sz = 1 \<or> sz = 2 \<or> sz = 4"

lemma and_3_mod: "(v :: 32 word) AND 3 = v mod 4"
  using take_bit_eq_mask [of 2 v] by (simp add: take_bit_eq_mod mask_eq_exp_minus_1)

lemma and_1_mod: "(v :: 32 word) AND 1 = v mod 2"
  using take_bit_eq_mask [of 1 v] by (simp add: take_bit_eq_mod mask_eq_exp_minus_1)

lemma unat_and_3: "unat ((v :: 32 word) AND 3) = unat v mod 4"
  unfolding and_3_mod by (simp add: unat_mod)

lemma unat_and_1: "unat ((v :: 32 word) AND 1) = unat v mod 2"
  unfolding and_1_mod by (simp add: unat_mod)

lemma unat_mod_128: "unat ((v :: 32 word) mod 128) = unat v mod 128"
  by (simp add: unat_mod)

lemma unat_frame_addr:
  assumes "(f :: 32 word) < 64"
  shows "unat (f * 128 + v mod 128) = unat f * 128 + unat v mod 128"
proof -
  have "unat f < 64" using assms by (simp add: word_less_nat_alt)
  moreover have "unat v mod 128 < 128" by simp
  ultimately have "unat f * 128 + unat v mod 128 < 64 * 128 + 128" by linarith
  then have b: "unat f * 128 + unat v mod 128 < 2 ^ 32" by simp
  have "unat (f * 128 + v mod 128) = (unat f * 128 + unat v mod 128) mod 2 ^ 32"
    by (simp add: unat_word_ariths unat_mod_128 mod_simps)
  then show ?thesis using b by simp
qed

lemma aligned_room:
  assumes "(r :: nat) < 128" "sz = 1 \<or> sz = 2 \<and> r mod 2 = 0 \<or> sz = 4 \<and> r mod 4 = 0"
  shows "r + sz \<le> 128"
proof -
  have "r mod 2 = 0 \<Longrightarrow> r \<noteq> 127" by auto
  moreover have "r mod 4 = 0 \<Longrightarrow> r \<noteq> 127 \<and> r \<noteq> 126 \<and> r \<noteq> 125" by auto
  ultimately show ?thesis using assms by linarith
qed

lemma frame_addr_bound:
  assumes "(f :: 32 word) < 64" "access_size sz"
    "\<not> ((sz = 4 \<and> (v :: 32 word) AND 3 \<noteq> 0) \<or> (sz = 2 \<and> v AND 1 \<noteq> 0))"
  shows "unat f * 128 + unat v mod 128 + sz \<le> unat f * 128 + 128" "unat f * 128 + unat v mod 128 + sz \<le> 8192"
proof -
  have f: "unat f < 64" using assms(1) by (simp add: word_less_nat_alt)
  have "sz = 4 \<Longrightarrow> unat v mod 4 = 0" "sz = 2 \<Longrightarrow> unat v mod 2 = 0"
    using assms(3) unat_and_3 [of v] unat_and_1 [of v] by (metis unat_0)+
  then have "sz = 4 \<Longrightarrow> unat v mod 128 mod 4 = 0" "sz = 2 \<Longrightarrow> unat v mod 128 mod 2 = 0"
    by (simp_all add: mod_mod_cancel)
  then have "unat v mod 128 + sz \<le> 128"
    using assms(2) by (intro aligned_room) (auto simp: access_size_def)
  then show "unat f * 128 + unat v mod 128 + sz \<le> unat f * 128 + 128" "unat f * 128 + unat v mod 128 + sz \<le> 8192"
    using f by linarith+
qed

lemma sint_small: "unat (w :: 32 word) < 2 ^ 31 \<Longrightarrow> sint w = int (unat w)"
proof -
  assume "unat w < 2 ^ 31"
  then have "int (unat w) < int (2 ^ 31)" by (simp only: of_nat_less_iff)
  then have "uint w < 2 ^ 31" by simp
  then have "signed_take_bit 31 (uint w) = uint w"
    by (intro signed_take_bit_int_eq_self order_trans [OF _ uint_ge_0]) simp_all
  then show "sint w = int (unat w)" by (simp add: sint_uint)
qed

lemma frame_addr_assert:
  assumes "(f :: 32 word) < 64" "access_size sz"
    "\<not> ((sz = 4 \<and> (v :: 32 word) AND 3 \<noteq> 0) \<or> (sz = 2 \<and> v AND 1 \<noteq> 0))"
  shows "sint (f * 128 + v mod 128) \<ge> 0 \<and> sint (f * 128 + v mod 128) + int sz \<le> 8192"
proof -
  have "unat (f * 128 + v mod 128) + sz \<le> 8192"
    using frame_addr_bound(2) [OF assms] unat_frame_addr [OF assms(1)] by simp
  then have "int (unat (f * 128 + v mod 128)) + int sz \<le> 8192" by linarith
  moreover have "sint (f * 128 + v mod 128) = int (unat (f * 128 + v mod 128))"
  proof (rule sint_small)
    have "unat (f * 128 + v mod 128) \<le> 8192" using calculation by linarith
    then show "unat (f * 128 + v mod 128) < 2 ^ 31" by simp
  qed
  ultimately show ?thesis by linarith
qed


lemma byte_masks:
  "(0xff :: 32 word) = mask 8" "(0xff00 :: 32 word) = push_bit 8 (mask 8)"
  "(0xff0000 :: 32 word) = push_bit 16 (mask 8)" "(0xff000000 :: 32 word) = push_bit 24 (mask 8)"
  "(0xffff :: 32 word) = mask 16"
  "(0xff :: 16 word) = mask 8" "(0xff00 :: 16 word) = push_bit 8 (mask 8)"
  by (simp_all add: mask_eq_exp_minus_1 push_bit_eq_mult)

lemma bit_byte_out [simp]: "8 \<le> n \<Longrightarrow> \<not> bit (w :: 8 word) n"
  using bit_imp_le_length [of w n] by auto

lemma byte_cases:
  assumes "(n :: nat) < 32"
  obtains j where "j < 8" "n = j \<or> n = 8 + j \<or> n = 16 + j \<or> n = 24 + j"
proof -
  have "n mod 8 < 8" "n = 8 * (n div 8) + n mod 8" "n div 8 < 4" using assms by auto
  then have "n = n mod 8 \<or> n = 8 + n mod 8 \<or> n = 16 + n mod 8 \<or> n = 24 + n mod 8" by presburger
  then show ?thesis using that \<open>n mod 8 < 8\<close> by blast
qed

lemma word_eq_by_bytes:
  assumes "\<And>j. j < 8 \<Longrightarrow> bit a j = bit b j" "\<And>j. j < 8 \<Longrightarrow> bit a (8 + j) = bit b (8 + j)"
    "\<And>j. j < 8 \<Longrightarrow> bit a (16 + j) = bit b (16 + j)" "\<And>j. j < 8 \<Longrightarrow> bit a (24 + j) = bit b (24 + j)"
  shows "(a :: 32 word) = b"
proof (rule bit_word_eqI)
  fix n assume "n < LENGTH(32)"
  then have "n < 32" by simp
  then obtain j where "j < 8" "n = j \<or> n = 8 + j \<or> n = 16 + j \<or> n = 24 + j" by (rule byte_cases)
  then show "bit a n = bit b n" using assms by auto
qed

lemma short_eq_by_bytes:
  assumes "\<And>j. j < 8 \<Longrightarrow> bit a j = bit b j" "\<And>j. j < 8 \<Longrightarrow> bit a (8 + j) = bit b (8 + j)"
  shows "(a :: 16 word) = b"
proof (rule bit_word_eqI)
  fix n assume "n < LENGTH(16)"
  then have "n < 8 \<or> (n - 8 < 8 \<and> n = 8 + (n - 8))" by auto
  then show "bit a n = bit b n" using assms by metis
qed

text \<open>Whatever the byte order of the host, the machine sees little-endian memory.\<close>

lemma WordToHost_load:
  "WordToHost be (host_load32 be mem p) = host_load32 False mem p"
proof (cases be)
  case True
  have "WordToHost True (host_load32 True mem p) = host_load32 False mem p"
    unfolding WordToHost_def host_load32_def byte_masks if_True if_False
    by (rule word_eq_by_bytes) (simp_all add: bit_simps)
  then show ?thesis using True by simp
qed (simp add: WordToHost_def)

lemma ShortToHost_load:
  "ShortToHost be (host_load16 be mem p) = host_load16 False mem p"
proof (cases be)
  case True
  have "ShortToHost True (host_load16 True mem p) = host_load16 False mem p"
    unfolding ShortToHost_def host_load16_def byte_masks if_True if_False
    by (rule short_eq_by_bytes) (simp_all add: bit_simps)
  then show ?thesis using True by simp
qed (simp add: ShortToHost_def)

lemma WordToHost_store:
  "host_store32 be p (WordToMachine be w) mem = host_store32 False p w mem"
proof (cases be)
  case True
  have "ucast (drop_bit 24 (WordToHost True w)) = (ucast w :: 8 word)"
    "ucast (drop_bit 16 (WordToHost True w)) = (ucast (drop_bit 8 w) :: 8 word)"
    "ucast (drop_bit 8 (WordToHost True w)) = (ucast (drop_bit 16 w) :: 8 word)"
    "ucast (WordToHost True w) = (ucast (drop_bit 24 w) :: 8 word)"
    unfolding WordToHost_def byte_masks if_True
    by (rule bit_word_eqI, simp add: bit_simps)+
  then show ?thesis using True by (simp add: host_store32_def WordToMachine_def)
qed (simp add: WordToMachine_def WordToHost_def)

lemma ShortToHost_store:
  "host_store16 be p (ShortToMachine be w) mem = host_store16 False p w mem"
proof (cases be)
  case True
  have "ucast (drop_bit 8 (ShortToHost True w)) = (ucast w :: 8 word)"
    "ucast (ShortToHost True w) = (ucast (drop_bit 8 w) :: 8 word)"
    unfolding ShortToHost_def byte_masks if_True
    by (rule bit_word_eqI, simp add: bit_simps)+
  then show ?thesis using True by (simp add: host_store16_def ShortToMachine_def)
qed (simp add: ShortToMachine_def ShortToHost_def)

lemma load_store32: "host_load32 False (host_store32 False p w mem) p = w"
  unfolding host_load32_def host_store32_def if_False
  by (rule word_eq_by_bytes) (simp_all add: bit_simps)

lemma load_store16: "host_load16 False (host_store16 False p w mem) p = w"
  unfolding host_load16_def host_store16_def if_False
  by (rule short_eq_by_bytes) (simp_all add: bit_simps)

lemma host_store_frame:
  "q < p \<or> p + 4 \<le> q \<Longrightarrow> host_store32 be p w mem q = mem q"
  "q < p \<or> p + 2 \<le> q \<Longrightarrow> host_store16 be p w' mem q = mem q"
  by (auto simp: host_store32_def host_store16_def)


section \<open>Lookup and translation\<close>

lemma lookup_entry_mem [simp]:
  "lookup_entry vpn (m\<lparr>mainMemory := mem\<rparr>) = lookup_entry vpn m"
  "lookup_entry vpn (m\<lparr>registers := rg\<rparr>) = lookup_entry vpn m"
  by (simp_all add: lookup_entry_def cong: option.case_cong)

lemma mmu_ok_mem [simp]:
  "mmu_ok (m\<lparr>mainMemory := mem\<rparr>) = mmu_ok m" "mmu_ok (m\<lparr>registers := rg\<rparr>) = mmu_ok m"
  "mmu_ok (m\<lparr>mstatus := st\<rparr>) = mmu_ok m"
  by (simp_all add: mmu_ok_def cong: option.case_cong)

lemma tlb_find_Some:
  "tlb_find es vpn i = Some j \<Longrightarrow>
   i \<le> j \<and> j < i + length es \<and> valid (es ! (j - i)) \<and> virtualPage (es ! (j - i)) = vpn"
proof (induction es arbitrary: i)
  case Nil
  then show ?case by simp
next
  case (Cons e es)
  show ?case
  proof (cases "valid e \<and> virtualPage e = vpn")
    case True
    then show ?thesis using Cons.prems by auto
  next
    case False
    then have "tlb_find es vpn (Suc i) = Some j" using Cons.prems by (auto split: if_splits)
    from Cons.IH [OF this] have "Suc i \<le> j" "j < Suc i + length es"
      "valid (es ! (j - Suc i))" "virtualPage (es ! (j - Suc i)) = vpn" by auto
    then show ?thesis by (auto simp: nth_Cons' Suc_diff_Suc)
  qed
qed

lemma tlb_find_update:
  "tlb_find es vpn i = Some j \<Longrightarrow> valid e' \<Longrightarrow> virtualPage e' = vpn \<Longrightarrow>
   tlb_find (es[j - i := e']) vpn i = Some j"
proof (induction es arbitrary: i)
  case Nil
  then show ?case by simp
next
  case (Cons e es)
  show ?case
  proof (cases "valid e \<and> virtualPage e = vpn")
    case True
    then show ?thesis using Cons.prems by auto
  next
    case False
    then have f: "tlb_find es vpn (Suc i) = Some j" using Cons.prems by (auto split: if_splits)
    then have "Suc i \<le> j" using tlb_find_Some by blast
    then have "j - i = Suc (j - Suc i)" by simp
    then show ?thesis using Cons.IH [OF f] Cons.prems False by auto
  qed
qed

lemma lookup_entry_total:
  "mmu_ok m \<Longrightarrow> \<exists>r. lookup_entry vpn m = Inr r"
  by (auto simp: mmu_ok_def lookup_entry_def not_le word_less_nat_alt split: option.splits)

lemma lookup_entry_again:
  assumes "mmu_ok m" "lookup_entry vpn m = Inr (Inr (loc, e))"
    "valid e' = valid e" "virtualPage e' = virtualPage e"
  shows "lookup_entry vpn (update_entry loc e' m) = Inr (Inr (loc, e')) \<and> mmu_ok (update_entry loc e' m)"
proof (cases "tlb m")
  case None
  with assms show ?thesis
    by (auto simp: mmu_ok_def lookup_entry_def update_entry_def split: option.splits if_splits)
next
  case (Some es)
  with assms(2) obtain i where i: "tlb_find es vpn 0 = Some i" "loc = InTLB i" "e = es ! i"
    by (auto simp: lookup_entry_def split: option.splits)
  from tlb_find_Some [OF i(1)] have "i < length es" "valid (es ! i)" "virtualPage (es ! i) = vpn" by auto
  moreover from this have "tlb_find (es[i := e']) vpn 0 = Some i"
    using tlb_find_update [OF i(1), of e'] assms(3,4) i(3) by simp
  ultimately show ?thesis using assms(1) Some i
    by (auto simp: mmu_ok_def lookup_entry_def update_entry_def split: option.splits)
qed

lemma update_entry_frame [simp]:
  "mainMemory (update_entry loc e m) = mainMemory m"
  "registers (update_entry loc e m) = registers m"
  "mstatus (update_entry loc e m) = mstatus m"
  by (simp_all add: update_entry_def split: entry_loc.splits)

definition aligned :: "nat \<Rightarrow> 32 word \<Rightarrow> bool" where
  "aligned sz va \<longleftrightarrow> \<not> ((sz = 4 \<and> va AND 3 \<noteq> 0) \<or> (sz = 2 \<and> va AND 1 \<noteq> 0))"

lemma mmu_ok_one: "mmu_ok m \<Longrightarrow> (tlb m = None \<or> currentPageTable m = None) \<and> (tlb m \<noteq> None \<or> currentPageTable m \<noteq> None)"
  by (auto simp: mmu_ok_def split: option.splits)

text \<open>The outcome of a translation, with the assertions discharged.\<close>

lemma Translate_eq:
  assumes "mmu_ok m" "access_size sz"
  shows "Translate va sz wr m =
    (if \<not> aligned sz va then Inr (Inl AddressErrorException)
     else rbind (lookup_entry (va div 128) m) (\<lambda>found. case found of
        Inl e \<Rightarrow> Inr (Inl e)
      | Inr (loc, entry) \<Rightarrow>
          if readOnly entry \<and> wr then Inr (Inl ReadOnlyException)
          else if physicalPage entry \<ge> 64 then Inr (Inl BusErrorException)
          else Inr (Inr (physicalPage entry * 128 + va mod 128,
                 update_entry loc (entry\<lparr>usebit := True, dirty := (wr \<or> dirty entry)\<rparr>) m))))"
proof (cases "aligned sz va")
  case False
  then show ?thesis by (simp add: Translate_def aligned_def)
next
  case True
  have A: "ASSERT (sint (f * 128 + va mod 128) \<ge> 0 \<and> sint (f * 128 + va mod 128) + int sz \<le> int MemorySize) = Inr ()"
    if "\<not> f \<ge> 64" for f :: "32 word"
    using frame_addr_assert [of f sz va] that assms(2) True by (simp add: aligned_def)
  have C: "((sz = 4 \<and> va AND 3 \<noteq> 0) \<or> (sz = 2 \<and> va AND 1 \<noteq> 0)) = False"
    using True by (auto simp: aligned_def)
  have T: "Translate va sz wr m = rbind (lookup_entry (va div 128) m) (\<lambda>found. case found of
            Inl e \<Rightarrow> Inr (Inl e)
          | Inr (loc, entry) \<Rightarrow>
              if readOnly entry \<and> wr then Inr (Inl ReadOnlyException)
              else let pageFrame = physicalPage entry in
                if pageFrame \<ge> 64 then Inr (Inl BusErrorException)
                else let entry' = entry\<lparr>usebit := True, dirty := (wr \<or> dirty entry)\<rparr>;
                         physAddr = pageFrame * 128 + va mod 128 in
                  rbind (ASSERT (sint physAddr \<ge> 0 \<and> sint physAddr + int sz \<le> int MemorySize)) (\<lambda>_.
                  Inr (Inr (physAddr, update_entry loc entry' m))))"
    using mmu_ok_one [OF assms(1)] unfolding Translate_def C if_False by (simp add: Let_def)
  show ?thesis
    unfolding T using True A
    by (auto simp: Let_def intro!: rbind_cong split: sum.splits)
qed

lemma Translate_phys:
  assumes "mmu_ok m" "access_size sz" "Translate va sz wr m = Inr (Inr (pa, m'))"
  shows "\<exists>loc entry. lookup_entry (va div 128) m = Inr (Inr (loc, entry)) \<and> aligned sz va
    \<and> physicalPage entry < 64 \<and> \<not> (readOnly entry \<and> wr)
    \<and> unat pa = unat (physicalPage entry) * 128 + unat va mod 128
    \<and> unat pa mod 128 + sz \<le> 128 \<and> unat pa + sz \<le> 8192
    \<and> m' = update_entry loc (entry\<lparr>usebit := True, dirty := (wr \<or> dirty entry)\<rparr>) m"
proof -
  from assms obtain loc entry where r: "lookup_entry (va div 128) m = Inr (Inr (loc, entry))" "aligned sz va"
      "\<not> 64 \<le> physicalPage entry" "\<not> (readOnly entry \<and> wr)" "pa = physicalPage entry * 128 + va mod 128"
      "m' = update_entry loc (entry\<lparr>usebit := True, dirty := (wr \<or> dirty entry)\<rparr>) m"
    by (cases "lookup_entry (va div 128) m")
       (auto simp: Translate_eq split: if_splits sum.splits prod.splits)
  have "unat pa = unat (physicalPage entry) * 128 + unat va mod 128"
    using r(3,5) unat_frame_addr by auto
  moreover have "unat va mod 128 + sz \<le> 128" "unat (physicalPage entry) * 128 + unat va mod 128 + sz \<le> 8192"
    using frame_addr_bound [of "physicalPage entry" sz va] r(2,3) assms(2) by (auto simp: aligned_def)
  ultimately show ?thesis using r by auto
qed

text \<open>Translating again, after the use and dirty bits were set, finds the same frame.\<close>

lemma Translate_again:
  assumes "mmu_ok m" "access_size sz" "Translate va sz wr m = Inr (Inr (pa, m'))"
  shows "mmu_ok m' \<and> (\<exists>m''. Translate va sz False (m'\<lparr>mainMemory := mem\<rparr>) = Inr (Inr (pa, m'')) \<and> mainMemory m'' = mem)"
proof -
  obtain loc entry where r: "lookup_entry (va div 128) m = Inr (Inr (loc, entry))" "aligned sz va"
      "physicalPage entry < 64" "m' = update_entry loc (entry\<lparr>usebit := True, dirty := (wr \<or> dirty entry)\<rparr>) m"
    using Translate_phys [OF assms] by blast
  let ?e = "entry\<lparr>usebit := True, dirty := (wr \<or> dirty entry)\<rparr>"
  have L: "lookup_entry (va div 128) m' = Inr (Inr (loc, ?e))" "mmu_ok m'"
    using lookup_entry_again [OF assms(1) r(1), of ?e] r(4) by simp_all
  then have L2: "lookup_entry (va div 128) (m'\<lparr>mainMemory := mem\<rparr>) = Inr (Inr (loc, ?e))" "mmu_ok (m'\<lparr>mainMemory := mem\<rparr>)"
    by simp_all
  have "pa = physicalPage entry * 128 + va mod 128"
    using assms r by (auto simp: Translate_eq split: if_splits)
  then show ?thesis using L L2 r(2,3) assms(2) by (simp add: Translate_eq not_le)
qed


lemma WriteMem_True:
  "WriteMem be H va sz v m = Inr (True, m') \<Longrightarrow> \<exists>pa m1. Translate va sz True m = Inr (Inr (pa, m1))"
  by (cases "Translate va sz True m")
     (auto simp: WriteMem_def rbind_Inr_iff split: sum.splits)

lemma Translate_outcome:
  assumes "mmu_ok m" "access_size sz"
  shows "(\<exists>e \<in> {AddressErrorException, PageFaultException, ReadOnlyException, BusErrorException}.
            Translate va sz wr m = Inr (Inl e))
    \<or> (\<exists>pa m'. Translate va sz wr m = Inr (Inr (pa, m')) \<and> unat pa + sz \<le> MemorySize
         \<and> unat pa mod PageSize = unat va mod PageSize \<and> unat pa mod PageSize + sz \<le> PageSize
         \<and> mainMemory m' = mainMemory m \<and> registers m' = registers m \<and> mmu_ok m')"
proof (cases "Translate va sz wr m")
  case (Inl err)
  then have False
    using lookup_entry_total [OF assms(1), of "va div 128"] Translate_eq [OF assms, of va wr]
    by (auto split: if_splits sum.splits)
  then show ?thesis ..
next
  case (Inr r)
  show ?thesis
  proof (cases r)
    case (Inl e)
    then have "Translate va sz wr m = Inr (Inl e)" using Inr by simp
    moreover from this have "e \<in> {AddressErrorException, PageFaultException, ReadOnlyException, BusErrorException}"
      using lookup_entry_total [OF assms(1), of "va div 128"] Translate_eq [OF assms, of va wr]
      by (auto simp: lookup_entry_def split: if_splits sum.splits option.splits)
    ultimately show ?thesis by blast
  next
    case (Inr q)
    obtain pa m' where q: "q = (pa, m')" by fastforce
    have T: "Translate va sz wr m = Inr (Inr (pa, m'))" using \<open>Translate va sz wr m = Inr r\<close> Inr q by simp
    show ?thesis
      using Translate_phys [OF assms T] Translate_again [OF assms T] T by auto
  qed
qed

text \<open>The two outcomes of an access: the exception is raised in the old state, or the access is done.\<close>

lemma ReadMem_outcome:
  assumes "mmu_ok m" "access_size sz"
  shows "(\<exists>e. ReadMem be H va sz m = rbind (RaiseException H e va m) (\<lambda>m'. Inr (None, m')))
    \<or> (\<exists>v m'. ReadMem be H va sz m = Inr (Some v, m') \<and> mainMemory m' = mainMemory m \<and> registers m' = registers m \<and> mmu_ok m')"
  using Translate_outcome [OF assms, of va False] assms(2)
  by (auto simp: ReadMem_def access_size_def)

lemma WriteMem_outcome:
  assumes "mmu_ok m" "access_size sz"
  shows "(\<exists>e. WriteMem be H va sz v m = rbind (RaiseException H e va m) (\<lambda>m'. Inr (False, m')))
    \<or> (\<exists>m'. WriteMem be H va sz v m = Inr (True, m') \<and> registers m' = registers m \<and> mmu_ok m')"
  using Translate_outcome [OF assms, of va True] assms(2)
  by (auto simp: WriteMem_def access_size_def)

section \<open>Properties\<close>

text \<open>A machine with one page table of two pages, for the witnesses.\<close>

definition demo_machine :: machine where
  "demo_machine = (Machine_new False False UserMode)
     \<lparr>currentPageTable := Some
        [\<lparr>virtualPage = 0, physicalPage = 5, valid = True, readOnly = False, usebit = False, dirty = False\<rparr>,
         \<lparr>virtualPage = 1, physicalPage = 3, valid = True, readOnly = True, usebit = False, dirty = False\<rparr>],
      currentPageTableSize := 2\<rparr>"

lemma demo_machine_ok: "mmu_ok demo_machine"
  by (simp add: mmu_ok_def demo_machine_def Machine_new_def)

text \<open>C9: with one translation mechanism installed and an access of 1, 2 or 4 bytes, \<open>Translate\<close>
  fails none of its assertions: it either names one of the four addressing exceptions, or
  returns a physical address inside main memory, with the offset of the virtual address and
  the whole access inside one page frame, changing neither memory nor registers.\<close>

theorem Translate_safe:
  assumes "mmu_ok m" "access_size sz"
  shows "(\<exists>e \<in> {AddressErrorException, PageFaultException, ReadOnlyException, BusErrorException}.
            Translate va sz wr m = Inr (Inl e))
    \<or> (\<exists>pa m'. Translate va sz wr m = Inr (Inr (pa, m')) \<and> unat pa + sz \<le> MemorySize
         \<and> unat pa mod PageSize = unat va mod PageSize \<and> unat pa mod PageSize + sz \<le> PageSize
         \<and> mainMemory m' = mainMemory m \<and> registers m' = registers m \<and> mmu_ok m')"
  using Translate_outcome [OF assms] .

theorem Translate_safe_witness:
  "\<exists>pa m'. Translate 100 4 True demo_machine = Inr (Inr (pa, m')) \<and> unat pa + 4 \<le> MemorySize
     \<and> unat pa mod PageSize = 100 \<and> mainMemory m' = mainMemory demo_machine"
proof -
  have "res_sat (Translate 100 4 True demo_machine) (\<lambda>t. \<not> isl t)" by code_simp
  then obtain pa m' where t: "Translate 100 4 True demo_machine = Inr (Inr (pa, m'))"
    by (auto elim!: res_satE simp: isl_def split: sum.splits) (metis old.prod.exhaust sum.exhaust)
  then show ?thesis
    using Translate_safe [OF demo_machine_ok, of 4 100 True] by (simp add: access_size_def)
qed

text \<open>C38: a store followed by a load of the same size at the same virtual address returns the value
  stored (its low half or its sign-extended low byte for the short sizes), also when the
  two accesses run on hosts of different byte order.\<close>

theorem WriteMem_ReadMem:
  assumes "mmu_ok m" "access_size sz" "WriteMem be H va sz v m = Inr (True, m')"
  shows "\<exists>m''. ReadMem be' H' va sz m' =
     Inr (Some (if sz = 1 then scast (ucast v :: 8 word) else if sz = 2 then v AND 0xffff else v), m'')"
proof -
  obtain pa m1 where T: "Translate va sz True m = Inr (Inr (pa, m1))"
    using WriteMem_True [OF assms(3)] by blast
  let ?w = "\<lambda>mem. if sz = 1 then mem(unat pa := ucast (v AND 0xff))
      else if sz = 2 then host_store16 be (unat pa) (ShortToMachine be (ucast (v AND 0xffff))) mem
      else host_store32 be (unat pa) (WordToMachine be v) mem"
  have m': "m' = m1\<lparr>mainMemory := ?w (mainMemory m1)\<rparr>"
    using assms(2,3) T by (auto simp: WriteMem_def access_size_def)
  obtain m'' where R: "Translate va sz False m' = Inr (Inr (pa, m''))" "mainMemory m'' = ?w (mainMemory m1)"
    using Translate_again [OF assms(1,2) T, of "?w (mainMemory m1)"] m' by auto
  have low: "ucast (v AND 0xff) = (ucast v :: 8 word)" "ucast (ucast (v AND 0xffff) :: 16 word) = v AND 0xffff"
    unfolding byte_masks by (rule bit_word_eqI, auto simp: bit_simps)+
  consider "sz = 1" | "sz = 2" | "sz = 4" using assms(2) by (auto simp: access_size_def)
  then show ?thesis
  proof cases
    case 1 then show ?thesis using R low by (simp add: ReadMem_def)
  next
    case 2 then show ?thesis using R low
      by (simp add: ReadMem_def ShortToHost_load ShortToHost_store load_store16)
  next
    case 3 then show ?thesis using R
      by (simp add: ReadMem_def WordToHost_load WordToHost_store load_store32)
  qed
qed

text \<open>A store of the value 0x12345678 at virtual address 100, seen on both kinds of host.\<close>

theorem WriteMem_ReadMem_witness:
  "\<exists>m' m''. WriteMem True (\<lambda>e m. Inl AssertFail) 100 4 0x12345678 demo_machine = Inr (True, m')
      \<and> ReadMem False (\<lambda>e m. Inl AssertFail) 100 4 m' = Inr (Some 0x12345678, m'')"
proof -
  have "res_sat (WriteMem True (\<lambda>e m. Inl AssertFail) 100 4 0x12345678 demo_machine) fst" by code_simp
  then obtain m' where w: "WriteMem True (\<lambda>e m. Inl AssertFail) 100 4 0x12345678 demo_machine = Inr (True, m')"
    by (auto elim!: res_satE)
  then show ?thesis using WriteMem_ReadMem [OF demo_machine_ok _ w, of False "\<lambda>e m. Inl AssertFail"]
    by (auto simp: access_size_def)
qed

text \<open>A successful store touches only bytes of the page frame that the translation maps the
  address to, an installed, writable frame inside main memory, and no register.\<close>

lemma WriteMem_confined:
  assumes "mmu_ok m" "access_size sz" "WriteMem be H va sz v m = Inr (True, m')"
  shows "\<exists>loc entry. lookup_entry (va div 128) m = Inr (Inr (loc, entry)) \<and> \<not> readOnly entry
     \<and> unat (physicalPage entry) < NumPhysPages \<and> registers m' = registers m
     \<and> (\<forall>q. q div PageSize \<noteq> unat (physicalPage entry) \<longrightarrow> mainMemory m' q = mainMemory m q)"
proof -
  obtain pa m1 where T: "Translate va sz True m = Inr (Inr (pa, m1))"
    using WriteMem_True [OF assms(3)] by blast
  obtain loc entry where r: "lookup_entry (va div 128) m = Inr (Inr (loc, entry))" "physicalPage entry < 64"
      "\<not> readOnly entry" "unat pa = unat (physicalPage entry) * 128 + unat va mod 128" "unat pa mod 128 + sz \<le> 128"
      "m1 = update_entry loc (entry\<lparr>usebit := True, dirty := (True \<or> dirty entry)\<rparr>) m"
    using Translate_phys [OF assms(1,2) T] by auto
  have out: "q < unat pa \<or> unat pa + sz \<le> q" if "q div 128 \<noteq> unat (physicalPage entry)" for q
  proof (rule ccontr)
    assume "\<not> ?thesis"
    then have "unat (physicalPage entry) * 128 \<le> q" "q < unat (physicalPage entry) * 128 + 128"
      using r(4,5) by auto
    then show False using that by (simp add: div_nat_eqI)
  qed
  have frame: "mainMemory m' q = mainMemory m q" if "q div 128 \<noteq> unat (physicalPage entry)" for q
    using assms(2,3) T r(6) out [OF that]
    by (auto simp: WriteMem_def access_size_def host_store_frame)
  moreover have "registers m' = registers m"
    using assms(2,3) T r(6) by (auto simp: WriteMem_def access_size_def)
  moreover have "unat (physicalPage entry) < 64" using r(2) by (simp add: word_less_nat_alt)
  ultimately show ?thesis using r(1,3) by auto
qed

end
