(* ===== verification/InterruptModel.thy ===== *)
theory InterruptModel
  imports NachosList MachineModel
begin

text \<open>
  The interrupt simulation (machine/interrupt.h, machine/interrupt.cc), the statistics it
  advances (machine/stats.h, machine/stats.cc) and the timer device (machine/timer.h,
  machine/timer.cc).

  The state is the extensible record \<open>intr\<close>; the kernel and the devices extend it. A pending
  interrupt names its handler by a value of a type \<open>'h\<close> that the client chooses, and the
  client passes the dispatcher \<open>D\<close> that runs a handler, the routine \<open>DL\<close> that completes the
  delayed load of an interrupted user program, and the routine \<open>Y old\<close> that is
  \<open>currentThread->Yield(); status = old;\<close>. The list \<open>pending\<close> is the abstract content of a \<open>List\<close> object:
  theory NachosList proves that \<open>SortedInsert\<close> and \<open>SortedRemove\<close> act on it as \<open>sorted_ins\<close>
  and as taking the head. Ticks are \<open>long long\<close> in the code and unbounded here.
\<close>

section \<open>Data\<close>

datatype IntStatus = IntOff | IntOn

datatype IntType =
    TimerInt | DiskInt | ConsoleWriteInt | ConsoleReadInt | NetworkSendInt | NetworkRecvInt

record 'h PendingInterrupt =
  handler :: 'h
  arg :: addr
  whenp :: int
  itype :: IntType

record Statistics =
  totalTicks :: int
  idleTicks :: int
  systemTicks :: int
  userTicks :: int
  numDiskReads :: int
  numDiskWrites :: int
  numConsoleCharsRead :: int
  numConsoleCharsWritten :: int
  numPageFaults :: int
  numPacketsSent :: int
  numPacketsRecvd :: int

text \<open>\<open>rng\<close> is the sequence of values of the host's \<open>rand()\<close>, which are not negative, and \<open>rpos\<close>
  how many were drawn.\<close>

record 'h intr =
  level :: IntStatus
  pending :: "(int \<times> 'h PendingInterrupt) list"
  inHandler :: bool
  yieldOnReturn :: bool
  istatus :: MachineStatus
  stats :: Statistics
  rng :: "nat \<Rightarrow> nat"
  rpos :: nat

abbreviation (input) "UserTick \<equiv> (1 :: int)"
abbreviation (input) "SystemTick \<equiv> (10 :: int)"
abbreviation (input) "TimerTicks \<equiv> (100 :: int)"

type_synonym ('h, 'z) dispatcher = "'h \<Rightarrow> addr \<Rightarrow> ('h, 'z) intr_scheme \<Rightarrow> ('h, 'z) intr_scheme res"
type_synonym ('h, 'z) transformer = "('h, 'z) intr_scheme \<Rightarrow> ('h, 'z) intr_scheme res"

section \<open>Operations\<close>

definition Statistics_new :: Statistics where
  "Statistics_new = \<lparr>totalTicks = 0, idleTicks = 0, systemTicks = 0, userTicks = 0,
     numDiskReads = 0, numDiskWrites = 0, numConsoleCharsRead = 0, numConsoleCharsWritten = 0,
     numPageFaults = 0, numPacketsSent = 0, numPacketsRecvd = 0\<rparr>"

definition PendingInterrupt_new :: "'h \<Rightarrow> addr \<Rightarrow> int \<Rightarrow> IntType \<Rightarrow> 'h PendingInterrupt" where
  "PendingInterrupt_new func param time kind =
     \<lparr>handler = func, arg = param, whenp = time, itype = kind\<rparr>"

definition Interrupt_new :: "(nat \<Rightarrow> nat) \<Rightarrow> 'h intr" where
  "Interrupt_new rand = \<lparr>level = IntOff, pending = [], inHandler = False, yieldOnReturn = False,
     istatus = SystemMode, stats = Statistics_new, rng = rand, rpos = 0\<rparr>"

definition Interrupt_delete :: "('h, 'z) intr_scheme \<Rightarrow> ('h, 'z) intr_scheme" where
  "Interrupt_delete s = s\<lparr>pending := []\<rparr>"

text \<open>Blocking the user's abort signal is an effect on the host only.\<close>

definition ChangeLevel :: "IntStatus \<Rightarrow> IntStatus \<Rightarrow> ('h, 'z) intr_scheme \<Rightarrow> ('h, 'z) intr_scheme" where
  "ChangeLevel old now s = s\<lparr>level := now\<rparr>"

definition Schedule ::
  "'h \<Rightarrow> addr \<Rightarrow> int \<Rightarrow> IntType \<Rightarrow> ('h, 'z) intr_scheme \<Rightarrow> ('h, 'z) intr_scheme res" where
  "Schedule func param fromNow kind s =
     (let time = totalTicks (stats s) + fromNow;
          toOccur = PendingInterrupt_new func param time kind in
      rbind (ASSERT (fromNow > 0)) (\<lambda>_.
      Inr (s\<lparr>pending := sorted_ins time toOccur (pending s)\<rparr>)))"

definition CheckIfDue ::
  "('h, 'z) dispatcher \<Rightarrow> ('h, 'z) transformer \<Rightarrow> bool \<Rightarrow> ('h, 'z) intr_scheme
     \<Rightarrow> (bool \<times> ('h, 'z) intr_scheme) res" where
  "CheckIfDue D DL advanceClock s =
     (let old = istatus s in
      rbind (ASSERT (level s = IntOff)) (\<lambda>_.
      case pending s of
        [] \<Rightarrow> Inr (False, s)
      | (time, toOccur) # rest \<Rightarrow>
          let s1 = s\<lparr>pending := rest\<rparr>; now = totalTicks (stats s) in
          if \<not> advanceClock \<and> time > now
          then Inr (False, s1\<lparr>pending := sorted_ins time toOccur rest\<rparr>)
          else
            let s2 = (if time > now
                      then s1\<lparr>stats := (stats s1)\<lparr>idleTicks := idleTicks (stats s1) + (time - now),
                                                totalTicks := time\<rparr>\<rparr>
                      else s1) in
            if istatus s2 = IdleMode \<and> itype toOccur = TimerInt \<and> pending s2 = []
            then Inr (False, s2\<lparr>pending := sorted_ins time toOccur (pending s2)\<rparr>)
            else
              rbind (if istatus s2 = UserMode then DL s2 else Inr s2) (\<lambda>s3.
              rbind (D (handler toOccur) (arg toOccur) (s3\<lparr>inHandler := True, istatus := SystemMode\<rparr>)) (\<lambda>s4.
              Inr (True, s4\<lparr>istatus := old, inHandler := False\<rparr>)))))"

text \<open>The loop \<open>while (CheckIfDue(FALSE));\<close> of \<open>OneTick\<close> and \<open>Idle\<close>.\<close>

partial_function (option) check_loop ::
  "('h, 'z) dispatcher \<Rightarrow> ('h, 'z) transformer \<Rightarrow> ('h, 'z) intr_scheme \<Rightarrow> ('h, 'z) intr_scheme res option" where
  "check_loop D DL s =
     (case CheckIfDue D DL False s of
        Inl e \<Rightarrow> Some (Inl e)
      | Inr (fired, s') \<Rightarrow> if fired then check_loop D DL s' else Some (Inr s'))"

definition advance_tick :: "('h, 'z) intr_scheme \<Rightarrow> ('h, 'z) intr_scheme" where
  "advance_tick s =
     (if istatus s = SystemMode
      then s\<lparr>stats := (stats s)\<lparr>totalTicks := totalTicks (stats s) + SystemTick,
                              systemTicks := systemTicks (stats s) + SystemTick\<rparr>\<rparr>
      else s\<lparr>stats := (stats s)\<lparr>totalTicks := totalTicks (stats s) + UserTick,
                              userTicks := userTicks (stats s) + UserTick\<rparr>\<rparr>)"

definition OneTick ::
  "('h, 'z) dispatcher \<Rightarrow> ('h, 'z) transformer \<Rightarrow> (MachineStatus \<Rightarrow> ('h, 'z) transformer) \<Rightarrow> ('h, 'z) intr_scheme
     \<Rightarrow> ('h, 'z) intr_scheme res option" where
  "OneTick D DL Y s =
     (let old = istatus s in
      obind (check_loop D DL (ChangeLevel IntOn IntOff (advance_tick s))) (\<lambda>s1.
      let s2 = ChangeLevel IntOff IntOn s1 in
      if yieldOnReturn s2
      then Some (Y old (s2\<lparr>yieldOnReturn := False, istatus := SystemMode\<rparr>))
      else Some (Inr s2)))"

definition SetLevel ::
  "('h, 'z) dispatcher \<Rightarrow> ('h, 'z) transformer \<Rightarrow> (MachineStatus \<Rightarrow> ('h, 'z) transformer) \<Rightarrow> IntStatus \<Rightarrow> ('h, 'z) intr_scheme
     \<Rightarrow> (IntStatus \<times> ('h, 'z) intr_scheme) res option" where
  "SetLevel D DL Y now s =
     (let old = level s in
      obind (Some (ASSERT (now = IntOff \<or> \<not> inHandler s))) (\<lambda>_.
      let s1 = ChangeLevel old now s in
      if now = IntOn \<and> old = IntOff
      then obind (OneTick D DL Y s1) (\<lambda>s2. Some (Inr (old, s2)))
      else Some (Inr (old, s1))))"

definition Enable ::
  "('h, 'z) dispatcher \<Rightarrow> ('h, 'z) transformer \<Rightarrow> (MachineStatus \<Rightarrow> ('h, 'z) transformer) \<Rightarrow> ('h, 'z) intr_scheme
     \<Rightarrow> ('h, 'z) intr_scheme res option" where
  "Enable D DL Y s = obind (SetLevel D DL Y IntOn s) (\<lambda>(_, s'). Some (Inr s'))"

definition YieldOnReturn :: "('h, 'z) intr_scheme \<Rightarrow> ('h, 'z) intr_scheme res" where
  "YieldOnReturn s = rbind (ASSERT (inHandler s)) (\<lambda>_. Inr (s\<lparr>yieldOnReturn := True\<rparr>))"

text \<open>\<open>Powerdown\<close> prints the statistics and calls \<open>Cleanup\<close>, which exits the simulator.\<close>

definition Powerdown :: "('h, 'z) intr_scheme \<Rightarrow> ('h, 'z) intr_scheme res" where
  "Powerdown s = Inl PowerDown"

definition Idle ::
  "('h, 'z) dispatcher \<Rightarrow> ('h, 'z) transformer \<Rightarrow> ('h, 'z) intr_scheme \<Rightarrow> ('h, 'z) intr_scheme res option" where
  "Idle D DL s =
     obind (Some (CheckIfDue D DL True (s\<lparr>istatus := IdleMode\<rparr>))) (\<lambda>(fired, s1).
     if fired
     then obind (check_loop D DL s1) (\<lambda>s2. Some (Inr (s2\<lparr>yieldOnReturn := False, istatus := SystemMode\<rparr>)))
     else Some (Powerdown s1))"

section \<open>The timer device\<close>

text \<open>\<open>Random() % n\<close> with the next value of the host's generator.\<close>

definition Random :: "('h, 'z) intr_scheme \<Rightarrow> int \<times> ('h, 'z) intr_scheme" where
  "Random s = (int (rng s (rpos s)), s\<lparr>rpos := Suc (rpos s)\<rparr>)"

definition TimeOfNextInterrupt :: "bool \<Rightarrow> ('h, 'z) intr_scheme \<Rightarrow> int \<times> ('h, 'z) intr_scheme" where
  "TimeOfNextInterrupt randomize s =
     (if randomize then let (r, s') = Random s in (1 + r smod (TimerTicks * 2), s')
      else (TimerTicks, s))"

definition Timer_schedule :: "'h \<Rightarrow> addr \<Rightarrow> bool \<Rightarrow> ('h, 'z) intr_scheme \<Rightarrow> ('h, 'z) intr_scheme res" where
  "Timer_schedule th this randomize s =
     (let (t, s') = TimeOfNextInterrupt randomize s in Schedule th this t TimerInt s')"

definition Timer_new :: "'h \<Rightarrow> addr \<Rightarrow> bool \<Rightarrow> ('h, 'z) intr_scheme \<Rightarrow> ('h, 'z) intr_scheme res" where
  "Timer_new th this doRandom s = Timer_schedule th this doRandom s"

definition TimerExpired ::
  "'h \<Rightarrow> addr \<Rightarrow> bool \<Rightarrow> ('h, 'z) transformer \<Rightarrow> ('h, 'z) intr_scheme \<Rightarrow> ('h, 'z) intr_scheme res" where
  "TimerExpired th this randomize callback s =
     rbind (Timer_schedule th this randomize s) callback"

text \<open>The callback that threads/system.cc installs for the timer.\<close>

definition TimerInterruptHandler :: "('h, 'z) intr_scheme \<Rightarrow> ('h, 'z) intr_scheme res" where
  "TimerInterruptHandler s = (if istatus s \<noteq> IdleMode then YieldOnReturn s else Inr s)"

section \<open>Invariant and contract of the handlers\<close>

text \<open>The pending list is sorted by its keys, and the key of an entry is its time.\<close>

definition intr_ok :: "('h, 'z) intr_scheme \<Rightarrow> bool" where
  "intr_ok s \<longleftrightarrow> sorted (map fst (pending s)) \<and> (\<forall>p \<in> set (pending s). whenp (snd p) = fst p)"

definition due_list :: "('h, 'z) intr_scheme \<Rightarrow> (int \<times> 'h PendingInterrupt) list" where
  "due_list s = filter (\<lambda>p. fst p \<le> totalTicks (stats s)) (pending s)"

definition ticks :: "('h, 'z) intr_scheme \<Rightarrow> int \<times> int \<times> int \<times> int" where
  "ticks s = (totalTicks (stats s), idleTicks (stats s), systemTicks (stats s), userTicks (stats s))"

text \<open>
  What a handler may do to the interrupt state: it runs with interrupts off and leaves them
  off, takes no simulated time, keeps every pending interrupt, and whatever it schedules is
  due later than now.
\<close>

definition handler_frame :: "('h, 'z) intr_scheme \<Rightarrow> ('h, 'z) intr_scheme \<Rightarrow> bool" where
  "handler_frame s s' \<longleftrightarrow> intr_ok s' \<and> level s' = level s \<and> ticks s' = ticks s
     \<and> due_list s' = due_list s \<and> set (pending s) \<subseteq> set (pending s')"

text \<open>Running one pending interrupt, and all of a list of due ones in order.\<close>

definition fire ::
  "('h, 'z) dispatcher \<Rightarrow> ('h, 'z) transformer \<Rightarrow> 'h PendingInterrupt \<Rightarrow> ('h, 'z) transformer" where
  "fire D DL p s =
     rbind (if istatus s = UserMode then DL s else Inr s) (\<lambda>s1.
     rbind (D (handler p) (arg p) (s1\<lparr>inHandler := True, istatus := SystemMode\<rparr>)) (\<lambda>s2.
     Inr (s2\<lparr>istatus := istatus s, inHandler := False\<rparr>)))"

fun fire_all ::
  "('h, 'z) dispatcher \<Rightarrow> ('h, 'z) transformer \<Rightarrow> (int \<times> 'h PendingInterrupt) list \<Rightarrow> ('h, 'z) transformer" where
  "fire_all D DL [] s = Inr s"
| "fire_all D DL (p # ps) s =
     rbind (fire D DL (snd p) (s\<lparr>pending := tl (pending s)\<rparr>)) (fire_all D DL ps)"

text \<open>Putting back the head of the list, which is not due yet, moves it behind its equals.\<close>

definition put_back :: "('h, 'z) intr_scheme \<Rightarrow> ('h, 'z) intr_scheme" where
  "put_back s = (case pending s of [] \<Rightarrow> s | p # rest \<Rightarrow> s\<lparr>pending := sorted_ins (fst p) (snd p) rest\<rparr>)"

text \<open>Advancing an idle machine to the time of its next interrupt.\<close>

definition advance_to :: "int \<Rightarrow> ('h, 'z) intr_scheme \<Rightarrow> ('h, 'z) intr_scheme" where
  "advance_to t s =
     (if t > totalTicks (stats s)
      then s\<lparr>stats := (stats s)\<lparr>idleTicks := idleTicks (stats s) + (t - totalTicks (stats s)), totalTicks := t\<rparr>\<rparr>
      else s)"

text \<open>Total time is the time spent idle, in the system and in user programs.\<close>

definition ticks_ok :: "('h, 'z) intr_scheme \<Rightarrow> bool" where
  "ticks_ok s \<longleftrightarrow> totalTicks (stats s) = idleTicks (stats s) + systemTicks (stats s) + userTicks (stats s)"

lemma intr_ok_simps [simp]:
  "intr_ok (s\<lparr>istatus := st\<rparr>) = intr_ok s" "intr_ok (s\<lparr>inHandler := b\<rparr>) = intr_ok s"
  "intr_ok (s\<lparr>level := l\<rparr>) = intr_ok s" "intr_ok (s\<lparr>yieldOnReturn := b\<rparr>) = intr_ok s"
  "intr_ok (s\<lparr>stats := u\<rparr>) = intr_ok s" "intr_ok (s\<lparr>rpos := n\<rparr>) = intr_ok s"
  by (simp_all add: intr_ok_def)

lemma due_list_simps [simp]:
  "due_list (s\<lparr>istatus := st\<rparr>) = due_list s" "due_list (s\<lparr>inHandler := b\<rparr>) = due_list s"
  "due_list (s\<lparr>level := l\<rparr>) = due_list s" "due_list (s\<lparr>yieldOnReturn := b\<rparr>) = due_list s"
  "due_list (s\<lparr>rpos := n\<rparr>) = due_list s"
  by (simp_all add: due_list_def)

lemma ticks_simps [simp]:
  "ticks (s\<lparr>istatus := st\<rparr>) = ticks s" "ticks (s\<lparr>inHandler := b\<rparr>) = ticks s"
  "ticks (s\<lparr>level := l\<rparr>) = ticks s" "ticks (s\<lparr>yieldOnReturn := b\<rparr>) = ticks s"
  "ticks (s\<lparr>pending := ps\<rparr>) = ticks s" "ticks (s\<lparr>rpos := n\<rparr>) = ticks s"
  by (simp_all add: ticks_def)

lemma intr_ok_tl: "intr_ok s \<Longrightarrow> pending s = p # rest \<Longrightarrow> intr_ok (s\<lparr>pending := rest\<rparr>)"
  by (simp add: intr_ok_def)

lemma intr_ok_insert:
  "intr_ok (s\<lparr>pending := ps\<rparr>) \<Longrightarrow> whenp p = k \<Longrightarrow> intr_ok (s\<lparr>pending := sorted_ins k p ps\<rparr>)"
  by (simp add: intr_ok_def sorted_sorted_ins)

lemma put_back_simps [simp]:
  "level (put_back s) = level s" "istatus (put_back s) = istatus s" "ticks (put_back s) = ticks s"
  "stats (put_back s) = stats s" "yieldOnReturn (put_back s) = yieldOnReturn s" "mset (pending (put_back s)) = mset (pending s)"
  by (simp_all add: put_back_def split: list.splits)

lemma put_back_ok: "intr_ok s \<Longrightarrow> intr_ok (put_back s)"
  by (auto simp: put_back_def intro!: intr_ok_insert dest: intr_ok_tl split: list.splits)
     (auto simp: intr_ok_def)

lemma due_list_Cons:
  "pending s = p # rest \<Longrightarrow> fst p \<le> totalTicks (stats s) \<Longrightarrow> due_list s = p # due_list (s\<lparr>pending := rest\<rparr>)"
  by (simp add: due_list_def)

lemma due_list_Nil:
  "intr_ok s \<Longrightarrow> pending s = p # rest \<Longrightarrow> \<not> fst p \<le> totalTicks (stats s) \<Longrightarrow> due_list s = []"
  by (auto simp: due_list_def intr_ok_def filter_empty_conv)

lemma due_list_put_back: "due_list s = [] \<Longrightarrow> due_list (put_back s) = []"
  by (auto simp: put_back_def due_list_def filter_empty_conv split: list.splits)

lemma sorted_ins_filter_later:
  "\<not> P (k, x) \<Longrightarrow> filter P (sorted_ins k x ps) = filter P ps"
  by (induction ps) auto

text \<open>Scheduling keeps to the contract.\<close>

lemma Schedule_frame:
  assumes "intr_ok s" "Schedule h a d ty s = Inr s'"
  shows "handler_frame s s' \<and> inHandler s' = inHandler s \<and> istatus s' = istatus s"
proof -
  let ?t = "totalTicks (stats s) + d"
  let ?p = "PendingInterrupt_new h a ?t ty"
  have d: "0 < d" and s': "s' = s\<lparr>pending := sorted_ins ?t ?p (pending s)\<rparr>"
    using assms(2) by (auto simp: Schedule_def Let_def rbind_Inr_iff)
  have "due_list s' = due_list s"
    using d by (simp add: due_list_def s' sorted_ins_filter_later)
  moreover have "intr_ok s'"
    using intr_ok_insert [of "pending s" s ?p ?t] assms(1) by (simp add: s' PendingInterrupt_new_def)
  ultimately show ?thesis by (auto simp: handler_frame_def s')
qed

lemma handler_frame_refl: "intr_ok s \<Longrightarrow> handler_frame s s"
  by (simp add: handler_frame_def)

lemma handler_frame_trans: "handler_frame s t \<Longrightarrow> handler_frame t u \<Longrightarrow> handler_frame s u"
  by (auto simp: handler_frame_def)

lemma handler_frame_modes [simp]:
  "handler_frame s (t\<lparr>istatus := st\<rparr>) = handler_frame s t"
  "handler_frame s (t\<lparr>inHandler := b\<rparr>) = handler_frame s t"
  "handler_frame s (t\<lparr>yieldOnReturn := b\<rparr>) = handler_frame s t"
  "handler_frame s (t\<lparr>rpos := n\<rparr>) = handler_frame s t"
  "handler_frame (s\<lparr>istatus := st\<rparr>) t = handler_frame s t"
  "handler_frame (s\<lparr>inHandler := b\<rparr>) t = handler_frame s t"
  "handler_frame (s\<lparr>yieldOnReturn := b\<rparr>) t = handler_frame s t"
  "handler_frame (s\<lparr>rpos := n\<rparr>) t = handler_frame s t"
  by (simp_all add: handler_frame_def)

section \<open>The interrupt loop under the contract\<close>

locale interrupt_client =
  fixes D :: "('h, 'z) dispatcher" and DL :: "('h, 'z) transformer"
  assumes handler_law:
      "intr_ok s \<Longrightarrow> level s = IntOff \<Longrightarrow> inHandler s \<Longrightarrow> istatus s = SystemMode \<Longrightarrow> D h a s = Inr s' \<Longrightarrow> handler_frame s s'"
    and delayed_load_law:
      "intr_ok s \<Longrightarrow> DL s = Inr s' \<Longrightarrow> handler_frame s s' \<and> istatus s' = istatus s"
begin

lemma fire_frame:
  assumes "intr_ok s" "level s = IntOff" "fire D DL p s = Inr s'"
  shows "handler_frame s s' \<and> istatus s' = istatus s \<and> \<not> inHandler s'"
proof -
  obtain s1 s2 where
    s1: "(if istatus s = UserMode then DL s else Inr s) = Inr s1" and
    s2: "D (handler p) (arg p) (s1\<lparr>inHandler := True, istatus := SystemMode\<rparr>) = Inr s2" and
    s': "s' = s2\<lparr>istatus := istatus s, inHandler := False\<rparr>"
    using assms(3) by (auto simp: fire_def rbind_Inr_iff)
  have f1: "handler_frame s s1"
    using s1 delayed_load_law [OF assms(1)] assms(1) by (auto intro: handler_frame_refl split: if_splits)
  then have "intr_ok s1" "level s1 = IntOff" using assms(2) by (auto simp: handler_frame_def)
  then have "handler_frame (s1\<lparr>inHandler := True, istatus := SystemMode\<rparr>) s2"
    using handler_law [OF _ _ _ _ s2] by simp
  then show ?thesis using f1 s' by (auto intro: handler_frame_trans)
qed

text \<open>One step of the loop, when a due interrupt heads the list.\<close>

lemma CheckIfDue_due:
  assumes "intr_ok s" "level s = IntOff" "due_list s = p # ps"
    "istatus s = IdleMode \<longrightarrow> itype (snd p) \<noteq> TimerInt \<or> tl (pending s) \<noteq> []"
  shows "CheckIfDue D DL False s =
      rbind (fire D DL (snd p) (s\<lparr>pending := tl (pending s)\<rparr>)) (\<lambda>s'. Inr (True, s'))"
    and "fire D DL (snd p) (s\<lparr>pending := tl (pending s)\<rparr>) = Inr s' \<Longrightarrow>
      intr_ok s' \<and> level s' = IntOff \<and> due_list s' = ps \<and> istatus s' = istatus s \<and> ticks s' = ticks s
        \<and> set (tl (pending s)) \<subseteq> set (pending s')"
proof -
  obtain q rest where pe: "pending s = q # rest"
    using assms(3) by (cases "pending s") (auto simp: due_list_def)
  have le: "fst q \<le> totalTicks (stats s)"
    using due_list_Nil [OF assms(1) pe] assms(3) by (cases "fst q \<le> totalTicks (stats s)") auto
  have q: "q = p" "due_list (s\<lparr>pending := rest\<rparr>) = ps"
    using due_list_Cons [OF pe le] assms(3) by simp_all
  show "CheckIfDue D DL False s =
      rbind (fire D DL (snd p) (s\<lparr>pending := tl (pending s)\<rparr>)) (\<lambda>s'. Inr (True, s'))"
    using pe le assms(2,4) q(1)
    by (cases p) (auto simp: CheckIfDue_def fire_def rbind_assoc)
  have ok: "intr_ok (s\<lparr>pending := rest\<rparr>)" using intr_ok_tl [OF assms(1) pe] .
  show "intr_ok s' \<and> level s' = IntOff \<and> due_list s' = ps \<and> istatus s' = istatus s \<and> ticks s' = ticks s
        \<and> set (tl (pending s)) \<subseteq> set (pending s')"
    if "fire D DL (snd p) (s\<lparr>pending := tl (pending s)\<rparr>) = Inr s'"
    using fire_frame [OF ok, of "snd p" s'] that pe assms(2) q by (auto simp: handler_frame_def)
qed

lemma CheckIfDue_none:
  assumes "intr_ok s" "level s = IntOff" "due_list s = []"
  shows "CheckIfDue D DL False s = Inr (False, put_back s)"
  using assms by (auto simp: CheckIfDue_def Let_def put_back_def due_list_def split: list.splits if_splits)

lemma CheckIfDue_lone_timer:
  assumes "level s = IntOff" "due_list s = p # ps"
    "\<not> (istatus s = IdleMode \<longrightarrow> itype (snd p) \<noteq> TimerInt \<or> tl (pending s) \<noteq> [])"
  shows "pending s = [p]" "CheckIfDue D DL False s = Inr (False, s\<lparr>pending := [p]\<rparr>)"
proof -
  obtain q rest where pe: "pending s = q # rest"
    using assms(2) by (cases "pending s") (auto simp: due_list_def)
  then show p: "pending s = [p]" using assms(2,3) by (auto simp: due_list_def split: if_splits)
  then have "fst p \<le> totalTicks (stats s)" using assms(2) by (auto simp: due_list_def split: if_splits)
  then show "CheckIfDue D DL False s = Inr (False, s\<lparr>pending := [p]\<rparr>)"
    using p assms(1,3) by (cases p) (auto simp: CheckIfDue_def)
qed

lemma CheckIfDue_shrinks:
  assumes "intr_ok s" "level s = IntOff" "CheckIfDue D DL False s = Inr (True, s')"
  shows "length (due_list s') < length (due_list s)"
proof (cases "due_list s")
  case Nil
  then show ?thesis using CheckIfDue_none [OF assms(1,2)] assms(3) by simp
next
  case (Cons p ps)
  show ?thesis
  proof (cases "istatus s = IdleMode \<longrightarrow> itype (snd p) \<noteq> TimerInt \<or> tl (pending s) \<noteq> []")
    case True
    note C = CheckIfDue_due [OF assms(1,2) Cons True]
    have "fire D DL (snd p) (s\<lparr>pending := tl (pending s)\<rparr>) = Inr s'"
      using C(1) assms(3) by (cases "fire D DL (snd p) (s\<lparr>pending := tl (pending s)\<rparr>)") simp_all
    then show ?thesis using C(2) Cons by simp
  next
    case False
    then show ?thesis using CheckIfDue_lone_timer(2) [OF assms(2) Cons] assms(3) by simp
  qed
qed

text \<open>The loop fires exactly the interrupts that are due, in order, and ends.\<close>

lemma check_loop_fires:
  assumes "intr_ok s" "level s = IntOff" "istatus s \<noteq> IdleMode"
  shows "check_loop D DL s = Some (rbind (fire_all D DL (due_list s) s) (\<lambda>s'. Inr (put_back s')))"
  using assms
proof (induction "due_list s" arbitrary: s)
  case Nil
  then show ?case using CheckIfDue_none [of s] by (subst check_loop.simps) simp
next
  case (Cons p ps)
  have D1: "due_list s = p # ps" using Cons.hyps(2) by simp
  note C = CheckIfDue_due [OF Cons.prems(1,2) D1]
  show ?case
  proof (cases "fire D DL (snd p) (s\<lparr>pending := tl (pending s)\<rparr>)")
    case (Inl e)
    then show ?thesis using C(1) Cons.prems(3) D1 by (subst check_loop.simps) simp
  next
    case (Inr s')
    then have "intr_ok s'" "level s' = IntOff" "due_list s' = ps" "istatus s' = istatus s"
      using C(2) Cons.prems(3) by auto
    then have "check_loop D DL s' = Some (rbind (fire_all D DL ps s') (\<lambda>s'. Inr (put_back s')))"
      using Cons.hyps(1) [of s'] Cons.prems(3) by simp
    then show ?thesis using C(1) Cons.prems(3) D1 Inr by (subst check_loop.simps) simp
  qed
qed

text \<open>In every mode the loop ends; what it leaves due is at most the lone timer of an idle machine.\<close>

lemma check_loop_post:
  assumes "intr_ok s" "level s = IntOff"
  shows "\<exists>r. check_loop D DL s = Some r \<and> (\<forall>s'. r = Inr s' \<longrightarrow>
     intr_ok s' \<and> level s' = IntOff \<and> istatus s' = istatus s \<and> ticks s' = ticks s
     \<and> (due_list s' = [] \<or> istatus s = IdleMode \<and> (\<exists>k p. pending s' = [(k, p)] \<and> itype p = TimerInt)))"
  using assms
proof (induction "due_list s" arbitrary: s)
  case Nil
  then have "check_loop D DL s = Some (Inr (put_back s))"
    using CheckIfDue_none [of s] by (subst check_loop.simps) simp
  then show ?case using Nil due_list_put_back [of s] put_back_ok [of s] by auto
next
  case (Cons p ps)
  have D1: "due_list s = p # ps" using Cons.hyps(2) by simp
  show ?case
  proof (cases "istatus s = IdleMode \<longrightarrow> itype (snd p) \<noteq> TimerInt \<or> tl (pending s) \<noteq> []")
    case False
    have "pending s = [p]" and "CheckIfDue D DL False s = Inr (False, s\<lparr>pending := [p]\<rparr>)"
      using CheckIfDue_lone_timer [OF Cons.prems(2) D1 False] .
    then have "check_loop D DL s = Some (Inr (s\<lparr>pending := [p]\<rparr>))" by (subst check_loop.simps) simp
    then show ?thesis using False Cons.prems \<open>pending s = [p]\<close>
      by (cases p) (auto simp: intr_ok_def)
  next
    case True
    note C = CheckIfDue_due [OF Cons.prems D1 True]
    show ?thesis
    proof (cases "fire D DL (snd p) (s\<lparr>pending := tl (pending s)\<rparr>)")
      case (Inl e)
      then show ?thesis using C(1) by (subst check_loop.simps) simp
    next
      case (Inr s')
      then show ?thesis using C Cons.hyps(1) [of s'] by (subst check_loop.simps) auto
    qed
  qed
qed

text \<open>An idle machine: powered down, or moved to its next interrupt.\<close>

lemma CheckIfDue_idle_stop:
  assumes "level s = IntOff" "istatus s = IdleMode"
    "pending s = [] \<or> (\<exists>k p. pending s = [(k, p)] \<and> itype p = TimerInt)"
  shows "\<exists>s'. CheckIfDue D DL True s = Inr (False, s')"
  using assms by (auto simp: CheckIfDue_def Let_def)

lemma CheckIfDue_idle_go:
  assumes "level s = IntOff" "istatus s = IdleMode" "pending s = p # rest"
    "\<not> (rest = [] \<and> itype (snd p) = TimerInt)"
  shows "CheckIfDue D DL True s =
     rbind (fire D DL (snd p) (advance_to (fst p) (s\<lparr>pending := rest\<rparr>))) (\<lambda>s'. Inr (True, s'))"
  using assms by (cases p) (auto simp: CheckIfDue_def fire_def rbind_assoc advance_to_def Let_def)

text \<open>The earliest pending interrupt fires at its time; then those that are due by then.\<close>

lemma Idle_runs:
  assumes "intr_ok s" "level s = IntOff" "pending s = p # rest" "\<not> (rest = [] \<and> itype (snd p) = TimerInt)"
  shows "case fire D DL (snd p) (advance_to (fst p) (s\<lparr>istatus := IdleMode, pending := rest\<rparr>)) of
      Inl e \<Rightarrow> Idle D DL s = Some (Inl e)
    | Inr s1 \<Rightarrow> \<exists>r. check_loop D DL s1 = Some r \<and> (case r of
        Inl e \<Rightarrow> Idle D DL s = Some (Inl e)
      | Inr s2 \<Rightarrow> \<exists>s'. Idle D DL s = Some (Inr s') \<and> s' = s2\<lparr>yieldOnReturn := False, istatus := SystemMode\<rparr>
          \<and> intr_ok s' \<and> level s' = IntOff \<and> ticks s' = ticks (advance_to (fst p) s)
          \<and> (due_list s' = [] \<or> (\<exists>k q. pending s' = [(k, q)] \<and> itype q = TimerInt)))"
proof -
  let ?s = "s\<lparr>istatus := IdleMode\<rparr>"
  let ?a = "advance_to (fst p) (?s\<lparr>pending := rest\<rparr>)"
  have C: "CheckIfDue D DL True ?s = rbind (fire D DL (snd p) ?a) (\<lambda>s'. Inr (True, s'))"
    using CheckIfDue_idle_go [of ?s p rest] assms by simp
  have a: "intr_ok ?a" "level ?a = IntOff" "istatus ?a = IdleMode" "ticks ?a = ticks (advance_to (fst p) s)"
    using assms by (auto simp: advance_to_def intr_ok_def ticks_def)
  show ?thesis
  proof (cases "fire D DL (snd p) ?a")
    case (Inl e)
    then show ?thesis using C by (simp add: Idle_def)
  next
    case (Inr s1)
    have f: "intr_ok s1" "level s1 = IntOff" "istatus s1 = IdleMode" "ticks s1 = ticks (advance_to (fst p) s)"
      using fire_frame [OF a(1,2) Inr] a by (auto simp: handler_frame_def)
    obtain r where r: "check_loop D DL s1 = Some r"
      "\<And>s'. r = Inr s' \<Longrightarrow> intr_ok s' \<and> level s' = IntOff \<and> ticks s' = ticks s1
         \<and> (due_list s' = [] \<or> (\<exists>k p. pending s' = [(k, p)] \<and> itype p = TimerInt))"
      using check_loop_post [OF f(1,2)] by blast
    show ?thesis
    proof (cases r)
      case (Inl e)
      then show ?thesis using C Inr r(1) by (simp add: Idle_def)
    next
      case (Inr s2)
      then show ?thesis using C \<open>fire D DL (snd p) ?a = Inr s1\<close> r f(4) by (simp add: Idle_def)
    qed
  qed
qed

lemma Idle_go:
  assumes "intr_ok s" "level s = IntOff" "pending s = p # rest" "\<not> (rest = [] \<and> itype (snd p) = TimerInt)"
  shows "\<exists>r. Idle D DL s = Some r \<and> (\<forall>s'. r = Inr s' \<longrightarrow>
     intr_ok s' \<and> level s' = IntOff \<and> ticks s' = ticks (advance_to (fst p) s))"
proof (cases "fire D DL (snd p) (advance_to (fst p) (s\<lparr>istatus := IdleMode, pending := rest\<rparr>))")
  case (Inl e)
  then show ?thesis using Idle_runs [OF assms] by simp
next
  case (Inr s1)
  obtain r where r: "case r of Inl e \<Rightarrow> Idle D DL s = Some (Inl e)
      | Inr s2 \<Rightarrow> \<exists>s'. Idle D DL s = Some (Inr s') \<and> s' = s2\<lparr>yieldOnReturn := False, istatus := SystemMode\<rparr>
          \<and> intr_ok s' \<and> level s' = IntOff \<and> ticks s' = ticks (advance_to (fst p) s)
          \<and> (due_list s' = [] \<or> (\<exists>k q. pending s' = [(k, q)] \<and> itype q = TimerInt))"
    using Idle_runs [OF assms] unfolding Inr sum.case by (elim exE conjE)
  show ?thesis
  proof (cases r)
    case (Inl e)
    then show ?thesis using r by simp
  next
    case (Inr s2)
    then obtain s' where "Idle D DL s = Some (Inr s')" "intr_ok s'" "level s' = IntOff" "ticks s' = ticks (advance_to (fst p) s)"
      using r unfolding Inr sum.case by blast
    then show ?thesis by blast
  qed
qed

text \<open>A whole tick.\<close>

lemma OneTick_eq:
  assumes "intr_ok s" "istatus s \<noteq> IdleMode"
  shows "OneTick D DL Y s = Some (
     rbind (fire_all D DL (due_list (advance_tick s)) ((advance_tick s)\<lparr>level := IntOff\<rparr>)) (\<lambda>s1.
     if yieldOnReturn s1
     then Y (istatus s) ((put_back s1)\<lparr>level := IntOn, yieldOnReturn := False, istatus := SystemMode\<rparr>)
     else Inr ((put_back s1)\<lparr>level := IntOn\<rparr>)))"
proof -
  let ?s = "(advance_tick s)\<lparr>level := IntOff\<rparr>"
  have ok: "intr_ok ?s" "level ?s = IntOff" "istatus ?s \<noteq> IdleMode"
    using assms by (simp_all add: advance_tick_def)
  show ?thesis
    using check_loop_fires [OF ok]
    by (cases "fire_all D DL (due_list ?s) ?s") (simp_all add: OneTick_def ChangeLevel_def Let_def)
qed

text \<open>The interrupt part of a tick, up to the yield.\<close>

lemma tick_post:
  assumes "intr_ok s"
  shows "\<exists>r. check_loop D DL ((advance_tick s)\<lparr>level := IntOff\<rparr>) = Some r \<and>
    (\<forall>s'. r = Inr s' \<longrightarrow> intr_ok s' \<and> level s' = IntOff \<and> istatus s' = istatus s \<and> ticks s' = ticks (advance_tick s))"
proof -
  have ok: "intr_ok ((advance_tick s)\<lparr>level := IntOff\<rparr>)" "level ((advance_tick s)\<lparr>level := IntOff\<rparr>) = IntOff"
    using assms by (simp_all add: advance_tick_def)
  have "istatus ((advance_tick s)\<lparr>level := IntOff\<rparr>) = istatus s" by (simp add: advance_tick_def)
  then show ?thesis using check_loop_post [OF ok] by auto
qed

end

section \<open>The handlers of the timer\<close>

text \<open>The kernel with no device but the timer: \<open>machine\<close> is \<open>NULL\<close>, so there is no delayed load.\<close>

definition timer_dispatch :: "bool \<Rightarrow> ('h, 'z) dispatcher" where
  "timer_dispatch randomize h a s = TimerExpired h a randomize TimerInterruptHandler s"

lemma Timer_schedule_frame:
  "intr_ok s \<Longrightarrow> Timer_schedule h a rnd s = Inr s' \<Longrightarrow>
     handler_frame s s' \<and> inHandler s' = inHandler s \<and> istatus s' = istatus s"
  using Schedule_frame [of s h a TimerTicks TimerInt s']
    Schedule_frame [of "s\<lparr>rpos := Suc (rpos s)\<rparr>" h a "1 + int (rng s (rpos s)) smod (TimerTicks * 2)" TimerInt s']
  by (auto simp: Timer_schedule_def TimeOfNextInterrupt_def Random_def split: if_splits)

lemma timer_dispatch_frame:
  "intr_ok s \<Longrightarrow> timer_dispatch rnd h a s = Inr s' \<Longrightarrow> handler_frame s s'"
  by (auto simp: timer_dispatch_def TimerExpired_def TimerInterruptHandler_def YieldOnReturn_def rbind_Inr_iff
      dest: Timer_schedule_frame split: if_splits)

interpretation timer_kernel: interrupt_client "timer_dispatch rnd" Inr for rnd
  by unfold_locales (auto intro: timer_dispatch_frame handler_frame_refl)

section \<open>Properties\<close>

text \<open>The state after start-up with a timer of fixed period, for the witnesses.\<close>

definition demo_intr :: "unit intr" where
  "demo_intr = (Interrupt_new (\<lambda>n. n))\<lparr>
     pending := [(100, \<lparr>handler = (), arg = 1, whenp = 100, itype = TimerInt\<rparr>)],
     stats := Statistics_new\<lparr>totalTicks := 95, systemTicks := 95\<rparr>\<rparr>"

lemmas demo_eval = demo_intr_def advance_tick_def fire_def timer_dispatch_def TimerExpired_def Timer_schedule_def
    TimeOfNextInterrupt_def Schedule_def TimerInterruptHandler_def YieldOnReturn_def Interrupt_new_def
    Statistics_new_def due_list_def put_back_def PendingInterrupt_new_def Let_def

lemma demo_due: "due_list (advance_tick demo_intr) = pending demo_intr"
  by (simp add: due_list_def advance_tick_def demo_intr_def Statistics_new_def Interrupt_new_def)

lemma demo_intr_ok: "intr_ok demo_intr"
  by (simp add: intr_ok_def demo_intr_def)

text \<open>C6: one tick: simulated time advances by the tick of the mode, then every interrupt that is due
  fires exactly once, in order of time, with interrupts off; the loop ends, interrupts are on
  again, and the interrupted thread yields if and only if a handler asked for it.\<close>

theorem OneTick_fires_due:
  assumes "interrupt_client D DL" "intr_ok s" "istatus s \<noteq> IdleMode"
  shows "OneTick D DL Y s = Some (
     rbind (fire_all D DL (due_list (advance_tick s)) ((advance_tick s)\<lparr>level := IntOff\<rparr>)) (\<lambda>s1.
     if yieldOnReturn s1
     then Y (istatus s) ((put_back s1)\<lparr>level := IntOn, yieldOnReturn := False, istatus := SystemMode\<rparr>)
     else Inr ((put_back s1)\<lparr>level := IntOn\<rparr>)))"
  using interrupt_client.OneTick_eq [OF assms] .

theorem OneTick_fires_due_witness:
  "\<exists>s'. OneTick (timer_dispatch False) Inr (\<lambda>_. Inr) demo_intr = Some (Inr s') \<and> due_list demo_intr = []
     \<and> totalTicks (stats s') = 105 \<and> map fst (pending s') = [205] \<and> level s' = IntOn"
proof -
  note T = OneTick_fires_due [OF timer_kernel.interrupt_client_axioms demo_intr_ok, of False "\<lambda>_. Inr"]
  show ?thesis using T by (simp add: demo_due demo_eval)
qed

text \<open>Ticks are accounted for: total time stays the sum of idle, system and user time, and
  simulated time moves forward over every tick and never backward over an idle period,
  whatever the handlers do within their contract.\<close>

lemma ticks_accounted:
  assumes "interrupt_client D DL" "intr_ok s" "ticks_ok s"
    "\<And>t t' old. intr_ok t \<Longrightarrow> ticks_ok t \<Longrightarrow> Y old t = Inr t' \<Longrightarrow> ticks_ok t' \<and> totalTicks (stats t) \<le> totalTicks (stats t')"
  shows "(\<forall>s'. OneTick D DL Y s = Some (Inr s') \<longrightarrow> ticks_ok s' \<and> totalTicks (stats s) < totalTicks (stats s'))
    \<and> (\<forall>s'. level s = IntOff \<and> Idle D DL s = Some (Inr s') \<longrightarrow> ticks_ok s' \<and> totalTicks (stats s) \<le> totalTicks (stats s'))"
proof (intro conjI allI impI)
  fix s' assume T: "OneTick D DL Y s = Some (Inr s')"
  obtain s1 where s1: "check_loop D DL ((advance_tick s)\<lparr>level := IntOff\<rparr>) = Some (Inr s1)"
      "intr_ok s1" "ticks s1 = ticks (advance_tick s)"
    using interrupt_client.tick_post [OF assms(1,2)] T
    by (auto simp: OneTick_def ChangeLevel_def Let_def obind_Inr_iff)
  let ?t = "s1\<lparr>level := IntOn, yieldOnReturn := False, istatus := SystemMode\<rparr>"
  have t: "intr_ok ?t" "ticks_ok ?t" "ticks_ok s1" "totalTicks (stats s) < totalTicks (stats s1)"
    using s1(2,3) assms(3) by (auto simp: ticks_ok_def ticks_def advance_tick_def split: if_splits)
  show "ticks_ok s'" "totalTicks (stats s) < totalTicks (stats s')"
    using T s1(1) t assms(4) [OF t(1,2)]
    by (fastforce simp: OneTick_def ChangeLevel_def Let_def obind_Inr_iff ticks_ok_def split: if_splits)+
next
  fix s' assume T: "level s = IntOff \<and> Idle D DL s = Some (Inr s')"
  have "ticks_ok s' \<and> totalTicks (stats s) \<le> totalTicks (stats s')"
  proof (cases "pending s = [] \<or> (\<exists>k p. pending s = [(k, p)] \<and> itype p = TimerInt)")
    case True
    then show ?thesis
      using interrupt_client.CheckIfDue_idle_stop [OF assms(1), of "s\<lparr>istatus := IdleMode\<rparr>"] T
      by (auto simp: Idle_def Powerdown_def)
  next
    case False
    then obtain p rest where pe: "pending s = p # rest" "\<not> (rest = [] \<and> itype (snd p) = TimerInt)"
      by (cases "pending s") auto
    then have "ticks s' = ticks (advance_to (fst p) s)"
      using interrupt_client.Idle_go [OF assms(1,2) _ pe] T by auto
    then show ?thesis using assms(3) by (auto simp: ticks_ok_def ticks_def advance_to_def split: if_splits)
  qed
  then show "ticks_ok s'" "totalTicks (stats s) \<le> totalTicks (stats s')" by simp_all
qed

text \<open>C27: an idle machine powers down exactly when nothing is pending but possibly the timer. Otherwise the clock moves to the
  time of the earliest pending interrupt (or stays, if that is overdue), this interrupt fires, then the loop over those that are due by then returns;
  an error of a handler stops the machine. When there is none, idling ends in system mode, with interrupts off, no yield
  requested, and nothing due left but possibly a lone timer.\<close>

theorem Idle_behaviour:
  assumes "interrupt_client D DL" "intr_ok s" "level s = IntOff"
  shows "if pending s = [] \<or> (\<exists>k p. pending s = [(k, p)] \<and> itype p = TimerInt)
    then Idle D DL s = Some (Inl PowerDown)
    else case fire D DL (snd (hd (pending s))) (advance_to (fst (hd (pending s))) (s\<lparr>istatus := IdleMode, pending := tl (pending s)\<rparr>)) of
        Inl e \<Rightarrow> Idle D DL s = Some (Inl e)
      | Inr s1 \<Rightarrow> \<exists>r. check_loop D DL s1 = Some r \<and> (case r of
          Inl e \<Rightarrow> Idle D DL s = Some (Inl e)
        | Inr s2 \<Rightarrow> \<exists>s'. Idle D DL s = Some (Inr s') \<and> s' = s2\<lparr>yieldOnReturn := False, istatus := SystemMode\<rparr> \<and> level s' = IntOff
            \<and> totalTicks (stats s') = max (totalTicks (stats s)) (fst (hd (pending s)))
            \<and> (due_list s' = [] \<or> (\<exists>k q. pending s' = [(k, q)] \<and> itype q = TimerInt)))"
proof (cases "pending s = [] \<or> (\<exists>k p. pending s = [(k, p)] \<and> itype p = TimerInt)")
  case True
  then show ?thesis
    using interrupt_client.CheckIfDue_idle_stop [OF assms(1), of "s\<lparr>istatus := IdleMode\<rparr>"] assms(3)
    by (auto simp: Idle_def Powerdown_def)
next
  case False
  then obtain p rest where pe: "pending s = p # rest" "\<not> (rest = [] \<and> itype (snd p) = TimerInt)"
    by (cases "pending s") auto
  have m: "totalTicks (stats (advance_to (fst p) s)) = max (totalTicks (stats s)) (fst p)"
    by (simp add: advance_to_def)
  show ?thesis
    using interrupt_client.Idle_runs [OF assms pe] False pe(1) m by (auto simp: ticks_def split: sum.splits)
qed

text \<open>The disk is at work (its interrupt is that of any device here), and the timer runs: the machine idles until the earlier of the two.\<close>

theorem Idle_behaviour_witness:
  "Idle (timer_dispatch True) Inr demo_intr = Some (Inl PowerDown)
   \<and> (\<exists>s'. Idle (timer_dispatch False) Inr (demo_intr\<lparr>pending := [(150, PendingInterrupt_new () 1 150 TimerInt), (400, PendingInterrupt_new () 2 400 DiskInt)]\<rparr>)
        = Some (Inr s') \<and> totalTicks (stats s') = 150)"
proof -
  let ?s = "demo_intr\<lparr>pending := [(150, PendingInterrupt_new () 1 150 TimerInt), (400, PendingInterrupt_new () 2 400 DiskInt)]\<rparr>"
  have l: "level demo_intr = IntOff" "\<exists>k p. pending demo_intr = [(k, p)] \<and> itype p = TimerInt"
    by (simp_all add: demo_intr_def Interrupt_new_def)
  have ok: "intr_ok ?s" by (simp add: intr_ok_def PendingInterrupt_new_def)
  have "level ?s = IntOff" using l(1) by simp
  note I = Idle_behaviour [OF timer_kernel.interrupt_client_axioms ok this, of False]
  have "\<exists>s1 s2. fire (timer_dispatch False) Inr (snd (hd (pending ?s))) (advance_to (fst (hd (pending ?s))) (?s\<lparr>istatus := IdleMode, pending := tl (pending ?s)\<rparr>)) = Inr s1
      \<and> check_loop (timer_dispatch False) Inr s1 = Some (Inr s2)"
    by (simp add: fire_def advance_to_def demo_intr_def Interrupt_new_def PendingInterrupt_new_def timer_dispatch_def TimerExpired_def Timer_schedule_def
        TimeOfNextInterrupt_def Schedule_def TimerInterruptHandler_def YieldOnReturn_def Let_def, subst check_loop.simps,
        simp add: CheckIfDue_def Statistics_new_def)
  moreover have "totalTicks (stats demo_intr) = 95" by (simp add: demo_intr_def)
  ultimately show ?thesis using I Idle_behaviour [OF timer_kernel.interrupt_client_axioms demo_intr_ok l(1), of True] l(2)
    by (auto split: sum.splits)
qed

lemma TimeOfNextInterrupt_range:
  "\<exists>t s'. TimeOfNextInterrupt rnd s = (t, s') \<and> 1 \<le> t \<and> t \<le> 200 \<and> (s' = s \<or> s' = s\<lparr>rpos := Suc (rpos s)\<rparr>)"
proof -
  have "int (rng s (rpos s)) smod 200 = int (rng s (rpos s)) mod 200" by (simp add: smod_nonneg)
  moreover have "0 \<le> int (rng s (rpos s)) mod 200" "int (rng s (rpos s)) mod 200 < 200" by simp_all
  ultimately have "1 \<le> 1 + int (rng s (rpos s)) smod 200 \<and> 1 + int (rng s (rpos s)) smod 200 \<le> 200" by linarith
  then show ?thesis by (cases rnd) (simp_all add: TimeOfNextInterrupt_def Random_def)
qed

text \<open>The timer never goes away: with a timer interrupt as the only pending one, the interrupt
  loop of a tick fails no assertion and leaves exactly one timer interrupt pending, at a time
  after now and at most 200 ticks away once it fired; if it fired, a yield is requested.\<close>

lemma timer_stays_armed:
  assumes "intr_ok s" "level s = IntOff" "istatus s \<noteq> IdleMode" "pending s = [(t, p)]" "itype p = TimerInt"
  shows "\<exists>s' t' p'. check_loop (timer_dispatch rnd) Inr s = Some (Inr s') \<and> pending s' = [(t', p')]
     \<and> itype p' = TimerInt \<and> totalTicks (stats s) < t'
     \<and> (if t \<le> totalTicks (stats s) then yieldOnReturn s' \<and> t' \<le> totalTicks (stats s) + 200 else t' = t)"
proof (cases "t \<le> totalTicks (stats s)")
  case True
  let ?s = "s\<lparr>pending := [], inHandler := True, istatus := SystemMode\<rparr>"
  obtain d s1 where d: "TimeOfNextInterrupt rnd ?s = (d, s1)" "1 \<le> d" "d \<le> 200"
      "s1 = ?s \<or> s1 = ?s\<lparr>rpos := Suc (rpos s)\<rparr>"
    using TimeOfNextInterrupt_range [of rnd ?s] by auto
  let ?q = "PendingInterrupt_new (handler p) (arg p) (totalTicks (stats s) + d) TimerInt"
  have "due_list s = [(t, p)]" using True assms(4) by (simp add: due_list_def)
  moreover have "\<exists>s2. fire (timer_dispatch rnd) Inr p (s\<lparr>pending := []\<rparr>) = Inr s2
      \<and> pending s2 = [(totalTicks (stats s) + d, ?q)] \<and> yieldOnReturn s2"
    using d by (auto simp: fire_def timer_dispatch_def TimerExpired_def Timer_schedule_def Schedule_def Let_def
        TimerInterruptHandler_def YieldOnReturn_def)
  ultimately obtain s2 where "check_loop (timer_dispatch rnd) Inr s = Some (Inr (put_back s2))"
      "pending s2 = [(totalTicks (stats s) + d, ?q)]" "yieldOnReturn s2"
    using timer_kernel.check_loop_fires [OF assms(1-3), of rnd] assms(4) by auto
  then show ?thesis using True d by (auto simp: put_back_def PendingInterrupt_new_def)
next
  case False
  then have "due_list s = []" using assms(4) by (simp add: due_list_def)
  then show ?thesis
    using timer_kernel.check_loop_fires [OF assms(1-3), of rnd] assms(4,5) False by (simp add: put_back_def)
qed

text \<open>Interrupts that are scheduled for the same time do not keep their order: a look at the list
  before they are due takes the first and puts it back behind the other.\<close>

lemma CheckIfDue_rotates_equals:
  assumes "level s = IntOff" "pending s = (t, p) # (t, q) # rest" "totalTicks (stats s) < t"
    "\<forall>r \<in> set rest. t < fst r"
  shows "CheckIfDue D DL False s = Inr (False, s\<lparr>pending := (t, q) # (t, p) # rest\<rparr>)"
proof -
  have "sorted_ins t p rest = (t, p) # rest" using assms(4) by (cases rest) auto
  then show ?thesis using assms(1-3) by (simp add: CheckIfDue_def)
qed

end
