(* ===== verification/ThreadModel.thy ===== *)
theory ThreadModel
  imports InterruptModel
begin

text \<open>
  Threads, the scheduler and semaphores (threads/thread.h, threads/thread.cc,
  threads/scheduler.h, threads/scheduler.cc, threads/synch.h, threads/synch.cc).

  The kernel state extends the interrupt state of theory InterruptModel. A thread that is not
  executing keeps, in the code, its kernel stack and registers (\<open>stackTop\<close>, \<open>machineState\<close>);
  here it keeps \<open>kstack\<close>, the list of the code sections that are still to be run, innermost
  first. Every routine is cut at the points where \<open>SWITCH\<close> may be called: what follows
  such a point is a \<open>frame\<close>. \<open>SWITCH\<close> itself (threads/switch.S) stores the continuation of the old
  thread and resumes that of the new one, which is the change of \<open>currentThread\<close> here.

  The ready list, the list of all threads and the queues of the semaphores are contents of
  \<open>List\<close> objects, on which theory NachosList shows \<open>Append\<close> and \<open>Remove\<close> to be a queue.

  The parts: the routines in the order of the code, the step relation \<open>kstep\<close>, start-up, the invariant \<open>kinv\<close> with the lemmas that
  every routine keeps it, the contract \<open>kernel_client\<close> of the interrupt handlers, the properties, and what a context switch saves.
\<close>

section \<open>Data\<close>

datatype ThreadStatus = JUST_CREATED | RUNNING | READY | BLOCKED

datatype frame =
    RunTail                     \<comment> \<open>\<open>Scheduler::Run\<close> after \<open>SWITCH\<close>\<close>
  | RestoreLevel IntStatus      \<comment> \<open>the last \<open>SetLevel (oldLevel)\<close> of \<open>Thread::Yield\<close>\<close>
  | RestoreStatus MachineStatus \<comment> \<open>\<open>status = old\<close> of \<open>Interrupt::OneTick\<close>, after the yield\<close>
  | PLoop addr IntStatus        \<comment> \<open>the loop of \<open>Semaphore::P\<close> on a semaphore, with its \<open>oldLevel\<close>\<close>
  | SetupFrame                  \<comment> \<open>\<open>SetupThreadState\<close>, first code of a new thread\<close>
  | Body addr addr              \<comment> \<open>the procedure and argument given to \<open>Thread::Start\<close>, or the main program\<close>
  | FinishFrame                 \<comment> \<open>\<open>ThreadFinish\<close>, called when the procedure returns\<close>

text \<open>\<open>stack\<close>: \<open>None\<close> is the null pointer, otherwise the word at the bottom of the stack.\<close>

record Thread =
  tname :: string
  tstatus :: ThreadStatus
  stack :: "(64 word) option"
  main_stack :: bool
  userRegisters :: "nat \<Rightarrow> 32 word"
  space :: addr
  kstack :: "frame list"

record Semaphore =
  semvalue :: int
  queue :: "addr list"

text \<open>
  \<open>spaces\<close> gives the page table of an address space; \<open>mach\<close> the simulated machine. In the code the machine
  holds a pointer to the page table of an address space; here \<open>tablePtr\<close> tells whose table it is, the machine holds the table
  itself, and \<open>cur_spaces\<close> is what the address spaces hold, with the bits that the machine has set in the current table.
\<close>

record 'h kernel = "'h intr" +
  threads :: "addr \<rightharpoonup> Thread"
  currentThread :: addr
  threadToBeDestroyed :: addr
  threadList :: "addr list"
  readyList :: "addr list"
  halted :: bool
  sems :: "addr \<rightharpoonup> Semaphore"
  mach :: machine
  spaces :: "addr \<rightharpoonup> TranslationEntry list"
  tablePtr :: addr

definition cur_spaces :: "('h, 'z) kernel_scheme \<Rightarrow> addr \<rightharpoonup> TranslationEntry list" where
  "cur_spaces s = (case currentPageTable (mach s) of None \<Rightarrow> spaces s | Some pt \<Rightarrow> (spaces s)(tablePtr s \<mapsto> pt))"

lemma cur_spaces_simps [simp]:
  "cur_spaces (s\<lparr>threads := x1\<rparr>) = cur_spaces s" "cur_spaces (s\<lparr>currentThread := x2\<rparr>) = cur_spaces s"
  "cur_spaces (s\<lparr>threadToBeDestroyed := x2\<rparr>) = cur_spaces s" "cur_spaces (s\<lparr>threadList := x3\<rparr>) = cur_spaces s"
  "cur_spaces (s\<lparr>readyList := x3\<rparr>) = cur_spaces s" "cur_spaces (s\<lparr>sems := x4\<rparr>) = cur_spaces s"
  "cur_spaces (s\<lparr>mach := (mach s)\<lparr>registers := x5\<rparr>\<rparr>) = cur_spaces s" "cur_spaces (s\<lparr>level := x6\<rparr>) = cur_spaces s"
  "cur_spaces (s\<lparr>istatus := x7\<rparr>) = cur_spaces s" "cur_spaces (s\<lparr>stats := x8\<rparr>) = cur_spaces s"
  "cur_spaces (s\<lparr>yieldOnReturn := x9\<rparr>) = cur_spaces s"
  by (simp_all add: cur_spaces_def split: option.split)

lemma cur_spaces_dom: "spaces s sp \<noteq> None \<Longrightarrow> cur_spaces s sp \<noteq> None"
  by (auto simp: cur_spaces_def split: option.splits)

abbreviation (input) "STACK_FENCEPOST \<equiv> (0xdeadbeef :: 64 word)"

type_synonym ('h, 'z) kdispatch = "'h \<Rightarrow> addr \<Rightarrow> ('h, 'z) kernel_scheme \<Rightarrow> ('h, 'z) kernel_scheme res"

section \<open>Threads\<close>

definition upd_thread :: "addr \<Rightarrow> (Thread \<Rightarrow> Thread) \<Rightarrow> ('h, 'z) kernel_scheme \<Rightarrow> ('h, 'z) kernel_scheme res" where
  "upd_thread t f s = (case threads s t of
      None \<Rightarrow> Inl WildAccess
    | Some c \<Rightarrow> Inr (s\<lparr>threads := (threads s)(t \<mapsto> f c)\<rparr>))"

definition get_thread :: "addr \<Rightarrow> ('h, 'z) kernel_scheme \<Rightarrow> Thread res" where
  "get_thread t s = (case threads s t of None \<Rightarrow> Inl WildAccess | Some c \<Rightarrow> Inr c)"

definition setStatus :: "ThreadStatus \<Rightarrow> addr \<Rightarrow> ('h, 'z) kernel_scheme \<Rightarrow> ('h, 'z) kernel_scheme res" where
  "setStatus st t s = upd_thread t (\<lambda>c. c\<lparr>tstatus := st\<rparr>) s"

text \<open>\<open>t\<close> is the storage that \<open>new Thread\<close> returned; \<open>regs\<close> what it held where the registers are.\<close>

definition Thread_new :: "string \<Rightarrow> (nat \<Rightarrow> 32 word) \<Rightarrow> addr \<Rightarrow> ('h, 'z) kernel_scheme \<Rightarrow> ('h, 'z) kernel_scheme" where
  "Thread_new threadName regs t s =
     s\<lparr>threads := (threads s)(t \<mapsto>
         \<lparr>tname = threadName, tstatus = JUST_CREATED, stack = None, main_stack = False,
          userRegisters = regs(LoadReg := 0, LoadValueReg := 0), space = NULL, kstack = []\<rparr>),
       threadList := threadList s @ [t]\<rparr>"

definition SetMain :: "addr \<Rightarrow> ('h, 'z) kernel_scheme \<Rightarrow> ('h, 'z) kernel_scheme res" where
  "SetMain t s = upd_thread t (\<lambda>c. c\<lparr>main_stack := True, tstatus := RUNNING\<rparr>) s"

text \<open>The destructor frees the stack with the thread; \<open>ThreadList.Remove\<close> asserts to find it.\<close>

definition Thread_delete :: "addr \<Rightarrow> ('h, 'z) kernel_scheme \<Rightarrow> ('h, 'z) kernel_scheme res" where
  "Thread_delete t s =
     rbind (ASSERT (t \<noteq> currentThread s)) (\<lambda>_.
     rbind (get_thread t s) (\<lambda>_.
     rbind (ASSERT (t \<in> set (threadList s))) (\<lambda>_.
     Inr (s\<lparr>threads := (threads s)(t := None), threadList := remove1 t (threadList s)\<rparr>))))"

text \<open>
  \<open>StackAllocate\<close> prepares the first switch to the thread: \<open>ThreadRoot\<close> calls
  \<open>SetupThreadState\<close>, then the procedure, then \<open>ThreadFinish\<close>.
\<close>

definition StackAllocate :: "addr \<Rightarrow> addr \<Rightarrow> addr \<Rightarrow> ('h, 'z) kernel_scheme \<Rightarrow> ('h, 'z) kernel_scheme res" where
  "StackAllocate t func x s =
     upd_thread t (\<lambda>c. c\<lparr>stack := Some STACK_FENCEPOST, kstack := [SetupFrame, Body func x, FinishFrame]\<rparr>) s"

definition CheckOverflow :: "addr \<Rightarrow> ('h, 'z) kernel_scheme \<Rightarrow> unit res" where
  "CheckOverflow t s =
     rbind (get_thread t s) (\<lambda>c.
     if \<not> main_stack c then (case stack c of None \<Rightarrow> Inr () | Some w \<Rightarrow> ASSERT (w = STACK_FENCEPOST))
     else Inr ())"

definition SaveUserState :: "addr \<Rightarrow> ('h, 'z) kernel_scheme \<Rightarrow> ('h, 'z) kernel_scheme res" where
  "SaveUserState t s =
     upd_thread t (\<lambda>c. c\<lparr>userRegisters := (\<lambda>i. if i < NumTotalRegs then registers (mach s) i else userRegisters c i)\<rparr>) s"

definition RestoreUserState :: "addr \<Rightarrow> ('h, 'z) kernel_scheme \<Rightarrow> ('h, 'z) kernel_scheme res" where
  "RestoreUserState t s =
     rbind (get_thread t s) (\<lambda>c.
     Inr (s\<lparr>mach := (mach s)\<lparr>registers := (\<lambda>i. if i < NumTotalRegs then userRegisters c i else registers (mach s) i)\<rparr>\<rparr>))"

text \<open>\<open>AddrSpace::SaveState\<close> (empty in the code) and \<open>AddrSpace::RestoreState\<close>, which sets the pointer; the table
  that the machine leaves stays with its address space as the machine has marked it.\<close>

definition SaveState :: "addr \<Rightarrow> ('h, 'z) kernel_scheme \<Rightarrow> ('h, 'z) kernel_scheme res" where
  "SaveState sp s = Inr s"

definition RestoreState :: "addr \<Rightarrow> ('h, 'z) kernel_scheme \<Rightarrow> ('h, 'z) kernel_scheme res" where
  "RestoreState sp s = (case cur_spaces s sp of
      None \<Rightarrow> Inl WildAccess
    | Some pt \<Rightarrow> Inr (s\<lparr>spaces := cur_spaces s, tablePtr := sp,
        mach := (mach s)\<lparr>currentPageTable := Some pt, currentPageTableSize := of_nat (length pt)\<rparr>\<rparr>))"

text \<open>The part of a context switch that loads the user state of the thread that starts to run.\<close>

definition restore_space :: "('h, 'z) kernel_scheme \<Rightarrow> ('h, 'z) kernel_scheme res" where
  "restore_space s =
     rbind (get_thread (currentThread s) s) (\<lambda>c.
     if space c \<noteq> NULL
     then rbind (RestoreUserState (currentThread s) s) (RestoreState (space c))
     else Inr s)"

section \<open>Scheduler\<close>

definition Scheduler_Stop :: "('h, 'z) kernel_scheme \<Rightarrow> ('h, 'z) kernel_scheme" where
  "Scheduler_Stop s = s\<lparr>halted := True\<rparr>"

definition ReadyToRun :: "addr \<Rightarrow> ('h, 'z) kernel_scheme \<Rightarrow> ('h, 'z) kernel_scheme res" where
  "ReadyToRun t s =
     rbind (setStatus READY t s) (\<lambda>s1. Inr (s1\<lparr>readyList := readyList s1 @ [t]\<rparr>))"

definition FindNextToRun :: "('h, 'z) kernel_scheme \<Rightarrow> addr \<times> ('h, 'z) kernel_scheme" where
  "FindNextToRun s =
     (if halted s then (NULL, s)
      else case readyList s of [] \<Rightarrow> (NULL, s) | t # ts \<Rightarrow> (t, s\<lparr>readyList := ts\<rparr>))"

definition push_frame :: "frame \<Rightarrow> ('h, 'z) kernel_scheme \<Rightarrow> ('h, 'z) kernel_scheme res" where
  "push_frame f s = upd_thread (currentThread s) (\<lambda>c. c\<lparr>kstack := f # kstack c\<rparr>) s"

text \<open>\<open>Scheduler::Run\<close> up to \<open>SWITCH\<close>; \<open>run_tail\<close> is what the thread does when it runs again.\<close>

definition Scheduler_Run :: "addr \<Rightarrow> ('h, 'z) kernel_scheme \<Rightarrow> ('h, 'z) kernel_scheme res" where
  "Scheduler_Run nextThread s =
     (let oldThread = currentThread s in
      rbind (ASSERT (level s = IntOff)) (\<lambda>_.
      rbind (get_thread oldThread s) (\<lambda>c.
      rbind (if space c \<noteq> NULL then rbind (SaveUserState oldThread s) (SaveState (space c)) else Inr s) (\<lambda>s1.
      rbind (CheckOverflow oldThread s1) (\<lambda>_.
      rbind (push_frame RunTail s1) (\<lambda>s2.
      setStatus RUNNING nextThread (s2\<lparr>currentThread := nextThread\<rparr>)))))))"

definition run_tail :: "('h, 'z) kernel_scheme \<Rightarrow> ('h, 'z) kernel_scheme res" where
  "run_tail s =
     (let destroying = threadToBeDestroyed s in
      rbind (if destroying \<noteq> NULL then Thread_delete destroying (s\<lparr>threadToBeDestroyed := NULL\<rparr>) else Inr s)
      restore_space)"

section \<open>Giving up the processor\<close>

definition Yield :: "('h, 'z) kernel_scheme \<Rightarrow> ('h, 'z) kernel_scheme res" where
  "Yield s =
     (let oldLevel = level s in
      rbind (push_frame (RestoreLevel oldLevel) (ChangeLevel oldLevel IntOff s)) (\<lambda>s1.
      let (nextThread, s2) = FindNextToRun s1 in
      if nextThread \<noteq> NULL
      then rbind (ReadyToRun (currentThread s2) s2) (Scheduler_Run nextThread)
      else Inr s2))"

text \<open>The delayed load of an interrupted user program, and the yield at the end of a tick.\<close>

definition kernel_DL :: "('h, 'z) kernel_scheme \<Rightarrow> ('h, 'z) kernel_scheme res" where
  "kernel_DL s = rbind (DelayedLoad 0 0 (mach s)) (\<lambda>m. Inr (s\<lparr>mach := m\<rparr>))"

definition tick_yield :: "MachineStatus \<Rightarrow> ('h, 'z) kernel_scheme \<Rightarrow> ('h, 'z) kernel_scheme res" where
  "tick_yield old s = rbind (push_frame (RestoreStatus old) s) Yield"

definition kSetLevel ::
  "('h, 'z) kdispatch \<Rightarrow> IntStatus \<Rightarrow> ('h, 'z) kernel_scheme \<Rightarrow> ('h, 'z) kernel_scheme res option" where
  "kSetLevel D now s = obind (SetLevel D kernel_DL tick_yield now s) (\<lambda>(_, s'). Some (Inr s'))"

text \<open>The loop of \<open>Sleep\<close> that idles until some thread is ready.\<close>

partial_function (option) sleep_loop ::
  "('h, 'z) kdispatch \<Rightarrow> ('h, 'z) kernel_scheme \<Rightarrow> (addr \<times> ('h, 'z) kernel_scheme) res option" where
  "sleep_loop D s =
     (let (nextThread, s1) = FindNextToRun s in
      if nextThread \<noteq> NULL then Some (Inr (nextThread, s1))
      else (case Idle D kernel_DL s1 of
          None \<Rightarrow> None
        | Some (Inl e) \<Rightarrow> Some (Inl e)
        | Some (Inr s2) \<Rightarrow> sleep_loop D s2))"

definition Sleep :: "('h, 'z) kdispatch \<Rightarrow> ('h, 'z) kernel_scheme \<Rightarrow> ('h, 'z) kernel_scheme res option" where
  "Sleep D s =
     obind (Some (ASSERT (level s = IntOff))) (\<lambda>_.
     obind (Some (setStatus BLOCKED (currentThread s) s)) (\<lambda>s1.
     obind (sleep_loop D s1) (\<lambda>(nextThread, s2).
     Some (Scheduler_Run nextThread s2))))"

definition Finish :: "('h, 'z) kdispatch \<Rightarrow> ('h, 'z) kernel_scheme \<Rightarrow> ('h, 'z) kernel_scheme res option" where
  "Finish D s =
     (let s1 = ChangeLevel (level s) IntOff s in
      obind (Some (ASSERT (threadToBeDestroyed s1 = NULL))) (\<lambda>_.
      Sleep D (s1\<lparr>threadToBeDestroyed := currentThread s1\<rparr>)))"

definition Start ::
  "('h, 'z) kdispatch \<Rightarrow> addr \<Rightarrow> addr \<Rightarrow> addr \<Rightarrow> ('h, 'z) kernel_scheme \<Rightarrow> ('h, 'z) kernel_scheme res option" where
  "Start D t func x s =
     obind (Some (get_thread t s)) (\<lambda>c.
     obind (Some (ASSERT (tstatus c = JUST_CREATED))) (\<lambda>_.
     obind (Some (StackAllocate t func x s)) (\<lambda>s1.
     let oldLevel = level s1 in
     obind (Some (ReadyToRun t (ChangeLevel oldLevel IntOff s1))) (\<lambda>s2.
     kSetLevel D oldLevel s2))))"

definition SetupThreadState ::
  "('h, 'z) kdispatch \<Rightarrow> ('h, 'z) kernel_scheme \<Rightarrow> ('h, 'z) kernel_scheme res option" where
  "SetupThreadState D s =
     obind (Some (if threadToBeDestroyed s \<noteq> NULL
                  then rbind (Thread_delete (threadToBeDestroyed s) s) (\<lambda>s1. Inr (s1\<lparr>threadToBeDestroyed := NULL\<rparr>))
                  else Inr s)) (\<lambda>s1.
     obind (Some (restore_space s1)) (kSetLevel D IntOn))"

section \<open>Semaphores\<close>

definition Semaphore_new :: "int \<Rightarrow> Semaphore" where
  "Semaphore_new initialValue = \<lparr>semvalue = initialValue, queue = []\<rparr>"

definition get_sem :: "addr \<Rightarrow> ('h, 'z) kernel_scheme \<Rightarrow> Semaphore res" where
  "get_sem a s = (case sems s a of None \<Rightarrow> Inl WildAccess | Some q \<Rightarrow> Inr q)"

definition set_sem :: "addr \<Rightarrow> Semaphore \<Rightarrow> ('h, 'z) kernel_scheme \<Rightarrow> ('h, 'z) kernel_scheme" where
  "set_sem a q s = s\<lparr>sems := (sems s)(a \<mapsto> q)\<rparr>"

text \<open>The loop of \<open>P\<close>, from its test on; \<open>Sleep\<close> comes back to the test through the frame.\<close>

definition P_loop ::
  "('h, 'z) kdispatch \<Rightarrow> addr \<Rightarrow> IntStatus \<Rightarrow> ('h, 'z) kernel_scheme \<Rightarrow> ('h, 'z) kernel_scheme res option" where
  "P_loop D a oldLevel s =
     obind (Some (get_sem a s)) (\<lambda>q.
     if semvalue q = 0
     then obind (Some (push_frame (PLoop a oldLevel) (set_sem a (q\<lparr>queue := queue q @ [currentThread s]\<rparr>) s))) (Sleep D)
     else kSetLevel D oldLevel (set_sem a (q\<lparr>semvalue := semvalue q - 1\<rparr>) s))"

definition Semaphore_P ::
  "('h, 'z) kdispatch \<Rightarrow> addr \<Rightarrow> ('h, 'z) kernel_scheme \<Rightarrow> ('h, 'z) kernel_scheme res option" where
  "Semaphore_P D a s =
     (let oldLevel = level s; s1 = ChangeLevel oldLevel IntOff s in
      obind (Some (get_sem a s1)) (\<lambda>q.
      obind (Some (ASSERT (semvalue q \<ge> 0))) (\<lambda>_.
      P_loop D a oldLevel s1)))"

text \<open>\<open>V\<close> before its last \<open>SetLevel\<close>; this is all of it when interrupts are off already. The value is a C \<open>int\<close>.\<close>

definition V_body :: "addr \<Rightarrow> ('h, 'z) kernel_scheme \<Rightarrow> ('h, 'z) kernel_scheme res" where
  "V_body a s =
     rbind (get_sem a s) (\<lambda>q.
     rbind (ASSERT (semvalue q \<ge> 0)) (\<lambda>_.
     case queue q of
       [] \<Rightarrow> rbind (int_inc (semvalue q)) (\<lambda>v. Inr (set_sem a (q\<lparr>semvalue := v\<rparr>) s))
     | t # ts \<Rightarrow> rbind (ReadyToRun t (set_sem a (q\<lparr>queue := ts\<rparr>) s)) (\<lambda>s1.
         rbind (int_inc (semvalue q)) (\<lambda>v. Inr (set_sem a (q\<lparr>queue := ts, semvalue := v\<rparr>) s1)))))"

definition Semaphore_V ::
  "('h, 'z) kdispatch \<Rightarrow> addr \<Rightarrow> ('h, 'z) kernel_scheme \<Rightarrow> ('h, 'z) kernel_scheme res option" where
  "Semaphore_V D a s =
     (let oldLevel = level s in
      obind (Some (V_body a (ChangeLevel oldLevel IntOff s))) (kSetLevel D oldLevel))"

text \<open>Locks and condition variables are stubs: every operation fails an assertion.\<close>

definition Lock_new :: "'s \<Rightarrow> 's res" where "Lock_new s = rbind (ASSERT False) (\<lambda>_. Inr s)"
definition Lock_Acquire :: "'s \<Rightarrow> 's res" where "Lock_Acquire s = rbind (ASSERT False) (\<lambda>_. Inr s)"
definition Lock_Release :: "'s \<Rightarrow> 's res" where "Lock_Release s = rbind (ASSERT False) (\<lambda>_. Inr s)"
definition Condition_new :: "'s \<Rightarrow> 's res" where "Condition_new s = rbind (ASSERT False) (\<lambda>_. Inr s)"
definition Condition_Wait :: "'s \<Rightarrow> 's res" where "Condition_Wait s = rbind (ASSERT False) (\<lambda>_. Inr s)"
definition Condition_Signal :: "'s \<Rightarrow> 's res" where "Condition_Signal s = rbind (ASSERT False) (\<lambda>_. Inr s)"
definition Condition_Broadcast :: "'s \<Rightarrow> 's res" where "Condition_Broadcast s = rbind (ASSERT False) (\<lambda>_. Inr s)"

section \<open>Steps of the kernel\<close>

text \<open>Running the innermost frame of the current thread.\<close>

definition pop_frame :: "('h, 'z) kernel_scheme \<Rightarrow> ('h, 'z) kernel_scheme" where
  "pop_frame s = s\<lparr>threads := (threads s)(currentThread s :=
      map_option (\<lambda>c. c\<lparr>kstack := tl (kstack c)\<rparr>) (threads s (currentThread s)))\<rparr>"

definition exec_frame ::
  "('h, 'z) kdispatch \<Rightarrow> frame \<Rightarrow> ('h, 'z) kernel_scheme \<Rightarrow> ('h, 'z) kernel_scheme res option" where
  "exec_frame D f s = (case f of
      RunTail \<Rightarrow> Some (run_tail s)
    | RestoreLevel l \<Rightarrow> kSetLevel D l s
    | RestoreStatus st \<Rightarrow> Some (Inr (s\<lparr>istatus := st\<rparr>))
    | PLoop a l \<Rightarrow> P_loop D a l s
    | SetupFrame \<Rightarrow> SetupThreadState D s
    | Body _ _ \<Rightarrow> Some (Inr s)
    | FinishFrame \<Rightarrow> Finish D s)"

text \<open>What a thread body may call.\<close>

datatype kop =
    OpYield | OpP addr | OpV addr | OpNewThread string addr | OpStart addr addr addr
  | OpNewSem addr int | OpTick

definition exec_op ::
  "('h, 'z) kdispatch \<Rightarrow> kop \<Rightarrow> ('h, 'z) kernel_scheme \<Rightarrow> ('h, 'z) kernel_scheme res option" where
  "exec_op D p s = (case p of
      OpYield \<Rightarrow> Some (Yield s)
    | OpP a \<Rightarrow> Semaphore_P D a s
    | OpV a \<Rightarrow> Semaphore_V D a s
    | OpNewThread n t \<Rightarrow> Some (Inr (Thread_new n (\<lambda>_. 0) t s))
    | OpStart t f x \<Rightarrow> Start D t f x s
    | OpNewSem a v \<Rightarrow> Some (Inr (set_sem a (Semaphore_new v) s))
    | OpTick \<Rightarrow> OneTick D kernel_DL tick_yield s)"

definition stat :: "(addr \<rightharpoonup> Thread) \<Rightarrow> addr \<Rightarrow> ThreadStatus option" where
  "stat th t = map_option tstatus (th t)"

text \<open>What a thread body must respect: it names existing semaphores and fresh storage, and starts
  a thread once.\<close>

definition op_ok :: "kop \<Rightarrow> ('h, 'z) kernel_scheme \<Rightarrow> bool" where
  "op_ok p s = (case p of
      OpYield \<Rightarrow> True
    | OpP a \<Rightarrow> sems s a \<noteq> None
    | OpV a \<Rightarrow> sems s a \<noteq> None
    | OpNewThread n t \<Rightarrow> t \<noteq> NULL \<and> threads s t = None
    | OpStart t f x \<Rightarrow> stat (threads s) t = Some JUST_CREATED
    | OpNewSem a v \<Rightarrow> sems s a = None \<and> 0 \<le> v \<and> v < 2 ^ 31
    | OpTick \<Rightarrow> True)"

text \<open>A step of the system: the innermost frame of the running thread, or a call from its body.\<close>

inductive kstep :: "('h, 'z) kdispatch \<Rightarrow> ('h, 'z) kernel_scheme \<Rightarrow> ('h, 'z) kernel_scheme \<Rightarrow> bool"
  for D where
  step_frame: "threads s (currentThread s) = Some c \<Longrightarrow> kstack c = f # fs \<Longrightarrow>
     exec_frame D f (pop_frame s) = Some (Inr s') \<Longrightarrow> kstep D s s'"
| step_op: "threads s (currentThread s) = Some c \<Longrightarrow> kstack c = Body g x # fs \<Longrightarrow>
     op_ok p s \<Longrightarrow> exec_op D p s = Some (Inr s') \<Longrightarrow> kstep D s s'"

inductive_cases kstepE: "kstep D s s'"

section \<open>Start-up\<close>

text \<open>
  The thread part of \<open>Initialize\<close> (threads/system.cc): statistics, interrupts, scheduler, the
  timer if \<open>-rs\<close> was given, and the thread object for the code that is already running, the
  main program, which ends in \<open>currentThread->Finish ()\<close>. \<open>th\<close> names \<open>TimerHandler\<close>, \<open>tm\<close>
  and \<open>t\<close> are the addresses of the timer and of the thread.
\<close>

definition boot_state :: "(nat \<Rightarrow> nat) \<Rightarrow> 'h kernel" where
  "boot_state rand = intr.extend (Interrupt_new rand)
     (kernel.fields (\<lambda>_. None) NULL NULL [] [] False (\<lambda>_. None) (Machine_new False False SystemMode) (\<lambda>_. None) NULL)"

definition Initialize ::
  "('h, unit) kdispatch \<Rightarrow> (nat \<Rightarrow> nat) \<Rightarrow> bool \<Rightarrow> 'h \<Rightarrow> addr \<Rightarrow> addr \<Rightarrow> (nat \<Rightarrow> 32 word) \<Rightarrow> 'h kernel res option" where
  "Initialize D rand randomYield th tm t regs =
     obind (Some (if randomYield then Timer_new th tm randomYield (boot_state rand) else Inr (boot_state rand))) (\<lambda>s1.
     let s2 = Thread_new ''main'' regs t (s1\<lparr>threadToBeDestroyed := NULL\<rparr>) in
     obind (Some (SetMain t (s2\<lparr>currentThread := t\<rparr>))) (\<lambda>s3.
     obind (Some (upd_thread t (\<lambda>c. c\<lparr>kstack := [Body NULL NULL, FinishFrame]\<rparr>) s3)) (\<lambda>s4.
     kSetLevel D IntOn s4)))"

section \<open>Invariant\<close>

text \<open>The ready list holds the READY threads, each once.\<close>

definition ready_inv :: "(addr \<rightharpoonup> Thread) \<Rightarrow> addr list \<Rightarrow> bool" where
  "ready_inv th rl \<longleftrightarrow> distinct rl \<and> (\<forall>t. t \<in> set rl \<longleftrightarrow> stat th t = Some READY)"

text \<open>
  Values are \<open>int\<close>s that are not negative; a BLOCKED thread waits in exactly one queue, unless it is the thread
  \<open>d\<close> that is to be destroyed.
\<close>

definition sem_range :: "int \<Rightarrow> bool" where
  "sem_range v \<longleftrightarrow> 0 \<le> v \<and> v < 2 ^ 31"

definition sem_inv :: "(addr \<rightharpoonup> Thread) \<Rightarrow> (addr \<rightharpoonup> Semaphore) \<Rightarrow> addr \<Rightarrow> bool" where
  "sem_inv th sm d \<longleftrightarrow>
     (\<forall>a q. sm a = Some q \<longrightarrow> sem_range (semvalue q) \<and> distinct (queue q)
        \<and> (\<forall>t \<in> set (queue q). stat th t = Some BLOCKED \<and> t \<noteq> d))
   \<and> (\<forall>a b q r t. sm a = Some q \<longrightarrow> sm b = Some r \<longrightarrow> t \<in> set (queue q) \<longrightarrow> t \<in> set (queue r) \<longrightarrow> a = b)
   \<and> (\<forall>t. stat th t = Some BLOCKED \<longrightarrow> t \<noteq> d \<longrightarrow> (\<exists>a q. sm a = Some q \<and> t \<in> set (queue q)))
   \<and> (d \<noteq> NULL \<longrightarrow> stat th d = Some BLOCKED)"

definition all_inv :: "(addr \<rightharpoonup> Thread) \<Rightarrow> addr list \<Rightarrow> bool" where
  "all_inv th ts \<longleftrightarrow> th NULL = None \<and> distinct ts \<and> set ts = dom th"

definition run_inv :: "(addr \<rightharpoonup> Thread) \<Rightarrow> addr \<Rightarrow> bool" where
  "run_inv th cur \<longleftrightarrow> (\<forall>t. stat th t = Some RUNNING \<longrightarrow> t = cur)"

text \<open>The shapes of a kernel stack, with \<open>A\<close> the semaphores that exist.\<close>

fun base_frame :: "frame \<Rightarrow> bool" where
  "base_frame (RestoreLevel l) = True"
| "base_frame (RestoreStatus st) = True"
| "base_frame (Body f x) = True"
| "base_frame FinishFrame = True"
| "base_frame _ = False"

definition base_frames :: "frame list \<Rightarrow> bool" where
  "base_frames fs \<longleftrightarrow> fs \<noteq> [] \<and> last fs = FinishFrame \<and> (\<forall>f \<in> set fs. base_frame f)"

definition resume_ok :: "addr set \<Rightarrow> frame list \<Rightarrow> bool" where
  "resume_ok A fs \<longleftrightarrow> (case fs of PLoop a l # r \<Rightarrow> a \<in> A \<and> base_frames r | _ \<Rightarrow> base_frames fs)"

definition switch_ok :: "addr set \<Rightarrow> frame list \<Rightarrow> bool" where
  "switch_ok A fs \<longleftrightarrow> (case fs of RunTail # r \<Rightarrow> resume_ok A r | SetupFrame # r \<Rightarrow> base_frames r | _ \<Rightarrow> False)"

definition out_inv :: "(addr \<rightharpoonup> Thread) \<Rightarrow> addr set \<Rightarrow> addr \<Rightarrow> addr \<Rightarrow> bool" where
  "out_inv th A cur d \<longleftrightarrow> (\<forall>t c. th t = Some c \<longrightarrow> t \<noteq> cur \<longrightarrow> t \<noteq> d \<longrightarrow>
     tstatus c = JUST_CREATED \<or> switch_ok A (kstack c))"

definition mem_ok :: "(addr \<rightharpoonup> TranslationEntry list) \<Rightarrow> Thread \<Rightarrow> bool" where
  "mem_ok sp c \<longleftrightarrow> (main_stack c \<or> stack c = None \<or> stack c = Some STACK_FENCEPOST)
     \<and> (space c = NULL \<or> sp (space c) \<noteq> None) \<and> unat (userRegisters c LoadReg) < NumTotalRegs"

definition mem_inv :: "(addr \<rightharpoonup> Thread) \<Rightarrow> (addr \<rightharpoonup> TranslationEntry list) \<Rightarrow> machine \<Rightarrow> bool" where
  "mem_inv th sp m \<longleftrightarrow> unat (registers m LoadReg) < NumTotalRegs \<and> (\<forall>t c. th t = Some c \<longrightarrow> mem_ok sp c)"

definition thr_inv :: "('h, 'z) kernel_scheme \<Rightarrow> bool" where
  "thr_inv s \<longleftrightarrow> ready_inv (threads s) (readyList s) \<and> sem_inv (threads s) (sems s) (threadToBeDestroyed s)
     \<and> all_inv (threads s) (threadList s) \<and> run_inv (threads s) (currentThread s)
     \<and> out_inv (threads s) (dom (sems s)) (currentThread s) (threadToBeDestroyed s)
     \<and> mem_inv (threads s) (spaces s) (mach s)"

text \<open>What an interrupt handler may do to the threads: make blocked ones ready. What is saved of them, and
  the page tables, stay as they are.\<close>

definition user_saved :: "Thread \<Rightarrow> (nat \<Rightarrow> 32 word) \<times> addr" where
  "user_saved c = (userRegisters c, space c)"

lemma user_saved_simps [simp]:
  "user_saved (c\<lparr>tstatus := st\<rparr>) = user_saved c" "user_saved (c\<lparr>kstack := fs\<rparr>) = user_saved c"
  by (simp_all add: user_saved_def)

definition thr_frame :: "('h, 'z) kernel_scheme \<Rightarrow> ('h, 'z) kernel_scheme \<Rightarrow> bool" where
  "thr_frame s s' \<longleftrightarrow> thr_inv s' \<and> currentThread s' = currentThread s
     \<and> threadToBeDestroyed s' = threadToBeDestroyed s \<and> dom (sems s') = dom (sems s)
     \<and> spaces s' = spaces s \<and> tablePtr s' = tablePtr s \<and> currentPageTable (mach s') = currentPageTable (mach s)
     \<and> (\<forall>t. map_option user_saved (threads s' t) = map_option user_saved (threads s t))
     \<and> (\<forall>t. map_option kstack (threads s' t) = map_option kstack (threads s t))
     \<and> (\<forall>t. stat (threads s') t = stat (threads s) t
            \<or> stat (threads s) t = Some BLOCKED \<and> stat (threads s') t = Some READY)"

text \<open>Between two calls of a thread body, while a thread goes to sleep, and at every step.\<close>

definition qinv :: "('h, 'z) kernel_scheme \<Rightarrow> bool" where
  "qinv s \<longleftrightarrow> thr_inv s \<and> intr_ok s \<and> \<not> inHandler s \<and> threadToBeDestroyed s = NULL
     \<and> (\<exists>c. threads s (currentThread s) = Some c \<and> tstatus c = RUNNING \<and> base_frames (kstack c))"

definition mid :: "('h, 'z) kernel_scheme \<Rightarrow> bool" where
  "mid s \<longleftrightarrow> thr_inv s \<and> intr_ok s \<and> \<not> inHandler s \<and> level s = IntOff
     \<and> (threadToBeDestroyed s = NULL \<or> threadToBeDestroyed s = currentThread s)
     \<and> (\<exists>c. threads s (currentThread s) = Some c \<and> (tstatus c = BLOCKED \<or> tstatus c = READY)
          \<and> (currentThread s \<noteq> threadToBeDestroyed s \<longrightarrow> resume_ok (dom (sems s)) (kstack c)))"

definition kinv :: "('h, 'z) kernel_scheme \<Rightarrow> bool" where
  "kinv s \<longleftrightarrow> thr_inv s \<and> intr_ok s \<and> \<not> inHandler s
     \<and> (\<exists>c. threads s (currentThread s) = Some c \<and> tstatus c = RUNNING
          \<and> (if switch_ok (dom (sems s)) (kstack c) then level s = IntOff
             else threadToBeDestroyed s = NULL \<and> resume_ok (dom (sems s)) (kstack c)
               \<and> (\<not> base_frames (kstack c) \<longrightarrow> level s = IntOff)))"

named_theorems kparts "the parts of the kernel invariant"

lemmas [kparts] = ready_inv_def sem_inv_def all_inv_def run_inv_def out_inv_def mem_inv_def

lemma stat_upd [simp]: "stat (th(t := x)) u = (if u = t then map_option tstatus x else stat th u)"
  by (simp add: stat_def)

lemma stat_Some: "th t = Some c \<Longrightarrow> stat th t = Some (tstatus c)"
  by (simp add: stat_def)

lemma stat_dom: "stat th t = Some st \<Longrightarrow> \<exists>c. th t = Some c \<and> tstatus c = st"
  by (auto simp: stat_def)

lemma base_not_special:
  "base_frames fs \<Longrightarrow> resume_ok A fs" "base_frames fs \<Longrightarrow> \<not> switch_ok A fs" "resume_ok A fs \<Longrightarrow> \<not> switch_ok A fs"
  by (auto simp: base_frames_def resume_ok_def switch_ok_def split: list.splits frame.splits)

lemma base_frames_Cons: "base_frames fs \<Longrightarrow> base_frame f \<Longrightarrow> base_frames (f # fs)"
  by (auto simp: base_frames_def)

lemma thr_inv_simps [simp]:
  "thr_inv (s\<lparr>istatus := x1\<rparr>) = thr_inv s" "thr_inv (s\<lparr>inHandler := x2\<rparr>) = thr_inv s"
  "thr_inv (s\<lparr>level := x3\<rparr>) = thr_inv s" "thr_inv (s\<lparr>yieldOnReturn := x2\<rparr>) = thr_inv s"
  "thr_inv (s\<lparr>stats := x4\<rparr>) = thr_inv s" "thr_inv (s\<lparr>pending := x5\<rparr>) = thr_inv s"
  "thr_inv (s\<lparr>rpos := x6\<rparr>) = thr_inv s" "thr_inv (s\<lparr>halted := x2\<rparr>) = thr_inv s"
  by (simp_all add: thr_inv_def)

lemma thr_frame_simps [simp]:
  "thr_frame r (s\<lparr>istatus := x1\<rparr>) = thr_frame r s" "thr_frame r (s\<lparr>inHandler := x2\<rparr>) = thr_frame r s"
  "thr_frame r (s\<lparr>level := x3\<rparr>) = thr_frame r s" "thr_frame r (s\<lparr>yieldOnReturn := x2\<rparr>) = thr_frame r s"
  "thr_frame r (s\<lparr>stats := x4\<rparr>) = thr_frame r s" "thr_frame r (s\<lparr>pending := x5\<rparr>) = thr_frame r s"
  "thr_frame r (s\<lparr>rpos := x6\<rparr>) = thr_frame r s"
  "thr_frame (s\<lparr>istatus := x1\<rparr>) r = thr_frame s r" "thr_frame (s\<lparr>inHandler := x2\<rparr>) r = thr_frame s r"
  "thr_frame (s\<lparr>level := x3\<rparr>) r = thr_frame s r" "thr_frame (s\<lparr>yieldOnReturn := x2\<rparr>) r = thr_frame s r"
  "thr_frame (s\<lparr>stats := x4\<rparr>) r = thr_frame s r" "thr_frame (s\<lparr>pending := x5\<rparr>) r = thr_frame s r"
  "thr_frame (s\<lparr>rpos := x6\<rparr>) r = thr_frame s r"
  by (simp_all add: thr_frame_def)

lemma thr_frame_refl: "thr_inv s \<Longrightarrow> thr_frame s s"
  by (simp add: thr_frame_def)

lemma thr_frame_trans:
  assumes "thr_frame s t" "thr_frame t u"
  shows "thr_frame s u"
proof -
  have "stat (threads u) x = stat (threads s) x
      \<or> stat (threads s) x = Some BLOCKED \<and> stat (threads u) x = Some READY" for x
    using assms unfolding thr_frame_def by (metis (lifting))
  then show ?thesis using assms unfolding thr_frame_def by simp
qed

lemma thr_frame_inv: "thr_frame s s' \<Longrightarrow> thr_inv s'"
  by (simp add: thr_frame_def)

section \<open>Operations and the parts of the invariant\<close>

text \<open>Waking the first waiter of a semaphore, the core of \<open>V\<close>.\<close>

lemma sem_inv_value:
  assumes "sem_inv th sm d" "sm a = Some q" "sem_range v"
  shows "sem_inv th (sm(a \<mapsto> q\<lparr>semvalue := v\<rparr>)) d"
proof -
  let ?m = "sm(a \<mapsto> q\<lparr>semvalue := v\<rparr>)"
  have f: "\<exists>r0. sm b = Some r0 \<and> queue r = queue r0 \<and> (sem_range (semvalue r0) \<longrightarrow> sem_range (semvalue r))" if "?m b = Some r" for b r
    using that assms(2,3) by (auto split: if_splits)
  have g: "\<exists>r0. ?m b = Some r0 \<and> queue r0 = queue r" if "sm b = Some r" for b r
    using that assms(2) by auto
  show ?thesis
    unfolding sem_inv_def
  proof (intro conjI allI impI)
    fix b r assume "?m b = Some r"
    then show "sem_range (semvalue r)" "distinct (queue r)" "\<forall>t \<in> set (queue r). stat th t = Some BLOCKED \<and> t \<noteq> d"
      using f assms(1) unfolding sem_inv_def by metis+
  next
    fix b b' r r' t assume "?m b = Some r" "?m b' = Some r'" "t \<in> set (queue r)" "t \<in> set (queue r')"
    then show "b = b'" using f assms(1) unfolding sem_inv_def by metis
  next
    fix t assume "stat th t = Some BLOCKED" "t \<noteq> d"
    then show "\<exists>b r. ?m b = Some r \<and> t \<in> set (queue r)" using g assms(1) unfolding sem_inv_def by metis
  next
    assume "d \<noteq> NULL" then show "stat th d = Some BLOCKED" using assms(1) unfolding sem_inv_def by simp
  qed
qed

lemma sem_rangeD: "sem_range v \<Longrightarrow> 0 \<le> v \<and> v \<le> 2147483647"
  by (simp add: sem_range_def)

lemma sem_range_inc: "sem_range v \<Longrightarrow> v \<noteq> 2147483647 \<Longrightarrow> sem_range (v + 1)"
  by (simp add: sem_range_def)

lemma thr_sem_range: "thr_inv s \<Longrightarrow> sems s a = Some q \<Longrightarrow> sem_range (semvalue q)"
  by (auto simp: thr_inv_def sem_inv_def)

lemma sem_inv_wake:
  assumes "sem_inv th sm d" "sm a = Some q" "queue q = t # ts" "th t = Some c"
  shows "sem_inv (th(t \<mapsto> c\<lparr>tstatus := READY\<rparr>)) (sm(a \<mapsto> q\<lparr>queue := ts\<rparr>)) d"
  unfolding sem_inv_def
proof (intro conjI allI impI ballI)
  have t: "t \<noteq> d" "\<And>b r. sm b = Some r \<Longrightarrow> t \<in> set (queue r) \<Longrightarrow> b = a"
    using assms(1-3) unfolding sem_inv_def by (force, metis list.set_intros(1))
  have dq: "t \<notin> set ts" using assms(1-3) unfolding sem_inv_def by fastforce
  fix b r
  assume b: "(sm(a \<mapsto> q\<lparr>queue := ts\<rparr>)) b = Some r"
  have q: "sem_range (semvalue q)" "distinct ts" "\<forall>u \<in> set ts. stat th u = Some BLOCKED \<and> u \<noteq> d"
    using assms(1-3) unfolding sem_inv_def by (force, force, force)
  have o: "b \<noteq> a \<Longrightarrow> sem_range (semvalue r) \<and> distinct (queue r) \<and> (\<forall>u \<in> set (queue r). stat th u = Some BLOCKED \<and> u \<noteq> d)"
    using assms(1) b unfolding sem_inv_def by simp
  show "sem_range (semvalue r)" using q o b by (cases "b = a") auto
  show "distinct (queue r)" using q o b by (cases "b = a") auto
  show "u \<noteq> d" if "u \<in> set (queue r)" for u using q o b that by (cases "b = a") auto
  show "stat (th(t \<mapsto> c\<lparr>tstatus := READY\<rparr>)) u = Some BLOCKED" if "u \<in> set (queue r)" for u
    using q o b that t dq by (cases "b = a") auto
next
  fix b b' r r' u
  assume b: "(sm(a \<mapsto> q\<lparr>queue := ts\<rparr>)) b = Some r" "(sm(a \<mapsto> q\<lparr>queue := ts\<rparr>)) b' = Some r'"
    "u \<in> set (queue r)" "u \<in> set (queue r')"
  have "\<exists>r0. sm b = Some r0 \<and> u \<in> set (queue r0)" "\<exists>r0. sm b' = Some r0 \<and> u \<in> set (queue r0)"
    using b assms(2,3) by (auto split: if_splits)
  then show "b = b'" using assms(1) unfolding sem_inv_def by metis
next
  fix u assume u: "stat (th(t \<mapsto> c\<lparr>tstatus := READY\<rparr>)) u = Some BLOCKED" "u \<noteq> d"
  then have "u \<noteq> t" "stat th u = Some BLOCKED" by (auto split: if_splits)
  then obtain b r where br: "sm b = Some r" "u \<in> set (queue r)"
    using assms(1) u(2) unfolding sem_inv_def by metis
  then show "\<exists>b r. (sm(a \<mapsto> q\<lparr>queue := ts\<rparr>)) b = Some r \<and> u \<in> set (queue r)"
    using assms(2,3) \<open>u \<noteq> t\<close> by (cases "b = a") auto
next
  assume "d \<noteq> NULL"
  then have "stat th d = Some BLOCKED" using assms(1) unfolding sem_inv_def by simp
  moreover have "t \<noteq> d" using assms(1-3) unfolding sem_inv_def by force
  ultimately show "stat (th(t \<mapsto> c\<lparr>tstatus := READY\<rparr>)) d = Some BLOCKED" by auto
qed

lemma sem_waiter:
  assumes "sem_inv th sm d" "sm a = Some q" "t \<in> set (queue q)"
  shows "\<exists>c. th t = Some c \<and> tstatus c = BLOCKED"
  using assms stat_dom [of th t BLOCKED] unfolding sem_inv_def by blast

lemma ready_inv_append:
  "ready_inv th rl \<Longrightarrow> th t = Some c \<Longrightarrow> tstatus c \<noteq> READY \<Longrightarrow> ready_inv (th(t \<mapsto> c\<lparr>tstatus := READY\<rparr>)) (rl @ [t])"
  by (auto simp: ready_inv_def stat_Some)

text \<open>Other parts are insensitive to a change of status.\<close>

lemma status_parts:
  assumes "th t = Some c"
  shows "all_inv (th(t \<mapsto> c\<lparr>tstatus := st\<rparr>)) ts = all_inv th ts"
    and "mem_inv (th(t \<mapsto> c\<lparr>tstatus := st\<rparr>)) sp m = mem_inv th sp m"
    and "st \<noteq> RUNNING \<Longrightarrow> run_inv th cur \<Longrightarrow> run_inv (th(t \<mapsto> c\<lparr>tstatus := st\<rparr>)) cur"
    and "tstatus c \<noteq> JUST_CREATED \<or> t = cur \<Longrightarrow> out_inv th A cur d \<Longrightarrow> out_inv (th(t \<mapsto> c\<lparr>tstatus := st\<rparr>)) A cur d"
proof -
  show "all_inv (th(t \<mapsto> c\<lparr>tstatus := st\<rparr>)) ts = all_inv th ts"
    using assms by (auto simp: all_inv_def dom_def)
  show "mem_inv (th(t \<mapsto> c\<lparr>tstatus := st\<rparr>)) sp m = mem_inv th sp m"
    using assms by (auto simp: mem_inv_def mem_ok_def)
  show "run_inv th cur \<Longrightarrow> run_inv (th(t \<mapsto> c\<lparr>tstatus := st\<rparr>)) cur" if "st \<noteq> RUNNING"
    using that by (auto simp: run_inv_def split: if_splits)
  show "out_inv th A cur d \<Longrightarrow> out_inv (th(t \<mapsto> c\<lparr>tstatus := st\<rparr>)) A cur d" if "tstatus c \<noteq> JUST_CREATED \<or> t = cur"
    using that assms by (auto simp: out_inv_def)
qed

text \<open>\<open>V\<close> at the largest \<open>int\<close> overflows, and is in order below it.\<close>

definition V_full :: "addr \<Rightarrow> ('h, 'z) kernel_scheme \<Rightarrow> bool" where
  "V_full a s \<longleftrightarrow> (\<exists>q. sems s a = Some q \<and> semvalue q = 2147483647)"

lemma V_full_simps [simp]: "V_full a (s\<lparr>level := l\<rparr>) = V_full a s"
  by (simp add: V_full_def)

lemma V_body_full:
  assumes "thr_inv s" "V_full a s"
  shows "V_body a s = Inl IntOverflow"
proof -
  obtain q where q: "sems s a = Some q" "semvalue q = 2147483647" using assms(2) by (auto simp: V_full_def)
  have si: "sem_inv (threads s) (sems s) (threadToBeDestroyed s)" using assms(1) by (simp add: thr_inv_def)
  show ?thesis
  proof (cases "queue q")
    case Nil then show ?thesis using q by (simp add: V_body_def get_sem_def)
  next
    case (Cons t ts)
    then obtain c where "threads s t = Some c" using sem_waiter [OF si q(1), of t] by auto
    then show ?thesis using Cons q
      by (simp add: V_body_def get_sem_def ReadyToRun_def setStatus_def upd_thread_def set_sem_def)
  qed
qed

lemma V_body_thr:
  assumes "thr_inv s" "a \<in> dom (sems s)" "\<not> V_full a s"
  shows "\<exists>s'. V_body a s = Inr s' \<and> thr_frame s s'
     \<and> s' = s\<lparr>threads := threads s', readyList := readyList s', sems := sems s'\<rparr>"
proof -
  obtain q where q: "sems s a = Some q" using assms(2) by auto
  have r: "sem_range (semvalue q)" using thr_sem_range [OF assms(1) q] .
  have m: "semvalue q \<noteq> 2147483647" using assms(3) q by (simp add: V_full_def)
  have v: "0 \<le> semvalue q" "sem_range (semvalue q + 1)" using sem_rangeD [OF r] sem_range_inc [OF r m] by simp_all
  have si: "sem_inv (threads s) (sems s) (threadToBeDestroyed s)" using assms(1) by (simp add: thr_inv_def)
  show ?thesis
  proof (cases "queue q")
    case Nil
    have "thr_inv (set_sem a (q\<lparr>semvalue := semvalue q + 1\<rparr>) s)"
      using assms(1) sem_inv_value [OF si q, of "semvalue q + 1"] v q
      by (simp add: thr_inv_def set_sem_def insert_absorb domI)
    then show ?thesis using Nil q v m by (auto simp: V_body_def get_sem_def thr_frame_def set_sem_def)
  next
    case (Cons t ts)
    obtain c where c: "threads s t = Some c" "tstatus c = BLOCKED"
      using sem_waiter [OF si q, of t] Cons by auto
    let ?th = "(threads s)(t \<mapsto> c\<lparr>tstatus := READY\<rparr>)"
    let ?q = "q\<lparr>queue := ts\<rparr>"
    let ?s = "s\<lparr>threads := ?th, readyList := readyList s @ [t], sems := (sems s)(a \<mapsto> ?q\<lparr>semvalue := semvalue q + 1\<rparr>)\<rparr>"
    have V: "V_body a s = Inr ?s"
      using Cons q v m c by (simp add: V_body_def get_sem_def ReadyToRun_def setStatus_def upd_thread_def set_sem_def)
    have "sem_inv ?th (((sems s)(a \<mapsto> ?q))(a \<mapsto> ?q\<lparr>semvalue := semvalue q + 1\<rparr>)) (threadToBeDestroyed s)"
      using sem_inv_value [OF sem_inv_wake [OF si q Cons c(1)], of a ?q "semvalue q + 1"] v by simp
    moreover have "ready_inv ?th (readyList s @ [t])"
      using assms(1) c by (intro ready_inv_append) (simp_all add: thr_inv_def)
    ultimately have "thr_inv ?s"
      using assms(1) c q by (simp add: thr_inv_def status_parts insert_absorb domI)
    moreover have "map_option kstack (?th u) = map_option kstack (threads s u)"
      "map_option user_saved (?th u) = map_option user_saved (threads s u)"
      "stat ?th u = stat (threads s) u \<or> stat (threads s) u = Some BLOCKED \<and> stat ?th u = Some READY" for u
      using c by (auto simp: stat_def)
    ultimately show ?thesis using V q by (auto simp: thr_frame_def)
  qed
qed

lemma ready_inv_stat: "stat th' = stat th \<Longrightarrow> ready_inv th' rl = ready_inv th rl"
  by (simp add: ready_inv_def)

lemma run_inv_stat: "stat th' = stat th \<Longrightarrow> run_inv th' cur = run_inv th cur"
  by (simp add: run_inv_def)

lemma sem_inv_stat:
  assumes "\<And>t. (stat th' t = Some BLOCKED) = (stat th t = Some BLOCKED)"
  shows "sem_inv th' sm d = sem_inv th sm d"
  using assms by (simp add: sem_inv_def)

lemma all_inv_upd: "th t = Some c \<Longrightarrow> all_inv (th(t \<mapsto> c')) ts = all_inv th ts"
  by (cases "t = NULL") (auto simp: all_inv_def insert_absorb domI)

lemma CheckOverflow_ok: "threads s t = Some c \<Longrightarrow> mem_ok sp c \<Longrightarrow> CheckOverflow t s = Inr ()"
  by (auto simp: CheckOverflow_def get_thread_def mem_ok_def)

text \<open>Changes of a thread that keep its status: pushing or popping frames, saving registers.\<close>

lemma same_status_thr:
  assumes "thr_inv s" "threads s t = Some c" "tstatus c' = tstatus c" "mem_ok (spaces s) c'"
    "t = currentThread s \<or> t = threadToBeDestroyed s \<or> kstack c' = kstack c"
  shows "thr_inv (s\<lparr>threads := (threads s)(t \<mapsto> c')\<rparr>)"
proof -
  let ?th = "(threads s)(t \<mapsto> c')"
  have st: "stat ?th = stat (threads s)" using assms(2,3) by (auto simp: stat_def fun_eq_iff)
  have "out_inv (threads s) (dom (sems s)) (currentThread s) (threadToBeDestroyed s)"
    using assms(1) by (simp add: thr_inv_def)
  then have "out_inv ?th (dom (sems s)) (currentThread s) (threadToBeDestroyed s)"
    unfolding out_inv_def
  proof (intro allI impI)
    fix u e assume u: "?th u = Some e" "u \<noteq> currentThread s" "u \<noteq> threadToBeDestroyed s"
      and o: "\<forall>t c. threads s t = Some c \<longrightarrow> t \<noteq> currentThread s \<longrightarrow> t \<noteq> threadToBeDestroyed s \<longrightarrow>
        tstatus c = JUST_CREATED \<or> switch_ok (dom (sems s)) (kstack c)"
    show "tstatus e = JUST_CREATED \<or> switch_ok (dom (sems s)) (kstack e)"
    proof (cases "u = t")
      case True
      then show ?thesis using o [rule_format, OF assms(2)] u assms(3,5) by auto
    next
      case False
      then show ?thesis using o u by simp
    qed
  qed
  moreover have "all_inv ?th (threadList s)"
    using assms(1) all_inv_upd [of "threads s" t c, OF assms(2)] by (simp add: thr_inv_def)
  moreover have "mem_inv ?th (spaces s) (mach s)"
    using assms(1,4) by (simp add: thr_inv_def mem_inv_def)
  ultimately show ?thesis
    using assms(1) ready_inv_stat [OF st] run_inv_stat [OF st] sem_inv_stat [of ?th "threads s"] st
    by (simp add: thr_inv_def)
qed

lemma push_frame_eq:
  "threads s (currentThread s) = Some c \<Longrightarrow>
   push_frame f s = Inr (s\<lparr>threads := (threads s)(currentThread s \<mapsto> c\<lparr>kstack := f # kstack c\<rparr>)\<rparr>)"
  by (simp add: push_frame_def upd_thread_def)

lemma mem_ok_kstack [simp]: "mem_ok sp (c\<lparr>kstack := fs\<rparr>) = mem_ok sp c"
  by (simp add: mem_ok_def)

lemma thr_mem_ok: "thr_inv s \<Longrightarrow> threads s t = Some c \<Longrightarrow> mem_ok (spaces s) c"
  by (simp add: thr_inv_def mem_inv_def)

lemma kstack_thr:
  "thr_inv s \<Longrightarrow> threads s (currentThread s) = Some c \<Longrightarrow>
   thr_inv (s\<lparr>threads := (threads s)(currentThread s \<mapsto> c\<lparr>kstack := fs\<rparr>)\<rparr>)"
  by (rule same_status_thr) (auto dest: thr_mem_ok)

lemma thr_readyD:
  assumes "thr_inv s" "t \<in> set (readyList s)"
  shows "\<exists>c. threads s t = Some c \<and> tstatus c = READY \<and> t \<noteq> NULL \<and> t \<noteq> threadToBeDestroyed s"
proof -
  have "stat (threads s) t = Some READY" using assms by (auto simp: thr_inv_def ready_inv_def)
  moreover from this obtain c where "threads s t = Some c" "tstatus c = READY" using stat_dom by blast
  moreover have "threads s NULL = None" "threadToBeDestroyed s \<noteq> NULL \<longrightarrow> stat (threads s) (threadToBeDestroyed s) = Some BLOCKED"
    using assms(1) by (auto simp: thr_inv_def all_inv_def sem_inv_def)
  ultimately show ?thesis by (cases "t = NULL") auto
qed

text \<open>The state that the switch to \<open>nt\<close> leaves, when the old thread was in state \<open>c\<close> with its
  registers saved in \<open>c1\<close>.\<close>

lemma switch_inv:
  assumes "mid s" "readyList s = nt # ts" "threads s (currentThread s) = Some c"
    "tstatus c1 = tstatus c" "kstack c1 = kstack c" "mem_ok (spaces s) c1"
    "th1 = (threads s)(currentThread s \<mapsto> c1\<lparr>kstack := RunTail # kstack c\<rparr>)"
    "th1 nt = Some cn"
  shows "kinv (s\<lparr>readyList := ts, threads := th1(nt \<mapsto> cn\<lparr>tstatus := RUNNING\<rparr>), currentThread := nt\<rparr>)"
proof -
  let ?cur = "currentThread s" let ?d = "threadToBeDestroyed s" let ?A = "dom (sems s)"
  let ?th = "th1(nt \<mapsto> cn\<lparr>tstatus := RUNNING\<rparr>)"
  have ti: "thr_inv s" and cs: "tstatus c = BLOCKED \<or> tstatus c = READY"
    and ck: "?cur \<noteq> ?d \<Longrightarrow> resume_ok ?A (kstack c)"
    using assms(1,3) by (auto simp: mid_def)
  obtain c0 where c0: "threads s nt = Some c0" "tstatus c0 = READY" "nt \<noteq> NULL" "nt \<noteq> ?d"
    using thr_readyD [OF ti, of nt] assms(2) by auto
  have st1: "stat th1 = stat (threads s)"
    using assms(3,4,7) by (auto simp: stat_def fun_eq_iff)
  have st: "stat ?th u = (if u = nt then Some RUNNING else stat (threads s) u)" for u by (simp add: st1)
  have nR: "stat (threads s) nt = Some READY" using c0 by (simp add: stat_Some)
  have curs: "stat (threads s) ?cur \<noteq> Some RUNNING" using assms(3) cs by (auto simp: stat_Some)
  have p: "ready_inv (threads s) (readyList s)" "sem_inv (threads s) (sems s) ?d" "all_inv (threads s) (threadList s)"
      "run_inv (threads s) ?cur" "out_inv (threads s) ?A ?cur ?d" "mem_inv (threads s) (spaces s) (mach s)"
    using ti by (simp_all add: thr_inv_def)
  have cases: "?th t = Some e \<Longrightarrow> t = nt \<or> t = ?cur \<and> e = c1\<lparr>kstack := RunTail # kstack c\<rparr> \<or> t \<noteq> ?cur \<and> threads s t = Some e"
    for t e using assms(7) by (auto split: if_splits)
  have "ready_inv ?th ts"
    using p(1) nR unfolding ready_inv_def st assms(2) by auto
  moreover have "sem_inv ?th (sems s) ?d"
    using p(2) nR by (subst sem_inv_stat [where th = "threads s"]) (simp_all add: st st1)
  moreover have "all_inv ?th (threadList s)"
    using p(3) all_inv_upd [of th1 nt cn] all_inv_upd [of "threads s" ?cur c] assms(3,8) unfolding assms(7) by simp
  moreover have "run_inv ?th nt"
    using p(4) curs unfolding run_inv_def st by metis
  moreover have "out_inv ?th ?A nt ?d"
    unfolding out_inv_def
  proof (intro allI impI)
    fix t e assume "?th t = Some e" "t \<noteq> nt" "t \<noteq> ?d"
    then consider "t = ?cur" "e = c1\<lparr>kstack := RunTail # kstack c\<rparr>" | "t \<noteq> ?cur" "threads s t = Some e"
      using cases by blast
    then show "tstatus e = JUST_CREATED \<or> switch_ok ?A (kstack e)"
    proof cases
      case 1 then show ?thesis using ck \<open>t \<noteq> ?d\<close> by (simp add: switch_ok_def)
    next
      case 2 then show ?thesis using p(5) \<open>t \<noteq> ?d\<close> unfolding out_inv_def by blast
    qed
  qed
  moreover have "mem_ok (spaces s) cn"
    using p(6) assms(6,7,8) by (cases "nt = ?cur") (auto simp: mem_inv_def)
  then have "mem_ok (spaces s) (cn\<lparr>tstatus := RUNNING\<rparr>)" by (simp add: mem_ok_def)
  then have "mem_inv ?th (spaces s) (mach s)"
    using p(6) assms(6) cases unfolding mem_inv_def by (metis fun_upd_same mem_ok_kstack option.inject)
  moreover have "switch_ok ?A (kstack cn)"
  proof (cases "nt = ?cur")
    case True
    then show ?thesis using assms(7,8) ck c0(4) by (auto simp: switch_ok_def)
  next
    case False
    then have "cn = c0" using assms(7,8) c0(1) by simp
    moreover have "tstatus c0 = JUST_CREATED \<or> switch_ok ?A (kstack c0)"
      using p(5) c0 False unfolding out_inv_def by blast
    ultimately show ?thesis using c0(2) by simp
  qed
  moreover have "intr_ok s" "\<not> inHandler s" "level s = IntOff" using assms(1) by (auto simp: mid_def)
  ultimately show ?thesis by (simp add: kinv_def thr_inv_def intr_ok_def)
qed

lemma Scheduler_Run_inv:
  assumes "mid s" "readyList s = nt # ts"
  shows "\<exists>s'. Scheduler_Run nt (s\<lparr>readyList := ts\<rparr>) = Inr s' \<and> kinv s' \<and> currentThread s' = nt
     \<and> readyList s' = ts \<and> level s' = IntOff"
proof -
  obtain c where c: "threads s (currentThread s) = Some c" using assms(1) by (auto simp: mid_def)
  have ti: "thr_inv s" and l: "level s = IntOff" using assms(1) by (auto simp: mid_def)
  have mo: "mem_ok (spaces s) c" using thr_mem_ok [OF ti c] .
  define c1 where "c1 = (if space c \<noteq> NULL
    then c\<lparr>userRegisters := (\<lambda>i. if i < 40 then registers (mach s) i else userRegisters c i)\<rparr> else c)"
  define th1 where "th1 = (threads s)(currentThread s \<mapsto> c1\<lparr>kstack := RunTail # kstack c\<rparr>)"
  have c1: "tstatus c1 = tstatus c" "kstack c1 = kstack c" "mem_ok (spaces s) c1"
    using mo ti by (auto simp: c1_def mem_ok_def thr_inv_def mem_inv_def)
  have so: "\<not> main_stack c1 \<Longrightarrow> stack c1 = None \<or> stack c1 = Some STACK_FENCEPOST"
    using c1(3) by (simp add: mem_ok_def)
  obtain c0 where "threads s nt = Some c0" using thr_readyD [OF ti, of nt] assms(2) by auto
  then obtain cn where cn: "th1 nt = Some cn" by (cases "nt = currentThread s") (auto simp: th1_def)
  define s1 where "s1 = s\<lparr>readyList := ts, threads := (threads s)(currentThread s \<mapsto> c1)\<rparr>"
  have save: "(if space c \<noteq> NULL then rbind (SaveUserState (currentThread s) (s\<lparr>readyList := ts\<rparr>)) (SaveState (space c))
      else Inr (s\<lparr>readyList := ts\<rparr>)) = Inr s1"
  proof (cases "space c = NULL")
    case True
    then have "(threads s)(currentThread s \<mapsto> c1) = threads s" using c by (simp add: c1_def fun_upd_idem)
    then show ?thesis using True by (simp add: s1_def)
  next
    case False
    then show ?thesis using c by (simp add: s1_def c1_def SaveUserState_def SaveState_def upd_thread_def cong: if_cong)
  qed
  have "CheckOverflow (currentThread s) s1 = Inr ()"
    by (rule CheckOverflow_ok [OF _ c1(3)]) (simp add: s1_def)
  moreover have "push_frame RunTail s1 = Inr (s1\<lparr>threads := th1\<rparr>)"
    by (simp add: push_frame_def upd_thread_def s1_def th1_def c1(2))
  moreover have "setStatus RUNNING nt (s1\<lparr>threads := th1, currentThread := nt\<rparr>)
      = Inr (s\<lparr>readyList := ts, threads := th1(nt \<mapsto> cn\<lparr>tstatus := RUNNING\<rparr>), currentThread := nt\<rparr>)"
    using cn by (simp add: setStatus_def upd_thread_def s1_def)
  ultimately have R: "Scheduler_Run nt (s\<lparr>readyList := ts\<rparr>)
      = Inr (s\<lparr>readyList := ts, threads := th1(nt \<mapsto> cn\<lparr>tstatus := RUNNING\<rparr>), currentThread := nt\<rparr>)"
    using l c save by (simp add: Scheduler_Run_def get_thread_def Let_def)
  show ?thesis using R switch_inv [OF assms c c1 th1_def cn] l by simp
qed

text \<open>Deleting the thread that is to be destroyed.\<close>

lemma delete_inv:
  assumes "thr_inv s" "threadToBeDestroyed s = d" "d \<noteq> NULL" "d \<noteq> currentThread s"
  shows "thr_inv (s\<lparr>threads := (threads s)(d := None), threadList := remove1 d (threadList s), threadToBeDestroyed := NULL\<rparr>)"
    and "\<exists>c. threads s d = Some c" "d \<in> set (threadList s)"
proof -
  let ?th = "(threads s)(d := None)"
  have p: "ready_inv (threads s) (readyList s)" "sem_inv (threads s) (sems s) d" "all_inv (threads s) (threadList s)"
      "run_inv (threads s) (currentThread s)" "out_inv (threads s) (dom (sems s)) (currentThread s) d"
      "mem_inv (threads s) (spaces s) (mach s)"
    using assms(1,2) by (simp_all add: thr_inv_def)
  have sd: "stat (threads s) d = Some BLOCKED" using p(2) assms(3) by (simp add: sem_inv_def)
  then show "\<exists>c. threads s d = Some c" "d \<in> set (threadList s)"
    using stat_dom [OF sd] p(3) by (auto simp: all_inv_def)
  have n0: "stat (threads s) NULL = None" using p(3) by (simp add: all_inv_def stat_def)
  have "ready_inv ?th (readyList s)" using p(1) sd by (auto simp: ready_inv_def)
  moreover have "sem_inv ?th (sems s) NULL"
    unfolding sem_inv_def
  proof (intro conjI allI impI ballI)
    fix a q t assume "sems s a = Some q" "t \<in> set (queue q)"
    then have "stat (threads s) t = Some BLOCKED" "t \<noteq> d" using p(2) unfolding sem_inv_def by blast+
    then show "stat ?th t = Some BLOCKED" "t \<noteq> NULL" using n0 by (auto, cases "t = NULL", auto)
  next
    fix t assume "stat ?th t = Some BLOCKED" "t \<noteq> NULL"
    then show "\<exists>a q. sems s a = Some q \<and> t \<in> set (queue q)"
      using p(2) unfolding sem_inv_def by (auto split: if_splits)
  qed (use p(2) in \<open>auto simp: sem_inv_def\<close>)
  moreover have "all_inv ?th (remove1 d (threadList s))" using p(3) by (auto simp: all_inv_def)
  moreover have "run_inv ?th (currentThread s)" using p(4) by (auto simp: run_inv_def)
  moreover have "out_inv ?th (dom (sems s)) (currentThread s) NULL"
    using p(5) unfolding out_inv_def by (metis fun_upd_apply option.distinct(1))
  moreover have "mem_inv ?th (spaces s) (mach s)" using p(6) by (simp add: mem_inv_def)
  ultimately show "thr_inv (s\<lparr>threads := ?th, threadList := remove1 d (threadList s), threadToBeDestroyed := NULL\<rparr>)"
    by (simp add: thr_inv_def)
qed

lemma restore_space_inv:
  assumes "thr_inv s" "threads s (currentThread s) = Some c"
  shows "\<exists>m sp p. restore_space s = Inr (s\<lparr>mach := m, spaces := sp, tablePtr := p\<rparr>) \<and> thr_inv (s\<lparr>mach := m, spaces := sp, tablePtr := p\<rparr>)"
proof (cases "space c = NULL")
  case True
  then show ?thesis using assms
    by (intro exI [of _ "mach s"] exI [of _ "spaces s"] exI [of _ "tablePtr s"]) (simp add: restore_space_def get_thread_def)
next
  case False
  have mo: "mem_ok (spaces s) c" using thr_mem_ok [OF assms] .
  then obtain pt where pt: "cur_spaces s (space c) = Some pt" using False cur_spaces_dom [of s "space c"] by (auto simp: mem_ok_def)
  let ?m = "(mach s)\<lparr>registers := (\<lambda>i. if i < 40 then userRegisters c i else registers (mach s) i),
     currentPageTable := Some pt, currentPageTableSize := of_nat (length pt)\<rparr>"
  have "restore_space s = Inr (s\<lparr>mach := ?m, spaces := cur_spaces s, tablePtr := space c\<rparr>)"
    using False pt assms(2) by (simp add: restore_space_def get_thread_def RestoreUserState_def RestoreState_def)
  moreover have "mem_inv (threads s) (cur_spaces s) ?m"
    using assms(1) mo cur_spaces_dom [of s] unfolding thr_inv_def mem_inv_def mem_ok_def by simp blast
  then have "thr_inv (s\<lparr>mach := ?m, spaces := cur_spaces s, tablePtr := space c\<rparr>)"
    using assms(1) by (simp add: thr_inv_def)
  ultimately show ?thesis by blast
qed

text \<open>After a switch the thread that was to be destroyed is gone and the thread goes on.\<close>

definition destroyed :: "('h, 'z) kernel_scheme \<Rightarrow> ('h, 'z) kernel_scheme" where
  "destroyed s = (let d = threadToBeDestroyed s in
     if d \<noteq> NULL then s\<lparr>threads := (threads s)(d := None), threadList := remove1 d (threadList s), threadToBeDestroyed := NULL\<rparr>
     else s)"

lemma destroyed_simps [simp]:
  "currentThread (destroyed s) = currentThread s" "level (destroyed s) = level s" "sems (destroyed s) = sems s"
  "inHandler (destroyed s) = inHandler s" "intr_ok (destroyed s) = intr_ok s" "threadToBeDestroyed (destroyed s) = NULL"
  "pending (destroyed s) = pending s"
  by (simp_all add: destroyed_def Let_def intr_ok_def)

lemma destroyed_inv:
  assumes "thr_inv s" "threads s (currentThread s) = Some c" "tstatus c = RUNNING"
  shows "thr_inv (destroyed s)" "threads (destroyed s) (currentThread s) = Some c"
    "(if threadToBeDestroyed s \<noteq> NULL then Thread_delete (threadToBeDestroyed s) (s\<lparr>threadToBeDestroyed := NULL\<rparr>) else Inr s)
       = Inr (destroyed s)"
    "(if threadToBeDestroyed s \<noteq> NULL then rbind (Thread_delete (threadToBeDestroyed s) s) (\<lambda>s1. Inr (s1\<lparr>threadToBeDestroyed := NULL\<rparr>)) else Inr s)
       = Inr (destroyed s)"
proof -
  have ne: "threadToBeDestroyed s \<noteq> NULL \<Longrightarrow> threadToBeDestroyed s \<noteq> currentThread s"
    using assms by (auto simp: thr_inv_def sem_inv_def stat_def)
  note D = delete_inv [OF assms(1) refl _ ne]
  show "thr_inv (destroyed s)" using D(1) assms(1) by (simp add: destroyed_def Let_def)
  show "threads (destroyed s) (currentThread s) = Some c"
    using ne assms(2) by (cases "threadToBeDestroyed s = NULL") (auto simp: destroyed_def Let_def)
  show "(if threadToBeDestroyed s \<noteq> NULL then Thread_delete (threadToBeDestroyed s) (s\<lparr>threadToBeDestroyed := NULL\<rparr>) else Inr s)
       = Inr (destroyed s)"
    using D(2,3) ne by (auto simp: destroyed_def Thread_delete_def get_thread_def Let_def)
  show "(if threadToBeDestroyed s \<noteq> NULL then rbind (Thread_delete (threadToBeDestroyed s) s) (\<lambda>s1. Inr (s1\<lparr>threadToBeDestroyed := NULL\<rparr>)) else Inr s)
       = Inr (destroyed s)"
    using D(2,3) ne by (auto simp: destroyed_def Thread_delete_def get_thread_def Let_def)
qed

lemma run_tail_inv:
  assumes "thr_inv s" "threads s (currentThread s) = Some c" "tstatus c = RUNNING"
  shows "\<exists>m sp p. run_tail s = Inr ((destroyed s)\<lparr>mach := m, spaces := sp, tablePtr := p\<rparr>)
     \<and> thr_inv ((destroyed s)\<lparr>mach := m, spaces := sp, tablePtr := p\<rparr>)"
  using restore_space_inv [of "destroyed s" c] destroyed_inv [OF assms] by (simp add: run_tail_def Let_def)

lemma qinv_kinv: "qinv s \<Longrightarrow> kinv s"
  by (auto simp: qinv_def kinv_def base_not_special)

lemma qinv_simps [simp]:
  "qinv (s\<lparr>level := x1\<rparr>) = qinv s" "qinv (s\<lparr>istatus := x2\<rparr>) = qinv s" "qinv (s\<lparr>yieldOnReturn := x3\<rparr>) = qinv s"
  "qinv (s\<lparr>stats := x4\<rparr>) = qinv s"
  by (simp_all add: qinv_def intr_ok_def)

lemma qinv_push:
  assumes "qinv s" "base_frame f"
  shows "\<exists>s'. push_frame f s = Inr s' \<and> qinv s' \<and> level s' = level s"
proof -
  obtain c where c: "threads s (currentThread s) = Some c" "tstatus c = RUNNING" "base_frames (kstack c)" "thr_inv s"
    using assms(1) by (auto simp: qinv_def)
  have "thr_inv (s\<lparr>threads := (threads s)(currentThread s \<mapsto> c\<lparr>kstack := f # kstack c\<rparr>)\<rparr>)"
    using kstack_thr [OF c(4,1)] .
  then show ?thesis
    using assms c(2,3) push_frame_eq [OF c(1), of f] by (auto simp: qinv_def base_frames_Cons intr_ok_def)
qed

text \<open>The running thread made ready, with the next thread still on the list.\<close>

lemma mid_of_ready:
  assumes "qinv s" "level s = IntOff" "threads s (currentThread s) = Some c"
  shows "mid (s\<lparr>threads := (threads s)(currentThread s \<mapsto> c\<lparr>tstatus := READY\<rparr>), readyList := readyList s @ [currentThread s]\<rparr>)"
proof -
  have c: "tstatus c = RUNNING" "base_frames (kstack c)" "thr_inv s" using assms(1,3) by (auto simp: qinv_def)
  let ?th = "(threads s)(currentThread s \<mapsto> c\<lparr>tstatus := READY\<rparr>)"
  have sR: "stat (threads s) (currentThread s) = Some RUNNING" using assms(3) c(1) by (simp add: stat_Some)
  have "sem_inv ?th (sems s) (threadToBeDestroyed s)"
    using c(3) sR by (subst sem_inv_stat [where th = "threads s"]) (auto simp: thr_inv_def)
  moreover have "ready_inv ?th (readyList s @ [currentThread s])"
    using c assms(3) by (intro ready_inv_append) (simp_all add: thr_inv_def)
  ultimately have "thr_inv (s\<lparr>threads := ?th, readyList := readyList s @ [currentThread s]\<rparr>)"
    using c(3) assms(3) by (simp add: thr_inv_def status_parts)
  then show ?thesis
    using assms c by (auto simp: mid_def qinv_def base_not_special intr_ok_def)
qed

lemma Yield_inv:
  assumes "qinv s"
  shows "\<exists>s'. Yield s = Inr s' \<and> kinv s' \<and> level s' = IntOff \<and>
     (if halted s \<or> readyList s = [] then currentThread s' = currentThread s \<and> readyList s' = readyList s
      else currentThread s' = hd (readyList s) \<and> readyList s' = tl (readyList s) @ [currentThread s])"
proof -
  obtain s1 where s1: "push_frame (RestoreLevel (level s)) (s\<lparr>level := IntOff\<rparr>) = Inr s1" "qinv s1" "level s1 = IntOff"
    using qinv_push [of "s\<lparr>level := IntOff\<rparr>" "RestoreLevel (level s)"] assms by auto
  have same: "halted s1 = halted s" "readyList s1 = readyList s" "currentThread s1 = currentThread s"
    using s1(1) by (auto simp: push_frame_def upd_thread_def split: option.splits)
  show ?thesis
  proof (cases "halted s1 \<or> readyList s1 = []")
    case True
    then have "FindNextToRun s1 = (NULL, s1)" by (auto simp: FindNextToRun_def)
    then show ?thesis using True s1 qinv_kinv same by (simp add: Yield_def ChangeLevel_def Let_def)
  next
    case False
    then obtain nt ts where r: "readyList s1 = nt # ts" "\<not> halted s1" by (auto simp: neq_Nil_conv)
    obtain c where c: "threads s1 (currentThread s1) = Some c" using s1(2) by (auto simp: qinv_def)
    have ti: "thr_inv s1" using s1(2) by (simp add: qinv_def)
    have n0: "nt \<noteq> NULL" using thr_readyD [OF ti, of nt] r by auto
    let ?m = "s1\<lparr>threads := (threads s1)(currentThread s1 \<mapsto> c\<lparr>tstatus := READY\<rparr>), readyList := readyList s1 @ [currentThread s1]\<rparr>"
    have F: "FindNextToRun s1 = (nt, s1\<lparr>readyList := ts\<rparr>)" using r by (simp add: FindNextToRun_def)
    have "ReadyToRun (currentThread s1) (s1\<lparr>readyList := ts\<rparr>) = Inr (?m\<lparr>readyList := ts @ [currentThread s1]\<rparr>)"
      using c by (simp add: ReadyToRun_def setStatus_def upd_thread_def)
    moreover have "\<exists>s'. Scheduler_Run nt (?m\<lparr>readyList := ts @ [currentThread s1]\<rparr>) = Inr s' \<and> kinv s'
        \<and> currentThread s' = nt \<and> readyList s' = ts @ [currentThread s1] \<and> level s' = IntOff"
      using Scheduler_Run_inv [OF mid_of_ready [OF s1(2,3) c]] r(1) by auto
    ultimately show ?thesis using s1(1) F n0 False r(1) same by (auto simp: Yield_def ChangeLevel_def Let_def)
  qed
qed

section \<open>The kernel under the contract of its interrupt handlers\<close>

text \<open>Outcomes of a kernel operation: an endless wait for an interrupt, the power-down, an error
  that a device handler raised, or a state that satisfies the invariant.\<close>

definition kpost :: "nachos_error set \<Rightarrow> ('h, 'z) kernel_scheme res option \<Rightarrow> bool" where
  "kpost E r \<longleftrightarrow> (case r of None \<Rightarrow> True
     | Some (Inl e) \<Rightarrow> e = PowerDown \<or> e \<in> E
     | Some (Inr s') \<Rightarrow> kinv s')"

lemma kpost_mono: "kpost E r \<Longrightarrow> E \<subseteq> F \<Longrightarrow> kpost F r"
  by (auto simp: kpost_def split: option.splits sum.splits)

text \<open>The one error that a call may raise by itself: a \<open>V\<close> on a semaphore whose value is the largest \<open>int\<close>.\<close>

definition op_errors :: "kop \<Rightarrow> ('h, 'z) kernel_scheme \<Rightarrow> nachos_error set" where
  "op_errors p s = (case p of OpV a \<Rightarrow> if V_full a s then {IntOverflow} else {} | _ \<Rightarrow> {})"

lemma op_errors_simps [simp]:
  "op_errors OpYield s = {}" "op_errors (OpP a) s = {}" "op_errors (OpV a) s = (if V_full a s then {IntOverflow} else {})"
  "op_errors (OpNewThread n t) s = {}" "op_errors (OpStart t f x) s = {}" "op_errors (OpNewSem a v) s = {}" "op_errors OpTick s = {}"
  by (simp_all add: op_errors_def)

lemma kpost_simps [simp]:
  "kpost E None" "kpost E (Some (Inl e)) \<longleftrightarrow> e = PowerDown \<or> e \<in> E" "kpost E (Some (Inr s')) \<longleftrightarrow> kinv s'"
  by (simp_all add: kpost_def)

text \<open>The state in which interrupt handlers are looked for.\<close>

definition intr_pre :: "('h, 'z) kernel_scheme \<Rightarrow> bool" where
  "intr_pre s \<longleftrightarrow> thr_inv s \<and> intr_ok s \<and> level s = IntOff \<and> \<not> inHandler s"

lemma kernel_DL_ok:
  assumes "thr_inv s"
  shows "\<exists>m. kernel_DL s = Inr (s\<lparr>mach := m\<rparr>) \<and> thr_frame s (s\<lparr>mach := m\<rparr>)"
proof -
  have "unat (registers (mach s) 37) < 40" using assms by (simp add: thr_inv_def mem_inv_def)
  then obtain m where m: "DelayedLoad 0 0 (mach s) = Inr m" "registers m 37 = 0" "currentPageTable m = currentPageTable (mach s)"
    by (auto simp: DelayedLoad_def setReg_def Let_def)
  then have "thr_inv (s\<lparr>mach := m\<rparr>)" using assms by (simp add: thr_inv_def mem_inv_def)
  then show ?thesis using m(1,3) by (intro exI [of _ m]) (simp add: kernel_DL_def thr_frame_def)
qed

lemma mid_frame:
  assumes "mid s" "thr_frame s s'" "intr_pre s'"
  shows "mid s'"
proof -
  obtain c where c: "threads s (currentThread s) = Some c" "tstatus c = BLOCKED \<or> tstatus c = READY"
      "currentThread s \<noteq> threadToBeDestroyed s \<longrightarrow> resume_ok (dom (sems s)) (kstack c)"
    using assms(1) by (auto simp: mid_def)
  have f: "currentThread s' = currentThread s" "threadToBeDestroyed s' = threadToBeDestroyed s" "dom (sems s') = dom (sems s)"
      "map_option kstack (threads s' (currentThread s)) = Some (kstack c)"
      "stat (threads s') (currentThread s) = Some (tstatus c) \<or> stat (threads s') (currentThread s) = Some READY"
    using assms(2) c(1) unfolding thr_frame_def by (simp_all, metis stat_Some)
  then obtain c' where "threads s' (currentThread s) = Some c'" "kstack c' = kstack c" by auto
  moreover from this have "tstatus c' = BLOCKED \<or> tstatus c' = READY" using f(5) c(2) by (auto simp: stat_def)
  ultimately show ?thesis using assms(1,3) f c(3) by (simp add: mid_def intr_pre_def)
qed

lemma qinv_frame:
  assumes "qinv s" "thr_frame s s'" "intr_ok s'" "\<not> inHandler s'"
  shows "qinv s'"
proof -
  obtain c where c: "threads s (currentThread s) = Some c" "tstatus c = RUNNING" "base_frames (kstack c)"
    using assms(1) by (auto simp: qinv_def)
  have f: "currentThread s' = currentThread s" "threadToBeDestroyed s' = threadToBeDestroyed s"
      "map_option kstack (threads s' (currentThread s)) = Some (kstack c)"
      "stat (threads s') (currentThread s) = Some RUNNING"
    using assms(2) c(1,2) unfolding thr_frame_def by (simp_all, metis ThreadStatus.distinct(9) option.inject stat_Some)
  then obtain c' where "threads s' (currentThread s) = Some c'" "kstack c' = kstack c" "tstatus c' = RUNNING"
    by (auto simp: stat_def)
  then show ?thesis using assms f c(3) by (simp add: qinv_def thr_frame_def)
qed

text \<open>Going to sleep on a semaphore, and for ever.\<close>

lemma sem_inv_block:
  assumes "sem_inv th sm d" "sm a = Some q" "stat th t = Some RUNNING" "t \<noteq> d" "tstatus c' = BLOCKED"
  shows "sem_inv (th(t \<mapsto> c')) (sm(a \<mapsto> q\<lparr>queue := queue q @ [t]\<rparr>)) d"
proof -
  let ?m = "sm(a \<mapsto> q\<lparr>queue := queue q @ [t]\<rparr>)"
  have nq: "t \<notin> set (queue r)" if "sm b = Some r" for b r
    using assms(1,3) that unfolding sem_inv_def by fastforce
  have q: "sem_range (semvalue q)" "distinct (queue q)" using assms(1,2) unfolding sem_inv_def by blast+
  have f: "\<exists>r0. sm b = Some r0 \<and> sem_range (semvalue r) \<and> distinct (queue r)
      \<and> set (queue r) = (if b = a then insert t (set (queue r0)) else set (queue r0))" if "?m b = Some r" for b r
    using that q nq [OF assms(2)] assms(1,2) unfolding sem_inv_def by (cases "b = a") auto
  have g: "\<exists>r0. ?m b = Some r0 \<and> set (queue r) \<subseteq> set (queue r0)" if "sm b = Some r" for b r
    using that assms(2) by auto
  show ?thesis
    unfolding sem_inv_def
  proof (intro conjI allI impI ballI)
    fix b r assume b: "?m b = Some r"
    then show "sem_range (semvalue r)" "distinct (queue r)" using f by blast+
    fix u assume u: "u \<in> set (queue r)"
    obtain r0 where r0: "sm b = Some r0" "u = t \<or> u \<in> set (queue r0)"
      using f [OF b] u by (auto split: if_splits)
    then have "u = t \<or> stat th u = Some BLOCKED \<and> u \<noteq> d" using assms(1) unfolding sem_inv_def by blast
    then show "stat (th(t \<mapsto> c')) u = Some BLOCKED" "u \<noteq> d" using assms(4,5) by auto
  next
    fix b b' r r' u assume b: "?m b = Some r" "?m b' = Some r'" "u \<in> set (queue r)" "u \<in> set (queue r')"
    obtain r0 where r0: "sm b = Some r0" "u \<in> (if b = a then insert t (set (queue r0)) else set (queue r0))"
      using f [OF b(1)] b(3) by metis
    obtain r1 where r1: "sm b' = Some r1" "u \<in> (if b' = a then insert t (set (queue r1)) else set (queue r1))"
      using f [OF b(2)] b(4) by metis
    show "b = b'"
    proof (cases "u = t")
      case True
      then have "b = a" "b' = a" using r0 r1 nq by (metis (full_types))+
      then show ?thesis by simp
    next
      case False
      then have "u \<in> set (queue r0)" "u \<in> set (queue r1)" using r0(2) r1(2) by (auto split: if_splits)
      then show ?thesis using r0(1) r1(1) assms(1) unfolding sem_inv_def by blast
    qed
  next
    fix u assume u: "stat (th(t \<mapsto> c')) u = Some BLOCKED" "u \<noteq> d"
    show "\<exists>b r. ?m b = Some r \<and> u \<in> set (queue r)"
    proof (cases "u = t")
      case True
      then show ?thesis by (intro exI [of _ a]) simp
    next
      case False
      then have "stat th u = Some BLOCKED" using u(1) by simp
      then obtain b r where "sm b = Some r" "u \<in> set (queue r)" using assms(1) u(2) unfolding sem_inv_def by blast
      then show ?thesis using g by blast
    qed
  next
    assume "d \<noteq> NULL"
    then show "stat (th(t \<mapsto> c')) d = Some BLOCKED" using assms(1,4) unfolding sem_inv_def by auto
  qed
qed

lemma block_parts:
  assumes "thr_inv s" "threads s (currentThread s) = Some c" "tstatus c = RUNNING"
    "c' = c\<lparr>kstack := fs, tstatus := BLOCKED\<rparr>"
  shows "ready_inv ((threads s)(currentThread s \<mapsto> c')) (readyList s)"
    "all_inv ((threads s)(currentThread s \<mapsto> c')) (threadList s)"
    "run_inv ((threads s)(currentThread s \<mapsto> c')) (currentThread s)"
    "mem_inv ((threads s)(currentThread s \<mapsto> c')) (spaces s) (mach s)"
    "out_inv (threads s) A (currentThread s) d \<Longrightarrow> out_inv ((threads s)(currentThread s \<mapsto> c')) A (currentThread s) d"
proof -
  have p: "ready_inv (threads s) (readyList s)" "all_inv (threads s) (threadList s)"
      "run_inv (threads s) (currentThread s)" "mem_inv (threads s) (spaces s) (mach s)"
    using assms(1) by (simp_all add: thr_inv_def)
  show "ready_inv ((threads s)(currentThread s \<mapsto> c')) (readyList s)"
    using p(1) assms(2,3,4) by (auto simp: ready_inv_def stat_Some)
  show "all_inv ((threads s)(currentThread s \<mapsto> c')) (threadList s)"
    using p(2) all_inv_upd [of "threads s" "currentThread s" c] assms(2) by simp
  show "run_inv ((threads s)(currentThread s \<mapsto> c')) (currentThread s)"
    using p(3) assms(4) by (auto simp: run_inv_def)
  show "mem_inv ((threads s)(currentThread s \<mapsto> c')) (spaces s) (mach s)"
    using p(4) thr_mem_ok [OF assms(1,2)] assms(4) by (simp add: mem_inv_def mem_ok_def)
  show "out_inv (threads s) A (currentThread s) d \<Longrightarrow> out_inv ((threads s)(currentThread s \<mapsto> c')) A (currentThread s) d"
    by (simp add: out_inv_def)
qed

lemma thr_parts:
  assumes "thr_inv s"
  shows "ready_inv (threads s) (readyList s)" "sem_inv (threads s) (sems s) (threadToBeDestroyed s)"
      "all_inv (threads s) (threadList s)" "run_inv (threads s) (currentThread s)"
      "out_inv (threads s) (dom (sems s)) (currentThread s) (threadToBeDestroyed s)"
      "mem_inv (threads s) (spaces s) (mach s)"
  using assms unfolding thr_inv_def by auto

lemma qinv_thr: "qinv s \<Longrightarrow> thr_inv s"
  by (simp add: qinv_def)

lemma thr_nonnull: "thr_inv s \<Longrightarrow> threads s t = Some c \<Longrightarrow> t \<noteq> NULL"
  by (cases "t = NULL") (simp_all add: thr_inv_def all_inv_def)

lemma mid_of_wait:
  assumes "qinv s" "level s = IntOff" "threads s (currentThread s) = Some c" "sems s a = Some q"
  shows "mid (s\<lparr>sems := (sems s)(a \<mapsto> q\<lparr>queue := queue q @ [currentThread s]\<rparr>),
     threads := (threads s)(currentThread s \<mapsto> c\<lparr>kstack := PLoop a l # kstack c, tstatus := BLOCKED\<rparr>)\<rparr>)"
proof -
  have c: "tstatus c = RUNNING" "base_frames (kstack c)" "thr_inv s" "threadToBeDestroyed s = NULL"
    using assms(1,3) by (auto simp: qinv_def)
  let ?c = "c\<lparr>kstack := PLoop a l # kstack c, tstatus := BLOCKED\<rparr>"
  have n: "currentThread s \<noteq> NULL" using thr_nonnull [OF c(3) assms(3)] .
  have "sem_inv ((threads s)(currentThread s \<mapsto> ?c)) ((sems s)(a \<mapsto> q\<lparr>queue := queue q @ [currentThread s]\<rparr>)) NULL"
    using sem_inv_block [of "threads s" "sems s" NULL a q "currentThread s" ?c] c assms(3,4) n
    by (simp add: thr_inv_def stat_Some)
  moreover have "insert a (dom (sems s)) = dom (sems s)" using assms(4) by blast
  moreover have "out_inv (threads s) (dom (sems s)) (currentThread s) NULL" using c(3,4) by (simp add: thr_inv_def)
  ultimately have "thr_inv (s\<lparr>sems := (sems s)(a \<mapsto> q\<lparr>queue := queue q @ [currentThread s]\<rparr>),
     threads := (threads s)(currentThread s \<mapsto> ?c)\<rparr>)"
    using block_parts [OF c(3) assms(3) c(1) refl, where fs = "PLoop a l # kstack c"] c(4) by (simp add: thr_inv_def)
  then show ?thesis using assms(1,2,4) c by (auto simp: mid_def qinv_def resume_ok_def intr_ok_def)
qed

lemma mid_of_finish:
  assumes "thr_inv s" "intr_ok s" "\<not> inHandler s" "level s = IntOff" "threadToBeDestroyed s = NULL"
    "threads s (currentThread s) = Some c" "tstatus c = RUNNING"
  shows "mid (s\<lparr>threadToBeDestroyed := currentThread s,
     threads := (threads s)(currentThread s \<mapsto> c\<lparr>tstatus := BLOCKED\<rparr>)\<rparr>)"
proof -
  let ?c = "c\<lparr>kstack := kstack c, tstatus := BLOCKED\<rparr>" let ?t = "currentThread s"
  have si: "sem_inv (threads s) (sems s) NULL" using assms(1,5) by (simp add: thr_inv_def)
  have sR: "stat (threads s) ?t = Some RUNNING" using assms(6,7) by (simp add: stat_Some)
  have n0: "stat (threads s) NULL = None" using assms(1) by (simp add: thr_inv_def all_inv_def stat_def)
  have "sem_inv ((threads s)(?t \<mapsto> ?c)) (sems s) ?t"
    unfolding sem_inv_def
  proof (intro conjI allI impI ballI)
    fix a q assume a: "sems s a = Some q"
    then show "sem_range (semvalue q)" "distinct (queue q)" using si unfolding sem_inv_def by blast+
    fix u assume "u \<in> set (queue q)"
    then have b: "stat (threads s) u = Some BLOCKED" using si a unfolding sem_inv_def by blast
    then show "u \<noteq> ?t" using sR by auto
    then show "stat ((threads s)(?t \<mapsto> ?c)) u = Some BLOCKED" using b by simp
  next
    fix u assume u: "stat ((threads s)(?t \<mapsto> ?c)) u = Some BLOCKED" "u \<noteq> ?t"
    then have "stat (threads s) u = Some BLOCKED" "u \<noteq> NULL" using n0 by (auto, cases "u = NULL", auto)
    then show "\<exists>a q. sems s a = Some q \<and> u \<in> set (queue q)" using si unfolding sem_inv_def by blast
  next
    fix a b q r u assume "sems s a = Some q" "sems s b = Some r" "u \<in> set (queue q)" "u \<in> set (queue r)"
    then show "a = b" using si unfolding sem_inv_def by blast
  qed simp
  moreover have "out_inv (threads s) (dom (sems s)) ?t ?t"
    using assms(1,5) n0 unfolding thr_inv_def out_inv_def by (metis not_None_eq option.map_disc_iff stat_def)
  ultimately have "thr_inv (s\<lparr>threadToBeDestroyed := ?t, threads := (threads s)(?t \<mapsto> ?c)\<rparr>)"
    using block_parts [OF assms(1,6,7) refl, where fs = "kstack c"] by (simp add: thr_inv_def)
  then show ?thesis using assms by (auto simp: mid_def intr_ok_def)
qed

text \<open>Creating and starting threads, creating semaphores.\<close>

lemma start_inv:
  assumes "qinv s" "threads s t = Some c" "tstatus c = JUST_CREATED"
  shows "qinv (s\<lparr>threads := (threads s)(t \<mapsto> c\<lparr>stack := Some STACK_FENCEPOST,
        kstack := [SetupFrame, Body f x, FinishFrame], tstatus := READY\<rparr>), readyList := readyList s @ [t]\<rparr>)"
proof -
  let ?c = "c\<lparr>stack := Some STACK_FENCEPOST, kstack := [SetupFrame, Body f x, FinishFrame], tstatus := READY\<rparr>"
  let ?th = "(threads s)(t \<mapsto> ?c)"
  note p = thr_parts [OF qinv_thr [OF assms(1)]]
  have sj: "stat (threads s) t = Some JUST_CREATED" using assms(2,3) by (simp add: stat_Some)
  have ne: "t \<noteq> currentThread s" using assms by (auto simp: qinv_def)
  have "ready_inv ?th (readyList s @ [t])" using p(1) sj by (auto simp: ready_inv_def)
  moreover have "sem_inv ?th (sems s) (threadToBeDestroyed s)"
    using p(2) sj by (subst sem_inv_stat [where th = "threads s"]) auto
  moreover have "all_inv ?th (threadList s)" using p(3) all_inv_upd [of "threads s" t c] assms(2) by simp
  moreover have "run_inv ?th (currentThread s)" using p(4) by (auto simp: run_inv_def)
  moreover have "out_inv ?th (dom (sems s)) (currentThread s) (threadToBeDestroyed s)"
    using p(5) by (auto simp: out_inv_def switch_ok_def base_frames_def)
  moreover have "mem_inv ?th (spaces s) (mach s)"
    using p(6) assms(2) by (auto simp: mem_inv_def mem_ok_def)
  ultimately show ?thesis using assms(1) ne by (auto simp: qinv_def thr_inv_def intr_ok_def)
qed

lemma new_thread_inv:
  assumes "qinv s" "t \<noteq> NULL" "threads s t = None"
  shows "qinv (Thread_new n regs t s)"
proof -
  let ?c = "\<lparr>tname = n, tstatus = JUST_CREATED, stack = None, main_stack = False,
          userRegisters = regs(LoadReg := 0, LoadValueReg := 0), space = NULL, kstack = []\<rparr>"
  let ?th = "(threads s)(t \<mapsto> ?c)"
  note p = thr_parts [OF qinv_thr [OF assms(1)]]
  have sn: "stat (threads s) t = None" using assms(3) by (simp add: stat_def)
  have ne: "t \<noteq> currentThread s" using assms by (auto simp: qinv_def)
  have "ready_inv ?th (readyList s)" using p(1) sn by (auto simp: ready_inv_def)
  moreover have "sem_inv ?th (sems s) (threadToBeDestroyed s)"
    using p(2) sn by (subst sem_inv_stat [where th = "threads s"]) auto
  moreover have "all_inv ?th (threadList s @ [t])" using p(3) assms(2,3) by (auto simp: all_inv_def)
  moreover have "run_inv ?th (currentThread s)" using p(4) by (auto simp: run_inv_def)
  moreover have "out_inv ?th (dom (sems s)) (currentThread s) (threadToBeDestroyed s)"
    using p(5) by (auto simp: out_inv_def)
  moreover have "mem_inv ?th (spaces s) (mach s)" using p(6) by (auto simp: mem_inv_def mem_ok_def)
  ultimately show ?thesis using assms(1) ne by (auto simp: qinv_def thr_inv_def intr_ok_def Thread_new_def)
qed

lemma switch_ok_mono: "switch_ok A fs \<Longrightarrow> A \<subseteq> B \<Longrightarrow> switch_ok B fs"
  by (auto simp: switch_ok_def resume_ok_def split: list.splits frame.splits)

lemma new_sem_inv:
  assumes "qinv s" "sems s a = None" "sem_range v"
  shows "qinv (set_sem a (Semaphore_new v) s)"
proof -
  let ?sm = "(sems s)(a \<mapsto> Semaphore_new v)" let ?d = "threadToBeDestroyed s"
  note p = thr_parts(2,5) [OF qinv_thr [OF assms(1)]]
  have old: "?sm b = Some q \<Longrightarrow> b = a \<and> q = Semaphore_new v \<or> b \<noteq> a \<and> sems s b = Some q" for b q
    by (auto split: if_splits)
  have "sem_inv (threads s) ?sm ?d"
    unfolding sem_inv_def
  proof (intro conjI allI impI)
    fix b q assume "?sm b = Some q"
    then show "sem_range (semvalue q)" "distinct (queue q)" "\<forall>t \<in> set (queue q). stat (threads s) t = Some BLOCKED \<and> t \<noteq> ?d"
      using old [of b q] p(1) assms(3) unfolding sem_inv_def by (auto simp: Semaphore_new_def)
  next
    fix b b' q r t assume "?sm b = Some q" "?sm b' = Some r" "t \<in> set (queue q)" "t \<in> set (queue r)"
    then have "sems s b = Some q" "sems s b' = Some r" using old [of b q] old [of b' r] by (auto simp: Semaphore_new_def)
    then show "b = b'" using p(1) \<open>t \<in> set (queue q)\<close> \<open>t \<in> set (queue r)\<close> unfolding sem_inv_def by blast
  next
    fix t assume "stat (threads s) t = Some BLOCKED" "t \<noteq> ?d"
    then obtain b q where "sems s b = Some q" "t \<in> set (queue q)" using p(1) unfolding sem_inv_def by blast
    then show "\<exists>b q. ?sm b = Some q \<and> t \<in> set (queue q)" using assms(2) by (intro exI [of _ b]) auto
  next
    assume "?d \<noteq> NULL" then show "stat (threads s) ?d = Some BLOCKED" using p(1) unfolding sem_inv_def by blast
  qed
  moreover have "out_inv (threads s) (dom ?sm) (currentThread s) ?d"
    using p(2) unfolding out_inv_def by (metis switch_ok_mono dom_fun_upd option.distinct(1) subset_insertI)
  ultimately show ?thesis using assms(1) by (simp add: qinv_def thr_inv_def set_sem_def intr_ok_def)
qed

locale kernel_client = interrupt_client D kernel_DL
  for D :: "('h, 'z) kdispatch" +
  fixes E :: "nachos_error set"
  assumes handler_threads:
      "intr_ok s \<Longrightarrow> thr_inv s \<Longrightarrow> level s = IntOff \<Longrightarrow> inHandler s \<Longrightarrow> istatus s = SystemMode \<Longrightarrow> D h a s = Inr s' \<Longrightarrow> thr_frame s s'"
    and handler_errors:
      "intr_ok s \<Longrightarrow> thr_inv s \<Longrightarrow> level s = IntOff \<Longrightarrow> inHandler s \<Longrightarrow> istatus s = SystemMode \<Longrightarrow> D h a s = Inl e \<Longrightarrow> e \<in> E"
begin

lemma fire_threads:
  assumes "intr_pre s"
  shows "case fire D kernel_DL p s of Inl e \<Rightarrow> e \<in> E
    | Inr s' \<Rightarrow> thr_frame s s' \<and> intr_pre s' \<and> istatus s' = istatus s"
proof -
  have pre: "thr_inv s" "intr_ok s" "level s = IntOff" "\<not> inHandler s" using assms by (auto simp: intr_pre_def)
  obtain m where m: "(if istatus s = UserMode then kernel_DL s else Inr s) = Inr (s\<lparr>mach := m\<rparr>)" "thr_frame s (s\<lparr>mach := m\<rparr>)"
  proof (cases "istatus s = UserMode")
    case True
    then show thesis using that kernel_DL_ok [OF pre(1)] by auto
  next
    case False
    then show thesis using that [of "mach s"] thr_frame_refl [OF pre(1)] by simp
  qed
  let ?s = "s\<lparr>mach := m, inHandler := True, istatus := SystemMode\<rparr>"
  have ok: "intr_ok ?s" "thr_inv ?s" "level ?s = IntOff" "inHandler ?s" "istatus ?s = SystemMode"
    using pre thr_frame_inv [OF m(2)] by (simp_all add: intr_ok_def)
  show ?thesis
  proof (cases "D (handler p) (arg p) ?s")
    case (Inl e)
    then show ?thesis using m(1) handler_errors [OF ok Inl] by (simp add: fire_def)
  next
    case (Inr s2)
    have "thr_frame ?s s2" using handler_threads [OF ok Inr] .
    then have f: "thr_frame s s2" using m(2) by (auto intro: thr_frame_trans)
    moreover have "handler_frame ?s s2" using handler_law [OF ok(1,3,4,5) Inr] .
    ultimately show ?thesis
      using m(1) Inr pre(3) thr_frame_inv [OF f] by (simp add: fire_def intr_pre_def handler_frame_def)
  qed
qed

lemma CheckIfDue_threads:
  assumes "intr_pre s"
  shows "case CheckIfDue D kernel_DL adv s of Inl e \<Rightarrow> e \<in> E
    | Inr (b, s') \<Rightarrow> thr_frame s s' \<and> intr_pre s' \<and> istatus s' = istatus s"
proof (cases "pending s")
  case Nil
  then show ?thesis using assms thr_frame_refl [of s] by (simp add: CheckIfDue_def intr_pre_def)
next
  case (Cons p rest)
  obtain t e where p: "p = (t, e)" by fastforce
  have pre: "thr_inv s" "intr_ok s" "level s = IntOff" "\<not> inHandler s" using assms by (auto simp: intr_pre_def)
  have w: "whenp e = t" using pre(2) Cons p by (simp add: intr_ok_def)
  have r: "intr_ok (s\<lparr>pending := rest\<rparr>)" using intr_ok_tl [OF pre(2) Cons] .
  define s2 where "s2 = (if t > totalTicks (stats s) then advance_to t (s\<lparr>pending := rest\<rparr>) else s\<lparr>pending := rest\<rparr>)"
  have s2: "intr_pre s2" "thr_frame s s2" "istatus s2 = istatus s" "pending s2 = rest"
    using pre r thr_frame_refl [OF pre(1)] by (simp_all add: s2_def advance_to_def intr_pre_def)
  have bk: "intr_ok (s2\<lparr>pending := sorted_ins t e rest\<rparr>)" "intr_ok (s\<lparr>pending := sorted_ins t e rest\<rparr>)"
    using intr_ok_insert [OF r w] by (simp_all add: s2_def advance_to_def intr_ok_def)
  have C: "CheckIfDue D kernel_DL adv s =
     (if \<not> adv \<and> t > totalTicks (stats s) then Inr (False, s\<lparr>pending := sorted_ins t e rest\<rparr>)
      else if istatus s = IdleMode \<and> itype e = TimerInt \<and> rest = [] then Inr (False, s2\<lparr>pending := sorted_ins t e rest\<rparr>)
      else rbind (fire D kernel_DL e s2) (\<lambda>s'. Inr (True, s')))"
    using Cons p pre(3) by (auto simp: CheckIfDue_def s2_def advance_to_def fire_def rbind_assoc Let_def)
  have F: "case fire D kernel_DL e s2 of Inl e \<Rightarrow> e \<in> E | Inr s' \<Rightarrow> thr_frame s s' \<and> intr_pre s' \<and> istatus s' = istatus s"
    using fire_threads [OF s2(1), of e] s2(2,3) by (auto split: sum.splits intro: thr_frame_trans)
  show ?thesis
  proof (cases "fire D kernel_DL e s2")
    case (Inl err)
    then show ?thesis using F s2 bk pre thr_frame_refl [OF pre(1)] unfolding C by (auto simp: intr_pre_def)
  next
    case (Inr s')
    then show ?thesis using F s2 bk pre thr_frame_refl [OF pre(1)] unfolding C by (auto simp: intr_pre_def)
  qed
qed

lemma check_loop_threads:
  assumes "check_loop D kernel_DL s = Some r" "intr_pre s"
  shows "case r of Inl e \<Rightarrow> e \<in> E | Inr s' \<Rightarrow> thr_frame s s' \<and> intr_pre s' \<and> istatus s' = istatus s"
  using assms
proof (induction "length (due_list s)" arbitrary: s rule: less_induct)
  case less
  note C = CheckIfDue_threads [OF less.prems(2), of False]
  show ?case
  proof (cases "CheckIfDue D kernel_DL False s")
    case (Inl e)
    then have "r = Inl e" using less.prems(1) by (subst (asm) check_loop.simps) simp
    then show ?thesis using C Inl by simp
  next
    case (Inr x)
    obtain fired s' where x: "x = (fired, s')" by fastforce
    have s': "thr_frame s s'" "intr_pre s'" "istatus s' = istatus s" using C Inr x by simp_all
    have l: "(if fired then check_loop D kernel_DL s' else Some (Inr s')) = Some r"
      using less.prems(1) Inr x by (subst (asm) check_loop.simps) simp
    show ?thesis
    proof (cases fired)
      case True
      have "length (due_list s') < length (due_list s)"
        using CheckIfDue_shrinks [of s s'] less.prems(2) Inr x True by (simp add: intr_pre_def)
      then have "case r of Inl e \<Rightarrow> e \<in> E | Inr t \<Rightarrow> thr_frame s' t \<and> intr_pre t \<and> istatus t = istatus s'"
        using less.hyps s'(2) l True by simp
      then show ?thesis using s' by (auto split: sum.splits intro: thr_frame_trans)
    next
      case False
      then show ?thesis using l s' by auto
    qed
  qed
qed

lemma Idle_threads:
  assumes "Idle D kernel_DL s = Some r" "intr_pre s"
  shows "case r of Inl e \<Rightarrow> e = PowerDown \<or> e \<in> E | Inr s' \<Rightarrow> thr_frame s s' \<and> intr_pre s'"
proof -
  let ?s = "s\<lparr>istatus := IdleMode\<rparr>"
  have C: "case CheckIfDue D kernel_DL True ?s of Inl e \<Rightarrow> e \<in> E | Inr (b, s') \<Rightarrow> thr_frame s s' \<and> intr_pre s'"
    using CheckIfDue_threads [of ?s True] assms(2) by (auto simp: intr_pre_def split: sum.splits)
  show ?thesis
  proof (cases "CheckIfDue D kernel_DL True ?s")
    case (Inl e)
    then show ?thesis using assms(1) C by (auto simp: Idle_def)
  next
    case (Inr x)
    obtain fired s1 where x: "x = (fired, s1)" by fastforce
    have s1: "thr_frame s s1" "intr_pre s1" using C Inr x by simp_all
    show ?thesis
    proof (cases fired)
      case False
      then show ?thesis using assms(1) Inr x by (auto simp: Idle_def Powerdown_def)
    next
      case True
      then have I: "obind (check_loop D kernel_DL s1) (\<lambda>s2. Some (Inr (s2\<lparr>yieldOnReturn := False, istatus := SystemMode\<rparr>))) = Some r"
        using assms(1) Inr x by (simp add: Idle_def)
      then obtain r1 where r1: "check_loop D kernel_DL s1 = Some r1" by (cases "check_loop D kernel_DL s1") auto
      have "case r1 of Inl e \<Rightarrow> e \<in> E | Inr s' \<Rightarrow> thr_frame s1 s' \<and> intr_pre s'"
        using check_loop_threads [OF r1 s1(2)] by (auto split: sum.splits)
      then show ?thesis
        using I r1 s1(1) by (cases r1) (auto simp: intr_pre_def intro: thr_frame_trans)
    qed
  qed
qed

lemma sleep_loop_mid:
  assumes "sleep_loop D s = Some r" "mid s"
  shows "case r of Inl e \<Rightarrow> e = PowerDown \<or> e \<in> E
    | Inr (nt, s') \<Rightarrow> \<exists>t ts. mid t \<and> thr_frame s t \<and> readyList t = nt # ts \<and> s' = t\<lparr>readyList := ts\<rparr>"
proof -
  have "D0 = D \<longrightarrow> mid s \<longrightarrow> (case r of Inl e \<Rightarrow> e = PowerDown \<or> e \<in> E
      | Inr (nt, s') \<Rightarrow> \<exists>t ts. mid t \<and> thr_frame s t \<and> readyList t = nt # ts \<and> s' = t\<lparr>readyList := ts\<rparr>)"
    if "sleep_loop D0 s = Some r" for D0
    using that
  proof (rule sleep_loop.raw_induct [where P = "\<lambda>D0 s r. D0 = D \<longrightarrow> mid s \<longrightarrow> (case r of Inl e \<Rightarrow> e = PowerDown \<or> e \<in> E
      | Inr (nt, s') \<Rightarrow> \<exists>t ts. mid t \<and> thr_frame s t \<and> readyList t = nt # ts \<and> s' = t\<lparr>readyList := ts\<rparr>)", rotated], intro impI)
    fix loop D0 s r
    assume IH: "\<And>D0 s r. loop D0 s = Some r \<Longrightarrow> D0 = D \<longrightarrow> mid s \<longrightarrow> (case r of Inl e \<Rightarrow> e = PowerDown \<or> e \<in> E
        | Inr (nt, s') \<Rightarrow> \<exists>t ts. mid t \<and> thr_frame s t \<and> readyList t = nt # ts \<and> s' = t\<lparr>readyList := ts\<rparr>)"
      and b: "(let (nextThread, s1) = FindNextToRun s in if nextThread \<noteq> NULL then Some (Inr (nextThread, s1))
        else case Idle D0 kernel_DL s1 of None \<Rightarrow> None | Some (Inl e) \<Rightarrow> Some (Inl e) | Some (Inr s2) \<Rightarrow> loop D0 s2) = Some r"
      and eq: "D0 = D" and m: "mid s"
    show "case r of Inl e \<Rightarrow> e = PowerDown \<or> e \<in> E
        | Inr (nt, s') \<Rightarrow> \<exists>t ts. mid t \<and> thr_frame s t \<and> readyList t = nt # ts \<and> s' = t\<lparr>readyList := ts\<rparr>"
    proof (cases "halted s \<or> readyList s = []")
      case False
      then obtain nt ts where rl: "readyList s = nt # ts" "\<not> halted s" by (auto simp: neq_Nil_conv)
      have "nt \<noteq> NULL" using thr_readyD [of s nt] m rl by (auto simp: mid_def)
      then have "r = Inr (nt, s\<lparr>readyList := ts\<rparr>)" using b rl by (simp add: FindNextToRun_def)
      then show ?thesis using m rl thr_frame_refl [of s] by (auto simp: mid_def)
    next
      case True
      then have F: "FindNextToRun s = (NULL, s)" by (auto simp: FindNextToRun_def)
      have pre: "intr_pre s" using m by (simp add: mid_def intr_pre_def)
      obtain r1 where r1: "Idle D kernel_DL s = Some r1" using b F eq by (auto split: option.splits)
      show ?thesis
      proof (cases r1)
        case (Inl e)
        then show ?thesis using Idle_threads [OF r1 pre] b F r1 eq by auto
      next
        case (Inr s2)
        then have s2: "mid s2" "thr_frame s s2" using Idle_threads [OF r1 pre] mid_frame [OF m] by simp_all
        have "loop D s2 = Some r" using b F r1 Inr eq by simp
        then have "case r of Inl e \<Rightarrow> e = PowerDown \<or> e \<in> E
            | Inr (nt, s') \<Rightarrow> \<exists>t ts. mid t \<and> thr_frame s2 t \<and> readyList t = nt # ts \<and> s' = t\<lparr>readyList := ts\<rparr>"
          using IH s2(1) by blast
        then show ?thesis using thr_frame_trans [OF s2(2)] by (auto split: sum.splits)
      qed
    qed
  qed
  then show ?thesis using assms by blast
qed

lemma Sleep_post:
  assumes "threads s (currentThread s) = Some c" "level s = IntOff"
    "mid (s\<lparr>threads := (threads s)(currentThread s \<mapsto> c\<lparr>tstatus := BLOCKED\<rparr>)\<rparr>)"
  shows "kpost E (Sleep D s)"
proof -
  let ?s = "s\<lparr>threads := (threads s)(currentThread s \<mapsto> c\<lparr>tstatus := BLOCKED\<rparr>)\<rparr>"
  have S: "Sleep D s = obind (sleep_loop D ?s) (\<lambda>(nextThread, s2). Some (Scheduler_Run nextThread s2))"
    using assms(1,2) by (simp add: Sleep_def setStatus_def upd_thread_def)
  show ?thesis
  proof (cases "sleep_loop D ?s")
    case None
    then show ?thesis using S by simp
  next
    case (Some r)
    note L = sleep_loop_mid [OF Some assms(3)]
    show ?thesis
    proof (cases r)
      case (Inl e)
      then show ?thesis using S Some L by simp
    next
      case (Inr x)
      obtain nt s2 where x: "x = (nt, s2)" by fastforce
      then obtain t ts where t: "mid t" "readyList t = nt # ts" "s2 = t\<lparr>readyList := ts\<rparr>"
        using L Inr by auto
      then show ?thesis using S Some Inr x Scheduler_Run_inv [OF t(1,2)] by auto
    qed
  qed
qed

text \<open>A tick always ends; when there is one thread only, it goes on.\<close>

lemma OneTick_done:
  assumes "qinv s"
  shows "\<exists>r. OneTick D kernel_DL tick_yield s = Some r \<and> (case r of Inl e \<Rightarrow> e \<in> E
     | Inr s' \<Rightarrow> kinv s' \<and> (dom (threads s) = {currentThread s} \<longrightarrow> currentThread s' = currentThread s))"
proof -
  let ?s = "(advance_tick s)\<lparr>level := IntOff\<rparr>"
  have q: "qinv ?s" "intr_pre ?s"
    using assms by (simp_all add: advance_tick_def qinv_def intr_pre_def intr_ok_def)
  have "intr_ok s" using assms by (simp add: qinv_def)
  then obtain r where r: "check_loop D kernel_DL ?s = Some r" using tick_post by blast
  note C = check_loop_threads [OF r q(2)]
  show ?thesis
  proof (cases r)
    case (Inl e)
    then show ?thesis using r C by (simp add: OneTick_def ChangeLevel_def Let_def)
  next
    case (Inr s1)
    then have s1: "qinv s1" using C q(1) by (intro qinv_frame [OF q(1)]) (simp_all add: intr_pre_def)
    have F: "thr_frame ?s s1" using C Inr by simp
    have one: "readyList s1 = []" "currentThread s1 = currentThread s" if "dom (threads s) = {currentThread s}"
    proof -
      show cur: "currentThread s1 = currentThread s" using F by (simp add: thr_frame_def advance_tick_def)
      have "map_option kstack (threads s1 t) = map_option kstack (threads s t)" for t
        using F by (simp add: thr_frame_def advance_tick_def)
      then have "dom (threads s1) = dom (threads s)" by (auto simp: dom_def) (metis map_option_is_None not_None_eq)+
      then have "t = currentThread s1" if "t \<in> set (readyList s1)" for t
        using thr_readyD [OF qinv_thr [OF s1] that] \<open>dom (threads s) = {currentThread s}\<close> cur by auto
      moreover have "currentThread s1 \<notin> set (readyList s1)"
        using thr_readyD [OF qinv_thr [OF s1], of "currentThread s1"] s1 by (auto simp: qinv_def)
      ultimately show "readyList s1 = []" by (metis list.set_intros(1) neq_Nil_conv)
    qed
    show ?thesis
    proof (cases "yieldOnReturn s1")
      case True
      let ?t = "s1\<lparr>level := IntOn, yieldOnReturn := False, istatus := SystemMode\<rparr>"
      obtain t' where t': "push_frame (RestoreStatus (istatus s)) ?t = Inr t'" "qinv t'"
        using qinv_push [of ?t "RestoreStatus (istatus s)"] s1 by auto
      then have same: "readyList t' = readyList s1" "currentThread t' = currentThread s1"
        by (auto simp: push_frame_def upd_thread_def split: option.splits)
      obtain u where u: "Yield t' = Inr u" "kinv u" "readyList t' = [] \<longrightarrow> currentThread u = currentThread t'"
        using Yield_inv [OF t'(2)] by auto
      then show ?thesis using t'(1) r Inr True one same
        by (simp add: OneTick_def ChangeLevel_def Let_def tick_yield_def)
    next
      case False
      then show ?thesis using r Inr s1 qinv_kinv [of "s1\<lparr>level := IntOn\<rparr>"] one
        by (simp add: OneTick_def ChangeLevel_def Let_def)
    qed
  qed
qed

lemma OneTick_post: "qinv s \<Longrightarrow> kpost E (OneTick D kernel_DL tick_yield s)"
  using OneTick_done [of s] by (fastforce split: sum.splits)

lemma kSetLevel_post:
  assumes "qinv s"
  shows "kpost E (kSetLevel D l s)"
proof (cases "l = IntOn \<and> level s = IntOff")
  case True
  have h: "\<not> inHandler s" using assms by (simp add: qinv_def)
  have "kpost E (OneTick D kernel_DL tick_yield (s\<lparr>level := IntOn\<rparr>))" using assms by (intro OneTick_post) simp
  then show ?thesis using True h
    by (cases "OneTick D kernel_DL tick_yield (s\<lparr>level := IntOn\<rparr>)")
       (auto simp: kSetLevel_def SetLevel_def ChangeLevel_def Let_def kpost_def obind_def split: sum.splits)
next
  case False
  have "\<not> inHandler s" using assms by (simp add: qinv_def)
  then show ?thesis using False qinv_kinv [of "s\<lparr>level := l\<rparr>"] assms
    by (auto simp: kSetLevel_def SetLevel_def ChangeLevel_def Let_def)
qed

lemma kSetLevel_on:
  assumes "qinv s" "level s = IntOff" "dom (threads s) = {currentThread s}"
  shows "case kSetLevel D IntOn s of None \<Rightarrow> False | Some (Inl e) \<Rightarrow> e \<in> E
    | Some (Inr s') \<Rightarrow> kinv s' \<and> currentThread s' = currentThread s"
proof -
  have h: "\<not> inHandler s" using assms(1) by (simp add: qinv_def)
  have "qinv (s\<lparr>level := IntOn\<rparr>)" using assms(1) by simp
  then obtain r where r: "OneTick D kernel_DL tick_yield (s\<lparr>level := IntOn\<rparr>) = Some r"
      "case r of Inl e \<Rightarrow> e \<in> E | Inr s' \<Rightarrow> kinv s' \<and> (dom (threads (s\<lparr>level := IntOn\<rparr>)) = {currentThread (s\<lparr>level := IntOn\<rparr>)}
         \<longrightarrow> currentThread s' = currentThread (s\<lparr>level := IntOn\<rparr>))"
    using OneTick_done by blast
  then show ?thesis using h assms(2,3)
    by (cases r) (simp_all add: kSetLevel_def SetLevel_def ChangeLevel_def)
qed

lemma P_loop_post:
  assumes "qinv s" "level s = IntOff" "sems s a \<noteq> None"
  shows "kpost E (P_loop D a l s)"
proof -
  obtain q where q: "sems s a = Some q" using assms(3) by auto
  obtain c where c: "threads s (currentThread s) = Some c" using assms(1) by (auto simp: qinv_def)
  show ?thesis
  proof (cases "semvalue q = 0")
    case True
    let ?s = "s\<lparr>sems := (sems s)(a \<mapsto> q\<lparr>queue := queue q @ [currentThread s]\<rparr>),
      threads := (threads s)(currentThread s \<mapsto> c\<lparr>kstack := PLoop a l # kstack c\<rparr>)\<rparr>"
    have "P_loop D a l s = Sleep D ?s"
      using True q c by (simp add: P_loop_def get_sem_def push_frame_def upd_thread_def set_sem_def)
    moreover have "kpost E (Sleep D ?s)"
      using mid_of_wait [OF assms(1,2) c q, of l] assms(2)
      by (intro Sleep_post [of _ "c\<lparr>kstack := PLoop a l # kstack c\<rparr>"]) simp_all
    ultimately show ?thesis by simp
  next
    case False
    have "sem_inv (threads s) (sems s) (threadToBeDestroyed s)" using thr_parts(2) [OF qinv_thr [OF assms(1)]] .
    moreover have "sem_range (semvalue q)" using thr_sem_range [OF qinv_thr [OF assms(1)] q] .
    then have "sem_range (semvalue q - 1)" using False by (simp add: sem_range_def)
    ultimately have "sem_inv (threads s) ((sems s)(a \<mapsto> q\<lparr>semvalue := semvalue q - 1\<rparr>)) (threadToBeDestroyed s)"
      using False q by (intro sem_inv_value) simp_all
    moreover have "insert a (dom (sems s)) = dom (sems s)" using q by blast
    ultimately have "qinv (set_sem a (q\<lparr>semvalue := semvalue q - 1\<rparr>) s)"
      using assms(1) by (auto simp: qinv_def thr_inv_def set_sem_def intr_ok_def)
    then show ?thesis using False q kSetLevel_post by (simp add: P_loop_def get_sem_def)
  qed
qed

lemma Semaphore_P_post:
  assumes "qinv s" "sems s a \<noteq> None"
  shows "kpost E (Semaphore_P D a s)"
proof -
  obtain q where q: "sems s a = Some q" using assms(2) by auto
  then have "0 \<le> semvalue q" using thr_sem_range [OF qinv_thr [OF assms(1)]] sem_rangeD by blast
  then show ?thesis using P_loop_post [of "s\<lparr>level := IntOff\<rparr>" a "level s"] assms q
    by (simp add: Semaphore_P_def get_sem_def ChangeLevel_def Let_def)
qed

lemma Semaphore_V_post:
  assumes "qinv s" "sems s a \<noteq> None"
  shows "kpost (E \<union> op_errors (OpV a) s) (Semaphore_V D a s)"
proof (cases "V_full a s")
  case True
  then have "V_body a (s\<lparr>level := IntOff\<rparr>) = Inl IntOverflow"
    using assms(1) by (intro V_body_full) (simp_all add: qinv_def)
  then show ?thesis using True by (simp add: Semaphore_V_def ChangeLevel_def Let_def)
next
  case False
  let ?s = "s\<lparr>level := IntOff\<rparr>"
  have "thr_inv ?s" "a \<in> dom (sems ?s)" "\<not> V_full a ?s" using assms False by (auto simp: qinv_def)
  then obtain s' where s': "V_body a ?s = Inr s'" "thr_frame ?s s'"
      "s' = ?s\<lparr>threads := threads s', readyList := readyList s', sems := sems s'\<rparr>"
    using V_body_thr by blast
  have "intr_ok s'" "\<not> inHandler s'"
    using assms(1) by (subst s'(3), simp add: qinv_def intr_ok_def)+
  then have "qinv s'" using qinv_frame [OF _ s'(2)] assms(1) by simp
  then show ?thesis using s'(1) kSetLevel_post False by (simp add: Semaphore_V_def ChangeLevel_def Let_def)
qed

lemma Finish_post:
  assumes "thr_inv s" "intr_ok s" "\<not> inHandler s" "threadToBeDestroyed s = NULL"
    "threads s (currentThread s) = Some c" "tstatus c = RUNNING"
  shows "kpost E (Finish D s)"
proof -
  let ?s = "s\<lparr>level := IntOff, threadToBeDestroyed := currentThread s\<rparr>"
  have "mid (?s\<lparr>threads := (threads s)(currentThread s \<mapsto> c\<lparr>tstatus := BLOCKED\<rparr>)\<rparr>)"
    using mid_of_finish [of "s\<lparr>level := IntOff\<rparr>" c] assms by simp
  then have "kpost E (Sleep D ?s)" using assms by (intro Sleep_post [of _ c]) simp_all
  then show ?thesis using assms(4) by (simp add: Finish_def ChangeLevel_def Let_def)
qed

lemma SetupThreadState_post:
  assumes "thr_inv s" "intr_ok s" "\<not> inHandler s"
    "threads s (currentThread s) = Some c" "tstatus c = RUNNING" "base_frames (kstack c)"
  shows "kpost E (SetupThreadState D s)"
proof -
  note D = destroyed_inv [OF assms(1,4,5)]
  obtain m sp p where m: "restore_space (destroyed s) = Inr ((destroyed s)\<lparr>mach := m, spaces := sp, tablePtr := p\<rparr>)"
      "thr_inv ((destroyed s)\<lparr>mach := m, spaces := sp, tablePtr := p\<rparr>)"
    using restore_space_inv [of "destroyed s" c] D by auto
  have "qinv ((destroyed s)\<lparr>mach := m, spaces := sp, tablePtr := p\<rparr>)"
    using m(2) D(2) assms by (simp add: qinv_def intr_ok_def)
  then show ?thesis using kSetLevel_post [of "(destroyed s)\<lparr>mach := m, spaces := sp, tablePtr := p\<rparr>" IntOn] D(4) m(1)
    by (simp add: SetupThreadState_def)
qed

lemma Start_post:
  assumes "qinv s" "stat (threads s) t = Some JUST_CREATED"
  shows "kpost E (Start D t f x s)"
proof -
  obtain c where c: "threads s t = Some c" "tstatus c = JUST_CREATED" using stat_dom [OF assms(2)] by blast
  let ?s = "s\<lparr>level := IntOff, threads := (threads s)(t \<mapsto> c\<lparr>stack := Some STACK_FENCEPOST,
        kstack := [SetupFrame, Body f x, FinishFrame], tstatus := READY\<rparr>), readyList := readyList s @ [t]\<rparr>"
  have "Start D t f x s = kSetLevel D (level s) ?s"
    using c by (simp add: Start_def get_thread_def StackAllocate_def upd_thread_def ReadyToRun_def setStatus_def
        ChangeLevel_def Let_def)
  moreover have "qinv ?s" using start_inv [of "s\<lparr>level := IntOff\<rparr>" t c f x] assms(1) c by simp
  ultimately show ?thesis using kSetLevel_post by simp
qed

lemma exec_op_post:
  assumes "qinv s" "op_ok p s"
  shows "kpost (E \<union> op_errors p s) (exec_op D p s)"
  using assms Yield_inv [OF assms(1)] Semaphore_P_post [OF assms(1)] Semaphore_V_post [OF assms(1)]
    Start_post [OF assms(1)] OneTick_post [OF assms(1)]
    new_thread_inv [OF assms(1), THEN qinv_kinv] new_sem_inv [OF assms(1), THEN qinv_kinv]
  by (cases p) (auto simp: exec_op_def op_ok_def sem_range_def split: if_splits)

lemma exec_frame_post:
  assumes "kinv s" "threads s (currentThread s) = Some c" "kstack c = f # fs"
  shows "kpost E (exec_frame D f (pop_frame s))"
proof -
  let ?c = "c\<lparr>kstack := fs\<rparr>" let ?s = "pop_frame s" let ?A = "dom (sems s)"
  have s: "?s = s\<lparr>threads := (threads s)(currentThread s \<mapsto> ?c)\<rparr>" using assms(2,3) by (simp add: pop_frame_def)
  have k: "thr_inv s" "intr_ok s" "\<not> inHandler s" "tstatus c = RUNNING"
      "switch_ok ?A (f # fs) \<Longrightarrow> level s = IntOff"
      "\<not> switch_ok ?A (f # fs) \<Longrightarrow> threadToBeDestroyed s = NULL \<and> resume_ok ?A (f # fs)
         \<and> (\<not> base_frames (f # fs) \<longrightarrow> level s = IntOff)"
    using assms by (auto simp: kinv_def split: if_splits)
  have t: "thr_inv ?s" "threads ?s (currentThread ?s) = Some ?c" "tstatus ?c = RUNNING" "intr_ok ?s" "\<not> inHandler ?s"
    using kstack_thr [OF k(1) assms(2), of fs] k by (simp_all add: s intr_ok_def)
  have q: "base_frames fs \<Longrightarrow> threadToBeDestroyed s = NULL \<Longrightarrow> qinv ?s"
    using t by (simp add: qinv_def s)
  have base: "base_frames (f # fs)" "threadToBeDestroyed s = NULL" if "base_frame f"
    using that k(6) by (cases f; simp add: switch_ok_def resume_ok_def; fail)+
  show ?thesis
  proof (cases f)
    case RunTail
    have lv: "level s = IntOff" "resume_ok ?A fs"
      using k(5,6) RunTail by (auto simp: switch_ok_def resume_ok_def base_frames_def)
    obtain m sp p where m: "run_tail ?s = Inr ((destroyed ?s)\<lparr>mach := m, spaces := sp, tablePtr := p\<rparr>)"
        "thr_inv ((destroyed ?s)\<lparr>mach := m, spaces := sp, tablePtr := p\<rparr>)"
      using run_tail_inv [OF t(1-3)] by blast
    have "kinv ((destroyed ?s)\<lparr>mach := m, spaces := sp, tablePtr := p\<rparr>)"
      using m(2) destroyed_inv(2) [OF t(1-3)] t lv base_not_special(3) [OF lv(2)]
      by (simp add: kinv_def intr_ok_def s)
    then show ?thesis using m(1) RunTail by (simp add: exec_frame_def)
  next
    case (RestoreLevel l)
    then have "base_frames fs" using base by (auto simp: base_frames_def split: if_splits)
    then show ?thesis using q base(2) RestoreLevel kSetLevel_post by (simp add: exec_frame_def)
  next
    case (RestoreStatus st)
    then have "base_frames fs" using base by (auto simp: base_frames_def split: if_splits)
    then show ?thesis using q base(2) RestoreStatus qinv_kinv [of "?s\<lparr>istatus := st\<rparr>"] by (simp add: exec_frame_def)
  next
    case (PLoop a l)
    then have "a \<in> ?A" "base_frames fs" "threadToBeDestroyed s = NULL" "level s = IntOff"
      using k(6) by (auto simp: switch_ok_def resume_ok_def base_frames_def)
    then show ?thesis using q P_loop_post [of ?s a l] PLoop by (auto simp: exec_frame_def s)
  next
    case SetupFrame
    then have "base_frames fs" using k(6) by (auto simp: switch_ok_def resume_ok_def base_frames_def)
    then show ?thesis using SetupThreadState_post [OF t(1,4,5,2,3)] SetupFrame by (simp add: exec_frame_def)
  next
    case (Body g x)
    then have "base_frames fs" using base by (auto simp: base_frames_def split: if_splits)
    then show ?thesis using q base(2) Body qinv_kinv by (simp add: exec_frame_def)
  next
    case FinishFrame
    then show ?thesis using Finish_post [OF t(1,4,5) _ t(2,3)] base(2) by (simp add: exec_frame_def s)
  qed
qed

end

section \<open>The timer as the only device\<close>

lemma timer_dispatch_eq:
  "\<exists>d r. 0 < d \<and> timer_dispatch rnd h a s =
     TimerInterruptHandler (s\<lparr>rpos := r, pending := sorted_ins (totalTicks (stats s) + d)
       (PendingInterrupt_new h a (totalTicks (stats s) + d) TimerInt) (pending s)\<rparr>)"
proof -
  obtain t s' where t: "TimeOfNextInterrupt rnd s = (t, s')" "1 \<le> t" "s' = s \<or> s' = s\<lparr>rpos := Suc (rpos s)\<rparr>"
    using TimeOfNextInterrupt_range [of rnd s] by blast
  then have "s' = s\<lparr>rpos := rpos s'\<rparr>" by auto
  then have "timer_dispatch rnd h a s = TimerInterruptHandler (s\<lparr>rpos := rpos s', pending := sorted_ins (totalTicks (stats s) + t)
       (PendingInterrupt_new h a (totalTicks (stats s) + t) TimerInt) (pending s)\<rparr>)"
    using t by (auto simp: timer_dispatch_def TimerExpired_def Timer_schedule_def Schedule_def Let_def)
  then show ?thesis using t(2) by (intro exI [of _ t] exI [of _ "rpos s'"]) simp
qed

interpretation timer_threads: kernel_client "timer_dispatch rnd" "{}" for rnd
proof unfold_locales
  fix s s' :: "('a, 'b) kernel_scheme" and h a
  assume "intr_ok s" "timer_dispatch rnd h a s = Inr s'"
  then show "handler_frame s s'" by (rule timer_dispatch_frame)
next
  fix s s' :: "('a, 'b) kernel_scheme"
  assume "intr_ok s" "kernel_DL s = Inr s'"
  then show "handler_frame s s' \<and> istatus s' = istatus s"
    by (auto simp: kernel_DL_def rbind_Inr_iff handler_frame_def intr_ok_def ticks_def due_list_def)
next
  fix s s' :: "('a, 'b) kernel_scheme" and h a
  assume "thr_inv s" "inHandler s" "istatus s = SystemMode" "timer_dispatch rnd h a s = Inr s'"
  then show "thr_frame s s'"
    using timer_dispatch_eq [of rnd h a s] thr_frame_refl [of s]
    by (auto simp: TimerInterruptHandler_def YieldOnReturn_def)
next
  fix s :: "('a, 'b) kernel_scheme" and h a e
  assume "inHandler s" "istatus s = SystemMode" "timer_dispatch rnd h a s = Inl e"
  then show "e \<in> {}"
    using timer_dispatch_eq [of rnd h a s] by (auto simp: TimerInterruptHandler_def YieldOnReturn_def)
qed

section \<open>Properties\<close>

lemma kinv_running:
  "kinv s \<Longrightarrow> \<exists>c f fs. threads s (currentThread s) = Some c \<and> tstatus c = RUNNING \<and> kstack c = f # fs"
  by (auto simp: kinv_def resume_ok_def base_frames_def switch_ok_def split: if_splits list.splits)

lemma kinv_body:
  assumes "kinv s" "threads s (currentThread s) = Some c" "kstack c = Body g x # fs"
  shows "qinv s"
  using assms by (auto simp: kinv_def qinv_def switch_ok_def resume_ok_def split: if_splits)

context kernel_client
begin

lemma kstep_inv:
  assumes "kstep D s s'" "kinv s"
  shows "kinv s'"
  using assms(1)
proof (rule kstepE)
  fix c f fs
  assume "threads s (currentThread s) = Some c" "kstack c = f # fs" "exec_frame D f (pop_frame s) = Some (Inr s')"
  then show "kinv s'" using exec_frame_post [OF assms(2), of c f fs] by simp
next
  fix c g x fs p
  assume "threads s (currentThread s) = Some c" "kstack c = Body g x # fs" "op_ok p s" "exec_op D p s = Some (Inr s')"
  then show "kinv s'" using exec_op_post [OF kinv_body [OF assms(2), of c g x fs], of p] by simp
qed

end

lemma boot_qinv:
  assumes "t \<noteq> NULL" "intr_ok s" "\<not> inHandler s" "s = (boot_state rand)\<lparr>pending := ps, rpos := n\<rparr>"
  shows "qinv (s\<lparr>threadToBeDestroyed := NULL, threadList := [t], currentThread := t,
     threads := [t \<mapsto> \<lparr>tname = nm, tstatus = RUNNING, stack = None, main_stack = True,
          userRegisters = regs(37 := 0, 38 := 0), space = NULL, kstack = [Body NULL NULL, FinishFrame]\<rparr>]\<rparr>)"
  using assms
  by (simp add: qinv_def thr_inv_def kparts mem_ok_def base_frames_def boot_state_def Interrupt_new_def
      intr.defs kernel.defs Machine_new_def intr_ok_def stat_def)

text \<open>C2: no assertion of the thread system fails and no pointer of it is wild: from a state that
  satisfies the invariant, resuming the running thread, and any call its body makes within
  the rules, leads to a state that satisfies the invariant, or waits for an interrupt for
  ever, or powers the machine down, or fails with an error of a device handler. The one error
  that a call may add is the overflow of the \<open>int\<close> in a \<open>V\<close> on a semaphore whose value is the
  largest \<open>int\<close>. There always is a running thread, with something left to do.\<close>

theorem kernel_never_fails:
  assumes "kernel_client D E" "kinv s"
  shows "\<exists>c f fs. threads s (currentThread s) = Some c \<and> tstatus c = RUNNING \<and> kstack c = f # fs
     \<and> kpost E (exec_frame D f (pop_frame s))
     \<and> (\<forall>p g x. f = Body g x \<and> op_ok p s \<longrightarrow> kpost (E \<union> op_errors p s) (exec_op D p s))"
proof -
  obtain c f fs where c: "threads s (currentThread s) = Some c" "tstatus c = RUNNING" "kstack c = f # fs"
    using kinv_running [OF assms(2)] by blast
  have "kpost E (exec_frame D f (pop_frame s))"
    by (rule kernel_client.exec_frame_post [OF assms c(1,3)])
  moreover have "kpost (E \<union> op_errors p s) (exec_op D p s)" if "f = Body g x" "op_ok p s" for p g x
    using kernel_client.exec_op_post [OF assms(1) kinv_body [OF assms(2) c(1)] that(2)] c(3) that(1) by blast
  ultimately show ?thesis using c by blast
qed

text \<open>The main program right after start-up, with the timer running.\<close>

definition demo_kernel :: "unit kernel" where
  "demo_kernel = (boot_state (\<lambda>n. n))\<lparr>level := IntOn, threadList := [1], currentThread := 1,
     threads := [1 \<mapsto> \<lparr>tname = ''main'', tstatus = RUNNING, stack = None, main_stack = True,
          userRegisters = (\<lambda>_. 0)(37 := 0, 38 := 0), space = NULL, kstack = [Body NULL NULL, FinishFrame]\<rparr>]\<rparr>"

lemma demo_kernel_inv: "qinv demo_kernel"
  by (simp add: qinv_def thr_inv_def kparts mem_ok_def base_frames_def demo_kernel_def boot_state_def Interrupt_new_def
      intr.defs kernel.defs Machine_new_def intr_ok_def stat_def)

theorem kernel_never_fails_witness:
  "kpost {} (exec_op (timer_dispatch True) (OpNewThread ''worker'' 2) demo_kernel)"
proof -
  have "threads demo_kernel (currentThread demo_kernel) = Some c \<Longrightarrow> kstack c = [Body NULL NULL, FinishFrame]" for c
    by (auto simp: demo_kernel_def)
  moreover have "op_ok (OpNewThread ''worker'' 2) demo_kernel" by (simp add: op_ok_def demo_kernel_def)
  ultimately show ?thesis
    using kernel_never_fails [OF timer_threads.kernel_client_axioms qinv_kinv [OF demo_kernel_inv], of True] by fastforce
qed

text \<open>C1: in every reachable state exactly one thread is RUNNING, the current one; the ready list holds
  exactly the READY threads, each once; every semaphore value is an \<open>int\<close> that is at least 0 (a \<open>V\<close> on
  the largest \<open>int\<close> overflows, which ends the run with an error, and no step leads further); and every BLOCKED
  thread is in the queue of exactly one semaphore, unless it has finished and waits to be
  destroyed.\<close>

theorem reachable_threads:
  assumes "kernel_client D E" "kinv s0" "(kstep D)\<^sup>*\<^sup>* s0 s"
  shows "(\<forall>t. stat (threads s) t = Some RUNNING \<longleftrightarrow> t = currentThread s)
    \<and> distinct (readyList s) \<and> (\<forall>t. t \<in> set (readyList s) \<longleftrightarrow> stat (threads s) t = Some READY)
    \<and> (\<forall>a q. sems s a = Some q \<longrightarrow> 0 \<le> semvalue q \<and> semvalue q < 2 ^ 31 \<and> distinct (queue q))
    \<and> (\<forall>t. stat (threads s) t = Some BLOCKED \<longrightarrow> t \<noteq> threadToBeDestroyed s \<longrightarrow>
         (\<exists>!a. \<exists>q. sems s a = Some q \<and> t \<in> set (queue q)))"
proof -
  have k: "kinv s" using assms(3,2) by (induction) (auto intro: kernel_client.kstep_inv [OF assms(1)])
  then have ti: "thr_inv s" and cur: "stat (threads s) (currentThread s) = Some RUNNING"
    using kinv_running [OF k] by (auto simp: kinv_def stat_def)
  note p = thr_parts [OF ti]
  have "\<forall>t. stat (threads s) t = Some RUNNING \<longleftrightarrow> t = currentThread s"
    using p(4) cur unfolding run_inv_def by metis
  moreover have "\<forall>a q. sems s a = Some q \<longrightarrow> 0 \<le> semvalue q \<and> semvalue q < 2 ^ 31 \<and> distinct (queue q)"
    using p(2) unfolding sem_inv_def sem_range_def by (elim conjE) simp
  moreover have "\<exists>!a. \<exists>q. sems s a = Some q \<and> t \<in> set (queue q)"
    if t: "stat (threads s) t = Some BLOCKED" "t \<noteq> threadToBeDestroyed s" for t
  proof -
    obtain a q where "sems s a = Some q" "t \<in> set (queue q)" using p(2) t unfolding sem_inv_def by blast
    moreover have "b = a" if "\<exists>r. sems s b = Some r \<and> t \<in> set (queue r)" for b
      using that calculation p(2) unfolding sem_inv_def by blast
    ultimately show ?thesis by blast
  qed
  ultimately show ?thesis using p(1) unfolding ready_inv_def by simp
qed

theorem reachable_threads_witness:
  "\<exists>s. kstep (timer_dispatch True) demo_kernel s \<and> stat (threads s) (currentThread s) = Some RUNNING \<and> distinct (readyList s)"
proof -
  obtain s where s: "Yield demo_kernel = Inr s" using Yield_inv [OF demo_kernel_inv] by blast
  have "threads demo_kernel (currentThread demo_kernel) = Some (the (threads demo_kernel 1))"
      "kstack (the (threads demo_kernel 1)) = [Body NULL NULL, FinishFrame]"
    by (simp_all add: demo_kernel_def)
  then have "kstep (timer_dispatch True) demo_kernel s"
    by (rule step_op [where p = OpYield]) (simp_all add: op_ok_def exec_op_def s)
  moreover from this have "stat (threads s) (currentThread s) = Some RUNNING \<and> distinct (readyList s)"
    using reachable_threads [OF timer_threads.kernel_client_axioms qinv_kinv [OF demo_kernel_inv], of True s] by blast
  ultimately show ?thesis by blast
qed

text \<open>C34: start-up comes to an end: with or without the timer, \<open>Initialize\<close> neither runs for ever nor
  powers the machine down nor fails an assertion. It reaches a state that satisfies the invariant, in which the main
  program is the running thread, unless a device handler raises an error; the handler of the timer raises none.\<close>

theorem Initialize_safe:
  fixes D :: "('h, unit) kdispatch"
  assumes "kernel_client D E" "t \<noteq> NULL"
  shows "case Initialize D rand randomYield th tm t regs of
      None \<Rightarrow> False
    | Some (Inl e) \<Rightarrow> e \<in> E
    | Some (Inr s) \<Rightarrow> kinv s \<and> currentThread s = t \<and> stat (threads s) t = Some RUNNING"
proof -
  obtain ps n where s1: "(if randomYield then Timer_new th tm randomYield (boot_state rand) else Inr (boot_state rand))
      = Inr ((boot_state rand)\<lparr>pending := ps, rpos := n\<rparr>)" "intr_ok ((boot_state rand)\<lparr>pending := ps, rpos := n\<rparr>)"
  proof (cases randomYield)
    case True
    let ?b = "boot_state rand :: 'h kernel"
    obtain d s' where d: "TimeOfNextInterrupt True ?b = (d, s')" "1 \<le> d" "s' = ?b \<or> s' = ?b\<lparr>rpos := Suc (rpos ?b)\<rparr>"
      using TimeOfNextInterrupt_range [of True ?b] by blast
    let ?p = "PendingInterrupt_new th tm d TimerInt"
    have b: "pending ?b = []" "stats ?b = Statistics_new"
      by (simp_all add: boot_state_def Interrupt_new_def intr.defs)
    have "Timer_new th tm True (boot_state rand) = Inr (s'\<lparr>pending := [(d, ?p)]\<rparr>)"
      using d b by (auto simp: Timer_new_def Timer_schedule_def Schedule_def Let_def Statistics_new_def)
    moreover have "s'\<lparr>pending := [(d, ?p)]\<rparr> = (boot_state rand)\<lparr>pending := [(d, ?p)], rpos := rpos s'\<rparr>"
      using d(3) by (auto simp: boot_state_def Interrupt_new_def intr.defs)
    ultimately show thesis using True that [of "rpos s'" "[(d, ?p)]"] by (simp add: intr_ok_def PendingInterrupt_new_def)
  next
    case False
    have e: "(boot_state rand :: 'h kernel)\<lparr>pending := [], rpos := 0\<rparr> = boot_state rand"
      by (simp add: boot_state_def Interrupt_new_def intr.defs)
    show thesis by (rule that [of 0 "[]"]) (simp_all add: False e, simp add: intr_ok_def boot_state_def Interrupt_new_def intr.defs)
  qed
  let ?s = "(boot_state rand)\<lparr>pending := ps, rpos := n\<rparr>"
  let ?k = "?s\<lparr>threadToBeDestroyed := NULL, threadList := [t], currentThread := t,
     threads := [t \<mapsto> \<lparr>tname = ''main'', tstatus = RUNNING, stack = None, main_stack = True,
          userRegisters = regs(37 := 0, 38 := 0), space = NULL, kstack = [Body NULL NULL, FinishFrame]\<rparr>]\<rparr>"
  have b: "threadList ?s = []" "threads ?s = (\<lambda>_. None)" "\<not> inHandler ?s"
    by (simp_all add: boot_state_def Interrupt_new_def intr.defs kernel.defs)
  have "Initialize D rand randomYield th tm t regs = kSetLevel D IntOn ?k"
    using s1(1) b by (simp add: Initialize_def Thread_new_def SetMain_def upd_thread_def Let_def)
  moreover have q: "qinv ?k" using boot_qinv [OF assms(2) s1(2) b(3) refl] .
  have l: "level ?k = IntOff" "dom (threads ?k) = {currentThread ?k}" and cur: "currentThread ?k = t"
    by (simp_all add: boot_state_def Interrupt_new_def intr.defs)
  ultimately have K: "case Initialize D rand randomYield th tm t regs of None \<Rightarrow> False | Some (Inl e) \<Rightarrow> e \<in> E
      | Some (Inr s) \<Rightarrow> kinv s \<and> currentThread s = t"
    using kernel_client.kSetLevel_on [OF assms(1) q l] unfolding cur by simp
  moreover have "stat (threads s) (currentThread s) = Some RUNNING" if "kinv s" for s :: "'h kernel"
    using kinv_running [OF that] by (auto simp: stat_Some)
  ultimately show ?thesis by (fastforce split: option.splits sum.splits)
qed

theorem Initialize_safe_witness:
  "\<exists>s. Initialize (timer_dispatch True) (\<lambda>n. n) True () 2 1 (\<lambda>_. 0) = Some (Inr s) \<and> kinv s \<and> currentThread s = 1"
  using Initialize_safe [OF timer_threads.kernel_client_axioms, of 1 True "\<lambda>n. n" True "()" 2 "\<lambda>_. 0"]
  by (auto split: option.splits sum.splits)

text \<open>\<open>Yield\<close> is round robin: when another thread is ready (and the system is not halting) the
  head of the ready list runs next and the caller goes to its end; otherwise the caller goes
  on. In both cases interrupts are off until the caller's last \<open>SetLevel\<close>.\<close>

lemma Yield_round_robin:
  assumes "qinv s"
  shows "\<exists>s'. Yield s = Inr s' \<and> kinv s' \<and> level s' = IntOff \<and>
     (if halted s \<or> readyList s = [] then currentThread s' = currentThread s \<and> readyList s' = readyList s
      else currentThread s' = hd (readyList s) \<and> readyList s' = tl (readyList s) @ [currentThread s])"
  using assms by (rule Yield_inv)

text \<open>C35: \<open>V\<close> adds one to the value, also when a thread waits, and makes the thread that waited longest ready, if there is one;
  no other semaphore changes. (The comment in the code says that the thread made ready consumes the \<open>V\<close> immediately; it
  does not.) At the largest \<open>int\<close> the addition overflows.\<close>

theorem V_wakes_longest_waiter:
  assumes "thr_inv s" "sems s a = Some q"
  shows "if semvalue q = 2 ^ 31 - 1 then V_body a s = Inl IntOverflow
     else \<exists>s' q'. V_body a s = Inr s' \<and> thr_inv s' \<and> sems s' = (sems s)(a \<mapsto> q') \<and> semvalue q' = semvalue q + 1
     \<and> (case queue q of
          [] \<Rightarrow> queue q' = [] \<and> readyList s' = readyList s \<and> threads s' = threads s
        | t # ts \<Rightarrow> queue q' = ts \<and> readyList s' = readyList s @ [t] \<and> stat (threads s') t = Some READY)"
proof -
  show ?thesis
  proof (cases "semvalue q = 2147483647")
    case True
    then show ?thesis using V_body_full [OF assms(1), of a] assms(2) by (simp add: V_full_def)
  next
    case False
    then have "\<not> V_full a s" using assms(2) by (simp add: V_full_def)
    then obtain s' where s': "V_body a s = Inr s'" "thr_inv s'"
      using V_body_thr [OF assms(1)] assms(2) thr_frame_inv by blast
    have v: "0 \<le> semvalue q" using thr_sem_range [OF assms] sem_rangeD by blast
    show ?thesis
    proof (cases "queue q")
      case Nil
      then show ?thesis using s' assms(2) v False by (auto simp: V_body_def get_sem_def set_sem_def)
    next
      case (Cons t ts)
      obtain c where "threads s t = Some c"
        using sem_waiter [OF thr_parts(2) [OF assms(1)] assms(2), of t] Cons by auto
      then show ?thesis using s' assms(2) v Cons False
        by (auto simp: V_body_def get_sem_def set_sem_def ReadyToRun_def setStatus_def upd_thread_def)
    qed
  qed
qed

definition demo_sem_kernel :: "unit kernel" where
  "demo_sem_kernel = demo_kernel\<lparr>level := IntOff, threadList := [1, 2], sems := [9 \<mapsto> \<lparr>semvalue = 0, queue = [2]\<rparr>],
     threads := (threads demo_kernel)(2 \<mapsto> \<lparr>tname = ''waiter'', tstatus = BLOCKED, stack = Some STACK_FENCEPOST,
       main_stack = False, userRegisters = (\<lambda>_. 0), space = NULL, kstack = [RunTail, PLoop 9 IntOn, FinishFrame]\<rparr>)\<rparr>"

lemma demo_sem_kernel_simps:
  "readyList demo_sem_kernel = []" "threadToBeDestroyed demo_sem_kernel = NULL" "currentThread demo_sem_kernel = 1"
  "sems demo_sem_kernel = [9 \<mapsto> \<lparr>semvalue = 0, queue = [2]\<rparr>]" "threadList demo_sem_kernel = [1, 2]"
  "level demo_sem_kernel = IntOff" "registers (mach demo_sem_kernel) 37 = 0"
  by (simp_all add: demo_sem_kernel_def demo_kernel_def boot_state_def Interrupt_new_def intr.defs kernel.defs Machine_new_def)

lemma demo_sem_kernel_inv: "thr_inv demo_sem_kernel"
proof -
  let ?th = "threads demo_sem_kernel"
  let ?c1 = "the (?th 1)" let ?c2 = "the (?th 2)"
  have c: "?th = [1 \<mapsto> ?c1, 2 \<mapsto> ?c2]" "tstatus ?c1 = RUNNING" "tstatus ?c2 = BLOCKED"
      "kstack ?c2 = [RunTail, PLoop 9 IntOn, FinishFrame]" "mem_ok sp ?c1" "mem_ok sp ?c2" for sp
    by (simp_all add: demo_sem_kernel_def demo_kernel_def boot_state_def Interrupt_new_def intr.defs kernel.defs mem_ok_def)
  have st: "stat ?th t = (if t = 2 then Some BLOCKED else if t = 1 then Some RUNNING else None)" for t
    by (subst c(1)) (simp add: stat_def c(2,3) c(2) [unfolded One_nat_def])
  have "ready_inv ?th []" by (simp add: ready_inv_def st)
  moreover have "sem_inv ?th [9 \<mapsto> \<lparr>semvalue = 0, queue = [2]\<rparr>] NULL"
    unfolding sem_inv_def st by (auto simp: sem_range_def split: if_splits)
  moreover have "all_inv ?th [1, 2]" by (subst c(1)) (auto simp: all_inv_def)
  moreover have "run_inv ?th 1" by (simp add: run_inv_def st)
  moreover have "out_inv ?th {9} 1 NULL"
    by (subst c(1)) (use c(4) in \<open>simp add: out_inv_def switch_ok_def resume_ok_def base_frames_def\<close>)
  moreover have "mem_inv ?th (spaces demo_sem_kernel) (mach demo_sem_kernel)"
    by (subst c(1)) (use c(5,6) in \<open>simp add: mem_inv_def demo_sem_kernel_simps\<close>)
  ultimately show ?thesis by (simp add: thr_inv_def demo_sem_kernel_simps)
qed

theorem V_wakes_longest_waiter_witness:
  "\<exists>s'. V_body 9 demo_sem_kernel = Inr s' \<and> readyList s' = [2] \<and> stat (threads s') 2 = Some READY"
proof -
  have "sems demo_sem_kernel 9 = Some \<lparr>semvalue = 0, queue = [2]\<rparr>" "readyList demo_sem_kernel = []"
    by (simp_all add: demo_sem_kernel_simps)
  then show ?thesis using V_wakes_longest_waiter [OF demo_sem_kernel_inv] by fastforce
qed

text \<open>The V is not consumed by the thread that it wakes: if the caller of \<open>V\<close> calls \<open>P\<close> before
  that thread runs, \<open>P\<close> does not block, the value is 0 again, and the woken thread, still
  ready, will find it so.\<close>

lemma V_waiter_overtaken:
  assumes "thr_inv s" "sems s a = Some q" "semvalue q = 0" "queue q = t # ts" "level s = IntOff"
  shows "\<exists>s1 s2 q2. V_body a s = Inr s1 \<and> P_loop D a IntOff s1 = Some (Inr s2)
     \<and> currentThread s2 = currentThread s \<and> sems s2 a = Some q2 \<and> semvalue q2 = 0
     \<and> readyList s2 = readyList s @ [t] \<and> t \<notin> set (queue q2)"
proof -
  have si: "sem_inv (threads s) (sems s) (threadToBeDestroyed s)" using thr_parts(2) [OF assms(1)] .
  obtain c where c: "threads s t = Some c" using sem_waiter [OF si assms(2), of t] assms(4) by auto
  have "distinct (queue q)" using si assms(2) unfolding sem_inv_def by blast
  then have "t \<notin> set ts" using assms(4) by simp
  then show ?thesis using assms(2-5) c
    by (simp add: V_body_def get_sem_def set_sem_def ReadyToRun_def setStatus_def upd_thread_def P_loop_def
        kSetLevel_def SetLevel_def ChangeLevel_def)
qed

text \<open>A thread that has finished is destroyed by the next thread that runs, in the second half of
  \<open>Scheduler::Run\<close>: it leaves the list of all threads, nothing is left to be destroyed, and no
  other thread changes its state.\<close>

lemma finished_thread_destroyed:
  assumes "kinv s" "threads s (currentThread s) = Some c" "kstack c = RunTail # fs"
    "threadToBeDestroyed s = d" "d \<noteq> NULL"
  shows "\<exists>s'. exec_frame D RunTail (pop_frame s) = Some (Inr s') \<and> threads s' d = None \<and> d \<notin> set (threadList s')
     \<and> threadToBeDestroyed s' = NULL \<and> currentThread s' = currentThread s
     \<and> (\<forall>t. t \<noteq> d \<longrightarrow> stat (threads s') t = stat (threads s) t)"
proof -
  let ?s = "pop_frame s"
  have s: "?s = s\<lparr>threads := (threads s)(currentThread s \<mapsto> c\<lparr>kstack := fs\<rparr>)\<rparr>"
    using assms(2,3) by (simp add: pop_frame_def)
  have ti: "thr_inv s" and run: "tstatus c = RUNNING" using assms(1,2) by (auto simp: kinv_def)
  have t: "thr_inv ?s" "threads ?s (currentThread ?s) = Some (c\<lparr>kstack := fs\<rparr>)" "tstatus (c\<lparr>kstack := fs\<rparr>) = RUNNING"
    using kstack_thr [OF ti assms(2), of fs] run by (simp_all add: s)
  obtain m sp p where m: "run_tail ?s = Inr ((destroyed ?s)\<lparr>mach := m, spaces := sp, tablePtr := p\<rparr>)"
      "thr_inv ((destroyed ?s)\<lparr>mach := m, spaces := sp, tablePtr := p\<rparr>)"
    using run_tail_inv [OF t] by blast
  have "distinct (threadList s)" using thr_parts(3) [OF ti] by (simp add: all_inv_def)
  moreover have "stat (threads (destroyed ?s)) u = stat (threads s) u" if "u \<noteq> d" for u
    using that assms(2,4,5) by (auto simp: destroyed_def s Let_def stat_def)
  ultimately show ?thesis
    using m(1) assms(4,5) by (auto simp: exec_frame_def destroyed_def s Let_def)
qed

definition demo_done_kernel :: "unit kernel" where
  "demo_done_kernel = demo_kernel\<lparr>level := IntOff, threadList := [1, 2], threadToBeDestroyed := 2,
     threads := [1 \<mapsto> (the (threads demo_kernel 1))\<lparr>kstack := [RunTail, RestoreLevel IntOn, FinishFrame]\<rparr>,
       2 \<mapsto> \<lparr>tname = ''done'', tstatus = BLOCKED, stack = Some STACK_FENCEPOST,
       main_stack = False, userRegisters = (\<lambda>_. 0), space = NULL, kstack = [RunTail]\<rparr>]\<rparr>"

lemma demo_done_kernel_simps:
  "readyList demo_done_kernel = []" "threadToBeDestroyed demo_done_kernel = 2" "currentThread demo_done_kernel = 1"
  "sems demo_done_kernel = (\<lambda>_. None)" "threadList demo_done_kernel = [1, 2]" "level demo_done_kernel = IntOff"
  "registers (mach demo_done_kernel) 37 = 0" "pending demo_done_kernel = []" "\<not> inHandler demo_done_kernel"
  by (simp_all add: demo_done_kernel_def demo_kernel_def boot_state_def Interrupt_new_def intr.defs kernel.defs Machine_new_def)

lemma demo_done_kernel_inv: "kinv demo_done_kernel"
proof -
  let ?th = "threads demo_done_kernel" let ?c1 = "the (?th 1)" let ?c2 = "the (?th 2)"
  have c: "?th = [1 \<mapsto> ?c1, 2 \<mapsto> ?c2]" "tstatus ?c1 = RUNNING" "tstatus ?c2 = BLOCKED"
      "kstack ?c1 = [RunTail, RestoreLevel IntOn, FinishFrame]" "mem_ok sp ?c1" "mem_ok sp ?c2" for sp
    by (simp_all add: demo_done_kernel_def demo_kernel_def boot_state_def Interrupt_new_def intr.defs kernel.defs mem_ok_def)
  have st: "stat ?th t = (if t = 2 then Some BLOCKED else if t = 1 then Some RUNNING else None)" for t
    by (subst c(1)) (simp add: stat_def c(2,3) c(2) [unfolded One_nat_def])
  have "ready_inv ?th []" by (simp add: ready_inv_def st)
  moreover have "sem_inv ?th (\<lambda>_. None) 2" by (simp add: sem_inv_def st)
  moreover have "all_inv ?th [1, 2]" by (subst c(1)) (auto simp: all_inv_def)
  moreover have "run_inv ?th 1" by (simp add: run_inv_def st)
  moreover have "out_inv ?th {} 1 2" by (subst c(1)) (simp add: out_inv_def)
  moreover have "mem_inv ?th (spaces demo_done_kernel) (mach demo_done_kernel)"
    by (subst c(1)) (use c(5,6) in \<open>simp add: mem_inv_def demo_done_kernel_simps\<close>)
  ultimately have "thr_inv demo_done_kernel" by (simp add: thr_inv_def demo_done_kernel_simps)
  moreover have "?th 1 = Some ?c1" by (subst c(1)) simp
  moreover have "switch_ok {} (kstack ?c1)" unfolding c(4) by (simp add: switch_ok_def resume_ok_def base_frames_def)
  ultimately show ?thesis using c(2) by (auto simp: kinv_def demo_done_kernel_simps intr_ok_def)
qed

section \<open>What a context switch saves\<close>

text \<open>
  While another thread runs, thread \<open>t\<close> keeps its saved registers, its address space and its stack, and nobody changes
  the page table of the address space \<open>sp\<close>; \<open>tkept\<close> says so of two states.
\<close>

definition tkept :: "addr \<Rightarrow> addr \<Rightarrow> ('h, 'z) kernel_scheme \<Rightarrow> ('h, 'z) kernel_scheme \<Rightarrow> bool" where
  "tkept t sp s s' \<longleftrightarrow> cur_spaces s' sp = cur_spaces s sp
     \<and> (threadToBeDestroyed s \<noteq> t \<longrightarrow> threadToBeDestroyed s' \<noteq> t)
     \<and> (\<forall>c. threads s t = Some c \<longrightarrow> tstatus c \<noteq> JUST_CREATED \<longrightarrow>
          (\<exists>c'. threads s' t = Some c' \<and> tstatus c' \<noteq> JUST_CREATED \<and> user_saved c' = user_saved c \<and> kstack c' = kstack c))"

lemma tkept_refl [simp]: "tkept t sp s s"
  by (simp add: tkept_def)

lemma tkept_trans: "tkept t sp s s1 \<Longrightarrow> tkept t sp s1 s2 \<Longrightarrow> tkept t sp s s2"
  by (fastforce simp: tkept_def)

lemma tkept_simps [simp]:
  "tkept t sp r (s\<lparr>level := x1\<rparr>) = tkept t sp r s" "tkept t sp (s\<lparr>level := x1\<rparr>) r = tkept t sp s r"
  "tkept t sp r (s\<lparr>istatus := x2\<rparr>) = tkept t sp r s" "tkept t sp (s\<lparr>istatus := x2\<rparr>) r = tkept t sp s r"
  "tkept t sp r (s\<lparr>stats := x3\<rparr>) = tkept t sp r s" "tkept t sp (s\<lparr>stats := x3\<rparr>) r = tkept t sp s r"
  "tkept t sp r (s\<lparr>yieldOnReturn := x4\<rparr>) = tkept t sp r s" "tkept t sp (s\<lparr>yieldOnReturn := x4\<rparr>) r = tkept t sp s r"
  "tkept t sp r (s\<lparr>readyList := x5\<rparr>) = tkept t sp r s" "tkept t sp (s\<lparr>readyList := x5\<rparr>) r = tkept t sp s r"
  "tkept t sp r (s\<lparr>sems := x6\<rparr>) = tkept t sp r s" "tkept t sp (s\<lparr>sems := x6\<rparr>) r = tkept t sp s r"
  "tkept t sp r (s\<lparr>currentThread := x7\<rparr>) = tkept t sp r s" "tkept t sp (s\<lparr>currentThread := x7\<rparr>) r = tkept t sp s r"
  "tkept t sp r (set_sem a q s) = tkept t sp r s" "tkept t sp (set_sem a q s) r = tkept t sp s r"
  by (simp_all add: tkept_def set_sem_def)

lemma tkept_upd: "upd_thread u f s = Inr s' \<Longrightarrow> u \<noteq> t \<Longrightarrow> tkept t sp s s' \<and> currentThread s' = currentThread s"
  by (auto simp: upd_thread_def tkept_def split: option.splits)

lemma tkept_status:
  "setStatus st u s = Inr s' \<Longrightarrow> st \<noteq> JUST_CREATED \<Longrightarrow> tkept t sp s s' \<and> currentThread s' = currentThread s"
  by (auto simp: setStatus_def upd_thread_def tkept_def split: option.splits)

lemma tkept_frame:
  assumes "thr_frame s s'"
  shows "tkept t sp s s'"
proof -
  have f: "map_option user_saved (threads s' t) = map_option user_saved (threads s t)"
      "map_option kstack (threads s' t) = map_option kstack (threads s t)"
      "stat (threads s') t = stat (threads s) t \<or> stat (threads s) t = Some BLOCKED \<and> stat (threads s') t = Some READY"
    using assms by (simp_all add: thr_frame_def)
  have "\<exists>c'. threads s' t = Some c' \<and> tstatus c' \<noteq> JUST_CREATED \<and> user_saved c' = user_saved c \<and> kstack c' = kstack c"
    if "threads s t = Some c" "tstatus c \<noteq> JUST_CREATED" for c
    using f that by (auto simp: stat_def)
  moreover have "cur_spaces s' = cur_spaces s" using assms by (auto simp: thr_frame_def cur_spaces_def split: option.split)
  moreover have "threadToBeDestroyed s' = threadToBeDestroyed s" using assms by (simp add: thr_frame_def)
  ultimately show ?thesis by (simp add: tkept_def)
qed

lemma tkept_ready: "ReadyToRun u s = Inr s' \<Longrightarrow> tkept t sp s s' \<and> currentThread s' = currentThread s"
  using tkept_status [of READY u s _ t sp] by (auto simp: ReadyToRun_def rbind_Inr_iff)

lemma tkept_push: "push_frame f s = Inr s' \<Longrightarrow> currentThread s \<noteq> t \<Longrightarrow> tkept t sp s s' \<and> currentThread s' = currentThread s"
  by (auto simp: push_frame_def dest: tkept_upd)

lemma tkept_pop: "currentThread s \<noteq> t \<Longrightarrow> tkept t sp s (pop_frame s)"
  by (simp add: pop_frame_def tkept_def)

lemma tkept_run:
  assumes "Scheduler_Run nt s = Inr s'" "currentThread s \<noteq> t"
  shows "tkept t sp s s'"
proof -
  obtain c :: Thread and s1 s2 where s: "(if space c \<noteq> NULL then rbind (SaveUserState (currentThread s) s) (SaveState (space c)) else Inr s) = Inr s1"
      "push_frame RunTail s1 = Inr s2" "setStatus RUNNING nt (s2\<lparr>currentThread := nt\<rparr>) = Inr s'"
    using assms(1) unfolding Scheduler_Run_def Let_def rbind_Inr_iff by blast
  have "tkept t sp s s1 \<and> currentThread s1 = currentThread s"
    using s(1) assms(2) by (auto simp: SaveUserState_def SaveState_def rbind_Inr_iff split: if_splits dest: tkept_upd)
  moreover from this have "tkept t sp s1 s2" using tkept_push [OF s(2)] assms(2) by simp
  moreover have "tkept t sp s2 s'" using tkept_status [OF s(3), of t sp] by simp
  ultimately show ?thesis by (blast intro: tkept_trans)
qed

lemma tkept_yield:
  assumes "Yield s = Inr s'" "currentThread s \<noteq> t"
  shows "tkept t sp s s'"
proof -
  obtain s1 where s1: "push_frame (RestoreLevel (level s)) (s\<lparr>level := IntOff\<rparr>) = Inr s1"
      "(let (nextThread, s2) = FindNextToRun s1 in
        if nextThread \<noteq> NULL then rbind (ReadyToRun (currentThread s2) s2) (Scheduler_Run nextThread) else Inr s2) = Inr s'"
    using assms(1) by (auto simp: Yield_def Let_def ChangeLevel_def rbind_Inr_iff)
  have k: "tkept t sp s s1" "currentThread s1 = currentThread s"
    using tkept_push [OF s1(1), of t sp] assms(2) by simp_all
  obtain nt s2 where f: "FindNextToRun s1 = (nt, s2)" by fastforce
  then have s2: "tkept t sp s1 s2" "currentThread s2 = currentThread s1"
    by (auto simp: FindNextToRun_def split: if_splits list.splits)
  have "tkept t sp s2 s'"
    using s1(2) f s2(2) k(2) assms(2) tkept_ready [of "currentThread s2" s2 _ t sp] tkept_run [of nt _ s' t sp]
    by (auto simp: rbind_Inr_iff split: if_splits intro: tkept_trans)
  then show ?thesis using k(1) s2(1) by (blast intro: tkept_trans)
qed

lemma restore_space_cases:
  assumes "restore_space s = Inr s'" "threads s (currentThread s) = Some c"
  shows "if space c = NULL then s' = s
    else \<exists>pt. cur_spaces s (space c) = Some pt \<and> s' = s\<lparr>spaces := cur_spaces s, tablePtr := space c,
      mach := (mach s)\<lparr>registers := (\<lambda>i. if i < NumTotalRegs then userRegisters c i else registers (mach s) i),
        currentPageTable := Some pt, currentPageTableSize := of_nat (length pt)\<rparr>\<rparr>"
  using assms
  by (cases "cur_spaces s (space c)")
     (auto simp: restore_space_def get_thread_def RestoreUserState_def RestoreState_def split: if_splits)

lemma tkept_restore:
  assumes "restore_space s = Inr s'"
  shows "tkept t sp s s'"
proof -
  obtain c where c: "threads s (currentThread s) = Some c"
    using assms by (cases "threads s (currentThread s)") (auto simp: restore_space_def get_thread_def)
  show ?thesis
  proof (cases "space c = NULL")
    case True then show ?thesis using restore_space_cases [OF assms c] by simp
  next
    case False
    then obtain pt m where "cur_spaces s (space c) = Some pt" "s' = s\<lparr>spaces := cur_spaces s, tablePtr := space c, mach := m\<rparr>"
        "currentPageTable m = Some pt"
      using restore_space_cases [OF assms c] by auto
    moreover from this have "cur_spaces s' = cur_spaces s" by (auto simp: cur_spaces_def fun_eq_iff)
    ultimately show ?thesis by (simp add: tkept_def)
  qed
qed

lemma tkept_delete: "Thread_delete d s = Inr s' \<Longrightarrow> d \<noteq> t \<Longrightarrow> tkept t sp s s'"
  by (auto simp: Thread_delete_def get_thread_def tkept_def rbind_Inr_iff split: option.splits)

lemma tkept_destroy: "t \<noteq> NULL \<Longrightarrow> tkept t sp s (s\<lparr>threadToBeDestroyed := NULL\<rparr>)"
  by (simp add: tkept_def)

lemma tkept_tail:
  assumes "run_tail s = Inr s'" "threadToBeDestroyed s \<noteq> t" "t \<noteq> NULL"
  shows "tkept t sp s s'"
proof -
  obtain s1 where s1: "(if threadToBeDestroyed s \<noteq> NULL then Thread_delete (threadToBeDestroyed s) (s\<lparr>threadToBeDestroyed := NULL\<rparr>) else Inr s) = Inr s1"
      "restore_space s1 = Inr s'"
    using assms(1) by (auto simp: run_tail_def Let_def rbind_Inr_iff)
  have "tkept t sp s s1"
    using s1(1) tkept_destroy [OF assms(3), of sp s] tkept_delete [of _ _ s1 t sp] assms(2)
    by (auto split: if_splits intro: tkept_trans)
  then show ?thesis using tkept_restore [OF s1(2)] by (blast intro: tkept_trans)
qed

context kernel_client
begin

lemma OneTick_kept:
  assumes "qinv s" "OneTick D kernel_DL tick_yield s = Some (Inr s')" "currentThread s \<noteq> t"
  shows "tkept t sp s s'"
proof -
  let ?s = "(advance_tick s)\<lparr>level := IntOff\<rparr>"
  have pre: "intr_pre ?s"
    using assms(1) by (simp add: advance_tick_def qinv_def intr_pre_def intr_ok_def)
  have "tkept t sp s ?s" by (simp add: advance_tick_def)
  have "intr_ok s" using assms(1) by (simp add: qinv_def)
  then obtain r where r: "check_loop D kernel_DL ?s = Some r" using tick_post by blast
  then obtain s1 where s1: "r = Inr s1" using assms(2) by (cases r) (simp_all add: OneTick_def ChangeLevel_def Let_def)
  have F: "thr_frame ?s s1" using check_loop_threads [OF r pre] s1 by simp
  then have k: "tkept t sp s s1" "currentThread s1 \<noteq> t"
    using tkept_trans [OF \<open>tkept t sp s ?s\<close> tkept_frame] assms(3) by (simp_all add: thr_frame_def advance_tick_def)
  show ?thesis
  proof (cases "yieldOnReturn s1")
    case False
    then show ?thesis using k(1) assms(2) r s1 by (auto simp: OneTick_def ChangeLevel_def Let_def)
  next
    case True
    let ?t = "s1\<lparr>level := IntOn, yieldOnReturn := False, istatus := SystemMode\<rparr>"
    obtain u where u: "push_frame (RestoreStatus (istatus s)) ?t = Inr u" "Yield u = Inr s'"
      using assms(2) r s1 True by (auto simp: OneTick_def ChangeLevel_def Let_def tick_yield_def rbind_Inr_iff)
    have "tkept t sp ?t u \<and> currentThread u = currentThread ?t" using tkept_push [OF u(1)] k(2) by simp
    then show ?thesis using tkept_yield [OF u(2), of t sp] k by (auto intro: tkept_trans)
  qed
qed

lemma kSetLevel_kept:
  assumes "qinv s" "kSetLevel D l s = Some (Inr s')" "currentThread s \<noteq> t"
  shows "tkept t sp s s'"
proof (cases "l = IntOn \<and> level s = IntOff")
  case True
  have "\<not> inHandler s" "qinv (s\<lparr>level := IntOn\<rparr>)" using assms(1) by (simp_all add: qinv_def)
  moreover from this obtain u where "OneTick D kernel_DL tick_yield (s\<lparr>level := IntOn\<rparr>) = Some (Inr u)" "s' = u"
    using assms(2) True by (auto simp: kSetLevel_def SetLevel_def ChangeLevel_def Let_def obind_Inr_iff)
  ultimately show ?thesis using OneTick_kept [of "s\<lparr>level := IntOn\<rparr>" s' t sp] assms(3) by simp
next
  case False
  then show ?thesis using assms by (auto simp: kSetLevel_def SetLevel_def ChangeLevel_def Let_def qinv_def)
qed

lemma Sleep_kept:
  assumes "threads s (currentThread s) = Some c" "mid (s\<lparr>threads := (threads s)(currentThread s \<mapsto> c\<lparr>tstatus := BLOCKED\<rparr>)\<rparr>)"
    "Sleep D s = Some (Inr s')" "currentThread s \<noteq> t"
  shows "tkept t sp s s'"
proof -
  let ?s = "s\<lparr>threads := (threads s)(currentThread s \<mapsto> c\<lparr>tstatus := BLOCKED\<rparr>)\<rparr>"
  have st: "setStatus BLOCKED (currentThread s) s = Inr ?s" using assms(1) by (simp add: setStatus_def upd_thread_def)
  obtain nt s2 where s2: "sleep_loop D ?s = Some (Inr (nt, s2))" "Scheduler_Run nt s2 = Inr s'"
    using assms(3) st by (auto simp: Sleep_def obind_Inr_iff)
  obtain u ts where u: "thr_frame ?s u" "s2 = u\<lparr>readyList := ts\<rparr>" using sleep_loop_mid [OF s2(1) assms(2)] by auto
  have "tkept t sp s ?s" using tkept_status [OF st] by simp
  moreover have "tkept t sp ?s s2" using tkept_frame [OF u(1)] u(2) by simp
  moreover have "currentThread s2 \<noteq> t" using u assms(4) by (simp add: thr_frame_def)
  then have "tkept t sp s2 s'" using tkept_run [OF s2(2)] by simp
  ultimately show ?thesis by (blast intro: tkept_trans)
qed

lemma P_loop_kept:
  assumes "qinv s" "level s = IntOff" "sems s a \<noteq> None" "P_loop D a l s = Some (Inr s')" "currentThread s \<noteq> t"
  shows "tkept t sp s s'"
proof -
  obtain q where q: "sems s a = Some q" using assms(3) by auto
  obtain c where c: "threads s (currentThread s) = Some c" using assms(1) by (auto simp: qinv_def)
  show ?thesis
  proof (cases "semvalue q = 0")
    case True
    let ?s = "s\<lparr>sems := (sems s)(a \<mapsto> q\<lparr>queue := queue q @ [currentThread s]\<rparr>),
      threads := (threads s)(currentThread s \<mapsto> c\<lparr>kstack := PLoop a l # kstack c\<rparr>)\<rparr>"
    have "P_loop D a l s = Sleep D ?s"
      using True q c by (simp add: P_loop_def get_sem_def push_frame_def upd_thread_def set_sem_def)
    then have "tkept t sp ?s s'"
      using mid_of_wait [OF assms(1,2) c q, of l] assms(4,5)
      by (intro Sleep_kept [of _ "c\<lparr>kstack := PLoop a l # kstack c\<rparr>"]) simp_all
    moreover have "tkept t sp s ?s" using assms(5) by (simp add: tkept_def)
    ultimately show ?thesis by (blast intro: tkept_trans)
  next
    case False
    have "sem_range (semvalue q - 1)"
      using thr_sem_range [OF qinv_thr [OF assms(1)] q] False by (simp add: sem_range_def)
    then have "sem_inv (threads s) ((sems s)(a \<mapsto> q\<lparr>semvalue := semvalue q - 1\<rparr>)) (threadToBeDestroyed s)"
      using thr_parts(2) [OF qinv_thr [OF assms(1)]] q by (intro sem_inv_value) simp_all
    moreover have "insert a (dom (sems s)) = dom (sems s)" using q by blast
    ultimately have "qinv (set_sem a (q\<lparr>semvalue := semvalue q - 1\<rparr>) s)"
      using assms(1) by (auto simp: qinv_def thr_inv_def set_sem_def intr_ok_def)
    then have "tkept t sp (set_sem a (q\<lparr>semvalue := semvalue q - 1\<rparr>) s) s'"
      using False q assms(4,5) by (intro kSetLevel_kept) (simp_all add: P_loop_def get_sem_def set_sem_def)
    then show ?thesis by simp
  qed
qed

lemma Semaphore_P_kept:
  assumes "qinv s" "sems s a \<noteq> None" "Semaphore_P D a s = Some (Inr s')" "currentThread s \<noteq> t"
  shows "tkept t sp s s'"
proof -
  have "P_loop D a (level s) (s\<lparr>level := IntOff\<rparr>) = Some (Inr s')"
    using assms(3) by (auto simp: Semaphore_P_def ChangeLevel_def Let_def obind_Inr_iff)
  then show ?thesis using P_loop_kept [of "s\<lparr>level := IntOff\<rparr>" a "level s" s' t sp] assms(1,2,4) by simp
qed

lemma Semaphore_V_kept:
  assumes "qinv s" "sems s a \<noteq> None" "Semaphore_V D a s = Some (Inr s')" "currentThread s \<noteq> t"
  shows "tkept t sp s s'"
proof -
  let ?s = "s\<lparr>level := IntOff\<rparr>"
  obtain u where u: "V_body a ?s = Inr u" "kSetLevel D (level s) u = Some (Inr s')"
    using assms(3) by (auto simp: Semaphore_V_def ChangeLevel_def Let_def obind_Inr_iff)
  have ti: "thr_inv ?s" using assms(1) by (simp add: qinv_def)
  have "\<not> V_full a ?s" using V_body_full [OF ti, of a] u(1) by auto
  then have f: "thr_frame ?s u" "u = ?s\<lparr>threads := threads u, readyList := readyList u, sems := sems u\<rparr>"
    using V_body_thr [OF ti, of a] u(1) assms(2) by auto
  have "intr_ok u" "\<not> inHandler u" using assms(1) by (subst f(2), simp add: qinv_def intr_ok_def)+
  then have "qinv u" using qinv_frame [OF _ f(1)] assms(1) by simp
  moreover have "currentThread u \<noteq> t" using f(1) assms(4) by (simp add: thr_frame_def)
  ultimately have "tkept t sp u s'" using kSetLevel_kept u(2) by blast
  moreover have "tkept t sp s u" using tkept_frame [OF f(1), of t sp] by simp
  ultimately show ?thesis by (blast intro: tkept_trans)
qed

lemma Finish_kept:
  assumes "thr_inv s" "intr_ok s" "\<not> inHandler s" "threadToBeDestroyed s = NULL"
    "threads s (currentThread s) = Some c" "tstatus c = RUNNING" "Finish D s = Some (Inr s')" "currentThread s \<noteq> t"
  shows "tkept t sp s s'"
proof -
  let ?s = "s\<lparr>level := IntOff, threadToBeDestroyed := currentThread s\<rparr>"
  have "mid (?s\<lparr>threads := (threads s)(currentThread s \<mapsto> c\<lparr>tstatus := BLOCKED\<rparr>)\<rparr>)"
    using mid_of_finish [of "s\<lparr>level := IntOff\<rparr>" c] assms by simp
  moreover have "Sleep D ?s = Some (Inr s')" using assms(4,7) by (simp add: Finish_def ChangeLevel_def Let_def)
  ultimately have "tkept t sp ?s s'" using assms(5,8) by (intro Sleep_kept [of _ c]) simp_all
  moreover have "tkept t sp s ?s" using assms(8) by (simp add: tkept_def)
  ultimately show ?thesis by (blast intro: tkept_trans)
qed

lemma SetupThreadState_kept:
  assumes "thr_inv s" "intr_ok s" "\<not> inHandler s"
    "threads s (currentThread s) = Some c" "tstatus c = RUNNING" "base_frames (kstack c)"
    "SetupThreadState D s = Some (Inr s')" "currentThread s \<noteq> t" "threadToBeDestroyed s \<noteq> t" "t \<noteq> NULL"
  shows "tkept t sp s s'"
proof -
  note D = destroyed_inv [OF assms(1,4,5)]
  obtain m sp' p where m: "restore_space (destroyed s) = Inr ((destroyed s)\<lparr>mach := m, spaces := sp', tablePtr := p\<rparr>)"
      "thr_inv ((destroyed s)\<lparr>mach := m, spaces := sp', tablePtr := p\<rparr>)"
    using restore_space_inv [of "destroyed s" c] D by auto
  let ?u = "(destroyed s)\<lparr>mach := m, spaces := sp', tablePtr := p\<rparr>"
  have "qinv ?u" using m(2) D(2) assms by (simp add: qinv_def intr_ok_def)
  moreover have "kSetLevel D IntOn ?u = Some (Inr s')" using assms(7) D(4) m(1) by (simp add: SetupThreadState_def)
  ultimately have "tkept t sp ?u s'" using assms(8) by (intro kSetLevel_kept) simp_all
  moreover have "tkept t sp s (destroyed s)" using assms(9,10) by (simp add: tkept_def destroyed_def Let_def)
  ultimately show ?thesis using tkept_restore [OF m(1)] by (blast intro: tkept_trans)
qed

lemma Start_kept:
  assumes "qinv s" "stat (threads s) u = Some JUST_CREATED" "Start D u f x s = Some (Inr s')" "currentThread s \<noteq> t"
  shows "tkept t sp s s'"
proof -
  obtain c where c: "threads s u = Some c" "tstatus c = JUST_CREATED" using stat_dom [OF assms(2)] by blast
  let ?s = "s\<lparr>level := IntOff, threads := (threads s)(u \<mapsto> c\<lparr>stack := Some STACK_FENCEPOST,
        kstack := [SetupFrame, Body f x, FinishFrame], tstatus := READY\<rparr>), readyList := readyList s @ [u]\<rparr>"
  have "Start D u f x s = kSetLevel D (level s) ?s"
    using c by (simp add: Start_def get_thread_def StackAllocate_def upd_thread_def ReadyToRun_def setStatus_def
        ChangeLevel_def Let_def)
  moreover have "qinv ?s" using start_inv [of "s\<lparr>level := IntOff\<rparr>" u c f x] assms(1) c by simp
  ultimately have "tkept t sp ?s s'" using kSetLevel_kept [of ?s "level s" s' t sp] assms(3,4) by simp
  moreover have "tkept t sp s ?s" using c by (simp add: tkept_def)
  ultimately show ?thesis by (blast intro: tkept_trans)
qed

lemma exec_op_kept:
  assumes "qinv s" "op_ok p s" "exec_op D p s = Some (Inr s')" "currentThread s \<noteq> t"
  shows "tkept t sp s s'"
proof (cases p)
  case (OpNewThread n u)
  then show ?thesis using assms(2,3) by (auto simp: exec_op_def op_ok_def Thread_new_def tkept_def)
qed (use assms tkept_yield [of s s' t sp] Semaphore_P_kept [OF assms(1) _ _ assms(4), of _ s' sp]
    Semaphore_V_kept [OF assms(1) _ _ assms(4), of _ s' sp] Start_kept [OF assms(1) _ _ assms(4), of _ _ _ s' sp]
    OneTick_kept [OF assms(1) _ assms(4), of s' sp] in \<open>auto simp: exec_op_def op_ok_def\<close>)

lemma exec_frame_kept:
  assumes "kinv s" "threads s (currentThread s) = Some c" "kstack c = f # fs"
    "exec_frame D f (pop_frame s) = Some (Inr s')" "currentThread s \<noteq> t" "threadToBeDestroyed s \<noteq> t" "t \<noteq> NULL"
  shows "tkept t sp s s'"
proof -
  let ?c = "c\<lparr>kstack := fs\<rparr>" let ?s = "pop_frame s" let ?A = "dom (sems s)"
  have s: "?s = s\<lparr>threads := (threads s)(currentThread s \<mapsto> ?c)\<rparr>" using assms(2,3) by (simp add: pop_frame_def)
  have k: "thr_inv s" "intr_ok s" "\<not> inHandler s" "tstatus c = RUNNING"
      "\<not> switch_ok ?A (f # fs) \<Longrightarrow> threadToBeDestroyed s = NULL \<and> resume_ok ?A (f # fs)
         \<and> (\<not> base_frames (f # fs) \<longrightarrow> level s = IntOff)"
      "switch_ok ?A (f # fs) \<Longrightarrow> f = RunTail \<or> f = SetupFrame \<and> base_frames fs"
    using assms by (auto simp: kinv_def switch_ok_def split: if_splits frame.splits)
  have u: "thr_inv ?s" "threads ?s (currentThread ?s) = Some ?c" "tstatus ?c = RUNNING" "intr_ok ?s" "\<not> inHandler ?s"
      "currentThread ?s \<noteq> t" "threadToBeDestroyed ?s = threadToBeDestroyed s"
    using kstack_thr [OF k(1) assms(2), of fs] k assms(5) by (simp_all add: s intr_ok_def)
  have q: "base_frames fs \<Longrightarrow> threadToBeDestroyed s = NULL \<Longrightarrow> qinv ?s"
    using u by (simp add: qinv_def s)
  have base: "base_frames fs \<or> f = FinishFrame" "threadToBeDestroyed s = NULL" if "base_frame f"
    using that k(5) by (cases f; auto simp: switch_ok_def resume_ok_def base_frames_def split: if_splits)+
  have "tkept t sp ?s s'"
  proof (cases f)
    case RunTail
    then show ?thesis using assms(4,6,7) u(7) tkept_tail [of ?s s' t sp] by (simp add: exec_frame_def)
  next
    case (PLoop a l)
    then have "a \<in> ?A" "base_frames fs" "threadToBeDestroyed s = NULL" "level s = IntOff"
      using k(5) by (auto simp: switch_ok_def resume_ok_def base_frames_def)
    then show ?thesis using q P_loop_kept [of ?s a l s' t sp] PLoop assms(4) u(6) by (auto simp: exec_frame_def s)
  next
    case SetupFrame
    then have "base_frames fs" using k(5) by (auto simp: switch_ok_def resume_ok_def base_frames_def)
    then show ?thesis using SetupThreadState_kept [OF u(1,4,5,2,3) _ _ u(6), of s' sp] SetupFrame assms(4,6,7) u(7)
      by (simp add: exec_frame_def)
  next
    case FinishFrame
    then show ?thesis using Finish_kept [OF u(1,4,5) _ u(2,3) _ u(6), of s' sp] base(2) assms(4) by (simp add: exec_frame_def s)
  qed (use base q assms(4) kSetLevel_kept [of ?s _ s' t sp] u(6) in \<open>auto simp: exec_frame_def\<close>)
  then show ?thesis using tkept_pop [OF assms(5)] by (blast intro: tkept_trans)
qed


lemma kstep_kept:
  assumes "kstep D s s'" "kinv s" "currentThread s \<noteq> t" "threadToBeDestroyed s \<noteq> t" "t \<noteq> NULL"
  shows "tkept t sp s s'"
  using assms(1)
proof (rule kstepE)
  fix c f fs
  assume "threads s (currentThread s) = Some c" "kstack c = f # fs" "exec_frame D f (pop_frame s) = Some (Inr s')"
  then show ?thesis using exec_frame_kept [OF assms(2) _ _ _ assms(3-5)] by blast
next
  fix c g x fs p
  assume "threads s (currentThread s) = Some c" "kstack c = Body g x # fs" "op_ok p s" "exec_op D p s = Some (Inr s')"
  then show ?thesis using exec_op_kept [OF kinv_body [OF assms(2)] _ _ assms(3)] by blast
qed

end

text \<open>
  A run in which \<open>t\<close> is not the running thread: steps of the kernel and of the threads, and user programs of other address spaces
  than \<open>sp\<close>, which may do to the machine, registers, memory and their page table, what they like.
\<close>

inductive others_run :: "('h, 'z) kdispatch \<Rightarrow> addr \<Rightarrow> addr \<Rightarrow> ('h, 'z) kernel_scheme \<Rightarrow> ('h, 'z) kernel_scheme \<Rightarrow> bool"
  for D t sp s where
  others_refl: "others_run D t sp s s"
| others_kernel: "others_run D t sp s s1 \<Longrightarrow> currentThread s1 \<noteq> t \<Longrightarrow> kstep D s1 s2 \<Longrightarrow> others_run D t sp s s2"
| others_user: "others_run D t sp s s1 \<Longrightarrow> currentThread s1 \<noteq> t \<Longrightarrow> tablePtr s1 \<noteq> sp \<Longrightarrow> unat (registers m LoadReg) < NumTotalRegs \<Longrightarrow>
     (currentPageTable m = None) = (currentPageTable (mach s1) = None) \<Longrightarrow> others_run D t sp s (s1\<lparr>mach := m\<rparr>)"

lemma others_run_kept:
  assumes "kernel_client D E" "others_run D t sp s s'" "kinv s" "threadToBeDestroyed s \<noteq> t" "t \<noteq> NULL"
  shows "kinv s' \<and> threadToBeDestroyed s' \<noteq> t \<and> tkept t sp s s'"
  using assms(2)
proof induction
  case others_refl
  then show ?case using assms(3,4) by simp
next
  case (others_kernel s1 s2)
  then have "kinv s2" using kernel_client.kstep_inv [OF assms(1)] by blast
  moreover have "tkept t sp s1 s2" using kernel_client.kstep_kept [OF assms(1)] others_kernel assms(5) by blast
  ultimately show ?case using others_kernel.IH by (auto simp: tkept_def intro: tkept_trans)
next
  case (others_user s1 m)
  have "kinv (s1\<lparr>mach := m\<rparr>)"
    using others_user.IH others_user.hyps(4) by (auto simp: kinv_def thr_inv_def mem_inv_def intr_ok_def)
  moreover have "cur_spaces (s1\<lparr>mach := m\<rparr>) sp = cur_spaces s1 sp"
    using others_user.hyps(3) by (simp add: cur_spaces_def split: option.split)
  ultimately show ?case using others_user.IH by (simp add: tkept_def)
qed

lemma Scheduler_Run_saves:
  assumes "Scheduler_Run nt s = Inr s1" "threads s (currentThread s) = Some c" "space c \<noteq> NULL" "nt \<noteq> currentThread s"
  shows "\<exists>c1. threads s1 (currentThread s) = Some c1 \<and> (\<forall>i < NumTotalRegs. userRegisters c1 i = registers (mach s) i)
     \<and> space c1 = space c \<and> kstack c1 = RunTail # kstack c \<and> tstatus c1 = tstatus c \<and> cur_spaces s1 = cur_spaces s
     \<and> threadToBeDestroyed s1 = threadToBeDestroyed s"
  using assms by (auto simp: Scheduler_Run_def Let_def get_thread_def SaveUserState_def SaveState_def upd_thread_def
        CheckOverflow_def push_frame_def setStatus_def rbind_Inr_iff split: option.splits if_splits)

text \<open>The second half of \<open>Scheduler::Run\<close>: what was saved is loaded.\<close>

lemma resume_loads:
  assumes "kinv s" "threads s (currentThread s) = Some c" "kstack c = RunTail # fs" "space c \<noteq> NULL"
  shows "\<exists>s3. exec_frame D RunTail (pop_frame s) = Some (Inr s3) \<and> kstep D s s3 \<and> currentThread s3 = currentThread s
     \<and> (\<forall>i < NumTotalRegs. registers (mach s3) i = userRegisters c i)
     \<and> currentPageTable (mach s3) = cur_spaces s (space c) \<and> currentPageTable (mach s3) \<noteq> None \<and> tablePtr s3 = space c
     \<and> threads s3 (currentThread s) = Some (c\<lparr>kstack := fs\<rparr>)"
proof -
  let ?p = "pop_frame s" let ?c = "c\<lparr>kstack := fs\<rparr>"
  have p: "?p = s\<lparr>threads := (threads s)(currentThread s \<mapsto> ?c)\<rparr>" using assms(2,3) by (simp add: pop_frame_def)
  have t: "thr_inv ?p" "threads ?p (currentThread ?p) = Some ?c" "tstatus ?c = RUNNING"
    using kstack_thr [OF _ assms(2), of fs] assms(1,2) by (auto simp: p kinv_def)
  note D = destroyed_inv [OF t]
  have d: "cur_spaces (destroyed ?p) = cur_spaces s" "mach (destroyed ?p) = mach s" "currentThread (destroyed ?p) = currentThread s"
    by (simp_all add: destroyed_def p Let_def)
  have th: "threads (destroyed ?p) (currentThread (destroyed ?p)) = Some ?c" using D(2) by simp
  obtain s3 where s3: "restore_space (destroyed ?p) = Inr s3" using restore_space_inv [OF D(1) th] by blast
  then have e: "exec_frame D RunTail ?p = Some (Inr s3)" using D(3) by (simp add: exec_frame_def run_tail_def Let_def)
  have u: "userRegisters ?c = userRegisters c" "space ?c = space c" by simp_all
  have step: "kstep D s s3" by (rule step_frame [OF assms(2,3) e])
  obtain pt where pt: "cur_spaces s (space c) = Some pt" "s3 = (destroyed ?p)\<lparr>spaces := cur_spaces s, tablePtr := space c,
      mach := (mach s)\<lparr>registers := (\<lambda>i. if i < NumTotalRegs then userRegisters c i else registers (mach s) i),
        currentPageTable := Some pt, currentPageTableSize := of_nat (length pt)\<rparr>\<rparr>"
    using restore_space_cases [OF s3 th] assms(4) unfolding d u by auto
  show ?thesis
    by (rule exI [of _ s3], intro conjI, rule e, rule step) (use th d(3) pt(1) in \<open>simp_all add: pt(2)\<close>)
qed

text \<open>C7: the processor state of a user program survives a context switch. Thread \<open>t\<close>, with an address space, is ready or goes to sleep, and
  \<open>Scheduler::Run\<close> switches to another thread. Whatever happens until \<open>t\<close> is the running thread again - steps of
  the kernel, of interrupt handlers and of the other threads, and user programs of other address spaces that change the machine - the next thing
  that \<open>t\<close> does is the second half of \<open>Scheduler::Run\<close>; it succeeds, the machine then holds all 40 registers as they were when \<open>t\<close> lost the
  processor, its page table is that of the address space of \<open>t\<close> as it was then, with every bit that the machine had set in it, and the
  rest of the stack of \<open>t\<close> is unchanged.\<close>

theorem context_switch_user_state:
  assumes "kernel_client D E" "mid s" "readyList s = nt # ts" "threads s (currentThread s) = Some c" "space c \<noteq> NULL"
    "currentThread s \<noteq> nt" "currentThread s \<noteq> threadToBeDestroyed s"
  shows "\<exists>s1. Scheduler_Run nt (s\<lparr>readyList := ts\<rparr>) = Inr s1 \<and> currentThread s1 = nt
     \<and> (\<forall>s2. others_run D (currentThread s) (space c) s1 s2 \<and> currentThread s2 = currentThread s \<longrightarrow>
          (\<exists>s3 c2 c3. threads s2 (currentThread s) = Some c2 \<and> kstack c2 = RunTail # kstack c
             \<and> exec_frame D RunTail (pop_frame s2) = Some (Inr s3) \<and> kstep D s2 s3 \<and> currentThread s3 = currentThread s
             \<and> (\<forall>i < NumTotalRegs. registers (mach s3) i = registers (mach s) i)
             \<and> currentPageTable (mach s3) = cur_spaces s (space c) \<and> currentPageTable (mach s3) \<noteq> None \<and> tablePtr s3 = space c
             \<and> threads s3 (currentThread s) = Some c3 \<and> kstack c3 = kstack c))"
proof -
  let ?t = "currentThread s"
  obtain s1 where s1: "Scheduler_Run nt (s\<lparr>readyList := ts\<rparr>) = Inr s1" "kinv s1" "currentThread s1 = nt"
    using Scheduler_Run_inv [OF assms(2,3)] by blast
  obtain c1 where c1: "threads s1 ?t = Some c1" "\<forall>i < NumTotalRegs. userRegisters c1 i = registers (mach s) i" "space c1 = space c"
      "kstack c1 = RunTail # kstack c" "tstatus c1 = tstatus c" "cur_spaces s1 = cur_spaces s" "threadToBeDestroyed s1 \<noteq> ?t"
    using Scheduler_Run_saves [OF s1(1), of c] assms(4-7) by auto
  have "tstatus c = BLOCKED \<or> tstatus c = READY" using assms(2) unfolding mid_def assms(4) by blast
  then have st: "tstatus c1 \<noteq> JUST_CREATED" unfolding c1(5) by auto
  have n: "?t \<noteq> NULL" using thr_nonnull [OF _ assms(4)] assms(2) by (simp add: mid_def)
  show ?thesis
  proof (rule exI [of _ s1], intro conjI allI impI, rule s1(1), rule s1(3))
    fix s2 assume "others_run D ?t (space c) s1 s2 \<and> currentThread s2 = ?t"
    then have run: "others_run D ?t (space c) s1 s2" "currentThread s2 = ?t" by simp_all
    have k: "kinv s2" "tkept ?t (space c) s1 s2" using others_run_kept [OF assms(1) run(1) s1(2) c1(7) n] by simp_all
    then obtain c2 where c2: "threads s2 ?t = Some c2" "user_saved c2 = user_saved c1" "kstack c2 = RunTail # kstack c"
      using c1(1,4) st unfolding tkept_def by auto
    have ur: "userRegisters c2 = userRegisters c1" "space c2 = space c" using c2(2) c1(3) by (simp_all add: user_saved_def)
    have sp: "cur_spaces s2 (space c) = cur_spaces s (space c)" using k(2) c1(6) by (simp add: tkept_def)
    have pre: "threads s2 (currentThread s2) = Some c2" "space c2 \<noteq> NULL" using c2(1) run(2) ur(2) assms(5) by simp_all
    have kt: "kstack (c2\<lparr>kstack := kstack c\<rparr>) = kstack c" by simp
    obtain s3 where s3: "exec_frame D RunTail (pop_frame s2) = Some (Inr s3)" "kstep D s2 s3" "currentThread s3 = currentThread s2"
       "\<forall>i < NumTotalRegs. registers (mach s3) i = userRegisters c2 i"
       "currentPageTable (mach s3) = cur_spaces s2 (space c2)" "currentPageTable (mach s3) \<noteq> None" "tablePtr s3 = space c2"
       "threads s3 (currentThread s2) = Some (c2\<lparr>kstack := kstack c\<rparr>)"
      using resume_loads [OF k(1) pre(1) c2(3) pre(2), of D] by blast
    have "\<forall>i < NumTotalRegs. registers (mach s3) i = registers (mach s) i" using s3(4) c1(2) ur(1) by simp
    then show "\<exists>s3 c2 c3. threads s2 ?t = Some c2 \<and> kstack c2 = RunTail # kstack c
       \<and> exec_frame D RunTail (pop_frame s2) = Some (Inr s3) \<and> kstep D s2 s3 \<and> currentThread s3 = ?t
       \<and> (\<forall>i < NumTotalRegs. registers (mach s3) i = registers (mach s) i)
       \<and> currentPageTable (mach s3) = cur_spaces s (space c) \<and> currentPageTable (mach s3) \<noteq> None \<and> tablePtr s3 = space c
       \<and> threads s3 ?t = Some c3 \<and> kstack c3 = kstack c"
      using c2(1,3) s3(1-3,5-8) kt unfolding run(2) ur(2) sp
      by (intro exI [of _ s3] exI [of _ c2] exI [of _ "c2\<lparr>kstack := kstack c\<rparr>"] conjI)
  qed
qed

text \<open>Two user programs: thread 1, which called \<open>Yield\<close>, and thread 2, which is switched to, writes register 5 and gives the processor back.\<close>

definition demo_user_kernel :: "unit kernel" where
  "demo_user_kernel = demo_kernel\<lparr>level := IntOff, threadList := [1, 2], readyList := [2, 1], spaces := [7 \<mapsto> [], 8 \<mapsto> []], tablePtr := 7,
     mach := (setReg 5 42 (mach demo_kernel))\<lparr>currentPageTable := Some []\<rparr>,
     threads := [1 \<mapsto> (the (threads demo_kernel 1))\<lparr>space := 7, tstatus := READY, kstack := [RestoreLevel IntOn, Body NULL NULL, FinishFrame]\<rparr>,
       2 \<mapsto> \<lparr>tname = ''other'', tstatus = READY, stack = Some STACK_FENCEPOST, main_stack = False, userRegisters = (\<lambda>_. 0), space = 8,
         kstack = [RunTail, Body 5 0, FinishFrame]\<rparr>]\<rparr>"

lemmas demo_user_eval = demo_user_kernel_def demo_kernel_def boot_state_def Interrupt_new_def intr.defs kernel.defs Machine_new_def setReg_def

lemma demo_user_mid: "mid demo_user_kernel"
proof -
  let ?th = "threads demo_user_kernel" let ?c1 = "the (?th 1)" let ?c2 = "the (?th 2)"
  have c: "?th = [1 \<mapsto> ?c1, 2 \<mapsto> ?c2]" "tstatus ?c1 = READY" "tstatus ?c2 = READY"
      "kstack ?c1 = [RestoreLevel IntOn, Body NULL NULL, FinishFrame]" "kstack ?c2 = [RunTail, Body 5 0, FinishFrame]"
      "mem_ok [7 \<mapsto> [], 8 \<mapsto> []] ?c1" "mem_ok [7 \<mapsto> [], 8 \<mapsto> []] ?c2"
    by (simp_all add: demo_user_eval mem_ok_def)
  have f: "readyList demo_user_kernel = [2, 1]" "threadToBeDestroyed demo_user_kernel = NULL" "currentThread demo_user_kernel = 1"
      "sems demo_user_kernel = (\<lambda>_. None)" "threadList demo_user_kernel = [1, 2]" "level demo_user_kernel = IntOff"
      "registers (mach demo_user_kernel) 37 = 0" "pending demo_user_kernel = []" "\<not> inHandler demo_user_kernel"
      "spaces demo_user_kernel = [7 \<mapsto> [], 8 \<mapsto> []]"
    by (simp_all add: demo_user_eval)
  have st: "stat ?th t = (if t = 2 \<or> t = 1 then Some READY else None)" for t
    by (subst c(1)) (simp add: stat_def c(2,3) c(2) [unfolded One_nat_def])
  have "ready_inv ?th [2, 1]" by (simp add: ready_inv_def st)
  moreover have "sem_inv ?th (\<lambda>_. None) NULL" by (simp add: sem_inv_def st)
  moreover have "all_inv ?th [1, 2]" by (subst c(1)) (auto simp: all_inv_def)
  moreover have "run_inv ?th 1" by (simp add: run_inv_def st)
  moreover have "out_inv ?th {} 1 NULL"
    by (subst c(1)) (use c(5) in \<open>simp add: out_inv_def switch_ok_def resume_ok_def base_frames_def\<close>)
  moreover have "mem_inv ?th [7 \<mapsto> [], 8 \<mapsto> []] (mach demo_user_kernel)"
    by (subst c(1)) (use c(6,7) in \<open>simp add: mem_inv_def f\<close>)
  ultimately have "thr_inv demo_user_kernel" by (simp add: thr_inv_def f)
  moreover have "resume_ok {} (kstack ?c1)" unfolding c(4) by (simp add: resume_ok_def base_frames_def)
  moreover have "?th 1 = Some ?c1" by (subst c(1)) simp
  moreover have "intr_ok demo_user_kernel" by (simp add: intr_ok_def f)
  ultimately show ?thesis using c(2) f(9) unfolding mid_def f by auto
qed

lemma demo_user_run:
  "\<exists>s1 s2 s3 c1 c2 fs. Scheduler_Run 2 (demo_user_kernel\<lparr>readyList := [1]\<rparr>) = Inr s1 \<and> currentThread s1 = 2
     \<and> threads s1 2 = Some c1 \<and> kstack c1 = [RunTail, Body 5 0, FinishFrame] \<and> run_tail (pop_frame s1) = Inr s2
     \<and> currentThread s2 = 2 \<and> tablePtr s2 = 8 \<and> registers (mach s2) 37 = 0 \<and> currentPageTable (mach s2) = Some []
     \<and> threads s2 2 = Some c2 \<and> kstack c2 = Body 5 0 # fs
     \<and> Yield (s2\<lparr>mach := setReg 5 99 (mach s2)\<rparr>) = Inr s3 \<and> currentThread s3 = 1 \<and> registers (mach s3) 5 = 99"
  by (simp add: demo_user_eval Scheduler_Run_def get_thread_def SaveUserState_def SaveState_def upd_thread_def CheckOverflow_def
      push_frame_def setStatus_def run_tail_def restore_space_def RestoreUserState_def RestoreState_def cur_spaces_def pop_frame_def
      Yield_def ChangeLevel_def FindNextToRun_def ReadyToRun_def)

theorem context_switch_user_state_witness:
  "\<exists>s1 s2 s3. Scheduler_Run 2 (demo_user_kernel\<lparr>readyList := [1]\<rparr>) = Inr s1
     \<and> others_run (timer_dispatch True) 1 7 s1 s2 \<and> registers (mach s2) 5 = 99
     \<and> kstep (timer_dispatch True) s2 s3 \<and> currentThread s3 = 1 \<and> registers (mach s3) 5 = 42"
proof -
  let ?D = "timer_dispatch True" and ?k = demo_user_kernel
  obtain s1 s2 s3 c1 c2 fs where r: "Scheduler_Run 2 (?k\<lparr>readyList := [1]\<rparr>) = Inr s1" "currentThread s1 = 2"
      "threads s1 2 = Some c1" "kstack c1 = [RunTail, Body 5 0, FinishFrame]" "run_tail (pop_frame s1) = Inr s2"
      "currentThread s2 = 2" "tablePtr s2 = 8" "registers (mach s2) 37 = 0" "currentPageTable (mach s2) = Some []"
      "threads s2 2 = Some c2" "kstack c2 = Body 5 0 # fs"
      "Yield (s2\<lparr>mach := setReg 5 99 (mach s2)\<rparr>) = Inr s3" "currentThread s3 = 1" "registers (mach s3) 5 = 99"
    using demo_user_run by blast
  let ?u = "s2\<lparr>mach := setReg 5 99 (mach s2)\<rparr>"
  have "kstep ?D s1 s2" using r(2-5) by (intro step_frame [of s1 c1 RunTail]) (simp_all add: exec_frame_def)
  then have "others_run ?D 1 7 s1 s2" by (intro others_kernel [OF others_refl]) (simp_all add: r(2))
  then have "others_run ?D 1 7 s1 ?u"
    by (rule others_user) (use r(6-9) in \<open>simp_all add: setReg_def\<close>)
  moreover have "kstep ?D ?u s3"
    using r(6,10-12) by (intro step_op [of ?u c2 5 0 fs OpYield]) (simp_all add: op_ok_def exec_op_def)
  ultimately have run: "others_run ?D 1 7 s1 s3" by (intro others_kernel [of ?D 1 7 s1 ?u s3]) (simp_all add: r(6))
  have k: "readyList ?k = [2, 1]" "threads ?k (currentThread ?k) = Some (the (threads ?k 1))" "space (the (threads ?k 1)) = 7"
      "currentThread ?k = 1" "threadToBeDestroyed ?k = NULL" "registers (mach ?k) 5 = 42"
    by (simp_all add: demo_user_eval)
  obtain u3 where "kstep ?D s3 u3" "currentThread u3 = 1" "\<forall>i < NumTotalRegs. registers (mach u3) i = registers (mach ?k) i"
    using context_switch_user_state [OF timer_threads.kernel_client_axioms demo_user_mid k(1,2), of True] r(1,13) run
    unfolding k(3,4,5) by fastforce
  then show ?thesis using r(1,14) run k(6) by fastforce
qed

end
