(* ===== verification/MipsModel.thy ===== *)
theory MipsModel
  imports MachineModel
begin

unbundle bit_operations_syntax

text \<open>
  The simulated MIPS R2/3000 processor (machine/mipssim.h, machine/mipssim.cc): decoding and
  the execution of one instruction.

  Operation codes are the numbers of the source. The cases of the big switch of
  \<open>Machine::OneInstruction\<close> are grouped in the order of the source; each group returns \<open>None\<close>
  for an operation code that is not its own. A case ends in \<open>Next\<close>, which carries what the
  code keeps in local variables (\<open>pcAfter\<close>, \<open>nextLoadReg\<close>, \<open>nextLoadValue\<close>), or in \<open>Trapped\<close>
  where the source returns after an exception. Registers are 32-bit words; signed operations
  go through \<open>sint\<close>.
\<close>

section \<open>Operation codes and tables\<close>

abbreviation (input) "OP_ADD \<equiv> (1 :: nat)"
abbreviation (input) "OP_ADDI \<equiv> (2 :: nat)"
abbreviation (input) "OP_ADDIU \<equiv> (3 :: nat)"
abbreviation (input) "OP_ADDU \<equiv> (4 :: nat)"
abbreviation (input) "OP_AND \<equiv> (5 :: nat)"
abbreviation (input) "OP_ANDI \<equiv> (6 :: nat)"
abbreviation (input) "OP_BEQ \<equiv> (7 :: nat)"
abbreviation (input) "OP_BGEZ \<equiv> (8 :: nat)"
abbreviation (input) "OP_BGEZAL \<equiv> (9 :: nat)"
abbreviation (input) "OP_BGTZ \<equiv> (10 :: nat)"
abbreviation (input) "OP_BLEZ \<equiv> (11 :: nat)"
abbreviation (input) "OP_BLTZ \<equiv> (12 :: nat)"
abbreviation (input) "OP_BLTZAL \<equiv> (13 :: nat)"
abbreviation (input) "OP_BNE \<equiv> (14 :: nat)"
abbreviation (input) "OP_DIV \<equiv> (16 :: nat)"
abbreviation (input) "OP_DIVU \<equiv> (17 :: nat)"
abbreviation (input) "OP_J \<equiv> (18 :: nat)"
abbreviation (input) "OP_JAL \<equiv> (19 :: nat)"
abbreviation (input) "OP_JALR \<equiv> (20 :: nat)"
abbreviation (input) "OP_JR \<equiv> (21 :: nat)"
abbreviation (input) "OP_LB \<equiv> (22 :: nat)"
abbreviation (input) "OP_LBU \<equiv> (23 :: nat)"
abbreviation (input) "OP_LH \<equiv> (24 :: nat)"
abbreviation (input) "OP_LHU \<equiv> (25 :: nat)"
abbreviation (input) "OP_LUI \<equiv> (26 :: nat)"
abbreviation (input) "OP_LW \<equiv> (27 :: nat)"
abbreviation (input) "OP_LWL \<equiv> (28 :: nat)"
abbreviation (input) "OP_LWR \<equiv> (29 :: nat)"
abbreviation (input) "OP_MFHI \<equiv> (31 :: nat)"
abbreviation (input) "OP_MFLO \<equiv> (32 :: nat)"
abbreviation (input) "OP_MTHI \<equiv> (34 :: nat)"
abbreviation (input) "OP_MTLO \<equiv> (35 :: nat)"
abbreviation (input) "OP_MULT \<equiv> (36 :: nat)"
abbreviation (input) "OP_MULTU \<equiv> (37 :: nat)"
abbreviation (input) "OP_NOR \<equiv> (38 :: nat)"
abbreviation (input) "OP_OR \<equiv> (39 :: nat)"
abbreviation (input) "OP_ORI \<equiv> (40 :: nat)"
abbreviation (input) "OP_RFE \<equiv> (41 :: nat)"
abbreviation (input) "OP_SB \<equiv> (42 :: nat)"
abbreviation (input) "OP_SH \<equiv> (43 :: nat)"
abbreviation (input) "OP_SLL \<equiv> (44 :: nat)"
abbreviation (input) "OP_SLLV \<equiv> (45 :: nat)"
abbreviation (input) "OP_SLT \<equiv> (46 :: nat)"
abbreviation (input) "OP_SLTI \<equiv> (47 :: nat)"
abbreviation (input) "OP_SLTIU \<equiv> (48 :: nat)"
abbreviation (input) "OP_SLTU \<equiv> (49 :: nat)"
abbreviation (input) "OP_SRA \<equiv> (50 :: nat)"
abbreviation (input) "OP_SRAV \<equiv> (51 :: nat)"
abbreviation (input) "OP_SRL \<equiv> (52 :: nat)"
abbreviation (input) "OP_SRLV \<equiv> (53 :: nat)"
abbreviation (input) "OP_SUB \<equiv> (54 :: nat)"
abbreviation (input) "OP_SUBU \<equiv> (55 :: nat)"
abbreviation (input) "OP_SW \<equiv> (56 :: nat)"
abbreviation (input) "OP_SWL \<equiv> (57 :: nat)"
abbreviation (input) "OP_SWR \<equiv> (58 :: nat)"
abbreviation (input) "OP_XOR \<equiv> (59 :: nat)"
abbreviation (input) "OP_XORI \<equiv> (60 :: nat)"
abbreviation (input) "OP_SYSCALL \<equiv> (61 :: nat)"
abbreviation (input) "OP_UNIMP \<equiv> (62 :: nat)"
abbreviation (input) "OP_RES \<equiv> (63 :: nat)"

abbreviation (input) "SPECIAL \<equiv> (100 :: nat)"
abbreviation (input) "BCOND \<equiv> (101 :: nat)"
abbreviation (input) "IFMT \<equiv> (1 :: nat)"
abbreviation (input) "JFMT \<equiv> (2 :: nat)"
abbreviation (input) "RFMT \<equiv> (3 :: nat)"
abbreviation (input) "SIGN_BIT \<equiv> (0x80000000 :: 32 word)"
abbreviation (input) "R31 \<equiv> (31 :: nat)"

definition IndexToAddr :: "32 word \<Rightarrow> 32 word" where
  "IndexToAddr x = push_bit 2 x"

definition opTable :: "(nat \<times> nat) list" where
  "opTable = [
     (SPECIAL, RFMT), (BCOND, IFMT), (OP_J, JFMT), (OP_JAL, JFMT),
     (OP_BEQ, IFMT), (OP_BNE, IFMT), (OP_BLEZ, IFMT), (OP_BGTZ, IFMT),
     (OP_ADDI, IFMT), (OP_ADDIU, IFMT), (OP_SLTI, IFMT), (OP_SLTIU, IFMT),
     (OP_ANDI, IFMT), (OP_ORI, IFMT), (OP_XORI, IFMT), (OP_LUI, IFMT),
     (OP_UNIMP, IFMT), (OP_UNIMP, IFMT), (OP_UNIMP, IFMT), (OP_UNIMP, IFMT),
     (OP_RES, IFMT), (OP_RES, IFMT), (OP_RES, IFMT), (OP_RES, IFMT),
     (OP_RES, IFMT), (OP_RES, IFMT), (OP_RES, IFMT), (OP_RES, IFMT),
     (OP_RES, IFMT), (OP_RES, IFMT), (OP_RES, IFMT), (OP_RES, IFMT),
     (OP_LB, IFMT), (OP_LH, IFMT), (OP_LWL, IFMT), (OP_LW, IFMT),
     (OP_LBU, IFMT), (OP_LHU, IFMT), (OP_LWR, IFMT), (OP_RES, IFMT),
     (OP_SB, IFMT), (OP_SH, IFMT), (OP_SWL, IFMT), (OP_SW, IFMT),
     (OP_RES, IFMT), (OP_RES, IFMT), (OP_SWR, IFMT), (OP_RES, IFMT),
     (OP_UNIMP, IFMT), (OP_UNIMP, IFMT), (OP_UNIMP, IFMT), (OP_UNIMP, IFMT),
     (OP_RES, IFMT), (OP_RES, IFMT), (OP_RES, IFMT), (OP_RES, IFMT),
     (OP_UNIMP, IFMT), (OP_UNIMP, IFMT), (OP_UNIMP, IFMT), (OP_UNIMP, IFMT),
     (OP_RES, IFMT), (OP_RES, IFMT), (OP_RES, IFMT), (OP_RES, IFMT)
   ]"

definition specialTable :: "nat list" where
  "specialTable = [
     OP_SLL, OP_RES, OP_SRL, OP_SRA, OP_SLLV, OP_RES, OP_SRLV, OP_SRAV,
     OP_JR, OP_JALR, OP_RES, OP_RES, OP_SYSCALL, OP_UNIMP, OP_RES, OP_RES,
     OP_MFHI, OP_MTHI, OP_MFLO, OP_MTLO, OP_RES, OP_RES, OP_RES, OP_RES,
     OP_MULT, OP_MULTU, OP_DIV, OP_DIVU, OP_RES, OP_RES, OP_RES, OP_RES,
     OP_ADD, OP_ADDU, OP_SUB, OP_SUBU, OP_AND, OP_OR, OP_XOR, OP_NOR,
     OP_RES, OP_RES, OP_SLT, OP_SLTU, OP_RES, OP_RES, OP_RES, OP_RES,
     OP_RES, OP_RES, OP_RES, OP_RES, OP_RES, OP_RES, OP_RES, OP_RES,
     OP_RES, OP_RES, OP_RES, OP_RES, OP_RES, OP_RES, OP_RES, OP_RES
   ]"

section \<open>Decoding\<close>

record Instruction =
  ivalue :: "32 word"
  opCode :: nat
  irs :: nat
  irt :: nat
  ird :: nat
  iextra :: "32 word"

definition Decode :: "32 word \<Rightarrow> Instruction" where
  "Decode v =
     (let op = opTable ! unat (drop_bit 26 v AND 0x3f);
          extra = (if snd op = IFMT
                   then (let e = v AND 0xffff in if e AND 0x8000 \<noteq> 0 then e OR 0xffff0000 else e)
                   else if snd op = RFMT then drop_bit 6 v AND 0x1f
                   else v AND 0x3ffffff);
          code = (if fst op = SPECIAL then specialTable ! unat (v AND 0x3f)
                  else if fst op = BCOND
                  then (let i = v AND 0x1f0000 in
                        if i = 0 then OP_BLTZ
                        else if i = 0x10000 then OP_BGEZ
                        else if i = 0x100000 then OP_BLTZAL
                        else if i = 0x110000 then OP_BGEZAL
                        else OP_UNIMP)
                  else fst op)
      in \<lparr>ivalue = v, opCode = code, irs = unat (drop_bit 21 v AND 0x1f),
          irt = unat (drop_bit 16 v AND 0x1f), ird = unat (drop_bit 11 v AND 0x1f), iextra = extra\<rparr>)"

datatype RegType = NONE | RS | RT | RD | EXTRA

definition TypeToReg :: "RegType \<Rightarrow> Instruction \<Rightarrow> int" where
  "TypeToReg reg i = (case reg of
      RS \<Rightarrow> int (irs i) | RT \<Rightarrow> int (irt i) | RD \<Rightarrow> int (ird i) | EXTRA \<Rightarrow> sint (iextra i) | NONE \<Rightarrow> - 1)"

section \<open>Multiplication\<close>

text \<open>
  The loop of \<open>Mult\<close>; \<open>n\<close> counts the rounds left. The negation of the most negative number,
  which C leaves undefined, wraps around as on the supported hosts.
\<close>

fun mult_loop :: "nat \<Rightarrow> 32 word \<Rightarrow> 32 word \<Rightarrow> 32 word \<Rightarrow> 32 word \<Rightarrow> 32 word \<Rightarrow> 32 word \<times> 32 word" where
  "mult_loop 0 a bLo bHi lo hi = (hi, lo)"
| "mult_loop (Suc n) a bLo bHi lo hi =
     (let lo' = (if a AND 1 \<noteq> 0 then lo + bLo else lo);
          hi' = (if a AND 1 \<noteq> 0 then (if lo' < bLo then hi + 1 else hi) + bHi else hi) in
      if a AND 1 \<noteq> 0 \<and> a AND 0xfffffffe = 0 then (hi', lo')
      else mult_loop n (signed_drop_bit 1 a) (push_bit 1 bLo)
             (if bLo AND 0x80000000 \<noteq> 0 then push_bit 1 bHi OR 1 else push_bit 1 bHi) lo' hi')"

definition Mult :: "32 word \<Rightarrow> 32 word \<Rightarrow> bool \<Rightarrow> 32 word \<times> 32 word" where
  "Mult a b signedArith =
     (if a = 0 \<or> b = 0 then (0, 0)
      else
        let negA = (signedArith \<and> sint a < 0); negB = (signedArith \<and> sint b < 0);
            negative = (negA \<noteq> negB);
            a' = (if negA then - a else a); b' = (if negB then - b else b);
            (hi, lo) = mult_loop 32 a' b' 0 0 0 in
        if negative
        then (let hi1 = NOT hi; lo1 = NOT lo + 1 in (if lo1 = 0 then hi1 + 1 else hi1, lo1))
        else (hi, lo))"

section \<open>Execution\<close>

datatype exec_result =
    Next machine "32 word" nat "32 word"   \<comment> \<open>machine, \<open>pcAfter\<close>, \<open>nextLoadReg\<close>, \<open>nextLoadValue\<close>\<close>
  | Trapped machine                        \<comment> \<open>returned after an exception\<close>

type_synonym exec_case = "Instruction \<Rightarrow> 32 word \<Rightarrow> machine \<Rightarrow> exec_result res option"

definition trap :: "exc_handler \<Rightarrow> ExceptionType \<Rightarrow> 32 word \<Rightarrow> machine \<Rightarrow> exec_result res" where
  "trap H e badVAddr m = rbind (RaiseException H e badVAddr m) (\<lambda>m'. Inr (Trapped m'))"

definition fin :: "machine \<Rightarrow> 32 word \<Rightarrow> exec_result res option" where
  "fin m pcAfter = Some (Inr (Next m pcAfter 0 0))"

definition load :: "bool \<Rightarrow> exc_handler \<Rightarrow> 32 word \<Rightarrow> nat \<Rightarrow> machine \<Rightarrow> (32 word \<Rightarrow> machine \<Rightarrow> exec_result res) \<Rightarrow> exec_result res" where
  "load be H addr sz m k =
     rbind (ReadMem be H addr sz m) (\<lambda>(v, m'). case v of None \<Rightarrow> Inr (Trapped m') | Some value \<Rightarrow> k value m')"

definition store :: "bool \<Rightarrow> exc_handler \<Rightarrow> 32 word \<Rightarrow> nat \<Rightarrow> 32 word \<Rightarrow> 32 word \<Rightarrow> machine \<Rightarrow> exec_result res" where
  "store be H addr sz value pcAfter m =
     rbind (WriteMem be H addr sz value m) (\<lambda>(ok, m'). Inr (if ok then Next m' pcAfter 0 0 else Trapped m'))"

definition exec_arith :: "exc_handler \<Rightarrow> exec_case" where
  "exec_arith H i pcAfter m =
     (let r = registers m; op = opCode i; rs = irs i; rt = irt i; rd = ird i; extra = iextra i in
      if op = OP_ADD then
        (let sum = r rs + r rt in
         if (r rs XOR r rt) AND SIGN_BIT = 0 \<and> (r rs XOR sum) AND SIGN_BIT \<noteq> 0
         then Some (trap H OverflowException 0 m) else fin (setReg rd sum m) pcAfter)
      else if op = OP_ADDI then
        (let sum = r rs + extra in
         if (r rs XOR extra) AND SIGN_BIT = 0 \<and> (extra XOR sum) AND SIGN_BIT \<noteq> 0
         then Some (trap H OverflowException 0 m) else fin (setReg rt sum m) pcAfter)
      else if op = OP_ADDIU then fin (setReg rt (r rs + extra) m) pcAfter
      else if op = OP_ADDU then fin (setReg rd (r rs + r rt) m) pcAfter
      else if op = OP_AND then fin (setReg rd (r rs AND r rt) m) pcAfter
      else if op = OP_ANDI then fin (setReg rt (r rs AND (extra AND 0xffff)) m) pcAfter
      else None)"

definition exec_branch :: exec_case where
  "exec_branch i pcAfter m =
     (let r = registers m; op = opCode i; rs = irs i; rt = irt i;
          target = r NextPCReg + IndexToAddr (iextra i); link = setReg R31 (r NextPCReg + 4) m in
      if op = OP_BEQ then fin m (if r rs = r rt then target else pcAfter)
      else if op = OP_BGEZAL then
        fin link (if registers link rs AND SIGN_BIT = 0 then target else pcAfter)
      else if op = OP_BGEZ then fin m (if r rs AND SIGN_BIT = 0 then target else pcAfter)
      else if op = OP_BGTZ then fin m (if sint (r rs) > 0 then target else pcAfter)
      else if op = OP_BLEZ then fin m (if sint (r rs) \<le> 0 then target else pcAfter)
      else if op = OP_BLTZAL then
        fin link (if registers link rs AND SIGN_BIT \<noteq> 0 then target else pcAfter)
      else if op = OP_BLTZ then fin m (if r rs AND SIGN_BIT \<noteq> 0 then target else pcAfter)
      else if op = OP_BNE then fin m (if r rs \<noteq> r rt then target else pcAfter)
      else None)"

text \<open>\<open>INT_MIN / -1\<close> overflows: the host processor traps.\<close>

definition exec_div_jump :: exec_case where
  "exec_div_jump i pcAfter m =
     (let r = registers m; op = opCode i; rs = irs i; rt = irt i; rd = ird i; extra = iextra i in
      if op = OP_DIV then
        (if r rt = 0 then fin (setReg HiReg 0 (setReg LoReg 0 m)) pcAfter
         else if r rs = SIGN_BIT \<and> r rt = - 1 then Some (Inl HostTrap)
         else fin (setReg HiReg (word_of_int (sint (r rs) smod sint (r rt)))
                    (setReg LoReg (word_of_int (sint (r rs) sdiv sint (r rt))) m)) pcAfter)
      else if op = OP_DIVU then
        (if r rt = 0 then fin (setReg HiReg 0 (setReg LoReg 0 m)) pcAfter
         else fin (setReg HiReg (r rs mod r rt) (setReg LoReg (r rs div r rt) m)) pcAfter)
      else if op = OP_JAL then
        fin (setReg R31 (r NextPCReg + 4) m) ((pcAfter AND 0xf0000000) OR IndexToAddr extra)
      else if op = OP_J then fin m ((pcAfter AND 0xf0000000) OR IndexToAddr extra)
      else if op = OP_JALR then
        (let m' = setReg rd (r NextPCReg + 4) m in fin m' (registers m' rs))
      else if op = OP_JR then fin m (r rs)
      else None)"

definition lwr_value :: "32 word \<Rightarrow> 32 word \<Rightarrow> 32 word \<Rightarrow> 32 word" where
  "lwr_value tmp value old =
     (if tmp AND 3 = 0 then value
      else if tmp AND 3 = 1 then (old AND 0xff000000) OR (drop_bit 8 value AND 0xffffff)
      else if tmp AND 3 = 2 then (old AND 0xffff0000) OR (drop_bit 16 value AND 0xffff)
      else (old AND 0xffffff00) OR (drop_bit 24 value AND 0xff))"

definition lwl_value :: "32 word \<Rightarrow> 32 word \<Rightarrow> 32 word \<Rightarrow> 32 word" where
  "lwl_value tmp value old =
     (if tmp AND 3 = 0 then (old AND 0xff) OR push_bit 8 value
      else if tmp AND 3 = 1 then (old AND 0xffff) OR push_bit 16 value
      else if tmp AND 3 = 2 then (old AND 0xffffff) OR push_bit 24 value
      else value)"

definition exec_load :: "bool \<Rightarrow> exc_handler \<Rightarrow> exec_case" where
  "exec_load be H i pcAfter m =
     (let r = registers m; op = opCode i; rt = irt i; extra = iextra i; tmp = r (irs i) + extra in
      if op = OP_LB \<or> op = OP_LBU then
        Some (load be H tmp 1 m (\<lambda>value m'.
          Inr (Next m' pcAfter rt
            (if value AND 0x80 \<noteq> 0 \<and> op = OP_LB then value OR 0xffffff00 else value AND 0xff))))
      else if op = OP_LH \<or> op = OP_LHU then
        (if tmp AND 1 \<noteq> 0 then Some (trap H AddressErrorException tmp m)
         else Some (load be H tmp 2 m (\<lambda>value m'.
          Inr (Next m' pcAfter rt
            (if value AND 0x8000 \<noteq> 0 \<and> op = OP_LH then value OR 0xffff0000 else value AND 0xffff)))))
      else if op = OP_LUI then fin (setReg rt (push_bit 16 extra) m) pcAfter
      else if op = OP_LW then
        (if tmp AND 3 \<noteq> 0 then Some (trap H AddressErrorException tmp m)
         else Some (load be H tmp 4 m (\<lambda>value m'. Inr (Next m' pcAfter rt value))))
      else if op = OP_LWR then
        Some (load be H (tmp AND NOT 3) 4 m (\<lambda>value m'.
          let r' = registers m'; old = (if r' LoadReg = of_nat rt then r' LoadValueReg else r' rt) in
          Inr (Next m' pcAfter rt (lwr_value tmp value old))))
      else if op = OP_LWL then
        Some (load be H (tmp AND NOT 3) 4 m (\<lambda>value m'.
          let r' = registers m'; old = (if r' LoadReg = of_nat rt then r' LoadValueReg else r' rt) in
          Inr (Next m' pcAfter rt (lwl_value tmp value old))))
      else None)"

definition exec_hilo_logic :: exec_case where
  "exec_hilo_logic i pcAfter m =
     (let r = registers m; op = opCode i; rs = irs i; rt = irt i; rd = ird i; extra = iextra i in
      if op = OP_MFHI then fin (setReg rd (r HiReg) m) pcAfter
      else if op = OP_MFLO then fin (setReg rd (r LoReg) m) pcAfter
      else if op = OP_MTHI then fin (setReg HiReg (r rs) m) pcAfter
      else if op = OP_MTLO then fin (setReg LoReg (r rs) m) pcAfter
      else if op = OP_MULT then
        (let (hi, lo) = Mult (r rs) (r rt) True in fin (setReg LoReg lo (setReg HiReg hi m)) pcAfter)
      else if op = OP_MULTU then
        (let (hi, lo) = Mult (r rs) (r rt) False in fin (setReg LoReg lo (setReg HiReg hi m)) pcAfter)
      else if op = OP_NOR then fin (setReg rd (NOT (r rs OR r rt)) m) pcAfter
      else if op = OP_OR then fin (setReg rd (r rs OR r rt) m) pcAfter
      else if op = OP_ORI then fin (setReg rt (r rs OR (extra AND 0xffff)) m) pcAfter
      else None)"

definition exec_store_shift :: "bool \<Rightarrow> exc_handler \<Rightarrow> exec_case" where
  "exec_store_shift be H i pcAfter m =
     (let r = registers m; op = opCode i; rs = irs i; rt = irt i; rd = ird i; extra = iextra i;
          bool1 = (\<lambda>b. if b then 1 else 0) in
      if op = OP_SB then Some (store be H (r rs + extra) 1 (r rt) pcAfter m)
      else if op = OP_SH then Some (store be H (r rs + extra) 2 (r rt) pcAfter m)
      else if op = OP_SLL then fin (setReg rd (push_bit (unat extra) (r rt)) m) pcAfter
      else if op = OP_SLLV then fin (setReg rd (push_bit (unat (r rs AND 0x1f)) (r rt)) m) pcAfter
      else if op = OP_SLT then fin (setReg rd (bool1 (sint (r rs) < sint (r rt))) m) pcAfter
      else if op = OP_SLTI then fin (setReg rt (bool1 (sint (r rs) < sint extra)) m) pcAfter
      else if op = OP_SLTIU then fin (setReg rt (bool1 (r rs < extra)) m) pcAfter
      else if op = OP_SLTU then fin (setReg rd (bool1 (r rs < r rt)) m) pcAfter
      else if op = OP_SRA then fin (setReg rd (signed_drop_bit (unat extra) (r rt)) m) pcAfter
      else if op = OP_SRAV then fin (setReg rd (signed_drop_bit (unat (r rs AND 0x1f)) (r rt)) m) pcAfter
      else if op = OP_SRL then fin (setReg rd (drop_bit (unat extra) (r rt)) m) pcAfter
      else if op = OP_SRLV then fin (setReg rd (drop_bit (unat (r rs AND 0x1f)) (r rt)) m) pcAfter
      else None)"

definition swr_value :: "32 word \<Rightarrow> 32 word \<Rightarrow> 32 word \<Rightarrow> 32 word" where
  "swr_value tmp value reg =
     (if tmp AND 3 = 0 then reg
      else if tmp AND 3 = 1 then (value AND 0xff) OR push_bit 8 reg
      else if tmp AND 3 = 2 then (value AND 0xffff) OR push_bit 16 reg
      else (value AND 0xffffff) OR push_bit 24 reg)"

definition swl_value :: "32 word \<Rightarrow> 32 word \<Rightarrow> 32 word \<Rightarrow> 32 word" where
  "swl_value tmp value reg =
     (if tmp AND 3 = 0 then (value AND 0xffffff00) OR (drop_bit 24 reg AND 0xff)
      else if tmp AND 3 = 1 then (value AND 0xffff0000) OR (drop_bit 16 reg AND 0xffff)
      else if tmp AND 3 = 2 then (value AND 0xff000000) OR (drop_bit 8 reg AND 0xffffff)
      else reg)"

definition exec_sub_store :: "bool \<Rightarrow> exc_handler \<Rightarrow> exec_case" where
  "exec_sub_store be H i pcAfter m =
     (let r = registers m; op = opCode i; rs = irs i; rt = irt i; rd = ird i; tmp = r rs + iextra i in
      if op = OP_SUB then
        (let diff = r rs - r rt in
         if (r rs XOR r rt) AND SIGN_BIT \<noteq> 0 \<and> (r rs XOR diff) AND SIGN_BIT \<noteq> 0
         then Some (trap H OverflowException 0 m) else fin (setReg rd diff m) pcAfter)
      else if op = OP_SUBU then fin (setReg rd (r rs - r rt) m) pcAfter
      else if op = OP_SW then Some (store be H tmp 4 (r rt) pcAfter m)
      else if op = OP_SWR then
        Some (load be H (tmp AND NOT 3) 4 m (\<lambda>value m'.
          store be H (tmp AND NOT 3) 4 (swr_value tmp value (registers m' rt)) pcAfter m'))
      else if op = OP_SWL then
        Some (load be H (tmp AND NOT 3) 4 m (\<lambda>value m'.
          store be H (tmp AND NOT 3) 4 (swl_value tmp value (registers m' rt)) pcAfter m'))
      else None)"

definition exec_misc :: "exc_handler \<Rightarrow> exec_case" where
  "exec_misc H i pcAfter m =
     (let r = registers m; op = opCode i in
      if op = OP_SYSCALL then Some (trap H SyscallException 0 m)
      else if op = OP_XOR then fin (setReg (ird i) (r (irs i) XOR r (irt i)) m) pcAfter
      else if op = OP_XORI then fin (setReg (irt i) (r (irs i) XOR (iextra i AND 0xffff)) m) pcAfter
      else if op = OP_RES \<or> op = OP_UNIMP then Some (trap H IllegalInstrException 0 m)
      else None)"

definition or_else :: "'a option \<Rightarrow> 'a option \<Rightarrow> 'a option" where
  "or_else x y = (case x of None \<Rightarrow> y | Some v \<Rightarrow> Some v)"

definition exec_instr :: "bool \<Rightarrow> exc_handler \<Rightarrow> exec_case" where
  "exec_instr be H i pcAfter m =
     or_else (exec_arith H i pcAfter m)
    (or_else (exec_branch i pcAfter m)
    (or_else (exec_div_jump i pcAfter m)
    (or_else (exec_load be H i pcAfter m)
    (or_else (exec_hilo_logic i pcAfter m)
    (or_else (exec_store_shift be H i pcAfter m)
    (or_else (exec_sub_store be H i pcAfter m)
             (exec_misc H i pcAfter m)))))))"

text \<open>After the instruction: the delayed load, then the program counters.\<close>

definition finish_instr :: "machine \<Rightarrow> 32 word \<Rightarrow> nat \<Rightarrow> 32 word \<Rightarrow> machine res" where
  "finish_instr m pcAfter nextLoadReg nextLoadValue =
     rbind (DelayedLoad (of_nat nextLoadReg) nextLoadValue m) (\<lambda>m1.
     let m2 = setReg PrevPCReg (registers m1 PCReg) m1;
         m3 = setReg PCReg (registers m2 NextPCReg) m2 in
     Inr (setReg NextPCReg pcAfter m3))"

definition OneInstruction :: "bool \<Rightarrow> exc_handler \<Rightarrow> machine \<Rightarrow> machine res" where
  "OneInstruction be H m =
     rbind (ReadMem be H (registers m PCReg) 4 m) (\<lambda>(raw, m1). case raw of
        None \<Rightarrow> Inr m1
      | Some v \<Rightarrow>
          let i = Decode v; pcAfter = registers m1 NextPCReg + 4 in
          (case exec_instr be H i pcAfter m1 of
             None \<Rightarrow> Inl AssertFail
           | Some r \<Rightarrow> rbind r (\<lambda>x. case x of
                 Trapped m2 \<Rightarrow> Inr m2
               | Next m2 pc reg value \<Rightarrow> finish_instr m2 pc reg value)))"

section \<open>The product\<close>

text \<open>A double word as the two halves that \<open>Mult\<close> leaves.\<close>

definition dword :: "32 word \<Rightarrow> 32 word \<Rightarrow> 64 word" where
  "dword hi lo = word_of_int (uint hi * 2 ^ 32 + uint lo)"

lemma woi64_cong: "x mod 2 ^ 64 = y mod 2 ^ 64 \<Longrightarrow> (word_of_int x :: 64 word) = word_of_int y"
  by (simp add: word_of_int_eq_iff take_bit_eq_mod)

lemma carry_iff: "(lo + b :: 32 word) < b \<longleftrightarrow> 2 ^ 32 \<le> uint lo + uint b"
proof -
  have r: "0 \<le> uint lo" "uint lo < 2 ^ 32" "0 \<le> uint b" "uint b < 2 ^ 32" using uint_bounded [of lo] uint_bounded [of b] by simp_all
  have u: "uint (lo + b) = (uint lo + uint b) mod 2 ^ 32" by (simp add: uint_word_ariths)
  show ?thesis
  proof (cases "2 ^ 32 \<le> uint lo + uint b")
    case True
    then have "(uint lo + uint b) mod 2 ^ 32 = uint lo + uint b - 2 ^ 32"
      using r mod_pos_pos_trivial [of "uint lo + uint b - 2 ^ 32" "2 ^ 32"] minus_mod_self2 [of "uint lo + uint b" "2 ^ 32"] by simp
    then show ?thesis using True u r by (simp add: word_less_def)
  next
    case False
    then have "(uint lo + uint b) mod 2 ^ 32 = uint lo + uint b" using r by (intro mod_pos_pos_trivial) simp_all
    then show ?thesis using False u r by (simp add: word_less_def)
  qed
qed


lemma carry_div: "(uint lo + uint (b :: 32 word)) div 2 ^ 32 = (if lo + b < b then 1 else 0)"
proof -
  have r: "0 \<le> uint lo" "uint lo < 2 ^ 32" "0 \<le> uint b" "uint b < 2 ^ 32" using uint_bounded [of lo] uint_bounded [of b] by simp_all
  show ?thesis
  proof (cases "2 ^ 32 \<le> uint lo + uint b")
    case True
    then have "(uint lo + uint b) div 2 ^ 32 = 1" using r by (intro int_div_pos_eq [where r = "uint lo + uint b - 2 ^ 32"]) simp_all
    then show ?thesis using True by (simp add: carry_iff)
  next
    case False
    then have "(uint lo + uint b) div 2 ^ 32 = 0" using r by (intro div_pos_pos_trivial) simp_all
    then show ?thesis using False by (simp add: carry_iff)
  qed
qed

lemma dword_add:
  "dword ((if lo + bLo < bLo then hi + 1 else hi) + bHi) (lo + bLo) = dword hi lo + dword bHi bLo"
proof -
  let ?s = "uint lo + uint bLo" let ?A = "uint hi + uint bHi + ?s div 2 ^ 32"
  have h: "uint ((if lo + bLo < bLo then hi + 1 else hi) + bHi) = ?A mod 2 ^ 32"
    unfolding carry_div by (simp add: uint_word_ariths mod_simps ac_simps)
  have l: "uint (lo + bLo) = ?s mod 2 ^ 32" by (simp add: uint_word_ariths)
  have "(?A mod 2 ^ 32 * 2 ^ 32 + ?s mod 2 ^ 32) mod 2 ^ 64 = (?A * 2 ^ 32 + ?s mod 2 ^ 32) mod 2 ^ 64"
  proof -
    have "(?A mod 2 ^ 32) * 2 ^ 32 = (?A * 2 ^ 32) mod 2 ^ 64"
      using mult_mod_left [of ?A "2 ^ 32" "2 ^ 32 :: int"] by simp
    then show ?thesis by (metis mod_add_left_eq)
  qed
  also have "?A * 2 ^ 32 + ?s mod 2 ^ 32 = (uint hi * 2 ^ 32 + uint lo) + (uint bHi * 2 ^ 32 + uint bLo)"
    using div_mult_mod_eq [of ?s "2 ^ 32"] by (simp add: algebra_simps)
  finally show ?thesis
    unfolding dword_def h l by (simp add: woi64_cong flip: wi_hom_add)
qed

lemma and_sign_bit: "(b :: 32 word) AND 0x80000000 \<noteq> 0 \<longleftrightarrow> bit b 31"
proof -
  have "(0x80000000 :: 32 word) = push_bit 31 1" by simp
  moreover have "b AND push_bit 31 1 \<noteq> 0 \<longleftrightarrow> (\<exists>n. bit (b AND push_bit 31 1) n)" by (metis bit_0_eq bit_eqI bot_apply bot_bool_def)
  moreover have "bit (b AND push_bit 31 1) n \<longleftrightarrow> n = 31 \<and> bit b 31" for n
    by (simp only: bit_and_iff bit_push_bit_iff bit_1_iff) (auto dest: bit_imp_le_length)
  ultimately show ?thesis by simp
qed

lemma bit31_iff: "bit (b :: 32 word) 31 \<longleftrightarrow> 2 ^ 31 \<le> uint b"
proof -
  have r: "0 \<le> uint b" "uint b < 2 ^ 32" using uint_bounded [of b] by simp_all
  have "bit b 31 \<longleftrightarrow> bit (uint b) 31" by (simp add: bit_uint_iff)
  also have "bit (uint b) 31 \<longleftrightarrow> odd (uint b div 2 ^ 31)" by (rule bit_iff_odd)
  also have "uint b div 2 ^ 31 = (if 2 ^ 31 \<le> uint b then 1 else 0)"
  proof (cases "2 ^ 31 \<le> uint b")
    case True
    then have "uint b div 2 ^ 31 = 1" using r by (intro int_div_pos_eq [where r = "uint b - 2 ^ 31"]) simp_all
    then show ?thesis using True by simp
  next
    case False
    then show ?thesis using r by (simp add: div_pos_pos_trivial)
  qed
  finally show ?thesis by simp
qed

lemma shift_or: "push_bit 1 (b :: 32 word) OR 1 = push_bit 1 b + 1"
proof -
  have "even (push_bit 1 b)" by (simp add: push_bit_eq_mult)
  then show ?thesis by (simp add: or_one_eq)
qed

lemma dword_double:
  "dword (if bLo AND 0x80000000 \<noteq> 0 then push_bit 1 bHi OR 1 else push_bit 1 bHi) (push_bit 1 bLo) = 2 * dword bHi bLo"
proof -
  have c: "bLo + bLo < bLo \<longleftrightarrow> bLo AND 0x80000000 \<noteq> 0"
    unfolding carry_iff and_sign_bit bit31_iff by simp
  have "dword ((if bLo + bLo < bLo then bHi + 1 else bHi) + bHi) (bLo + bLo) = 2 * dword bHi bLo"
    unfolding dword_add by simp
  moreover have "push_bit 1 bLo = bLo + bLo" "push_bit 1 bHi = bHi + bHi" by (simp_all add: push_bit_eq_mult)
  ultimately show ?thesis unfolding shift_or c by (simp add: algebra_simps split: if_splits)
qed

lemma shifted_bits:
  assumes "n \<le> 31"
  shows "take_bit (Suc n) (uint (a :: 32 word)) = of_bool (odd a) + 2 * take_bit n (uint (signed_drop_bit 1 a))"
proof -
  have "take_bit n (uint (signed_drop_bit 1 a)) = take_bit n (uint a div 2)"
  proof (rule bit_eqI)
    fix i
    show "bit (take_bit n (uint (signed_drop_bit 1 a))) i = bit (take_bit n (uint a div 2)) i"
      using assms by (auto simp: bit_simps bit_signed_drop_bit_iff simp flip: bit_Suc)
  qed
  moreover have "odd (uint a) = odd a" using bit_uint_iff [of a 0] by (simp add: bit_0)
  ultimately show ?thesis by (simp add: take_bit_Suc mod_2_eq_odd)
qed


lemma and_1_odd: "(a :: 32 word) AND 1 \<noteq> 0 \<longleftrightarrow> odd a"
  by (simp add: and_one_eq odd_iff_mod_2_eq_one)

lemma odd_clear_one:
  assumes "odd (a :: 32 word)" "a AND 0xfffffffe = 0"
  shows "a = 1"
proof (rule bit_word_eqI)
  fix n assume n: "n < LENGTH(32)"
  have "(0xfffffffe :: 32 word) = NOT 1" by simp
  then have "a AND NOT 1 = 0" using assms(2) by (simp only:)
  then have "\<not> bit (a AND NOT 1) n" by (simp only: bit_0_eq) simp
  then show "bit a n = bit (1 :: 32 word) n"
    using n assms(1) by (cases n) (simp_all only: bit_and_iff bit_not_iff bit_1_iff bit_0, auto)
qed

lemma mult_loop_dword:
  assumes "n \<le> 32" "mult_loop n a bLo bHi lo hi = (hi', lo')"
  shows "dword hi' lo' = dword hi lo + dword bHi bLo * word_of_int (take_bit n (uint a))"
  using assms
proof (induction n arbitrary: a bLo bHi lo hi)
  case 0
  then show ?case by simp
next
  case (Suc n)
  let ?lo = "if odd a then lo + bLo else lo"
  let ?hi = "if odd a then (if ?lo < bLo then hi + 1 else hi) + bHi else hi"
  have acc: "dword ?hi ?lo = dword hi lo + dword bHi bLo * of_bool (odd a)"
    using dword_add [of lo bLo hi bHi] by simp
  have bits: "word_of_int (take_bit (Suc n) (uint a)) =
      (of_bool (odd a) + 2 * word_of_int (take_bit n (uint (signed_drop_bit 1 a))) :: 64 word)"
    using shifted_bits [of n a] Suc.prems(1) by simp
  show ?case
  proof (cases "odd a \<and> a AND 0xfffffffe = 0")
    case True
    then have "a = 1" using odd_clear_one by blast
    then show ?thesis using Suc.prems(2) acc True by (auto simp: and_1_odd Let_def)
  next
    case False
    let ?b = "if bLo AND 0x80000000 \<noteq> 0 then push_bit 1 bHi OR 1 else push_bit 1 bHi"
    have "mult_loop n (signed_drop_bit 1 a) (push_bit 1 bLo) ?b ?lo ?hi = (hi', lo')"
      using Suc.prems(2) False by (simp add: and_1_odd Let_def split: if_splits)
    then have "dword hi' lo' = dword ?hi ?lo + dword ?b (push_bit 1 bLo) * word_of_int (take_bit n (uint (signed_drop_bit 1 a)))"
      using Suc.IH Suc.prems(1) by simp
    then show ?thesis unfolding acc bits dword_double by (simp add: algebra_simps)
  qed
qed


lemma dword_neg:
  "(let hi1 = NOT hi; lo1 = NOT lo + 1 in dword (if lo1 = 0 then hi1 + 1 else hi1) lo1) = - dword hi lo"
proof -
  have n: "uint (NOT x) = 2 ^ 32 - 1 - uint x" for x :: "32 word"
  proof -
    have "uint x < 2 ^ 32" "0 \<le> uint x" using uint_bounded [of x] by simp_all
    then have "(2 ^ 32 - 1 - uint x) mod 2 ^ 32 = 2 ^ 32 - 1 - uint x" by (intro mod_pos_pos_trivial) linarith+
    then have "(- uint x - 1) mod 2 ^ 32 = 2 ^ 32 - 1 - uint x"
      using mod_add_self2 [of "- uint x - 1" "2 ^ 32"] by (simp add: algebra_simps)
    then show ?thesis by (simp add: not_eq_complement uint_word_ariths mod_simps)
  qed
  have "dword (NOT hi) (NOT lo) = - dword hi lo - 1"
  proof -
    have "((2 ^ 32 - 1 - uint hi) * 2 ^ 32 + (2 ^ 32 - 1 - uint lo)) mod 2 ^ 64
        = (- (uint hi * 2 ^ 32 + uint lo) - 1) mod 2 ^ 64"
      using mod_add_self2 [of "- (uint hi * 2 ^ 32 + uint lo) - 1" "2 ^ 64"] by (simp add: algebra_simps)
    then have "dword (NOT hi) (NOT lo) = word_of_int (- (uint hi * 2 ^ 32 + uint lo) - 1)"
      unfolding dword_def n by (rule woi64_cong)
    then show ?thesis unfolding dword_def by (simp flip: wi_hom_neg wi_hom_sub)
  qed
  moreover have "NOT lo + 1 < 1 \<longleftrightarrow> NOT lo + 1 = 0" by (simp add: word_less_nat_alt unat_eq_zero)
  moreover have "dword ((if NOT lo + 1 < 1 then NOT hi + 1 else NOT hi) + 0) (NOT lo + 1) = dword (NOT hi) (NOT lo) + dword 0 1"
    by (rule dword_add)
  moreover have "dword 0 1 = 1" by (simp add: dword_def)
  ultimately show ?thesis by (simp add: Let_def)
qed

lemma sint_abs:
  "uint (if sint (a :: 32 word) < 0 then - a else a) = \<bar>sint a\<bar>"
proof -
  have r: "- (2 ^ 31) \<le> sint a" "sint a < 2 ^ 31" using sint_ge [of a] sint_lt [of a] by simp_all
  show ?thesis
  proof (cases "sint a < 0")
    case True
    have "uint (- a) = uint (word_of_int (- sint a) :: 32 word)" by (simp only: flip: wi_hom_neg) simp
    also have "\<dots> = (- sint a) mod 2 ^ 32" by (simp only: uint_word_of_int) (simp add: take_bit_eq_mod)
    also have "\<dots> = - sint a" using r True by (intro mod_pos_pos_trivial) simp_all
    finally show ?thesis using True by simp
  next
    case False
    have "uint a = uint (word_of_int (sint a) :: 32 word)" by simp
    also have "\<dots> = sint a mod 2 ^ 32" by (simp only: uint_word_of_int) (simp add: take_bit_eq_mod)
    also have "\<dots> = sint a" using r False by (intro mod_pos_pos_trivial) simp_all
    finally show ?thesis using False by simp
  qed
qed


lemma mult_loop_product:
  "mult_loop 32 a b 0 0 0 = (hi, lo) \<Longrightarrow> dword hi lo = word_of_int (uint a * uint b)"
proof -
  assume "mult_loop 32 a b 0 0 0 = (hi, lo)"
  then have "dword hi lo = dword 0 0 + dword 0 b * word_of_int (take_bit 32 (uint a))"
    by (intro mult_loop_dword) simp_all
  moreover have "take_bit 32 (uint a) = uint a" using uint_bounded [of a] by (simp add: take_bit_int_eq_self)
  ultimately show ?thesis by (simp add: dword_def wi_hom_mult mult.commute)
qed

lemma Mult_dword:
  "Mult a b s = (hi, lo) \<Longrightarrow>
   dword hi lo = (if s then word_of_int (sint a * sint b) else word_of_int (uint a * uint b))"
proof -
  assume m: "Mult a b s = (hi, lo)"
  show ?thesis
  proof (cases "a = 0 \<or> b = 0")
    case True
    then show ?thesis using m by (auto simp: Mult_def dword_def)
  next
    case False
    let ?a = "if s \<and> sint a < 0 then - a else a" let ?b = "if s \<and> sint b < 0 then - b else b"
    obtain h l where hl: "mult_loop 32 ?a ?b 0 0 0 = (h, l)" by fastforce
    have p: "dword h l = word_of_int (uint ?a * uint ?b)" using mult_loop_product [OF hl] .
    show ?thesis
    proof (cases s)
      case False
      then show ?thesis using m hl p \<open>\<not> (a = 0 \<or> b = 0)\<close> by (simp add: Mult_def)
    next
      case True
      have abs: "dword h l = word_of_int (\<bar>sint a\<bar> * \<bar>sint b\<bar>)" using p True sint_abs [of a] sint_abs [of b] by simp
      show ?thesis
      proof (cases "(sint a < 0) = (sint b < 0)")
        case True
        then have "(hi, lo) = (h, l)" using m hl \<open>s\<close> False by (simp add: Mult_def split: if_splits)
        moreover have "\<bar>sint a\<bar> * \<bar>sint b\<bar> = sint a * sint b" using True by (simp add: abs_if split: if_splits)
        ultimately show ?thesis using abs \<open>s\<close> by simp
      next
        case neg: False
        then have "dword hi lo = - dword h l"
          using m hl \<open>s\<close> False dword_neg [of h l] by (auto simp: Mult_def Let_def split: if_splits)
        moreover have "\<bar>sint a\<bar> * \<bar>sint b\<bar> = - (sint a * sint b)" using neg by (auto simp: abs_if)
        ultimately show ?thesis using abs \<open>s\<close> by (simp add: wi_hom_neg)
      qed
    qed
  qed
qed

section \<open>Decoding is total\<close>

definition valid_ops :: "nat list" where
  "valid_ops = [1, 2, 3, 4, 5, 6, 7, 8, 9, 10, 11, 12, 13, 14, 16, 17, 18, 19, 20, 21, 22, 23, 24, 25, 26, 27, 28, 29,
     31, 32, 34, 35, 36, 37, 38, 39, 40, 42, 43, 44, 45, 46, 47, 48, 49, 50, 51, 52, 53, 54, 55, 56, 57, 58, 59, 60,
     61, 62, 63]"

lemma and_mask_less: "unat ((w :: 32 word) AND 0x1f) < 32" "unat (w AND 0x3f) < 64"
proof -
  have "w AND 0x1f = take_bit 5 w" "w AND 0x3f = take_bit 6 w"
    by (simp_all add: take_bit_eq_mask mask_eq_exp_minus_1)
  moreover have "take_bit 5 (unat w) < 2 ^ 5" "take_bit 6 (unat w) < 2 ^ 6"
    by (rule take_bit_nat_less_exp)+
  ultimately show "unat (w AND 0x1f) < 32" "unat (w AND 0x3f) < 64"
    by (simp_all add: unsigned_take_bit_eq)
qed

lemma opTable_entries:
  "length opTable = 64" "list_all (\<lambda>p. fst p = SPECIAL \<and> snd p = RFMT \<or> fst p = BCOND \<or> fst p \<in> set valid_ops) opTable"
  by (simp_all add: opTable_def valid_ops_def)

lemma specialTable_entries: "length specialTable = 64" "list_all (\<lambda>c. c \<in> set valid_ops) specialTable"
  by (simp_all add: specialTable_def valid_ops_def)

lemma Decode_ok: "irs (Decode v) < 32 \<and> irt (Decode v) < 32 \<and> ird (Decode v) < 32 \<and> opCode (Decode v) \<in> set valid_ops"
proof -
  let ?op = "opTable ! unat (drop_bit 26 v AND 0x3f)" let ?sp = "specialTable ! unat (v AND 0x3f)"
  have "fst ?op = SPECIAL \<and> snd ?op = RFMT \<or> fst ?op = BCOND \<or> fst ?op \<in> set valid_ops"
    using opTable_entries and_mask_less(2) [of "drop_bit 26 v"] by (simp add: list_all_length)
  moreover have "?sp \<in> set valid_ops"
    using specialTable_entries and_mask_less(2) [of v] by (simp add: list_all_length)
  moreover have "{8, 9, 12, 13, 62} \<subseteq> set valid_ops" by (simp add: valid_ops_def)
  ultimately have "opCode (Decode v) \<in> set valid_ops" by (auto simp: Decode_def Let_def)
  then show ?thesis by (simp add: Decode_def Let_def and_mask_less)
qed

lemma or_else_None [simp]: "or_else x y = None \<longleftrightarrow> x = None \<and> y = None"
  by (cases x) (simp_all add: or_else_def)

lemma exec_arith_dom: "exec_arith H i pc m = None \<longleftrightarrow> opCode i \<notin> {1, 2, 3, 4, 5, 6}"
  by (auto simp: exec_arith_def fin_def Let_def)

lemma exec_branch_dom: "exec_branch i pc m = None \<longleftrightarrow> opCode i \<notin> {7, 8, 9, 10, 11, 12, 13, 14}"
  by (auto simp: exec_branch_def fin_def Let_def)

lemma exec_div_jump_dom: "exec_div_jump i pc m = None \<longleftrightarrow> opCode i \<notin> {16, 17, 18, 19, 20, 21}"
  by (auto simp: exec_div_jump_def fin_def Let_def)

lemma exec_load_dom: "exec_load be H i pc m = None \<longleftrightarrow> opCode i \<notin> {22, 23, 24, 25, 26, 27, 28, 29}"
  by (auto simp: exec_load_def fin_def Let_def)

lemma exec_hilo_logic_dom: "exec_hilo_logic i pc m = None \<longleftrightarrow> opCode i \<notin> {31, 32, 34, 35, 36, 37, 38, 39, 40}"
  by (auto simp: exec_hilo_logic_def fin_def Let_def split: prod.splits)

lemma exec_store_shift_dom:
  "exec_store_shift be H i pc m = None \<longleftrightarrow> opCode i \<notin> {42, 43, 44, 45, 46, 47, 48, 49, 50, 51, 52, 53}"
  by (auto simp: exec_store_shift_def fin_def Let_def)

lemma exec_sub_store_dom: "exec_sub_store be H i pc m = None \<longleftrightarrow> opCode i \<notin> {54, 55, 56, 57, 58}"
  by (auto simp: exec_sub_store_def fin_def Let_def)

lemma exec_misc_dom: "exec_misc H i pc m = None \<longleftrightarrow> opCode i \<notin> {59, 60, 61, 62, 63}"
  by (auto simp: exec_misc_def fin_def Let_def)

lemmas exec_doms = exec_arith_dom exec_branch_dom exec_div_jump_dom exec_load_dom exec_hilo_logic_dom
  exec_store_shift_dom exec_sub_store_dom exec_misc_dom

lemma exec_instr_total: "opCode i \<in> set valid_ops \<Longrightarrow> exec_instr be H i pc m \<noteq> None"
  unfolding exec_instr_def or_else_None exec_doms valid_ops_def by (simp only: list.set insert_iff empty_iff) blast

section \<open>Exceptions are precise\<close>

text \<open>
  How a case of the switch may end: it completes and has changed no register beyond \<open>LoReg\<close>;
  or it traps, in a state that has the registers and the memory from before the instruction;
  or the host processor traps.
\<close>

definition case_ok :: "exc_handler \<Rightarrow> machine \<Rightarrow> exec_result res \<Rightarrow> bool" where
  "case_ok H m r \<longleftrightarrow>
     (\<exists>m' pc reg v. r = Inr (Next m' pc reg v) \<and> mmu_ok m' \<and> reg < 32 \<and> (\<forall>k \<ge> 34. registers m' k = registers m k))
   \<or> r = Inl HostTrap
   \<or> (\<exists>e bad m0. r = rbind (RaiseException H e bad m0) (\<lambda>m'. Inr (Trapped m'))
        \<and> registers m0 = registers m \<and> mainMemory m0 = mainMemory m)"

lemma setReg_simps [simp]:
  "registers (setReg k v m) = (registers m)(k := v)" "mmu_ok (setReg k v m) = mmu_ok m"
  "mainMemory (setReg k v m) = mainMemory m"
  by (simp_all add: setReg_def)

lemma fin_ok: "mmu_ok m' \<Longrightarrow> (\<forall>k \<ge> 34. registers m' k = registers m k) \<Longrightarrow> fin m' pc = Some r \<Longrightarrow> case_ok H m r"
  by (auto simp: fin_def case_ok_def)

lemma trap_ok: "registers m0 = registers m \<Longrightarrow> mainMemory m0 = mainMemory m \<Longrightarrow> case_ok H m (trap H e bad m0)"
  by (auto simp: trap_def case_ok_def)

lemma next_ok: "mmu_ok m' \<Longrightarrow> reg < 32 \<Longrightarrow> registers m' = registers m \<Longrightarrow> case_ok H m (Inr (Next m' pc reg v))"
  by (auto simp: case_ok_def)

lemma load_ok:
  assumes "mmu_ok m" "access_size sz"
    "\<And>v m'. mmu_ok m' \<Longrightarrow> registers m' = registers m \<Longrightarrow> mainMemory m' = mainMemory m \<Longrightarrow> case_ok H m (k v m')"
  shows "case_ok H m (load be H va sz m k)"
  using ReadMem_outcome [OF assms(1,2), of be H va]
proof (elim disjE exE conjE)
  fix e assume r: "ReadMem be H va sz m = rbind (RaiseException H e va m) (\<lambda>m'. Inr (None, m'))"
  have "load be H va sz m k = trap H e va m"
    by (cases "RaiseException H e va m") (simp_all add: load_def trap_def r)
  then show ?thesis by (simp add: trap_ok)
qed (simp add: load_def assms(3))

lemma store_ok:
  assumes "mmu_ok m0" "access_size sz" "registers m0 = registers m" "mainMemory m0 = mainMemory m"
  shows "case_ok H m (store be H va sz v pc m0)"
  using WriteMem_outcome [OF assms(1,2), of be H va v]
proof (elim disjE exE conjE)
  fix e assume r: "WriteMem be H va sz v m0 = rbind (RaiseException H e va m0) (\<lambda>m'. Inr (False, m'))"
  have "store be H va sz v pc m0 = trap H e va m0"
    by (cases "RaiseException H e va m0") (simp_all add: store_def trap_def r)
  then show ?thesis using assms(3,4) by (simp add: trap_ok)
qed (simp add: store_def assms(3) next_ok)

lemmas case_intros = fin_ok trap_ok next_ok load_ok store_ok

lemma access_sizes [simp]: "access_size (Suc 0)" "access_size 2" "access_size 4"
  by (simp_all add: access_size_def)

lemma exec_instr_ok:
  assumes "mmu_ok m" "irs i < 32" "irt i < 32" "ird i < 32" "exec_instr be H i pc m = Some r"
  shows "case_ok H m r"
proof -
  have reg: "k \<ge> 34 \<Longrightarrow> k \<noteq> irs i \<and> k \<noteq> irt i \<and> k \<noteq> ird i" for k using assms(2-4) by auto
  consider "exec_arith H i pc m = Some r" | "exec_branch i pc m = Some r" | "exec_div_jump i pc m = Some r"
    | "exec_load be H i pc m = Some r" | "exec_hilo_logic i pc m = Some r" | "exec_store_shift be H i pc m = Some r"
    | "exec_sub_store be H i pc m = Some r" | "exec_misc H i pc m = Some r"
    using assms(5) by (auto simp: exec_instr_def or_else_def split: option.splits)
  then show ?thesis
  proof cases
    case 1 then show ?thesis using assms reg
      by (auto simp: exec_arith_def Let_def split: if_splits intro: trap_ok elim!: fin_ok [rotated 2])
  next
    case 2 then show ?thesis using assms reg
      by (auto simp: exec_branch_def Let_def split: if_splits elim!: fin_ok [rotated 2])
  next
    case 3 then show ?thesis using assms reg
      by (auto simp: exec_div_jump_def Let_def case_ok_def fin_def split: if_splits)
  next
    case 4 then show ?thesis using assms reg
      by (auto simp: exec_load_def Let_def split: if_splits intro!: trap_ok load_ok next_ok elim!: fin_ok [rotated 2])
  next
    case 5 then show ?thesis using assms reg
      by (auto simp: exec_hilo_logic_def Let_def split: if_splits prod.splits elim!: fin_ok [rotated 2])
  next
    case 6 then show ?thesis using assms reg
      by (auto simp: exec_store_shift_def Let_def split: if_splits intro!: store_ok elim!: fin_ok [rotated 2])
  next
    case 7 then show ?thesis using assms reg
      by (auto simp: exec_sub_store_def Let_def split: if_splits intro!: trap_ok load_ok store_ok elim!: fin_ok [rotated 2])
  next
    case 8 then show ?thesis using assms reg
      by (auto simp: exec_misc_def Let_def split: if_splits intro!: trap_ok elim!: fin_ok [rotated 2])
  qed
qed

end
