(* ===== verification/MipsCorrect.thy ===== *)
theory MipsCorrect
  imports MipsModel
begin

unbundle bit_operations_syntax

text \<open>
  What the instruction interpreter of theory MipsModel guarantees: the shift-and-add
  multiplication is the 64-bit product, every word decodes to a case of the big switch,
  exceptions are precise, the overflow tests of the signed additions are exact, and the
  instruction pairs for unaligned words are inverse to each other.
\<close>

section \<open>Multiplication\<close>

lemma uint_dword: "uint (dword hi lo) = uint hi * 2 ^ 32 + uint lo"
proof -
  have r: "0 \<le> uint lo" "uint lo < 2 ^ 32" "0 \<le> uint hi" "uint hi < 2 ^ 32"
    using uint_bounded [of lo] uint_bounded [of hi] by simp_all
  then have "uint hi * 2 ^ 32 + uint lo < 2 ^ 64" by simp
  then show ?thesis unfolding dword_def using r by (simp only: uint_word_of_int) (simp add: take_bit_int_eq_self)
qed

lemma sint_woi64: "- (2 ^ 63) \<le> x \<Longrightarrow> x < 2 ^ 63 \<Longrightarrow> sint (word_of_int x :: 64 word) = x"
  by (simp add: signed_of_int signed_take_bit_int_eq_self)

lemma halves_bounds:
  assumes "0 \<le> l" "l < 2 ^ 32" "- (2 ^ 31) \<le> h" "h < 2 ^ 31"
  shows "- (2 ^ 63) \<le> h * 2 ^ 32 + l" "h * 2 ^ 32 + l < (2 ^ 63 :: int)"
  using assms by simp_all

lemma sint_dword: "sint (dword hi lo) = sint hi * 2 ^ 32 + uint lo"
proof -
  have r: "0 \<le> uint lo" "uint lo < 2 ^ 32" "- (2 ^ 31) \<le> sint hi" "sint hi < 2 ^ 31"
    using uint_bounded [of lo] sint_ge [of hi] sint_lt [of hi] by simp_all
  have "(word_of_int (sint hi) :: 32 word) = word_of_int (uint hi)" by simp
  then have "sint hi mod 2 ^ 32 = uint hi mod 2 ^ 32" unfolding word_of_int_eq_iff by (simp add: take_bit_eq_mod)
  then have "(2 ^ 32 * sint hi) mod (2 ^ 32 * 2 ^ 32) = (2 ^ 32 * uint hi) mod (2 ^ 32 * 2 ^ 32)"
    unfolding mult_mod_right [symmetric] by simp
  then have "(sint hi * 2 ^ 32 + uint lo) mod 2 ^ 64 = (uint hi * 2 ^ 32 + uint lo) mod 2 ^ 64"
    by (intro mod_add_cong refl) (simp add: mult.commute)
  then have "dword hi lo = word_of_int (sint hi * 2 ^ 32 + uint lo)" unfolding dword_def by (rule woi64_cong [OF sym])
  moreover have "- (2 ^ 63) \<le> sint hi * 2 ^ 32 + uint lo" "sint hi * 2 ^ 32 + uint lo < 2 ^ 63" using halves_bounds [OF r] .
  ultimately show ?thesis by (simp only: sint_woi64)
qed

lemma product_bounds:
  assumes "- (2 ^ 31) \<le> x" "x < 2 ^ 31" "- (2 ^ 31) \<le> y" "y < (2 ^ 31 :: int)"
  shows "- (2 ^ 63) \<le> x * y" "x * y < 2 ^ 63"
proof -
  have "\<bar>x\<bar> * \<bar>y\<bar> \<le> 2 ^ 31 * 2 ^ 31" using assms by (intro mult_mono) auto
  then have "\<bar>x * y\<bar> \<le> 2 ^ 62" by (simp add: abs_mult)
  then show "- (2 ^ 63) \<le> x * y" "x * y < 2 ^ 63" by auto
qed

text \<open>C8: the shift-and-add loop of \<open>Mult\<close> computes the exact 64-bit product: the two result words,
  read as a signed high half and an unsigned low half, are the product of the operands as
  signed numbers; without \<open>signedArith\<close> both halves and both operands are unsigned.\<close>

theorem Mult_correct:
  "(case Mult a b True of (hi, lo) \<Rightarrow> sint hi * 2 ^ 32 + uint lo = sint a * sint b)
 \<and> (case Mult a b False of (hi, lo) \<Rightarrow> uint hi * 2 ^ 32 + uint lo = uint a * uint b)"
proof -
  obtain h l h' l' where ml: "Mult a b True = (h, l)" "Mult a b False = (h', l')" by fastforce
  have "- (2 ^ 63) \<le> sint a * sint b" "sint a * sint b < 2 ^ 63"
    using product_bounds [of "sint a" "sint b"] sint_ge [of a] sint_lt [of a] sint_ge [of b] sint_lt [of b] by simp_all
  then have "sint (dword h l) = sint a * sint b" using Mult_dword [OF ml(1)] by (simp only: sint_woi64 if_True)
  moreover have "uint a * uint b < 2 ^ 32 * 2 ^ 32"
    using uint_bounded [of a] uint_bounded [of b] by (intro mult_strict_mono) simp_all
  then have "uint (dword h' l') = uint a * uint b"
    using Mult_dword [OF ml(2)] by (simp only: uint_word_of_int if_False) (simp add: take_bit_int_eq_self)
  ultimately show ?thesis using ml by (simp add: sint_dword uint_dword)
qed

section \<open>Decoding\<close>

text \<open>C39: every 32-bit word decodes: the register fields are in range, and the operation code has a
  case in the switch of \<open>OneInstruction\<close>, whose default, a failing assertion, is never
  reached, whatever a user program holds in its memory.\<close>

theorem Decode_total:
  "irs (Decode v) < 32 \<and> irt (Decode v) < 32 \<and> ird (Decode v) < 32 \<and> (\<exists>r. exec_instr be H (Decode v) pc m = Some r)"
  using Decode_ok [of v] exec_instr_total [of "Decode v" be H pc m] by auto

section \<open>Precise exceptions\<close>

lemma finish_instr_ok:
  assumes "unat (registers m LoadReg) < 32" "reg < 32"
  shows "\<exists>m'. finish_instr m pc reg v = Inr m' \<and> mainMemory m' = mainMemory m \<and> registers m' 0 = 0
     \<and> registers m' PrevPCReg = registers m PCReg \<and> registers m' PCReg = registers m NextPCReg
     \<and> registers m' NextPCReg = pc \<and> unat (registers m' LoadReg) < 32 \<and> mmu_ok m' = mmu_ok m"
proof -
  have "unat (word_of_nat reg :: 32 word) < 32" using assms(2) by (simp add: unat_of_nat take_bit_nat_eq_self)
  then show ?thesis using assms by (auto simp: finish_instr_def DelayedLoad_def Let_def)
qed

lemma OneInstruction_outcome:
  assumes "mmu_ok m" "unat (registers m LoadReg) < 32"
  shows "(\<exists>e bad m0. OneInstruction be H m = RaiseException H e bad m0
            \<and> registers m0 = registers m \<and> mainMemory m0 = mainMemory m)
    \<or> (\<exists>m'. OneInstruction be H m = Inr m' \<and> registers m' 0 = 0
            \<and> registers m' PrevPCReg = registers m PCReg \<and> registers m' PCReg = registers m NextPCReg
            \<and> unat (registers m' LoadReg) < 32 \<and> mmu_ok m')
    \<or> OneInstruction be H m = Inl HostTrap"
  using ReadMem_outcome [OF assms(1) access_sizes(3), of be H "registers m PCReg"]
proof (elim disjE exE conjE, goal_cases)
  case (1 e)
  have "OneInstruction be H m = RaiseException H e (registers m PCReg) m"
    unfolding OneInstruction_def 1 by (cases "RaiseException H e (registers m PCReg) m") simp_all
  then show ?case by blast
next
  case (2 v m1)
  let ?pc = "registers m1 NextPCReg + 4"
  obtain r where r: "exec_instr be H (Decode v) ?pc m1 = Some r"
    using exec_instr_total [of "Decode v"] Decode_ok [of v] by blast
  have one: "OneInstruction be H m = rbind r (\<lambda>x. case x of Trapped m2 \<Rightarrow> Inr m2 | Next m2 pc reg value \<Rightarrow> finish_instr m2 pc reg value)"
    using 2 r by (simp add: OneInstruction_def Let_def)
  have "case_ok H m1 r" using exec_instr_ok [OF _ _ _ _ r] 2(4) Decode_ok [of v] by blast
  then show ?case unfolding case_ok_def
  proof (elim disjE exE conjE, goal_cases)
    case (1 m2 pc reg w)
    then show ?case using finish_instr_ok [of m2 reg pc w] assms(2) 2(3) one by auto
  next
    case 2 then show ?case using one by simp
  next
    case (3 e bad m0)
    then have "OneInstruction be H m = RaiseException H e bad m0"
      using one by (cases "RaiseException H e bad m0") simp_all
    then show ?case using 3 \<open>registers m1 = registers m\<close> \<open>mainMemory m1 = mainMemory m\<close> by auto
  qed
qed


text \<open>C5: exceptions are precise. With one translation mechanism installed and a sane delayed-load
  register, an instruction either raises an exception, and then the kernel is entered in a
  state with the registers and the memory from before the instruction, or it completes, and
  then the program counters have advanced, R0 is zero and the delayed-load register is again
  sane; the third case is the host's trap on a signed division that overflows.\<close>

theorem OneInstruction_precise:
  assumes "mmu_ok m" "unat (registers m LoadReg) < 32"
  shows "(\<exists>e bad m0. OneInstruction be H m = RaiseException H e bad m0
            \<and> registers m0 = registers m \<and> mainMemory m0 = mainMemory m)
    \<or> (\<exists>m'. OneInstruction be H m = Inr m' \<and> registers m' 0 = 0
            \<and> registers m' PrevPCReg = registers m PCReg \<and> registers m' PCReg = registers m NextPCReg
            \<and> unat (registers m' LoadReg) < 32 \<and> mmu_ok m')
    \<or> OneInstruction be H m = Inl HostTrap"
  using OneInstruction_outcome [OF assms] .

text \<open>The zeroed memory of the demonstration machine holds the instruction that does nothing.\<close>

theorem OneInstruction_precise_witness:
  "\<exists>m'. OneInstruction False (\<lambda>e m. Inl PowerDown) demo_machine = Inr m' \<and> registers m' 0 = 0
     \<and> registers m' PCReg = registers demo_machine NextPCReg \<and> mmu_ok m'"
proof -
  have "res_sat (OneInstruction False (\<lambda>e m. Inl PowerDown) demo_machine) (\<lambda>_. True)" by code_simp
  then obtain m' where m': "OneInstruction False (\<lambda>e m. Inl PowerDown) demo_machine = Inr m'" by (auto elim: res_satE)
  have "Inr m' \<noteq> RaiseException (\<lambda>e m. Inl PowerDown) e bad m0" for e bad m0
    by (cases "DelayedLoad 0 0 (setReg BadVAddrReg bad m0)") (simp_all add: RaiseException_def Let_def)
  moreover have "unat (registers demo_machine LoadReg) < 32" by (simp add: demo_machine_def Machine_new_def)
  ultimately show ?thesis
    using OneInstruction_precise [OF demo_machine_ok, of False "\<lambda>e m. Inl PowerDown"] unfolding m' by auto
qed

section \<open>Overflow\<close>

lemma bit31_sint: "bit (x :: 32 word) 31 \<longleftrightarrow> sint x < 0"
  using bit_last_iff [of x] by simp

lemma sign_xor: "(x XOR y) AND (0x80000000 :: 32 word) = 0 \<longleftrightarrow> (sint x < 0 \<longleftrightarrow> sint y < 0)"
proof -
  have "(x XOR y) AND 0x80000000 = 0 \<longleftrightarrow> \<not> bit (x XOR y) 31" using and_sign_bit [of "x XOR y"] by blast
  also have "bit (x XOR y) 31 \<longleftrightarrow> (sint x < 0 \<longleftrightarrow> \<not> sint y < 0)" unfolding bit_xor_iff unfolding bit31_sint by blast
  finally show ?thesis by blast
qed

lemma sint_range: "- (2 ^ 31) \<le> sint (x :: 32 word)" "sint x < 2 ^ 31"
  using sint_ge [of x] sint_lt [of x] by simp_all

lemma sint_wraps: "\<exists>k. sint (word_of_int s :: 32 word) = s + k * 2 ^ 32"
proof -
  have "(word_of_int (sint (word_of_int s :: 32 word)) :: 32 word) = word_of_int s" by simp
  then have "sint (word_of_int s :: 32 word) mod 2 ^ 32 = s mod 2 ^ 32"
    by (simp only: word_of_int_eq_iff) (simp add: take_bit_eq_mod)
  then have "2 ^ 32 dvd sint (word_of_int s :: 32 word) - s" by (simp add: mod_eq_dvd_iff)
  then obtain k where "sint (word_of_int s :: 32 word) - s = 2 ^ 32 * k" by (rule dvdE)
  then have "sint (word_of_int s :: 32 word) = s + k * 2 ^ 32" by simp
  then show ?thesis ..
qed

lemma sint_wrap_cases:
  fixes s :: int
  assumes "- (2 ^ 32) \<le> s" "s < 2 ^ 32"
  shows "sint (word_of_int s :: 32 word) = (if s < - (2 ^ 31) then s + 2 ^ 32 else if s < 2 ^ 31 then s else s - 2 ^ 32)"
proof -
  obtain k where k: "sint (word_of_int s :: 32 word) = s + k * 2 ^ 32" using sint_wraps by blast
  have r: "- (2 ^ 31) \<le> s + k * 2 ^ 32" "s + k * 2 ^ 32 < 2 ^ 31" using sint_range [of "word_of_int s"] unfolding k .
  then have "k = (if s < - (2 ^ 31) then 1 else if s < 2 ^ 31 then 0 else - 1)" using assms by (simp split: if_splits)
  then show ?thesis unfolding k by simp
qed

lemma sint_add_cases:
  "sint (x + y :: 32 word) = (if sint x + sint y < - (2 ^ 31) then sint x + sint y + 2 ^ 32
     else if sint x + sint y < 2 ^ 31 then sint x + sint y else sint x + sint y - 2 ^ 32)"
  using sint_wrap_cases [of "sint x + sint y"] sint_range [of x] sint_range [of y]
  by (simp add: wi_hom_add [symmetric])

lemma sint_sub_cases:
  "sint (x - y :: 32 word) = (if sint x - sint y < - (2 ^ 31) then sint x - sint y + 2 ^ 32
     else if sint x - sint y < 2 ^ 31 then sint x - sint y else sint x - sint y - 2 ^ 32)"
  using sint_wrap_cases [of "sint x - sint y"] sint_range [of x] sint_range [of y]
  by (simp add: wi_hom_sub [symmetric])

definition in_int32 :: "int \<Rightarrow> bool" where
  "in_int32 z \<longleftrightarrow> - (2 ^ 31) \<le> z \<and> z < 2 ^ 31"

lemma add_overflow_iff:
  "(x XOR y) AND SIGN_BIT = 0 \<and> (x XOR (x + y)) AND SIGN_BIT \<noteq> 0 \<longleftrightarrow> \<not> in_int32 (sint x + sint y)"
  using sint_range [of x] sint_range [of y] unfolding sign_xor sint_add_cases in_int32_def by auto

lemma sub_overflow_iff:
  "(x XOR y) AND SIGN_BIT \<noteq> 0 \<and> (x XOR (x - y)) AND SIGN_BIT \<noteq> 0 \<longleftrightarrow> \<not> in_int32 (sint x - sint y)"
  using sint_range [of x] sint_range [of y] unfolding sign_xor sint_sub_cases in_int32_def by auto

lemma xor_swap_sign: "(x XOR y) AND SIGN_BIT = 0 \<Longrightarrow> (y XOR z) AND SIGN_BIT = (0 :: 32 word) \<longleftrightarrow> (x XOR z) AND SIGN_BIT = 0"
  unfolding sign_xor by simp

text \<open>C36: the sign-bit tests for overflow are exact. ADD, ADDI and SUB raise OverflowException, with
  nothing written, exactly when the sum or the difference of the operands as signed numbers
  does not fit in 32 bits; otherwise the destination receives that number.\<close>

theorem signed_arith_overflow:
  "exec_instr be H (i\<lparr>opCode := OP_ADD\<rparr>) pc m =
     (let z = sint (registers m (irs i)) + sint (registers m (irt i)) in
      if in_int32 z then fin (setReg (ird i) (word_of_int z) m) pc else Some (trap H OverflowException 0 m))
 \<and> exec_instr be H (i\<lparr>opCode := OP_ADDI\<rparr>) pc m =
     (let z = sint (registers m (irs i)) + sint (iextra i) in
      if in_int32 z then fin (setReg (irt i) (word_of_int z) m) pc else Some (trap H OverflowException 0 m))
 \<and> exec_instr be H (i\<lparr>opCode := OP_SUB\<rparr>) pc m =
     (let z = sint (registers m (irs i)) - sint (registers m (irt i)) in
      if in_int32 z then fin (setReg (ird i) (word_of_int z) m) pc else Some (trap H OverflowException 0 m))"
proof (intro conjI, goal_cases)
  case 1 show ?case
    using add_overflow_iff [of "registers m (irs i)" "registers m (irt i)"]
    by (auto simp: exec_instr_def exec_arith_def Let_def or_else_def fin_def wi_hom_add [symmetric])
next
  case 2 show ?case
    using add_overflow_iff [of "registers m (irs i)" "iextra i"] xor_swap_sign [of "registers m (irs i)" "iextra i"]
    by (auto simp: exec_instr_def exec_arith_def Let_def or_else_def fin_def wi_hom_add [symmetric])
next
  case 3 show ?case
    using sub_overflow_iff [of "registers m (irs i)" "registers m (irt i)"]
    by (auto simp: exec_instr_def exec_arith_def exec_branch_def exec_div_jump_def exec_load_def exec_hilo_logic_def
        exec_store_shift_def exec_sub_store_def Let_def or_else_def fin_def wi_hom_sub [symmetric])
qed

section \<open>Unaligned words\<close>

text \<open>
  An unaligned word at address \<open>tmp\<close> straddles the aligned words at \<open>tmp AND NOT 3\<close> and
  \<open>(tmp + 3) AND NOT 3\<close>; the MIPS compilers load it with LWR at \<open>tmp\<close> and LWL at \<open>tmp + 3\<close>.
\<close>

lemma masks32:
  "(0xff :: 32 word) = mask 8" "(0xffff :: 32 word) = mask 16" "(0xffffff :: 32 word) = mask 24"
  "(0xff000000 :: 32 word) = NOT (mask 24)" "(0xffff0000 :: 32 word) = NOT (mask 16)" "(0xffffff00 :: 32 word) = NOT (mask 8)"
  by (simp_all add: mask_eq_exp_minus_1)

lemma and3_unat: "unat ((x :: 32 word) AND 3) = unat x mod 4"
proof -
  have "x AND 3 = take_bit 2 x" by (simp add: take_bit_eq_mask mask_eq_exp_minus_1)
  then show ?thesis by (simp add: unsigned_take_bit_eq) (simp add: take_bit_eq_mod)
qed

lemma and3_eq: "k < 4 \<Longrightarrow> (x :: 32 word) AND 3 = of_nat k \<longleftrightarrow> unat x mod 4 = k"
  by (simp add: word_unat_eq_iff and3_unat unat_of_nat take_bit_nat_eq_self)

lemma unat_plus3: "unat (tmp + 3 :: 32 word) mod 4 = (unat tmp + 3) mod 4"
  by (simp add: unat_word_ariths mod_mod_cancel)

lemma offset_cases:
  fixes tmp :: "32 word"
  obtains "tmp AND 3 = 0" "(tmp + 3) AND 3 = 3" "unat tmp mod 4 = 0" | "tmp AND 3 = 1" "(tmp + 3) AND 3 = 0" "unat tmp mod 4 = 1"
    | "tmp AND 3 = 2" "(tmp + 3) AND 3 = 1" "unat tmp mod 4 = 2" | "tmp AND 3 = 3" "(tmp + 3) AND 3 = 2" "unat tmp mod 4 = 3"
proof -
  have "unat tmp mod 4 = 0 \<or> unat tmp mod 4 = 1 \<or> unat tmp mod 4 = 2 \<or> unat tmp mod 4 = 3" by linarith
  then show thesis
    using that and3_eq [of 0] and3_eq [of 1] and3_eq [of 2] and3_eq [of 3] unat_plus3 [of tmp]
    by (elim disjE) (simp_all add: mod_add_left_eq [of "unat tmp" 4 3, symmetric])
qed

lemmas word32_bits = bit_and_iff bit_or_iff bit_not_iff bit_mask_iff bit_push_bit_iff bit_drop_bit_eq

definition unaligned :: "nat \<Rightarrow> 32 word \<Rightarrow> 32 word \<Rightarrow> 32 word" where
  "unaligned k lo hi = drop_bit (8 * k) lo OR push_bit (32 - 8 * k) hi"

lemmas unaligned_defs = unaligned_def lwl_value_def lwr_value_def swl_value_def swr_value_def masks32

text \<open>Storing with SWR at an address and SWL three bytes further writes an unaligned word: the
  two aligned words then hold the register's value at that byte offset, and the bytes before
  and after it are as they were.\<close>

lemma unaligned_store:
  "let k = unat tmp mod 4; lo' = swr_value tmp lo v; hi' = swl_value (tmp + 3) hi v in
   unaligned k lo' hi' = v \<and> take_bit (8 * k) lo' = take_bit (8 * k) lo \<and> (k = 0 \<and> hi' = v \<or> drop_bit (8 * k) hi' = drop_bit (8 * k) hi)"
proof (cases rule: offset_cases [of tmp])
  case 1 then show ?thesis by (simp add: unaligned_defs)
qed (unfold Let_def unaligned_defs, (intro conjI disjI2 bit_word_eqI; auto simp: word32_bits bit_take_bit_iff dest: bit_imp_le_length)+)

text \<open>Loading with LWR at an address and LWL three bytes further reads the unaligned word at that
  address when the address is even; at an odd address it does not, because the cases for the
  offsets 0 and 2 of LWL are exchanged: LWL then keeps the wrong bytes of the register.\<close>

lemma unaligned_load:
  "lwl_value (tmp + 3) hi (lwr_value tmp lo old) =
     (let k = unat tmp mod 4 in
      if k = 0 then hi else if k = 2 then unaligned 2 lo hi
      else if k = 1 then take_bit 8 (drop_bit 8 lo) OR push_bit 8 hi
      else take_bit 8 (drop_bit 24 lo) OR push_bit 8 (take_bit 16 (drop_bit 8 old)) OR push_bit 24 hi)"
proof (cases rule: offset_cases [of tmp])
  case 1 then show ?thesis by (simp add: unaligned_defs)
qed (unfold Let_def unaligned_defs, (rule bit_word_eqI, auto simp: word32_bits bit_take_bit_iff dest: bit_imp_le_length)+)

text \<open>
  The bytes 11 22 33 44 55 66 77 88 in memory, and the word at the odd address 1: it should be
  0x55443322.
\<close>

lemma LWL_odd_address:
  "lwl_value 4 0x88776655 (lwr_value 1 0x44332211 0) = 0x77665522 \<and> unaligned 1 0x44332211 0x88776655 = 0x55443322"
  by code_simp

text \<open>Dividing the most negative number by -1 stops the simulator.\<close>

lemma DIV_host_trap:
  "registers m (irs i) = SIGN_BIT \<Longrightarrow> registers m (irt i) = - 1 \<Longrightarrow>
   exec_instr be H (i\<lparr>opCode := OP_DIV\<rparr>) pc m = Some (Inl HostTrap)"
  by (simp add: exec_instr_def exec_arith_def exec_branch_def exec_div_jump_def or_else_def Let_def)

end
