(* ===== verification/DiskModel.thy ===== *)
theory DiskModel
  imports ThreadModel
begin

text \<open>
  The simulated disk (machine/disk.h, machine/disk.cc) on a file of the host (machine/sysdep.cc),
  and the synchronous interface to it (filesys/synchdisk.cc).

  The host file is its size and its bytes; \<open>Lseek\<close> followed by \<open>Read\<close> or \<open>WriteFile\<close> is one access at
  an offset. Ticks are \<open>long long\<close> in the statistics, but the disk keeps them in \<open>int\<close>
  variables: \<open>int32\<close> is the conversion, which wraps around. The track buffer is compiled in
  (\<open>NOTRACKBUF\<close> is not defined).
\<close>

section \<open>Data\<close>

type_synonym byte = "8 word"

abbreviation (input) "SectorSize \<equiv> (128 :: int)"
abbreviation (input) "SectorsPerTrack \<equiv> (32 :: int)"
abbreviation (input) "NumSectors \<equiv> (1024 :: int)"
abbreviation (input) "RotationTime \<equiv> (500 :: int)"
abbreviation (input) "SeekTime \<equiv> (500 :: int)"
abbreviation (input) "MagicSize \<equiv> (4 :: nat)"
abbreviation (input) "MagicNumber \<equiv> (0x456789ab :: 32 word)"
abbreviation (input) "DiskSize \<equiv> (131076 :: nat)"

record unix_file =
  fsize :: nat
  fbyte :: "nat \<Rightarrow> byte"

record 'h Disk =
  fileno :: unix_file
  dhandler :: 'h
  dhandlerArg :: addr
  active :: bool
  lastSector :: int
  bufferInit :: int

definition int32 :: "int \<Rightarrow> int" where
  "int32 z = sint (word_of_int z :: 32 word)"

section \<open>Host files\<close>

definition ReadFile :: "nat \<Rightarrow> nat \<Rightarrow> unix_file \<Rightarrow> byte list res" where
  "ReadFile off nBytes f =
     rbind (ASSERT (off + nBytes \<le> fsize f)) (\<lambda>_. Inr (map (fbyte f) [off..<off + nBytes]))"

text \<open>Writing beyond the end leaves a hole, which reads as zeros.\<close>

definition WriteFile :: "nat \<Rightarrow> byte list \<Rightarrow> unix_file \<Rightarrow> unix_file" where
  "WriteFile off data f =
     \<lparr>fsize = max (fsize f) (off + length data),
      fbyte = (\<lambda>i. if off \<le> i \<and> i < off + length data then data ! (i - off)
                   else if i < fsize f then fbyte f i else 0)\<rparr>"

text \<open>The four bytes of an \<open>int\<close>, in the byte order of the host.\<close>

definition int_bytes :: "bool \<Rightarrow> 32 word \<Rightarrow> byte list" where
  "int_bytes be w = (let bs = [ucast w, ucast (drop_bit 8 w), ucast (drop_bit 16 w), ucast (drop_bit 24 w)] in
     if be then rev bs else bs)"

section \<open>Operations\<close>

text \<open>The constructor: \<open>existing\<close> is the host file of that name, if there is one.\<close>

definition Disk_new :: "bool \<Rightarrow> unix_file option \<Rightarrow> 'h \<Rightarrow> addr \<Rightarrow> 'h Disk res" where
  "Disk_new be existing callWhenDone callArg =
     rbind (case existing of
         Some f \<Rightarrow> rbind (ReadFile 0 MagicSize f) (\<lambda>bs.
                   rbind (ASSERT (bs = int_bytes be MagicNumber)) (\<lambda>_. Inr f))
       | None \<Rightarrow> Inr (WriteFile (DiskSize - 4) (int_bytes be 0)
                   (WriteFile 0 (int_bytes be MagicNumber) \<lparr>fsize = 0, fbyte = (\<lambda>_. 0)\<rparr>))) (\<lambda>f.
     Inr \<lparr>fileno = f, dhandler = callWhenDone, dhandlerArg = callArg, active = False, lastSector = 0, bufferInit = 0\<rparr>)"

definition TimeToSeek :: "int \<Rightarrow> int \<Rightarrow> 'h Disk \<Rightarrow> int \<times> int" where
  "TimeToSeek now newSector d =
     (let newTrack = newSector sdiv SectorsPerTrack;
          oldTrack = lastSector d sdiv SectorsPerTrack;
          seek = int32 (\<bar>newTrack - oldTrack\<bar> * SeekTime);
          over = int32 ((now + seek) smod RotationTime) in
      (seek, if over > 0 then RotationTime - over else 0))"

definition ModuloDiff :: "int \<Rightarrow> int \<Rightarrow> int" where
  "ModuloDiff to from =
     (let toOffset = to smod SectorsPerTrack; fromOffset = from smod SectorsPerTrack in
      ((toOffset - fromOffset) + SectorsPerTrack) smod SectorsPerTrack)"

definition track_buffered :: "int \<Rightarrow> int \<Rightarrow> bool \<Rightarrow> 'h Disk \<Rightarrow> bool" where
  "track_buffered now newSector writing d =
     (let (seek, rotation) = TimeToSeek now newSector d;
          timeAfter = int32 (now + seek + rotation) in
      \<not> writing \<and> seek = 0
      \<and> int32 (timeAfter - bufferInit d) sdiv RotationTime > ModuloDiff newSector (bufferInit d sdiv RotationTime))"

definition ComputeLatency :: "int \<Rightarrow> int \<Rightarrow> bool \<Rightarrow> 'h Disk \<Rightarrow> int" where
  "ComputeLatency now newSector writing d =
     (let (seek, rotation) = TimeToSeek now newSector d;
          timeAfter = int32 (now + seek + rotation) in
      if track_buffered now newSector writing d then RotationTime
      else let rotation' = rotation + ModuloDiff newSector (timeAfter sdiv RotationTime) * RotationTime in
        seek + rotation' + RotationTime)"

definition UpdateLast :: "int \<Rightarrow> int \<Rightarrow> 'h Disk \<Rightarrow> 'h Disk" where
  "UpdateLast now newSector d =
     (let (seek, rotate) = TimeToSeek now newSector d in
      (if seek \<noteq> 0 then d\<lparr>bufferInit := int32 (now + seek + rotate)\<rparr> else d)\<lparr>lastSector := newSector\<rparr>)"

text \<open>\<open>dd\<close> names the interrupt routine \<open>DiskDone\<close> and \<open>this\<close> the address of the disk.\<close>

definition ReadRequest ::
  "'h \<Rightarrow> addr \<Rightarrow> int \<Rightarrow> 'h Disk \<Rightarrow> ('h, 'z) intr_scheme \<Rightarrow> (byte list \<times> 'h Disk \<times> ('h, 'z) intr_scheme) res" where
  "ReadRequest dd this sectorNumber d s =
     (let now = totalTicks (stats s); ticks = ComputeLatency now sectorNumber False d in
      rbind (ASSERT (\<not> active d)) (\<lambda>_.
      rbind (ASSERT (sectorNumber \<ge> 0 \<and> sectorNumber < NumSectors)) (\<lambda>_.
      rbind (ReadFile (nat (SectorSize * sectorNumber) + MagicSize) (nat SectorSize) (fileno d)) (\<lambda>data.
      let d' = UpdateLast now sectorNumber (d\<lparr>active := True\<rparr>);
          s' = s\<lparr>stats := (stats s)\<lparr>numDiskReads := numDiskReads (stats s) + 1\<rparr>\<rparr> in
      rbind (Schedule dd this ticks DiskInt s') (\<lambda>s''. Inr (data, d', s''))))))"

definition WriteRequest ::
  "'h \<Rightarrow> addr \<Rightarrow> int \<Rightarrow> byte list \<Rightarrow> 'h Disk \<Rightarrow> ('h, 'z) intr_scheme \<Rightarrow> ('h Disk \<times> ('h, 'z) intr_scheme) res" where
  "WriteRequest dd this sectorNumber data d s =
     (let now = totalTicks (stats s); ticks = ComputeLatency now sectorNumber True d in
      rbind (ASSERT (\<not> active d)) (\<lambda>_.
      rbind (ASSERT (sectorNumber \<ge> 0 \<and> sectorNumber < NumSectors)) (\<lambda>_.
      if length data < nat SectorSize then Inl WildAccess
      else
        let d' = UpdateLast now sectorNumber (d\<lparr>fileno :=
                   WriteFile (nat (SectorSize * sectorNumber) + MagicSize) (take (nat SectorSize) data) (fileno d), active := True\<rparr>);
            s' = s\<lparr>stats := (stats s)\<lparr>numDiskWrites := numDiskWrites (stats s) + 1\<rparr>\<rparr> in
        rbind (Schedule dd this ticks DiskInt s') (\<lambda>s''. Inr (d', s'')))))"

text \<open>\<open>run\<close> calls the handler that the client of the disk registered.\<close>

definition Disk_HandleInterrupt ::
  "('h \<Rightarrow> addr \<Rightarrow> 'h Disk \<Rightarrow> ('h, 'z) intr_scheme \<Rightarrow> ('h Disk \<times> ('h, 'z) intr_scheme) res) \<Rightarrow>
   'h Disk \<Rightarrow> ('h, 'z) intr_scheme \<Rightarrow> ('h Disk \<times> ('h, 'z) intr_scheme) res" where
  "Disk_HandleInterrupt run d s = run (dhandler d) (dhandlerArg d) (d\<lparr>active := False\<rparr>) s"

section \<open>The synchronous disk\<close>

text \<open>
  Over the kernel state and the disk. As the code stands the constructor of \<open>Lock\<close> and its
  operations fail an assertion (threads/synch.cc).
\<close>

definition SynchDisk_new ::
  "bool \<Rightarrow> unix_file option \<Rightarrow> 'h \<Rightarrow> addr \<Rightarrow> addr \<Rightarrow> ('h, 'z) kernel_scheme \<Rightarrow> ('h Disk \<times> ('h, 'z) kernel_scheme) res" where
  "SynchDisk_new be existing requestDone this sem s =
     rbind (Lock_new (set_sem sem (Semaphore_new 0) s)) (\<lambda>s1.
     rbind (Disk_new be existing requestDone this) (\<lambda>d. Inr (d, s1)))"

definition ReadSector ::
  "('h, 'z) kdispatch \<Rightarrow> 'h \<Rightarrow> addr \<Rightarrow> addr \<Rightarrow> int \<Rightarrow> 'h Disk \<Rightarrow> ('h, 'z) kernel_scheme
     \<Rightarrow> (byte list \<times> 'h Disk \<times> ('h, 'z) kernel_scheme) res option" where
  "ReadSector D dd this sem sectorNumber d s =
     obind (Some (Lock_Acquire s)) (\<lambda>s1.
     obind (Some (ReadRequest dd this sectorNumber d s1)) (\<lambda>(data, d', s2).
     obind (Semaphore_P D sem s2) (\<lambda>s3.
     obind (Some (Lock_Release s3)) (\<lambda>s4. Some (Inr (data, d', s4))))))"

definition WriteSector ::
  "('h, 'z) kdispatch \<Rightarrow> 'h \<Rightarrow> addr \<Rightarrow> addr \<Rightarrow> int \<Rightarrow> byte list \<Rightarrow> 'h Disk \<Rightarrow> ('h, 'z) kernel_scheme
     \<Rightarrow> ('h Disk \<times> ('h, 'z) kernel_scheme) res option" where
  "WriteSector D dd this sem sectorNumber data d s =
     obind (Some (Lock_Acquire s)) (\<lambda>s1.
     obind (Some (WriteRequest dd this sectorNumber data d s1)) (\<lambda>(d', s2).
     obind (Semaphore_P D sem s2) (\<lambda>s3.
     obind (Some (Lock_Release s3)) (\<lambda>s4. Some (Inr (d', s4))))))"

text \<open>\<open>RequestDone\<close> runs in an interrupt handler, with interrupts off.\<close>

definition RequestDone :: "addr \<Rightarrow> ('h, 'z) kernel_scheme \<Rightarrow> ('h, 'z) kernel_scheme res" where
  "RequestDone sem s = V_body sem s"

section \<open>Latency\<close>

lemma int32_id: "- (2 ^ 31) \<le> z \<Longrightarrow> z < 2 ^ 31 \<Longrightarrow> int32 z = z"
  by (simp add: int32_def signed_of_int signed_take_bit_int_eq_self)

definition sector_ok :: "int \<Rightarrow> bool" where
  "sector_ok n \<longleftrightarrow> 0 \<le> n \<and> n < NumSectors"

lemma track_range: "sector_ok n \<Longrightarrow> n sdiv SectorsPerTrack = n div 32 \<and> 0 \<le> n div 32 \<and> n div 32 < 32"
  by (auto simp: sector_ok_def sdiv_nonneg)

lemma int32_seek: "0 \<le> t \<Longrightarrow> t < 32 \<Longrightarrow> int32 (t * SeekTime) = t * SeekTime"
  by (rule int32_id) simp_all

text \<open>The seek takes a whole number of sector times, and then the head waits for the next boundary.\<close>

lemma TimeToSeek_ok:
  assumes "sector_ok n" "sector_ok (lastSector d)" "0 \<le> now"
  obtains rot where "TimeToSeek now n d = (\<bar>n div 32 - lastSector d div 32\<bar> * SeekTime, rot)"
    "0 \<le> rot" "rot < RotationTime" "(now + rot) mod RotationTime = 0"
proof -
  let ?t = "\<bar>n div 32 - lastSector d div 32\<bar>" let ?r = "now mod 500"
  have r: "0 \<le> ?t" "?t < 32" using track_range [OF assms(1)] track_range [OF assms(2)] by auto
  have seek: "int32 (?t * SeekTime) = ?t * SeekTime" using r by (rule int32_seek)
  have "(now + ?t * SeekTime) smod RotationTime = (now + ?t * SeekTime) mod RotationTime"
    using r assms(3) by (intro smod_nonneg) simp_all
  also have "\<dots> = ?r" by simp
  finally have over: "int32 ((now + ?t * SeekTime) smod RotationTime) = ?r"
    using pos_mod_bound [of 500 now] pos_mod_sign [of 500 now] by (simp add: int32_id)
  have bnd: "(now + (if ?r > 0 then 500 - ?r else 0)) mod 500 = 0"
  proof (cases "?r > 0")
    case True
    have "(now + (500 - ?r)) mod 500 = (now - ?r + 500) mod 500" by (simp add: algebra_simps)
    also have "\<dots> = 0" by (simp only: mod_add_self2) (simp add: minus_mod_eq_mult_div)
    finally show ?thesis using True by simp
  next
    case False then show ?thesis using pos_mod_sign [of 500 now] by simp
  qed
  have tts: "TimeToSeek now n d = (?t * SeekTime, if ?r > 0 then 500 - ?r else 0)"
    unfolding TimeToSeek_def Let_def track_range [OF assms(1), THEN conjunct1] track_range [OF assms(2), THEN conjunct1] seek over ..
  have rot: "0 \<le> (if ?r > 0 then 500 - ?r else 0)" "(if ?r > 0 then 500 - ?r else 0) < 500"
    using pos_mod_bound [of 500 now] pos_mod_sign [of 500 now] by auto
  show thesis by (rule that [OF tts rot bnd])
qed

lemma smod32: "(x :: int) smod 32 = (if x < 0 then - ((- x) mod 32) else x mod 32)"
  by (auto simp: signed_modulo_int_def signed_divide_int_def sgn_if minus_mult_div_eq_mod [symmetric] algebra_simps)

lemma ModuloDiff_range:
  assumes "0 \<le> x"
  shows "0 \<le> ModuloDiff x y \<and> ModuloDiff x y < 32"
proof -
  have "0 \<le> x smod 32" using assms by (simp add: smod_nonneg)
  moreover have "y smod 32 < 32" using pos_mod_bound [of 32 y] pos_mod_sign [of 32 "- y"] by (auto simp: smod32)
  ultimately have "0 \<le> x smod 32 - y smod 32 + 32" by linarith
  then show ?thesis by (simp add: ModuloDiff_def Let_def smod_nonneg)
qed

lemma ModuloDiff_nonneg:
  assumes "0 \<le> x" "0 \<le> y"
  shows "ModuloDiff x y = (x - y) mod 32"
proof -
  have "0 \<le> x mod 32 - y mod 32 + 32" using pos_mod_sign [of 32 x] pos_mod_bound [of 32 y] by linarith
  then have "ModuloDiff x y = (x mod 32 - y mod 32 + 32) mod 32"
    using assms by (simp add: ModuloDiff_def Let_def smod_nonneg)
  then show ?thesis by (simp add: mod_diff_eq)
qed

lemma rotation_slot:
  fixes now seek rot k n :: int
  assumes "now + seek + rot = 500 * k"
  shows "(now + (seek + (rot + ((n - k) mod 32) * 500) + 500)) mod 500 = 0
       \<and> ((now + (seek + (rot + ((n - k) mod 32) * 500) + 500)) div 500 - 1) mod 32 = n mod 32"
proof -
  have slot: "now + (seek + (rot + ((n - k) mod 32) * 500) + 500) = 500 * (k + (n - k) mod 32 + 1)"
    using assms by (simp add: algebra_simps)
  have "(k + (n - k) mod 32) mod 32 = n mod 32" by (simp add: mod_simps)
  then show ?thesis unfolding slot by simp
qed

text \<open>A request for a sector takes between one sector time and a seek over all tracks plus a full
  turn, so that \<open>Schedule\<close> accepts it. While the clock fits in an \<open>int\<close>, a request that the track buffer does not
  serve ends exactly when the sector has passed under the head, the first time after the
  seek; one that it serves takes one sector time.\<close>

lemma ComputeLatency_rotation:
  assumes "sector_ok n" "sector_ok (lastSector d)" "0 \<le> now" "now < 2 ^ 31 - 16000"
  shows "let lat = ComputeLatency now n writing d; seek = \<bar>n div 32 - lastSector d div 32\<bar> * SeekTime in
     RotationTime \<le> lat \<and> lat < seek + 34 * RotationTime
   \<and> (if track_buffered now n writing d then lat = RotationTime
      else seek + RotationTime \<le> lat \<and> (now + lat) mod RotationTime = 0
         \<and> ((now + lat) div RotationTime - 1) mod SectorsPerTrack = n mod SectorsPerTrack)"
proof -
  let ?seek = "\<bar>n div 32 - lastSector d div 32\<bar> * 500"
  obtain rot where t: "TimeToSeek now n d = (?seek, rot)" "0 \<le> rot" "rot < 500" "(now + rot) mod 500 = 0"
    using TimeToSeek_ok [OF assms(1,2,3)] by metis
  have sk: "0 \<le> ?seek" "?seek \<le> 15500" using track_range [OF assms(1)] track_range [OF assms(2)] by auto
  define seek where "seek = ?seek"
  have "500 dvd seek" "500 dvd now + rot" using t(4) by (simp_all add: seek_def mod_eq_0_iff_dvd)
  then have "500 dvd now + seek + rot" by (metis add.assoc add.commute dvd_add)
  then obtain k where k: "now + seek + rot = 500 * k" by (rule dvdE)
  have b: "0 \<le> now + seek + rot" "now + seek + rot < 2 ^ 31" using sk t(2,3) assms(3,4) by (simp_all add: seek_def)
  then have after: "int32 (now + seek + rot) = 500 * k" "0 \<le> k" using k by (simp_all add: int32_id)
  have "ModuloDiff n ((500 * k) sdiv 500) = (n - k) mod 32"
    using assms(1) after(2) by (simp add: ModuloDiff_nonneg sdiv_nonneg sector_ok_def)
  then have lat: "ComputeLatency now n writing d =
      (if track_buffered now n writing d then 500 else seek + (rot + ((n - k) mod 32) * 500) + 500)"
    using t(1) after by (simp only: ComputeLatency_def Let_def seek_def [symmetric]) simp
  have m: "0 \<le> (n - k) mod 32" "(n - k) mod 32 < 32" by simp_all
  show ?thesis
  proof (cases "track_buffered now n writing d")
    case True
    then show ?thesis unfolding lat Let_def seek_def [symmetric] using sk(1) [folded seek_def] by simp
  next
    case False
    have "500 \<le> seek + (rot + ((n - k) mod 32) * 500) + 500" "seek + (rot + ((n - k) mod 32) * 500) + 500 < seek + 34 * 500"
      "seek + 500 \<le> seek + (rot + ((n - k) mod 32) * 500) + 500"
      using m t(2,3) sk by (simp_all add: seek_def)
    then show ?thesis unfolding lat Let_def seek_def [symmetric] using False rotation_slot [OF k, of n] by simp
  qed
qed

text \<open>A disk whose head has just read sector 5, at time 1234: the request for sector 40 on the next track.\<close>

definition demo_disk :: "nat Disk" where
  "demo_disk = \<lparr>fileno = \<lparr>fsize = DiskSize, fbyte = (\<lambda>_. 0)\<rparr>, dhandler = 0, dhandlerArg = 0, active = False, lastSector = 5, bufferInit = 0\<rparr>"

definition demo_sector :: "byte list" where
  "demo_sector = replicate 128 9"

lemma length_demo_sector [simp]: "length demo_sector = 128"
  by (simp add: demo_sector_def)

lemma ComputeLatency_pos:
  assumes "sector_ok n" "sector_ok (lastSector d)" "0 \<le> now"
  shows "0 < ComputeLatency now n writing d"
proof -
  obtain rot where t: "TimeToSeek now n d = (\<bar>n div 32 - lastSector d div 32\<bar> * 500, rot)" "0 \<le> rot"
    using TimeToSeek_ok [OF assms] by metis
  have "0 \<le> ModuloDiff n y" for y using ModuloDiff_range [of n y] assms(1) by (simp add: sector_ok_def)
  then show ?thesis using t by (simp add: ComputeLatency_def Let_def add_nonneg_pos)
qed

section \<open>Requests\<close>

definition disk_ok :: "'h Disk \<Rightarrow> bool" where
  "disk_ok d \<longleftrightarrow> sector_ok (lastSector d) \<and> DiskSize \<le> fsize (fileno d)"

definition sector_data :: "int \<Rightarrow> 'h Disk \<Rightarrow> byte list" where
  "sector_data n d = map (fbyte (fileno d)) [nat (SectorSize * n) + MagicSize..<nat (SectorSize * n) + MagicSize + 128]"

lemma length_sector_data [simp]: "length (sector_data n d) = 128"
  by (simp add: sector_data_def)

lemma UpdateLast_simps [simp]:
  "fileno (UpdateLast now n d) = fileno d" "active (UpdateLast now n d) = active d"
  "lastSector (UpdateLast now n d) = n" "dhandler (UpdateLast now n d) = dhandler d"
  by (simp_all add: UpdateLast_def split: prod.splits)

lemma sector_data_fileno: "fileno d' = fileno d \<Longrightarrow> sector_data m d' = sector_data m d"
  by (simp add: sector_data_def)

lemma sector_data_write:
  assumes "sector_ok m" "sector_ok n" "length data = 128" "DiskSize \<le> fsize (fileno d)"
    "fileno d' = WriteFile (nat (SectorSize * n) + MagicSize) data (fileno d)"
  shows "sector_data m d' = (if m = n then data else sector_data m d)"
proof (rule nth_equalityI)
  fix i assume "i < length (sector_data m d')"
  then have i: "i < 128" by simp
  obtain a b where ab: "m = int a" "n = int b" "a < 1024" "b < 1024"
    using assms(1,2) by (metis sector_ok_def nonneg_int_cases of_nat_less_iff of_nat_numeral)
  have "nat (128 * m) = 128 * a" "nat (128 * n) = 128 * b" using ab by (simp_all add: nat_mult_distrib)
  then show "sector_data m d' ! i = (if m = n then data else sector_data m d) ! i"
    using i ab assms(3,4) by (auto simp: sector_data_def assms(5) WriteFile_def)
qed (simp add: assms(3))

definition disk_scheduled :: "'h \<Rightarrow> addr \<Rightarrow> int \<Rightarrow> ('h, 'z) intr_scheme \<Rightarrow> ('h, 'z) intr_scheme \<Rightarrow> bool" where
  "disk_scheduled dd this lat s s' \<longleftrightarrow>
     (let t = totalTicks (stats s) + lat in pending s' = sorted_ins t (PendingInterrupt_new dd this t DiskInt) (pending s))
     \<and> level s' = level s \<and> ticks s' = ticks s"

lemma WriteRequest_ok:
  assumes "disk_ok d" "\<not> active d" "sector_ok n" "0 \<le> totalTicks (stats s)" "length data = 128"
  shows "\<exists>d' s'. WriteRequest dd this n data d s = Inr (d', s') \<and> active d' \<and> disk_ok d'
     \<and> disk_scheduled dd this (ComputeLatency (totalTicks (stats s)) n True d) s s'
     \<and> (\<forall>m. sector_ok m \<longrightarrow> sector_data m d' = (if m = n then data else sector_data m d))"
proof -
  let ?now = "totalTicks (stats s)"
  have pos: "0 < ComputeLatency ?now n True d" using assms by (intro ComputeLatency_pos) (simp_all add: disk_ok_def)
  have n: "0 \<le> n" "n < 1024" using assms(3) by (auto simp: sector_ok_def)
  have big: "DiskSize \<le> fsize (fileno d)" using assms(1) by (simp add: disk_ok_def)
  define d1 where "d1 = UpdateLast ?now n (d\<lparr>fileno := WriteFile (nat (SectorSize * n) + MagicSize) data (fileno d), active := True\<rparr>)"
  have d1: "fileno d1 = WriteFile (nat (SectorSize * n) + MagicSize) data (fileno d)" "active d1" "lastSector d1 = n"
    by (simp_all add: d1_def)
  have "\<forall>m. sector_ok m \<longrightarrow> sector_data m d1 = (if m = n then data else sector_data m d)"
    using sector_data_write [OF _ assms(3,5) big d1(1)] by blast
  moreover have "DiskSize \<le> fsize (WriteFile p data (fileno d))" for p using big by (simp add: WriteFile_def)
  then have "disk_ok d1" using d1 assms(3) by (simp add: disk_ok_def)
  moreover have "WriteRequest dd this n data d s = rbind (Schedule dd this (ComputeLatency ?now n True d) DiskInt
      (s\<lparr>stats := (stats s)\<lparr>numDiskWrites := numDiskWrites (stats s) + 1\<rparr>\<rparr>)) (\<lambda>s'. Inr (d1, s'))"
    using n assms(2,5) by (simp add: WriteRequest_def Let_def d1_def)
  ultimately show ?thesis using pos d1(2) by (simp add: Schedule_def Let_def disk_scheduled_def ticks_def)
qed

lemma ReadRequest_ok:
  assumes "disk_ok d" "\<not> active d" "sector_ok n" "0 \<le> totalTicks (stats s)"
  shows "\<exists>d' s'. ReadRequest dd this n d s = Inr (sector_data n d, d', s') \<and> active d' \<and> disk_ok d'
     \<and> disk_scheduled dd this (ComputeLatency (totalTicks (stats s)) n False d) s s'
     \<and> (\<forall>m. sector_data m d' = sector_data m d)"
proof -
  let ?now = "totalTicks (stats s)"
  have pos: "0 < ComputeLatency ?now n False d" using assms by (intro ComputeLatency_pos) (simp_all add: disk_ok_def)
  have n: "0 \<le> n" "n < 1024" "nat (128 * n) + 4 + 128 \<le> DiskSize" using assms(3) by (auto simp: sector_ok_def)
  have big: "DiskSize \<le> fsize (fileno d)" using assms(1) by (simp add: disk_ok_def)
  have rd: "ReadFile (nat (128 * n) + 4) 128 (fileno d) = Inr (sector_data n d)"
    using n(3) big by (simp add: ReadFile_def sector_data_def)
  define d1 where "d1 = UpdateLast ?now n (d\<lparr>active := True\<rparr>)"
  have d1: "fileno d1 = fileno d" "active d1" "lastSector d1 = n" by (simp_all add: d1_def)
  have "\<forall>m. sector_data m d1 = sector_data m d" using sector_data_fileno [OF d1(1)] by blast
  moreover have "disk_ok d1" using d1 big assms(3) by (simp add: disk_ok_def)
  moreover have "ReadRequest dd this n d s = rbind (Schedule dd this (ComputeLatency ?now n False d) DiskInt
      (s\<lparr>stats := (stats s)\<lparr>numDiskReads := numDiskReads (stats s) + 1\<rparr>\<rparr>)) (\<lambda>s'. Inr (sector_data n d, d1, s'))"
    using n(1,2) assms(2) rd by (simp add: ReadRequest_def Let_def d1_def)
  ultimately show ?thesis using pos d1(2) by (simp add: Schedule_def Let_def disk_scheduled_def ticks_def)
qed

text \<open>C26: a disk that is idle accepts a request for any of its sectors. A write replaces the contents of
  that sector and no other, a read returns them and changes none; the disk is then busy, and
  one completion interrupt is pending, after the latency of the request.\<close>

theorem disk_requests:
  assumes "disk_ok d" "\<not> active d" "sector_ok n" "0 \<le> totalTicks (stats s)" "length data = 128"
  shows "(\<exists>d' s'. WriteRequest dd this n data d s = Inr (d', s') \<and> active d' \<and> disk_ok d'
            \<and> disk_scheduled dd this (ComputeLatency (totalTicks (stats s)) n True d) s s'
            \<and> (\<forall>m. sector_ok m \<longrightarrow> sector_data m d' = (if m = n then data else sector_data m d)))
       \<and> (\<exists>d' s'. ReadRequest dd this n d s = Inr (sector_data n d, d', s') \<and> active d' \<and> disk_ok d'
            \<and> disk_scheduled dd this (ComputeLatency (totalTicks (stats s)) n False d) s s'
            \<and> (\<forall>m. sector_data m d' = sector_data m d))"
  using WriteRequest_ok [OF assms] ReadRequest_ok [OF assms(1-4)] by (rule conjI)

theorem disk_requests_witness:
  "\<exists>d' s'. WriteRequest 7 1 40 demo_sector demo_disk (Interrupt_new (\<lambda>_. 0)) = Inr (d', s') \<and> active d'
     \<and> sector_data 40 d' = demo_sector \<and> sector_data 41 d' = sector_data 41 demo_disk"
  using disk_requests [of demo_disk 40 "Interrupt_new (\<lambda>_. 0)" demo_sector 7 1]
  by (auto simp: disk_ok_def demo_disk_def sector_ok_def Interrupt_new_def Statistics_new_def)

text \<open>The disk serves one request at a time and only sectors that exist: a request on a busy disk, or
  for a number out of range, fails an assertion.\<close>

lemma disk_refusals:
  assumes "active d \<or> \<not> sector_ok n"
  shows "ReadRequest dd this n d s = Inl AssertFail \<and> WriteRequest dd this n data d s = Inl AssertFail"
  using assms by (auto simp: ReadRequest_def WriteRequest_def Let_def sector_ok_def ASSERT_def)

text \<open>With the locks as they are in threads/synch.cc, no operation of the synchronous disk succeeds.\<close>

lemma SynchDisk_unusable:
  "SynchDisk_new be f rq this sem k = Inl AssertFail"
  "ReadSector D dd this sem n d k = Some (Inl AssertFail)" "WriteSector D dd this sem n data d k = Some (Inl AssertFail)"
  by (simp_all add: SynchDisk_new_def ReadSector_def WriteSector_def Lock_new_def Lock_Acquire_def)

end
