(* ===== verification/FileModel.thy ===== *)
theory FileModel
  imports DiskModel BitMapModel
begin

unbundle bit_operations_syntax

text \<open>
  Files of the Nachos file system: file headers (filesys/filehdr.h, filesys/filehdr.cc), open files
  (filesys/openfile.h, filesys/openfile.cc, the part under \<open>FILESYS\<close>), and the transfer of a bit map
  to and from a file (userprog/bitmap.cc).

  The routines reach the disk through \<open>synchDisk->ReadSector\<close> and \<open>synchDisk->WriteSector\<close>, here the
  arguments \<open>rd\<close> and \<open>wr\<close>. What the file system relies on is the locale \<open>sector_store\<close>; it is
  interpreted on the disk of theory DiskModel, whose completion interrupt is taken by
  \<open>CheckIfDue\<close> as in \<open>Interrupt::Idle\<close>. The byte order of the host is the argument \<open>be\<close>.
\<close>

section \<open>Data\<close>

type_synonym 'd sector_read = "int \<Rightarrow> 'd \<Rightarrow> (byte list \<times> 'd) res"
type_synonym 'd sector_write = "int \<Rightarrow> byte list \<Rightarrow> 'd \<Rightarrow> 'd res"

abbreviation (input) "NumDirect \<equiv> (30 :: nat)"

record FileHeader =
  numBytes :: int
  numSectors :: int
  dataSectors :: "int list"

record OpenFile =
  hdr :: FileHeader
  seekPosition :: int

section \<open>File headers\<close>

text \<open>The loop of \<open>Allocate\<close>; the array has \<open>NumDirect\<close> entries, and nothing else bounds the loop.\<close>

fun alloc_loop :: "nat \<Rightarrow> nat \<Rightarrow> FileHeader \<Rightarrow> bitmap \<Rightarrow> (FileHeader \<times> bitmap) res" where
  "alloc_loop 0 i h freeMap = Inr (h, freeMap)"
| "alloc_loop (Suc n) i h freeMap =
     rbind (Find freeMap) (\<lambda>(k, freeMap').
     if i < length (dataSectors h)
     then alloc_loop n (Suc i) (h\<lparr>dataSectors := (dataSectors h)[i := k]\<rparr>) freeMap'
     else Inl WildAccess)"

definition Allocate :: "bitmap \<Rightarrow> int \<Rightarrow> FileHeader \<Rightarrow> (bool \<times> FileHeader \<times> bitmap) res" where
  "Allocate freeMap fileSize h =
     (let h1 = h\<lparr>numBytes := fileSize, numSectors := divRoundUp fileSize SectorSize\<rparr> in
      rbind (NumClear freeMap) (\<lambda>c.
      if c < numSectors h1 then Inr (False, h1, freeMap)
      else rbind (alloc_loop (nat (numSectors h1)) 0 h1 freeMap) (\<lambda>(h2, freeMap'). Inr (True, h2, freeMap'))))"

fun dealloc_loop :: "nat \<Rightarrow> nat \<Rightarrow> FileHeader \<Rightarrow> bitmap \<Rightarrow> bitmap res" where
  "dealloc_loop 0 i h freeMap = Inr freeMap"
| "dealloc_loop (Suc n) i h freeMap =
     (if i < length (dataSectors h)
      then rbind (Test (dataSectors h ! i) freeMap) (\<lambda>t.
           rbind (ASSERT t) (\<lambda>_.
           rbind (Clear (dataSectors h ! i) freeMap) (dealloc_loop n (Suc i) h)))
      else Inl WildAccess)"

definition Deallocate :: "FileHeader \<Rightarrow> bitmap \<Rightarrow> bitmap res" where
  "Deallocate h freeMap = dealloc_loop (nat (numSectors h)) 0 h freeMap"

text \<open>A header as the bytes of one sector, and back.\<close>

definition bytes_int :: "bool \<Rightarrow> byte list \<Rightarrow> int" where
  "bytes_int be bs =
     (let cs = (if be then rev bs else bs) in
      sint (ucast (cs ! 0) OR push_bit 8 (ucast (cs ! 1)) OR push_bit 16 (ucast (cs ! 2)) OR push_bit 24 (ucast (cs ! 3)) :: 32 word))"

definition hdr_bytes :: "bool \<Rightarrow> FileHeader \<Rightarrow> byte list" where
  "hdr_bytes be h = concat (map (\<lambda>z. int_bytes be (word_of_int z)) (numBytes h # numSectors h # dataSectors h))"

definition hdr_of :: "bool \<Rightarrow> byte list \<Rightarrow> FileHeader" where
  "hdr_of be bs =
     (let field = (\<lambda>i. bytes_int be (take 4 (drop (4 * i) bs))) in
      \<lparr>numBytes = field 0, numSectors = field 1, dataSectors = map (\<lambda>i. field (i + 2)) [0..<NumDirect]\<rparr>)"

definition FetchFrom :: "bool \<Rightarrow> 'd sector_read \<Rightarrow> int \<Rightarrow> 'd \<Rightarrow> (FileHeader \<times> 'd) res" where
  "FetchFrom be rd sector d = rbind (rd sector d) (\<lambda>(bs, d'). Inr (hdr_of be bs, d'))"

definition WriteBack :: "bool \<Rightarrow> 'd sector_write \<Rightarrow> int \<Rightarrow> FileHeader \<Rightarrow> 'd \<Rightarrow> 'd res" where
  "WriteBack be wr sector h d = wr sector (hdr_bytes be h) d"

definition ByteToSector :: "int \<Rightarrow> FileHeader \<Rightarrow> int res" where
  "ByteToSector offset h =
     (let i = offset sdiv SectorSize in
      if 0 \<le> i \<and> nat i < length (dataSectors h) then Inr (dataSectors h ! nat i) else Inl WildAccess)"

definition FileLength :: "FileHeader \<Rightarrow> int" where
  "FileLength h = numBytes h"

section \<open>Open files\<close>

definition OpenFile_new :: "bool \<Rightarrow> 'd sector_read \<Rightarrow> int \<Rightarrow> 'd \<Rightarrow> (OpenFile \<times> 'd) res" where
  "OpenFile_new be rd sector d = rbind (FetchFrom be rd sector d) (\<lambda>(h, d'). Inr (\<lparr>hdr = h, seekPosition = 0\<rparr>, d'))"

definition Seek :: "int \<Rightarrow> OpenFile \<Rightarrow> OpenFile" where
  "Seek position f = f\<lparr>seekPosition := position\<rparr>"

text \<open>The loops over the sectors \<open>i\<close>, \<open>i + 1\<close>, \<open>\<dots>\<close> of a file; the buffer is the concatenation.\<close>

fun read_sectors :: "'d sector_read \<Rightarrow> FileHeader \<Rightarrow> int \<Rightarrow> nat \<Rightarrow> 'd \<Rightarrow> (byte list \<times> 'd) res" where
  "read_sectors rd h i 0 d = Inr ([], d)"
| "read_sectors rd h i (Suc n) d =
     rbind (ByteToSector (i * SectorSize) h) (\<lambda>s.
     rbind (rd s d) (\<lambda>(bs, d1).
     rbind (read_sectors rd h (i + 1) n d1) (\<lambda>(rest, d2). Inr (bs @ rest, d2))))"

fun write_sectors :: "'d sector_write \<Rightarrow> FileHeader \<Rightarrow> int \<Rightarrow> nat \<Rightarrow> byte list \<Rightarrow> 'd \<Rightarrow> 'd res" where
  "write_sectors wr h i 0 buf d = Inr d"
| "write_sectors wr h i (Suc n) buf d =
     rbind (ByteToSector (i * SectorSize) h) (\<lambda>s.
     rbind (wr s (take (nat SectorSize) buf) d) (\<lambda>d1.
     write_sectors wr h (i + 1) n (drop (nat SectorSize) buf) d1))"

text \<open>The part of a request that lies inside the file.\<close>

definition clamp :: "FileHeader \<Rightarrow> int \<Rightarrow> int \<Rightarrow> int" where
  "clamp h nBytes position =
     (if int32 (position + nBytes) > FileLength h then FileLength h - position else nBytes)"

definition ReadAt :: "'d sector_read \<Rightarrow> FileHeader \<Rightarrow> int \<Rightarrow> int \<Rightarrow> 'd \<Rightarrow> (byte list \<times> 'd) res" where
  "ReadAt rd h nBytes position d =
     (if nBytes \<le> 0 \<or> position \<ge> FileLength h then Inr ([], d)
      else
        let n = clamp h nBytes position;
            firstSector = divRoundDown position SectorSize;
            last = divRoundDown (int32 (position + n - 1)) SectorSize;
            cnt = 1 + last - firstSector;
            off = position - firstSector * SectorSize in
        if cnt < 0 then Inl BadAlloc
        else rbind (read_sectors rd h firstSector (nat cnt) d) (\<lambda>(buf, d').
          if 0 \<le> off \<and> off + n \<le> int (length buf)
          then Inr (take (nat n) (drop (nat off) buf), d') else Inl WildAccess))"

text \<open>\<open>bcopy\<close> into a buffer.\<close>

definition overlay :: "nat \<Rightarrow> byte list \<Rightarrow> byte list \<Rightarrow> byte list" where
  "overlay k bs buf = take k buf @ bs @ drop (k + length bs) buf"

text \<open>\<open>WriteAt\<close>; \<open>garbage\<close> is what the new buffer holds. The result is the number of bytes written.\<close>

definition WriteAt ::
  "'d sector_read \<Rightarrow> 'd sector_write \<Rightarrow> (nat \<Rightarrow> byte) \<Rightarrow> FileHeader \<Rightarrow> byte list \<Rightarrow> int \<Rightarrow> int \<Rightarrow> 'd \<Rightarrow> (int \<times> 'd) res" where
  "WriteAt rd wr garbage h data nBytes position d =
     (if nBytes \<le> 0 \<or> position \<ge> FileLength h then Inr (0, d)
      else
        let n = clamp h nBytes position;
            firstSector = divRoundDown position SectorSize;
            last = divRoundDown (int32 (position + n - 1)) SectorSize;
            cnt = 1 + last - firstSector;
            off = position - firstSector * SectorSize;
            firstAligned = (position = firstSector * SectorSize);
            lastAligned = (position + n = (last + 1) * SectorSize) in
        if cnt < 0 then Inl BadAlloc
        else
          let buf0 = map garbage [0..<nat (cnt * SectorSize)] in
          rbind (if \<not> firstAligned
                 then rbind (ReadAt rd h SectorSize (firstSector * SectorSize) d) (\<lambda>(bs, d1). Inr (overlay 0 bs buf0, d1))
                 else Inr (buf0, d)) (\<lambda>(buf1, d1).
          rbind (if \<not> lastAligned \<and> (firstSector \<noteq> last \<or> firstAligned)
                 then rbind (ReadAt rd h SectorSize (last * SectorSize) d1) (\<lambda>(bs, d2).
                        Inr (overlay (nat ((last - firstSector) * SectorSize)) bs buf1, d2))
                 else Inr (buf1, d1)) (\<lambda>(buf2, d2).
          if 0 \<le> off \<and> off + n \<le> int (length buf2) \<and> n \<le> int (length data)
          then rbind (write_sectors wr h firstSector (nat cnt) (overlay (nat off) (take (nat n) data) buf2) d2) (\<lambda>d3. Inr (n, d3))
          else Inl WildAccess)))"

definition OpenFile_Read :: "'d sector_read \<Rightarrow> int \<Rightarrow> OpenFile \<Rightarrow> 'd \<Rightarrow> (byte list \<times> OpenFile \<times> 'd) res" where
  "OpenFile_Read rd nBytes f d =
     rbind (ReadAt rd (hdr f) nBytes (seekPosition f) d) (\<lambda>(bs, d').
     Inr (bs, f\<lparr>seekPosition := seekPosition f + int (length bs)\<rparr>, d'))"

definition OpenFile_Write ::
  "'d sector_read \<Rightarrow> 'd sector_write \<Rightarrow> (nat \<Rightarrow> byte) \<Rightarrow> byte list \<Rightarrow> int \<Rightarrow> OpenFile \<Rightarrow> 'd \<Rightarrow> (int \<times> OpenFile \<times> 'd) res" where
  "OpenFile_Write rd wr garbage data nBytes f d =
     rbind (WriteAt rd wr garbage (hdr f) data nBytes (seekPosition f) d) (\<lambda>(n, d').
     Inr (n, f\<lparr>seekPosition := seekPosition f + n\<rparr>, d'))"

definition OpenFile_Length :: "OpenFile \<Rightarrow> int" where
  "OpenFile_Length f = FileLength (hdr f)"

section \<open>Bit maps in files\<close>

fun words_of :: "bool \<Rightarrow> byte list \<Rightarrow> (32 word) list" where
  "words_of be (a # b # c # e # bs) = word_of_int (bytes_int be [a, b, c, e]) # words_of be bs"
| "words_of be _ = []"

text \<open>The words that \<open>ReadAt\<close> does not fill keep their value.\<close>

definition BitMap_FetchFrom :: "bool \<Rightarrow> 'd sector_read \<Rightarrow> OpenFile \<Rightarrow> bitmap \<Rightarrow> 'd \<Rightarrow> (bitmap \<times> 'd) res" where
  "BitMap_FetchFrom be rd f b d =
     rbind (ReadAt rd (hdr f) (numWords b * 4) 0 d) (\<lambda>(bs, d').
     Inr (b\<lparr>wmap := words_of be (overlay 0 bs (concat (map (int_bytes be) (wmap b))))\<rparr>, d'))"

definition BitMap_WriteBack ::
  "bool \<Rightarrow> 'd sector_read \<Rightarrow> 'd sector_write \<Rightarrow> (nat \<Rightarrow> byte) \<Rightarrow> OpenFile \<Rightarrow> bitmap \<Rightarrow> 'd \<Rightarrow> 'd res" where
  "BitMap_WriteBack be rd wr garbage f b d =
     rbind (WriteAt rd wr garbage (hdr f) (concat (map (int_bytes be) (wmap b))) (numWords b * 4) 0 d) (\<lambda>(_, d'). Inr d')"

section \<open>Encoding\<close>

lemma length_int_bytes [simp]: "length (int_bytes be w) = 4"
  by (simp add: int_bytes_def Let_def)

lemma word_join:
  "(ucast (ucast (w :: 32 word) :: byte) OR push_bit 8 (ucast (ucast (drop_bit 8 w) :: byte))
     OR push_bit 16 (ucast (ucast (drop_bit 16 w) :: byte)) OR push_bit 24 (ucast (ucast (drop_bit 24 w) :: byte))) = w"
  by (rule word_eq_by_bytes) (simp_all add: bit_simps)

lemma bytes_int_bytes [simp]: "bytes_int be (int_bytes be w) = sint w"
  by (simp add: bytes_int_def int_bytes_def Let_def word_join)

lemma take_drop_concat:
  "(\<forall>x \<in> set xs. length (f x) = c) \<Longrightarrow> i < length xs \<Longrightarrow> take c (drop (c * i) (concat (map f xs))) = f (xs ! i)"
proof (induction xs arbitrary: i)
  case (Cons x xs)
  then show ?case by (cases i) (simp_all add: add.commute)
qed simp

lemma length_concat_const: "(\<forall>x \<in> set xs. length (f x) = c) \<Longrightarrow> length (concat (map f xs)) = c * length xs"
  by (induction xs) simp_all

definition hdr_ints :: "FileHeader \<Rightarrow> bool" where
  "hdr_ints h \<longleftrightarrow> length (dataSectors h) = NumDirect
     \<and> (\<forall>z \<in> set (numBytes h # numSectors h # dataSectors h). - (2 ^ 31) \<le> z \<and> z < 2 ^ 31)"

lemma hdr_bytes_of:
  assumes "hdr_ints h"
  shows "hdr_of be (hdr_bytes be h) = h" "length (hdr_bytes be h) = 128"
proof -
  let ?zs = "numBytes h # numSectors h # dataSectors h"
  have len: "length (dataSectors h) = 30" using assms by (simp add: hdr_ints_def)
  have field: "bytes_int be (take 4 (drop (4 * i) (hdr_bytes be h))) = ?zs ! i" if "i < 32" for i
  proof -
    have "?zs ! i \<in> set ?zs" using that len by (intro nth_mem) simp
    then have "sint (word_of_int (?zs ! i) :: 32 word) = ?zs ! i"
      using assms int32_id [of "?zs ! i"] by (simp only: hdr_ints_def int32_def)
    then show ?thesis using that len unfolding hdr_bytes_def by (subst take_drop_concat) simp_all
  qed
  have "bytes_int be (take 4 (drop (4 * (i + 2)) (hdr_bytes be h))) = dataSectors h ! i" if "i < 30" for i
    using field [of "i + 2"] that by simp
  then have "map (\<lambda>i. bytes_int be (take 4 (drop (4 * (i + 2)) (hdr_bytes be h)))) [0..<30] = dataSectors h"
    using len by (intro nth_equalityI) simp_all
  then show "hdr_of be (hdr_bytes be h) = h" using field [of 0] field [of 1] by (simp add: hdr_of_def Let_def)
  show "length (hdr_bytes be h) = 128" using len unfolding hdr_bytes_def by (subst length_concat_const) simp_all
qed

section \<open>The interface to the disk\<close>

text \<open>
  What a file relies on: with \<open>ok\<close> kept, a read of a sector that exists returns its contents and a
  write replaces them, and both leave the other sectors alone.
\<close>

locale sector_store =
  fixes rd :: "'d sector_read" and wr :: "'d sector_write"
    and ok :: "'d \<Rightarrow> bool" and sec :: "'d \<Rightarrow> int \<Rightarrow> byte list"
  assumes length_sec: "length (sec d n) = 128"
    and rd_law: "ok d \<Longrightarrow> sector_ok n \<Longrightarrow> \<exists>d'. rd n d = Inr (sec d n, d') \<and> ok d' \<and> (\<forall>m. sector_ok m \<longrightarrow> sec d' m = sec d m)"
    and wr_law: "ok d \<Longrightarrow> sector_ok n \<Longrightarrow> length data = 128 \<Longrightarrow>
        \<exists>d'. wr n data d = Inr d' \<and> ok d' \<and> (\<forall>m. sector_ok m \<longrightarrow> sec d' m = (if m = n then data else sec d m))"

text \<open>A header that describes a file: as many sectors as its length needs, all of the disk, none twice.\<close>

definition file_sectors :: "FileHeader \<Rightarrow> int list" where
  "file_sectors h = take (nat (numSectors h)) (dataSectors h)"

definition hdr_ok :: "FileHeader \<Rightarrow> bool" where
  "hdr_ok h \<longleftrightarrow> 0 \<le> numBytes h \<and> numSectors h = divRoundUp (numBytes h) SectorSize
     \<and> numSectors h \<le> int NumDirect \<and> length (dataSectors h) = NumDirect
     \<and> distinct (file_sectors h) \<and> (\<forall>n \<in> set (file_sectors h). sector_ok n)"

text \<open>The contents of a file, given the contents of the sectors.\<close>

definition contents :: "(int \<Rightarrow> byte list) \<Rightarrow> FileHeader \<Rightarrow> byte list" where
  "contents sc h = take (nat (numBytes h)) (concat (map sc (file_sectors h)))"

definition nsec :: "FileHeader \<Rightarrow> nat" where
  "nsec h = nat (numSectors h)"

lemma hdr_ok_facts:
  assumes "hdr_ok h"
  shows "length (file_sectors h) = nsec h" "nsec h \<le> 30" "nat (numBytes h) \<le> 128 * nsec h" "numBytes h \<le> 3840"
    "128 * nsec h < nat (numBytes h) + 128" "\<And>i. i < nsec h \<Longrightarrow> dataSectors h ! i = file_sectors h ! i"
    "\<And>i. i < nsec h \<Longrightarrow> sector_ok (file_sectors h ! i)"
proof -
  have n: "0 \<le> numBytes h" "numSectors h = divRoundUp (numBytes h) 128" "numSectors h \<le> 30" "length (dataSectors h) = 30"
    using assms by (simp_all add: hdr_ok_def)
  have u: "numBytes h \<le> numSectors h * 128" using divRoundUp_le_iff [OF n(1), of 128 "numSectors h"] n(2) by simp
  have l: "\<not> numBytes h \<le> (numSectors h - 1) * 128" using divRoundUp_le_iff [OF n(1), of 128 "numSectors h - 1"] n(2) by simp
  have p: "0 \<le> numSectors h" using divRoundUp_nonneg [OF n(1), of 128] n(2) by simp
  show len: "length (file_sectors h) = nsec h" using n(3,4) by (simp add: file_sectors_def nsec_def)
  show "nsec h \<le> 30" "nat (numBytes h) \<le> 128 * nsec h" "numBytes h \<le> 3840" "128 * nsec h < nat (numBytes h) + 128"
    using u l p n(1,3) by (simp_all add: nsec_def nat_le_iff)
  show "dataSectors h ! i = file_sectors h ! i" if "i < nsec h" for i using that by (simp add: file_sectors_def nsec_def)
  show "sector_ok (file_sectors h ! i)" if "i < nsec h" for i
    using assms that len by (metis hdr_ok_def nth_mem)
qed

lemma ByteToSector_ok:
  assumes "hdr_ok h" "i < nsec h"
  shows "ByteToSector (int i * SectorSize) h = Inr (file_sectors h ! i)"
  using hdr_ok_facts [OF assms(1)] assms by (simp add: ByteToSector_def Let_def sdiv_nonneg hdr_ok_def)

lemma concat_chunks:
  assumes "\<forall>x \<in> set xs. length (f x) = c"
  shows "concat (map f (take n (drop i xs))) = take (c * n) (drop (c * i) (concat (map f xs)))"
proof -
  have t: "concat (map f (take n ys)) = take (c * n) (concat (map f ys))" if "\<forall>x \<in> set ys. length (f x) = c" for ys n
    using that
  proof (induction ys arbitrary: n)
    case (Cons y ys)
    then show ?case by (cases n) simp_all
  qed simp
  have d: "concat (map f (drop i ys)) = drop (c * i) (concat (map f ys))" if "\<forall>x \<in> set ys. length (f x) = c" for ys i
    using that
  proof (induction ys arbitrary: i)
    case (Cons y ys)
    then show ?case by (cases i) simp_all
  qed simp
  have "\<forall>x \<in> set (drop i xs). length (f x) = c" using assms by (meson in_set_dropD)
  then show ?thesis using t d [OF assms] by simp
qed

text \<open>The sectors that a request of \<open>n\<close> bytes at \<open>p\<close> touches.\<close>

lemma sector_span:
  fixes p n k :: nat
  assumes "0 < n" "p + n \<le> 128 * k"
  defines "f \<equiv> p div 128" and "l \<equiv> (p + n - 1) div 128"
  shows "f \<le> l" "l < k" "p = 128 * f + p mod 128" "p mod 128 + n \<le> 128 * (1 + l - f)" "128 * (l - f) < p mod 128 + n"
    "128 * (1 + l - f) \<le> 128 * k - 128 * f"
proof -
  show p: "p = 128 * f + p mod 128" by (simp add: f_def)
  have l: "128 * l \<le> p + n - 1" "p + n - 1 < 128 * l + 128"
    using div_mult_mod_eq [of "p + n - 1" 128] mod_less_divisor [of 128 "p + n - 1"] unfolding l_def by linarith+
  show fl: "f \<le> l" unfolding f_def l_def using assms(1) by (intro div_le_mono) simp
  show lk: "l < k" using assms(1,2) l by simp
  show "128 * (1 + l - f) \<le> 128 * k - 128 * f" unfolding diff_mult_distrib2 using lk by (intro diff_le_mono) simp
  show "p mod 128 + n \<le> 128 * (1 + l - f)" "128 * (l - f) < p mod 128 + n" using l p fl assms(1) by (simp_all add: algebra_simps)
qed

lemma clamp_eq:
  assumes "hdr_ok h" "0 \<le> pos" "pos < numBytes h" "0 < nBytes" "pos + nBytes < 2 ^ 31"
  shows "clamp h nBytes pos = min nBytes (numBytes h - pos)"
  using assms by (auto simp: clamp_def FileLength_def int32_id min_def)

text \<open>The variables of \<open>ReadAt\<close> and \<open>WriteAt\<close> on a request that starts inside the file.\<close>

lemma request_span:
  assumes "hdr_ok h" "0 \<le> pos" "pos < numBytes h" "0 < nBytes" "pos + nBytes < 2 ^ 31"
  obtains p n where "pos = int p" "clamp h nBytes pos = int n" "n = min (nat nBytes) (nat (numBytes h) - p)" "0 < n"
    "p + n \<le> nat (numBytes h)" "p + n \<le> 128 * nsec h" "divRoundDown pos SectorSize = int (p div 128)"
    "divRoundDown (int32 (pos + int n - 1)) SectorSize = int ((p + n - 1) div 128)"
    "1 + int ((p + n - 1) div 128) - int (p div 128) = int (1 + (p + n - 1) div 128 - p div 128)"
    "pos - int (p div 128) * SectorSize = int (p mod 128)"
proof -
  obtain p where p: "pos = int p" using assms(2) nonneg_int_cases by blast
  define n where "n = min (nat nBytes) (nat (numBytes h) - p)"
  have n: "0 < n" "p + n \<le> nat (numBytes h)" using assms(3,4) p by (auto simp: n_def)
  have "clamp h nBytes pos = min nBytes (numBytes h - int p)" using clamp_eq [OF assms] p by simp
  also have "numBytes h - int p = int (nat (numBytes h) - p)" using assms(3) p by (subst of_nat_diff) auto
  also have "min nBytes (int (nat (numBytes h) - p)) = int n" using assms(4) by (simp add: n_def of_nat_min)
  finally have cl: "clamp h nBytes pos = int n" .
  have k: "p + n \<le> 128 * nsec h" using n(2) hdr_ok_facts(3) [OF assms(1)] by simp
  have fst: "divRoundDown pos 128 = int (p div 128)" using p by (simp add: divRoundDown_nonneg zdiv_int)
  have "pos + int n - 1 = int (p + n - 1)" using n(1) p by simp
  moreover have "int32 (int (p + n - 1)) = int (p + n - 1)"
    using n(2) hdr_ok_facts(4) [OF assms(1)] by (intro int32_id) simp_all
  ultimately have lst: "divRoundDown (int32 (pos + int n - 1)) 128 = int ((p + n - 1) div 128)"
    by (simp only:) (simp add: divRoundDown_nonneg zdiv_int)
  have cnt: "1 + int ((p + n - 1) div 128) - int (p div 128) = int (1 + (p + n - 1) div 128 - p div 128)"
    using sector_span(1) [OF n(1) k] by simp
  have off: "pos - int (p div 128) * 128 = int (p mod 128)"
    using sector_span(3) [OF n(1) k] p by (metis add_diff_cancel_left' mult.commute of_nat_add of_nat_mult of_nat_numeral)
  show thesis by (rule that [OF p cl n_def n k fst lst cnt off])
qed

lemma ReadAt_eval:
  assumes "0 < nBytes" "pos < numBytes h" "clamp h nBytes pos = int n" "divRoundDown pos SectorSize = int f"
    "divRoundDown (int32 (pos + int n - 1)) SectorSize = int l" "1 + int l - int f = int c" "pos - int f * SectorSize = int k"
    "read_sectors rd h (int f) c d = Inr (buf, d')" "k + n \<le> length buf"
  shows "ReadAt rd h nBytes pos d = Inr (take n (drop k buf), d')"
proof -
  have "\<not> (nBytes \<le> 0 \<or> numBytes h \<le> pos)" "\<not> int c < 0" "0 \<le> int k \<and> int k + int n \<le> int (length buf)"
    using assms(1,2,9) by linarith+
  then show ?thesis unfolding ReadAt_def Let_def FileLength_def assms(3,4,5,6,7) by (simp add: assms(8))
qed

lemma length_overlay [simp]: "k + length bs \<le> length buf \<Longrightarrow> length (overlay k bs buf) = length buf"
  by (simp add: overlay_def)

lemma nth_overlay:
  "k + length bs \<le> length buf \<Longrightarrow> i < length buf \<Longrightarrow>
   overlay k bs buf ! i = (if k \<le> i \<and> i < k + length bs then bs ! (i - k) else buf ! i)"
  by (auto simp: overlay_def nth_append min_def)

lemma WriteAt_eval:
  assumes "0 < nBytes" "pos < numBytes h" "clamp h nBytes pos = int n" "divRoundDown pos SectorSize = int f"
    "divRoundDown (int32 (pos + int n - 1)) SectorSize = int l" "1 + int l - int f = int c" "pos - int f * SectorSize = int k"
    "(if pos \<noteq> int f * SectorSize
      then rbind (ReadAt rd h SectorSize (int f * SectorSize) d) (\<lambda>(bs, d1). Inr (overlay 0 bs (map garbage [0..<128 * c]), d1))
      else Inr (map garbage [0..<128 * c], d)) = Inr (buf1, d1)"
    "(if pos + int n \<noteq> (int l + 1) * SectorSize \<and> (int f \<noteq> int l \<or> pos = int f * SectorSize)
      then rbind (ReadAt rd h SectorSize (int l * SectorSize) d1) (\<lambda>(bs, d2). Inr (overlay (nat ((int l - int f) * SectorSize)) bs buf1, d2))
      else Inr (buf1, d1)) = Inr (buf2, d2)"
    "k + n \<le> length buf2" "n \<le> length data" "write_sectors wr h (int f) c (overlay k (take n data) buf2) d2 = Inr d3"
  shows "WriteAt rd wr garbage h data nBytes pos d = Inr (int n, d3)"
proof -
  have c: "\<not> (nBytes \<le> 0 \<or> numBytes h \<le> pos)" "\<not> int c < 0" "nat (int c * 128) = 128 * c"
    "0 \<le> int k \<and> int k + int n \<le> int (length buf2) \<and> int n \<le> int (length data)"
    using assms(1,2,10,11) by linarith+
  show ?thesis unfolding WriteAt_def Let_def FileLength_def assms(3,4,5,6,7) c(3)
    using c(1,2,4) by (simp only: if_False if_True assms(8,9,12) rbind_simps prod.case nat_int simp_thms)
qed

lemma contents_cong:
  "(\<And>m. m \<in> set (file_sectors h) \<Longrightarrow> sc m = sc' m) \<Longrightarrow> contents sc h = contents sc' h"
  unfolding contents_def by (metis map_cong)

lemma aligned_iff:
  fixes p f o1 c l n :: nat
  assumes "p = 128 * f + o1" "c + f = 1 + l"
  shows "int p = int f * 128 \<longleftrightarrow> o1 = 0" "int p + int n = (int l + 1) * 128 \<longleftrightarrow> o1 + n = 128 * c"
  using assms by auto

lemma prefill_bytes:
  assumes "bs1 = take 128 (drop (128 * f) C)" "bs2 = take 128 (drop (128 * l) C)"
    "buf1 = (if o1 \<noteq> 0 then overlay 0 bs1 buf0 else buf0)"
    "buf2 = (if o1 + n \<noteq> 128 * (1 + l - f) \<and> (f \<noteq> l \<or> o1 = 0) then overlay (128 * (l - f)) bs2 buf1 else buf1)"
    "length buf0 = 128 * (1 + l - f)" "f \<le> l" "o1 < 128" "128 * (l - f) < o1 + n"
    "k < length buf0" "128 * f + k < length C" "k < o1 \<or> o1 + n \<le> k"
  shows "buf2 ! k = C ! (128 * f + k)"
proof -
  have len: "length bs1 \<le> 128" "length bs2 \<le> 128" "length buf1 = length buf0" using assms(1-3,5,6) by auto
  have one: "128 \<le> length buf0" "length buf0 = 128 * (l - f) + 128" using assms(5,6) by simp_all
  have kC: "k < length C - 128 * f" using assms(10) by linarith
  have in1: "overlay 0 bs1 buf0 ! k = C ! (128 * f + k)" if "k < 128"
    using that assms(1,9,10) len(1) one kC by (subst nth_overlay) simp_all
  have in2: "overlay (128 * (l - f)) bs2 buf1 ! k = C ! (128 * f + k)" if "128 * (l - f) \<le> k"
  proof -
    have e: "128 * l + (k - 128 * (l - f)) = 128 * f + k" using that assms(6) by (simp add: algebra_simps)
    then have "k < 128 * (l - f) + length bs2" using assms(2,9,10) one by simp
    then have "overlay (128 * (l - f)) bs2 buf1 ! k = bs2 ! (k - 128 * (l - f))"
      using that len one assms(9) by (subst nth_overlay) simp_all
    also have "\<dots> = C ! (128 * l + (k - 128 * (l - f)))" using assms(2,9,10) one e that by simp
    finally show ?thesis using e by simp
  qed
  show ?thesis
  proof (cases "o1 + n \<noteq> 128 * (1 + l - f) \<and> (f \<noteq> l \<or> o1 = 0)")
    case True
    show ?thesis
    proof (cases "128 * (l - f) \<le> k")
      case True
      then show ?thesis using in2 assms(4) \<open>o1 + n \<noteq> _ \<and> _\<close> by simp
    next
      case False
      then have "k < o1" using assms(8,11) by simp
      then have "k < 128" "o1 \<noteq> 0" using assms(7) by simp_all
      moreover have "overlay (128 * (l - f)) bs2 buf1 ! k = buf1 ! k"
        using False len one assms(9) by (subst nth_overlay) simp_all
      ultimately show ?thesis using in1 assms(3,4) True by simp
    qed
  next
    case False
    have "o1 \<noteq> 0 \<and> k < 128"
    proof (cases "k < o1")
      case True then show ?thesis using assms(7) by simp
    next
      case no: False
      then have "o1 + n \<noteq> 128 * (1 + l - f)" using assms(5,9,11) by simp
      then show ?thesis using False one assms(9) by simp
    qed
    then show ?thesis using in1 assms(3,4) False by auto
  qed
qed

lemma overlay_span:
  assumes "p = a + o1" "a + length buf \<le> length raw" "o1 + length w \<le> length buf" "N \<le> length raw" "p + length w \<le> N"
    "\<forall>k < length buf. a + k < N \<longrightarrow> k < o1 \<or> o1 + length w \<le> k \<longrightarrow> buf ! k = take N raw ! (a + k)"
  shows "take N (overlay a (overlay o1 w buf) raw) = overlay p w (take N raw)"
proof (rule nth_equalityI)
  show "length (take N (overlay a (overlay o1 w buf) raw)) = length (overlay p w (take N raw))" using assms(1-5) by simp
  fix i assume "i < length (take N (overlay a (overlay o1 w buf) raw))"
  then have i: "i < N" "i < length raw" using assms(2,3,4) by simp_all
  have r: "overlay p w (take N raw) ! i = (if p \<le> i \<and> i < p + length w then w ! (i - p) else raw ! i)"
    using i assms(4,5) by (subst nth_overlay) simp_all
  show "take N (overlay a (overlay o1 w buf) raw) ! i = overlay p w (take N raw) ! i"
  proof (cases "a \<le> i \<and> i < a + length buf")
    case True
    then have k: "i - a < length buf" "a + (i - a) = i" by linarith+
    have "take N (overlay a (overlay o1 w buf) raw) ! i = overlay o1 w buf ! (i - a)"
      using True i assms(2,3) by (subst nth_take, simp, subst nth_overlay) simp_all
    also have "\<dots> = (if o1 \<le> i - a \<and> i - a < o1 + length w then w ! (i - a - o1) else buf ! (i - a))"
      using k(1) assms(3) by (subst nth_overlay) simp_all
    also have "\<dots> = overlay p w (take N raw) ! i"
    proof (cases "o1 \<le> i - a \<and> i - a < o1 + length w")
      case True
      then have "p \<le> i \<and> i < p + length w" "i - a - o1 = i - p" using assms(1) k(2) by linarith+
      then show ?thesis using True r by simp
    next
      case False
      then have "\<not> (p \<le> i \<and> i < p + length w)" using assms(1) \<open>a \<le> i \<and> _\<close> by linarith
      moreover have "buf ! (i - a) = raw ! i" using assms(6) [rule_format, of "i - a"] k i False by auto
      ultimately show ?thesis unfolding r using False by (simp only: if_False)
    qed
    finally show ?thesis .
  next
    case False
    then have "\<not> (p \<le> i \<and> i < p + length w)" using assms(1,3) by linarith
    moreover have "take N (overlay a (overlay o1 w buf) raw) ! i = raw ! i"
      using False i assms(2,3) by (subst nth_take, simp, subst nth_overlay) auto
    ultimately show ?thesis unfolding r by (simp only: if_False)
  qed
qed

context sector_store
begin

lemma read_sectors_ok:
  assumes "hdr_ok h" "i + n \<le> nsec h" "ok d"
  shows "\<exists>d'. read_sectors rd h (int i) n d = Inr (concat (map (sec d) (take n (drop i (file_sectors h)))), d')
     \<and> ok d' \<and> (\<forall>m. sector_ok m \<longrightarrow> sec d' m = sec d m)"
  using assms(2,3)
proof (induction n arbitrary: i d)
  case (Suc n)
  have i: "i < nsec h" and len: "length (file_sectors h) = nsec h" using Suc.prems(1) hdr_ok_facts(1) [OF assms(1)] by simp_all
  obtain d1 where d1: "rd (file_sectors h ! i) d = Inr (sec d (file_sectors h ! i), d1)" "ok d1"
      "\<forall>m. sector_ok m \<longrightarrow> sec d1 m = sec d m"
    using rd_law [OF Suc.prems(2) hdr_ok_facts(7) [OF assms(1) i]] by blast
  obtain d2 where d2: "read_sectors rd h (int (Suc i)) n d1 = Inr (concat (map (sec d1) (take n (drop (Suc i) (file_sectors h)))), d2)"
      "ok d2" "\<forall>m. sector_ok m \<longrightarrow> sec d2 m = sec d1 m"
    using Suc.IH [of "Suc i" d1] Suc.prems(1) d1(2) by auto
  have "map (sec d1) (take n (drop (Suc i) (file_sectors h))) = map (sec d) (take n (drop (Suc i) (file_sectors h)))"
    using d1(3) assms(1) unfolding hdr_ok_def by (intro map_cong refl) (metis in_set_dropD in_set_takeD)
  note d2' = d2(1) [unfolded this]
  have "take (Suc n) (drop i (file_sectors h)) = file_sectors h ! i # take n (drop (Suc i) (file_sectors h))"
    using i len by (simp add: Cons_nth_drop_Suc [symmetric])
  then show ?case using d1 d2(2,3) d2' ByteToSector_ok [OF assms(1) i] by (simp add: algebra_simps)
qed simp

lemma read_span:
  assumes "hdr_ok h" "i + n \<le> nsec h" "ok d"
  shows "\<exists>d'. read_sectors rd h (int i) n d = Inr (take (128 * n) (drop (128 * i) (concat (map (sec d) (file_sectors h)))), d')
     \<and> ok d' \<and> (\<forall>m. sector_ok m \<longrightarrow> sec d' m = sec d m)"
  using read_sectors_ok [OF assms] concat_chunks [of "file_sectors h" "sec d" 128 n i] length_sec by simp

lemma ReadAt_ok:
  assumes "hdr_ok h" "ok d" "0 \<le> pos" "pos + nBytes < 2 ^ 31"
  shows "\<exists>d'. ReadAt rd h nBytes pos d = Inr (take (nat nBytes) (drop (nat pos) (contents (sec d) h)), d')
     \<and> ok d' \<and> (\<forall>m. sector_ok m \<longrightarrow> sec d' m = sec d m)"
proof (cases "nBytes \<le> 0 \<or> pos \<ge> numBytes h")
  case True
  then show ?thesis using assms(2,3) by (auto simp: ReadAt_def FileLength_def contents_def)
next
  case False
  then have "pos < numBytes h" "0 < nBytes" by simp_all
  from request_span [OF assms(1,3) this assms(4)] obtain p n where p: "pos = int p" and cl: "clamp h nBytes pos = int n"
    and n_def: "n = min (nat nBytes) (nat (numBytes h) - p)" and n: "0 < n" "p + n \<le> nat (numBytes h)" and k: "p + n \<le> 128 * nsec h"
    and fst: "divRoundDown pos SectorSize = int (p div 128)"
    and lst: "divRoundDown (int32 (pos + int n - 1)) SectorSize = int ((p + n - 1) div 128)"
    and cnt: "1 + int ((p + n - 1) div 128) - int (p div 128) = int (1 + (p + n - 1) div 128 - p div 128)"
    and off: "pos - int (p div 128) * SectorSize = int (p mod 128)" .
  let ?f = "p div 128" and ?l = "(p + n - 1) div 128" and ?raw = "concat (map (sec d) (file_sectors h))"
  note sp = sector_span [OF n(1) k]
  obtain d' where d': "read_sectors rd h (int ?f) (1 + ?l - ?f) d = Inr (take (128 * (1 + ?l - ?f)) (drop (128 * ?f) ?raw), d')"
      "ok d'" "\<forall>m. sector_ok m \<longrightarrow> sec d' m = sec d m"
    using read_span [OF assms(1) _ assms(2), of ?f "1 + ?l - ?f"] sp(1,2) by auto
  have raw: "length ?raw = 128 * nsec h"
    using length_concat_const [of "file_sectors h" "sec d" 128] length_sec hdr_ok_facts(1) [OF assms(1)] by simp
  have "length (take (128 * (1 + ?l - ?f)) (drop (128 * ?f) ?raw)) = 128 * (1 + ?l - ?f)"
    unfolding length_take length_drop raw using sp(6) by (rule min_absorb2)
  then have len: "p mod 128 + n \<le> length (take (128 * (1 + ?l - ?f)) (drop (128 * ?f) ?raw))" using sp(4) by simp
  have "ReadAt rd h nBytes pos d = Inr (take n (drop (p mod 128) (take (128 * (1 + ?l - ?f)) (drop (128 * ?f) ?raw))), d')"
    using False by (intro ReadAt_eval [OF _ _ cl fst lst cnt off d'(1) len]) simp_all
  also have "take n (drop (p mod 128) (take (128 * (1 + ?l - ?f)) (drop (128 * ?f) ?raw))) = take n (drop p ?raw)"
  proof -
    have "p mod 128 + 128 * ?f = p" by simp
    moreover have "min n (128 * (1 + ?l - ?f) - p mod 128) = n" using sp(4) by (intro min_absorb1) linarith
    ultimately show ?thesis by (simp only: drop_take drop_drop take_take)
  qed
  also have "\<dots> = take (nat nBytes) (drop p (contents (sec d) h))"
    using n(2) by (simp add: contents_def drop_take n_def min.commute)
  finally show ?thesis using d'(2,3) p by simp
qed

lemma write_sectors_ok:
  assumes "hdr_ok h" "i + n \<le> nsec h" "ok d" "length buf = 128 * n"
  shows "\<exists>d'. write_sectors wr h (int i) n buf d = Inr d' \<and> ok d'
     \<and> concat (map (sec d') (take n (drop i (file_sectors h)))) = buf
     \<and> (\<forall>m. sector_ok m \<longrightarrow> m \<notin> set (take n (drop i (file_sectors h))) \<longrightarrow> sec d' m = sec d m)"
  using assms(2-4)
proof (induction n arbitrary: i d buf)
  case (Suc n)
  have i: "i < nsec h" and len: "length (file_sectors h) = nsec h" using Suc.prems(1) hdr_ok_facts(1) [OF assms(1)] by simp_all
  let ?s = "file_sectors h ! i" and ?rest = "take n (drop (Suc i) (file_sectors h))"
  have s: "sector_ok ?s" using hdr_ok_facts(7) [OF assms(1) i] .
  obtain d1 where d1: "wr ?s (take 128 buf) d = Inr d1" "ok d1"
      "\<forall>m. sector_ok m \<longrightarrow> sec d1 m = (if m = ?s then take 128 buf else sec d m)"
    using wr_law [OF Suc.prems(2) s, of "take 128 buf"] Suc.prems(3) by auto
  obtain d2 where d2: "write_sectors wr h (int (Suc i)) n (drop 128 buf) d1 = Inr d2" "ok d2"
      "concat (map (sec d2) ?rest) = drop 128 buf"
      "\<forall>m. sector_ok m \<longrightarrow> m \<notin> set ?rest \<longrightarrow> sec d2 m = sec d1 m"
    using Suc.IH [of "Suc i" d1 "drop 128 buf"] Suc.prems d1(2) by auto
  have split: "take (Suc n) (drop i (file_sectors h)) = ?s # ?rest"
    using i len by (simp add: Cons_nth_drop_Suc [symmetric])
  have "distinct (take (Suc n) (drop i (file_sectors h)))"
    using assms(1) unfolding hdr_ok_def by (intro distinct_take distinct_drop) simp
  then have "?s \<notin> set ?rest" unfolding split by simp
  then have "sec d2 ?s = take 128 buf" using d2(4) d1(3) s by simp
  then show ?case unfolding split using d1 d2 ByteToSector_ok [OF assms(1) i] by (auto simp: algebra_simps)
qed simp

lemma write_raw:
  assumes "hdr_ok h" "i + n \<le> nsec h" "ok d" "length buf = 128 * n"
  shows "\<exists>d'. write_sectors wr h (int i) n buf d = Inr d' \<and> ok d'
     \<and> concat (map (sec d') (file_sectors h)) = overlay (128 * i) buf (concat (map (sec d) (file_sectors h)))
     \<and> (\<forall>m. sector_ok m \<longrightarrow> m \<notin> set (file_sectors h) \<longrightarrow> sec d' m = sec d m)"
proof -
  let ?fs = "file_sectors h"
  obtain d' where d': "write_sectors wr h (int i) n buf d = Inr d'" "ok d'" "concat (map (sec d') (take n (drop i ?fs))) = buf"
      "\<forall>m. sector_ok m \<longrightarrow> m \<notin> set (take n (drop i ?fs)) \<longrightarrow> sec d' m = sec d m"
    using write_sectors_ok [OF assms] by blast
  have fs: "?fs = take i ?fs @ take n (drop i ?fs) @ drop (i + n) ?fs"
    by (metis append_take_drop_id add.commute drop_drop)
  have "distinct ?fs" and sok: "\<forall>m \<in> set ?fs. sector_ok m" using assms(1) by (simp_all add: hdr_ok_def)
  then have out: "set (take i ?fs) \<inter> set (take n (drop i ?fs)) = {}" "set (drop (i + n) ?fs) \<inter> set (take n (drop i ?fs)) = {}"
    by (subst (asm) fs, auto)+
  have keep: "map (sec d') xs = map (sec d) xs" if "set xs \<inter> set (take n (drop i ?fs)) = {}" "set xs \<subseteq> set ?fs" for xs
    using that d'(4) sok by (intro map_cong refl) blast
  have "concat (map (sec d') ?fs) = concat (map (sec d') (take i ?fs)) @ buf @ concat (map (sec d') (drop (i + n) ?fs))"
    by (subst fs) (simp add: d'(3))
  also have "map (sec d') (take i ?fs) = map (sec d) (take i ?fs)" using out(1) by (intro keep) (auto dest: in_set_takeD)
  also have "map (sec d') (drop (i + n) ?fs) = map (sec d) (drop (i + n) ?fs)" using out(2) by (intro keep) (auto dest: in_set_dropD)
  also have "concat (map (sec d) (take i ?fs)) @ buf @ concat (map (sec d) (drop (i + n) ?fs))
      = overlay (128 * i) buf (concat (map (sec d) ?fs))"
    using concat_chunks [of ?fs "sec d" 128 i 0] concat_chunks [of ?fs "sec d" 128 "length ?fs" "i + n"] length_sec
      length_concat_const [of ?fs "sec d" 128] assms(4)
    by (simp add: overlay_def algebra_simps)
  finally show ?thesis using d'(1,2,4) by (metis in_set_dropD in_set_takeD)
qed

text \<open>
  The two reads of \<open>WriteAt\<close>: afterwards the buffer holds, around the bytes to be replaced, the
  contents of the file.
\<close>

lemma fetch_step:
  assumes "hdr_ok h" "ok e" "\<forall>m. sector_ok m \<longrightarrow> sec e m = sec d m" "128 * x < nat (numBytes h)"
  shows "\<exists>e'. (if c then rbind (ReadAt rd h SectorSize (int x * SectorSize) e) (\<lambda>(bs, d1). Inr (g bs, d1)) else Inr (buf, e))
       = Inr (if c then g (take 128 (drop (128 * x) (contents (sec d) h))) else buf, e') \<and> ok e' \<and> (\<forall>m. sector_ok m \<longrightarrow> sec e' m = sec d m)"
proof -
  have "contents (sec e) h = contents (sec d) h" using assms(1,3) by (intro contents_cong) (simp add: hdr_ok_def)
  moreover have "int x * 128 < numBytes h" using assms(4) by (simp add: zless_nat_eq_int_zless mult.commute)
  then have "int x * 128 + 128 < 2 ^ 31" using hdr_ok_facts(4) [OF assms(1)] by simp
  moreover have "nat (int x * 128) = 128 * x" by simp
  ultimately obtain e' where "ReadAt rd h 128 (int x * 128) e = Inr (take 128 (drop (128 * x) (contents (sec d) h)), e')"
      "ok e'" "\<forall>m. sector_ok m \<longrightarrow> sec e' m = sec e m"
    using ReadAt_ok [OF assms(1,2), of "int x * 128" 128] by auto
  then show ?thesis using assms(2,3) by (cases c) simp_all
qed

lemma prefill:
  assumes "hdr_ok h" "ok d" "0 < n" "p + n \<le> nat (numBytes h)" "f = p div 128" "l = (p + n - 1) div 128" "length buf0 = 128 * (1 + l - f)"
  shows "\<exists>buf1 d1 buf2 d2.
      (if int p \<noteq> int f * SectorSize
       then rbind (ReadAt rd h SectorSize (int f * SectorSize) d) (\<lambda>(bs, d1). Inr (overlay 0 bs buf0, d1))
       else Inr (buf0, d)) = Inr (buf1, d1)
    \<and> (if int p + int n \<noteq> (int l + 1) * SectorSize \<and> (int f \<noteq> int l \<or> int p = int f * SectorSize)
       then rbind (ReadAt rd h SectorSize (int l * SectorSize) d1) (\<lambda>(bs, d2). Inr (overlay (nat ((int l - int f) * SectorSize)) bs buf1, d2))
       else Inr (buf1, d1)) = Inr (buf2, d2)
    \<and> length buf2 = length buf0 \<and> ok d2 \<and> (\<forall>m. sector_ok m \<longrightarrow> sec d2 m = sec d m)
    \<and> (\<forall>k < length buf0. 128 * f + k < nat (numBytes h) \<longrightarrow> k < p mod 128 \<or> p mod 128 + n \<le> k \<longrightarrow>
          buf2 ! k = contents (sec d) h ! (128 * f + k))"
proof -
  let ?C = "contents (sec d) h"
  have k: "p + n \<le> 128 * nsec h" using assms(4) hdr_ok_facts(3) [OF assms(1)] by simp
  note sp = sector_span [OF assms(3) k, folded assms(5,6)]
  have N: "length ?C = nat (numBytes h)" using hdr_ok_facts(1,3) [OF assms(1)] length_sec
    by (simp add: contents_def length_concat_const [where c = 128])
  have fN: "128 * f < nat (numBytes h)" "128 * l < nat (numBytes h)"
  proof -
    have "128 * l \<le> p + n - 1" unfolding assms(6) by simp
    then show "128 * l < nat (numBytes h)" using assms(3,4) by linarith
    then show "128 * f < nat (numBytes h)" using sp(1) by linarith
  qed
  note al = aligned_iff [OF sp(3) le_add_diff_inverse2 [OF trans_le_add2 [OF sp(1)]]]
  define bs1 where "bs1 = take 128 (drop (128 * f) ?C)"
  define bs2 where "bs2 = take 128 (drop (128 * l) ?C)"
  define c1 where "c1 \<longleftrightarrow> p mod 128 \<noteq> 0"
  define c2 where "c2 \<longleftrightarrow> p mod 128 + n \<noteq> 128 * (1 + l - f) \<and> (f \<noteq> l \<or> p mod 128 = 0)"
  define buf1 where "buf1 = (if c1 then overlay 0 bs1 buf0 else buf0)"
  define buf2 where "buf2 = (if c2 then overlay (nat ((int l - int f) * SectorSize)) bs2 buf1 else buf1)"
  obtain d1 where b1: "(if c1 then rbind (ReadAt rd h SectorSize (int f * SectorSize) d) (\<lambda>(bs, d1). Inr (overlay 0 bs buf0, d1))
       else Inr (buf0, d)) = Inr (buf1, d1)" "ok d1" "\<forall>m. sector_ok m \<longrightarrow> sec d1 m = sec d m"
    using fetch_step [OF assms(1,2) _ fN(1), of d c1 "\<lambda>bs. overlay 0 bs buf0" buf0] unfolding bs1_def [symmetric] buf1_def [symmetric] by blast
  obtain d2 where b2: "(if c2 then rbind (ReadAt rd h SectorSize (int l * SectorSize) d1)
         (\<lambda>(bs, d2). Inr (overlay (nat ((int l - int f) * SectorSize)) bs buf1, d2))
       else Inr (buf1, d1)) = Inr (buf2, d2)" "ok d2" "\<forall>m. sector_ok m \<longrightarrow> sec d2 m = sec d m"
    using fetch_step [OF assms(1) b1(2,3) fN(2), of c2 "\<lambda>bs. overlay (nat ((int l - int f) * SectorSize)) bs buf1" buf1]
    unfolding bs2_def [symmetric] buf2_def [symmetric] by blast
  have cs: "int p \<noteq> int f * SectorSize \<longleftrightarrow> c1"
      "int p + int n \<noteq> (int l + 1) * SectorSize \<and> (int f \<noteq> int l \<or> int p = int f * SectorSize) \<longleftrightarrow> c2"
    unfolding al c1_def c2_def of_nat_eq_iff by (rule refl)+
  have fl: "nat ((int l - int f) * 128) = 128 * (l - f)" unfolding of_nat_diff [OF sp(1), symmetric] by simp
  have len: "length bs1 \<le> 128" "length bs2 \<le> 128" by (simp_all add: bs1_def bs2_def)
  have l0: "length buf0 = 128 * (l - f) + 128" using assms(7) sp(1) by simp
  have "length buf2 = length buf0" using len l0 by (simp add: buf2_def buf1_def fl)
  moreover have "\<forall>k < length buf0. 128 * f + k < nat (numBytes h) \<longrightarrow> k < p mod 128 \<or> p mod 128 + n \<le> k \<longrightarrow> buf2 ! k = ?C ! (128 * f + k)"
    using prefill_bytes [OF bs1_def bs2_def buf1_def [unfolded c1_def] buf2_def [unfolded c2_def fl] assms(7) sp(1) _ sp(5)] N by simp
  ultimately show ?thesis unfolding cs using b1(1) b2 by blast
qed

lemma WriteAt_ok:
  assumes "hdr_ok h" "ok d" "0 \<le> pos" "pos + nBytes < 2 ^ 31" "nat nBytes \<le> length data"
  defines "n \<equiv> min (nat nBytes) (nat (numBytes h) - nat pos)"
  shows "\<exists>d'. WriteAt rd wr garbage h data nBytes pos d = Inr (int n, d') \<and> ok d'
     \<and> contents (sec d') h = overlay (nat pos) (take n data) (contents (sec d) h)
     \<and> (\<forall>m. sector_ok m \<longrightarrow> m \<notin> set (file_sectors h) \<longrightarrow> sec d' m = sec d m)"
proof (cases "nBytes \<le> 0 \<or> pos \<ge> numBytes h")
  case True
  then show ?thesis using assms(2) by (auto simp: WriteAt_def FileLength_def n_def overlay_def)
next
  case False
  then have "pos < numBytes h" "0 < nBytes" by simp_all
  from request_span [OF assms(1,3) this assms(4)] obtain p n' where p: "pos = int p" and cl: "clamp h nBytes pos = int n'"
    and n': "n' = min (nat nBytes) (nat (numBytes h) - p)" and n: "0 < n'" "p + n' \<le> nat (numBytes h)" and k: "p + n' \<le> 128 * nsec h"
    and fst: "divRoundDown pos SectorSize = int (p div 128)"
    and lst: "divRoundDown (int32 (pos + int n' - 1)) SectorSize = int ((p + n' - 1) div 128)"
    and cnt: "1 + int ((p + n' - 1) div 128) - int (p div 128) = int (1 + (p + n' - 1) div 128 - p div 128)"
    and off: "pos - int (p div 128) * SectorSize = int (p mod 128)" .
  have nn: "n = n'" using n' p by (simp add: n_def)
  define f where "f = p div 128"
  define l where "l = (p + n' - 1) div 128"
  define c where "c = 1 + l - f"
  note sp = sector_span [OF n(1) k, folded f_def l_def, folded c_def]
  obtain buf1 d1 buf2 d2 where pre:
    "(if int p \<noteq> int f * SectorSize
       then rbind (ReadAt rd h SectorSize (int f * SectorSize) d) (\<lambda>(bs, d1). Inr (overlay 0 bs (map garbage [0..<128 * c]), d1))
       else Inr (map garbage [0..<128 * c], d)) = Inr (buf1, d1)"
    "(if int p + int n' \<noteq> (int l + 1) * SectorSize \<and> (int f \<noteq> int l \<or> int p = int f * SectorSize)
       then rbind (ReadAt rd h SectorSize (int l * SectorSize) d1) (\<lambda>(bs, d2). Inr (overlay (nat ((int l - int f) * SectorSize)) bs buf1, d2))
       else Inr (buf1, d1)) = Inr (buf2, d2)"
    "length buf2 = 128 * c" "ok d2" "\<forall>m. sector_ok m \<longrightarrow> sec d2 m = sec d m"
    "\<forall>k < 128 * c. 128 * f + k < nat (numBytes h) \<longrightarrow> k < p mod 128 \<or> p mod 128 + n' \<le> k \<longrightarrow> buf2 ! k = contents (sec d) h ! (128 * f + k)"
    using prefill [OF assms(1,2) n f_def l_def, of "map garbage [0..<128 * c]"] unfolding c_def [symmetric] by auto
  let ?w = "take n' data" let ?raw = "concat (map (sec d) (file_sectors h))"
  have w: "length ?w = n'" "n' \<le> length data" using assms(5) n' by simp_all
  have fit: "p mod 128 + n' \<le> length buf2" "f + c \<le> nsec h" using sp(1,2,4) pre(3) unfolding c_def by simp_all
  obtain d3 where d3: "write_sectors wr h (int f) c (overlay (p mod 128) ?w buf2) d2 = Inr d3" "ok d3"
      "concat (map (sec d3) (file_sectors h)) = overlay (128 * f) (overlay (p mod 128) ?w buf2) (concat (map (sec d2) (file_sectors h)))"
      "\<forall>m. sector_ok m \<longrightarrow> m \<notin> set (file_sectors h) \<longrightarrow> sec d3 m = sec d2 m"
    using write_raw [OF assms(1) fit(2) pre(4), of "overlay (p mod 128) ?w buf2"] fit(1) w(1) pre(3) by auto
  have same: "map (sec d2) (file_sectors h) = map (sec d) (file_sectors h)" using pre(5) assms(1) by (simp add: hdr_ok_def)
  have "WriteAt rd wr garbage h data nBytes pos d = Inr (int n', d3)"
    using False p pre(1,2)
    by (intro WriteAt_eval [OF _ _ cl fst [folded f_def] lst [folded l_def] cnt [folded f_def l_def, folded c_def] off [folded f_def] _ _ fit(1) w(2) d3(1)]) simp_all
  moreover have "contents (sec d3) h = overlay p ?w (contents (sec d) h)"
    unfolding contents_def d3(3) same
  proof (rule overlay_span)
    have raw: "length ?raw = 128 * nsec h"
      using length_concat_const [of "file_sectors h" "sec d" 128] length_sec hdr_ok_facts(1) [OF assms(1)] by simp
    show "128 * f + length buf2 \<le> length ?raw" using fit(2) pre(3) raw by simp
    show "nat (numBytes h) \<le> length ?raw" using raw hdr_ok_facts(3) [OF assms(1)] by simp
    show "p = 128 * f + p mod 128" by (rule sp(3))
    show "p mod 128 + length ?w \<le> length buf2" "p + length ?w \<le> nat (numBytes h)" using fit(1) w(1) n(2) by simp_all
    show "\<forall>k < length buf2. 128 * f + k < nat (numBytes h) \<longrightarrow> k < p mod 128 \<or> p mod 128 + length ?w \<le> k \<longrightarrow>
        buf2 ! k = take (nat (numBytes h)) ?raw ! (128 * f + k)"
      using pre(3,6) w(1) unfolding contents_def by simp
  qed
  ultimately show ?thesis using d3(2,4) pre(5) p nn by auto
qed

end

section \<open>The disk as a sector store\<close>

text \<open>
  One thread alone on the machine: it issues a request, and \<open>semaphore->P()\<close> lets the machine idle
  until the completion interrupt, which \<open>CheckIfDue (TRUE)\<close> runs. The lock, with one thread, is
  free.
\<close>

record 'h dstate = "'h intr" +
  ddisk :: "'h Disk"

definition disk_dispatch :: "('h, ('h, 'z) dstate_ext) dispatcher" where
  "disk_dispatch h a s =
     rbind (Disk_HandleInterrupt (\<lambda>_ _ d s. Inr (d, s)) (ddisk s) s) (\<lambda>(d, s'). Inr (s'\<lparr>ddisk := d\<rparr>))"

definition wait_done :: "('h, 'z) dstate_scheme \<Rightarrow> ('h, 'z) dstate_scheme res" where
  "wait_done s =
     rbind (CheckIfDue disk_dispatch (\<lambda>s. Inr s) True (s\<lparr>istatus := IdleMode\<rparr>)) (\<lambda>(fired, s').
     rbind (ASSERT fired) (\<lambda>_. Inr (s'\<lparr>istatus := SystemMode\<rparr>)))"

definition sync_read :: "'h \<Rightarrow> addr \<Rightarrow> ('h, 'z) dstate_scheme sector_read" where
  "sync_read dd this n s =
     rbind (ReadRequest dd this n (ddisk s) s) (\<lambda>(data, d, s1).
     rbind (wait_done (s1\<lparr>ddisk := d\<rparr>)) (\<lambda>s2. Inr (data, s2)))"

definition sync_write :: "'h \<Rightarrow> addr \<Rightarrow> ('h, 'z) dstate_scheme sector_write" where
  "sync_write dd this n data s =
     rbind (WriteRequest dd this n data (ddisk s) s) (\<lambda>(d, s1). wait_done (s1\<lparr>ddisk := d\<rparr>))"

definition sync_ok :: "('h, 'z) dstate_scheme \<Rightarrow> bool" where
  "sync_ok s \<longleftrightarrow> disk_ok (ddisk s) \<and> \<not> active (ddisk s) \<and> pending s = [] \<and> level s = IntOff \<and> 0 \<le> totalTicks (stats s)"

definition sync_sec :: "('h, 'z) dstate_scheme \<Rightarrow> int \<Rightarrow> byte list" where
  "sync_sec s n = sector_data n (ddisk s)"

lemma wait_done_ok:
  assumes "pending s = [(t, PendingInterrupt_new dd this t DiskInt)]" "level s = IntOff" "0 \<le> t" "disk_ok (ddisk s)" "0 \<le> totalTicks (stats s)"
  shows "\<exists>s'. wait_done s = Inr s' \<and> sync_ok s' \<and> (\<forall>m. sync_sec s' m = sync_sec s m)"
  using assms
  by (auto simp: wait_done_def CheckIfDue_def Let_def PendingInterrupt_new_def disk_dispatch_def Disk_HandleInterrupt_def
      sync_ok_def sync_sec_def disk_ok_def sector_data_def)

interpretation sd: sector_store "sync_read dd this" "sync_write dd this" sync_ok sync_sec
proof
  show "length (sync_sec d n) = 128" for d :: "('a, 'b) dstate_scheme" and n by (simp add: sync_sec_def)
  show "\<exists>d'. sync_read dd this n d = Inr (sync_sec d n, d') \<and> sync_ok d' \<and> (\<forall>m. sector_ok m \<longrightarrow> sync_sec d' m = sync_sec d m)"
    if ok: "sync_ok d" and n: "sector_ok n" for d :: "('a, 'b) dstate_scheme" and n
  proof -
    obtain d' s' where r: "ReadRequest dd this n (ddisk d) d = Inr (sector_data n (ddisk d), d', s')" "disk_ok d'"
        "disk_scheduled dd this (ComputeLatency (totalTicks (stats d)) n False (ddisk d)) d s'" "\<forall>m. sector_data m d' = sector_data m (ddisk d)"
      using ReadRequest_ok [of "ddisk d" n d dd this] ok n by (auto simp: sync_ok_def)
    moreover have "0 < ComputeLatency (totalTicks (stats d)) n False (ddisk d)"
      using ok n by (intro ComputeLatency_pos) (simp_all add: sync_ok_def disk_ok_def)
    ultimately obtain s2 where "wait_done (s'\<lparr>ddisk := d'\<rparr>) = Inr s2" "sync_ok s2" "\<forall>m. sync_sec s2 m = sync_sec (s'\<lparr>ddisk := d'\<rparr>) m"
      using wait_done_ok [of "s'\<lparr>ddisk := d'\<rparr>" _ dd this] ok by (auto simp: sync_ok_def disk_scheduled_def ticks_def Let_def)
    then show ?thesis using r(1,4) by (simp add: sync_read_def sync_sec_def)
  qed
  show "\<exists>d'. sync_write dd this n data d = Inr d' \<and> sync_ok d' \<and> (\<forall>m. sector_ok m \<longrightarrow> sync_sec d' m = (if m = n then data else sync_sec d m))"
    if ok: "sync_ok d" and n: "sector_ok n" and len: "length data = 128" for d :: "('a, 'b) dstate_scheme" and n data
  proof -
    obtain d' s' where r: "WriteRequest dd this n data (ddisk d) d = Inr (d', s')" "disk_ok d'"
        "disk_scheduled dd this (ComputeLatency (totalTicks (stats d)) n True (ddisk d)) d s'"
        "\<forall>m. sector_ok m \<longrightarrow> sector_data m d' = (if m = n then data else sector_data m (ddisk d))"
      using WriteRequest_ok [of "ddisk d" n d data dd this] ok n len by (auto simp: sync_ok_def)
    moreover have "0 < ComputeLatency (totalTicks (stats d)) n True (ddisk d)"
      using ok n by (intro ComputeLatency_pos) (simp_all add: sync_ok_def disk_ok_def)
    ultimately obtain s2 where "wait_done (s'\<lparr>ddisk := d'\<rparr>) = Inr s2" "sync_ok s2" "\<forall>m. sync_sec s2 m = sync_sec (s'\<lparr>ddisk := d'\<rparr>) m"
      using wait_done_ok [of "s'\<lparr>ddisk := d'\<rparr>" _ dd this] ok by (auto simp: sync_ok_def disk_scheduled_def ticks_def Let_def)
    then show ?thesis using r(1,4) by (simp add: sync_write_def sync_sec_def)
  qed
qed

end
