(* ===== verification/FileCorrect.thy ===== *)
theory FileCorrect
  imports FileModel
begin

text \<open>
  What files guarantee (theory FileModel): a file is the sequence of its bytes for \<open>ReadAt\<close> and
  \<open>WriteAt\<close>, its header survives the way to the disk and back, and \<open>Allocate\<close> and \<open>Deallocate\<close> take
  free sectors and give them back.
\<close>

section \<open>Contents\<close>

text \<open>A file of 200 bytes in the sectors 5 and 9 of the demonstration disk.\<close>

definition demo_hdr :: FileHeader where
  "demo_hdr = \<lparr>numBytes = 200, numSectors = 2, dataSectors = 5 # 9 # replicate 28 0\<rparr>"

definition demo_dstate :: "nat dstate" where
  "demo_dstate = intr.extend (Interrupt_new (\<lambda>_. 0)) (dstate.fields demo_disk)"

lemma demo_hdr_ok: "hdr_ok demo_hdr"
  by (simp add: hdr_ok_def demo_hdr_def file_sectors_def divRoundUp_def sdiv_nonneg smod_nonneg sector_ok_def
      numeral_2_eq_2)

lemma demo_dstate_ok: "sync_ok demo_dstate"
  by (simp add: sync_ok_def demo_dstate_def demo_disk_def disk_ok_def sector_ok_def Interrupt_new_def Statistics_new_def
      intr.defs dstate.defs)

text \<open>C4: a file is the sequence of its bytes. With a header that describes a file and a disk that
  works, \<open>ReadAt\<close> returns the bytes from the position on, as many as were asked for and the file
  has, and \<open>WriteAt\<close> replaces exactly those, up to the end of the file, whose length it keeps; neither changes a
  file in other sectors. This holds for requests that begin or end in the middle of a sector,
  whatever the transfer buffer held before.\<close>

theorem file_is_byte_sequence:
  assumes "hdr_ok h" "sync_ok s" "0 \<le> pos" "pos + nBytes < 2 ^ 31" "nat nBytes \<le> length data"
  defines "n \<equiv> min (nat nBytes) (nat (numBytes h) - nat pos)"
  shows "(\<exists>s'. ReadAt (sync_read dd this) h nBytes pos s = Inr (take (nat nBytes) (drop (nat pos) (contents (sync_sec s) h)), s')
            \<and> sync_ok s' \<and> (\<forall>m. sector_ok m \<longrightarrow> sync_sec s' m = sync_sec s m))
       \<and> (\<exists>s'. WriteAt (sync_read dd this) (sync_write dd this) garbage h data nBytes pos s = Inr (int n, s')
            \<and> sync_ok s' \<and> contents (sync_sec s') h = overlay (nat pos) (take n data) (contents (sync_sec s) h)
            \<and> (\<forall>g. hdr_ok g \<longrightarrow> set (file_sectors g) \<inter> set (file_sectors h) = {} \<longrightarrow>
                 contents (sync_sec s') g = contents (sync_sec s) g))"
proof (rule conjI)
  show "\<exists>s'. ReadAt (sync_read dd this) h nBytes pos s = Inr (take (nat nBytes) (drop (nat pos) (contents (sync_sec s) h)), s')
            \<and> sync_ok s' \<and> (\<forall>m. sector_ok m \<longrightarrow> sync_sec s' m = sync_sec s m)"
    by (rule sd.ReadAt_ok [OF assms(1-4)])
  obtain s' where w: "WriteAt (sync_read dd this) (sync_write dd this) garbage h data nBytes pos s = Inr (int n, s')" "sync_ok s'"
      "contents (sync_sec s') h = overlay (nat pos) (take n data) (contents (sync_sec s) h)"
      "\<forall>m. sector_ok m \<longrightarrow> m \<notin> set (file_sectors h) \<longrightarrow> sync_sec s' m = sync_sec s m"
    using sd.WriteAt_ok [OF assms(1-5), of dd this garbage] unfolding n_def by blast
  have "contents (sync_sec s') g = contents (sync_sec s) g"
    if "hdr_ok g" "set (file_sectors g) \<inter> set (file_sectors h) = {}" for g
    using that w(4) by (intro contents_cong) (auto simp: hdr_ok_def)
  then show "\<exists>s'. WriteAt (sync_read dd this) (sync_write dd this) garbage h data nBytes pos s = Inr (int n, s')
            \<and> sync_ok s' \<and> contents (sync_sec s') h = overlay (nat pos) (take n data) (contents (sync_sec s) h)
            \<and> (\<forall>g. hdr_ok g \<longrightarrow> set (file_sectors g) \<inter> set (file_sectors h) = {} \<longrightarrow>
                 contents (sync_sec s') g = contents (sync_sec s) g)"
    using w(1-3) by blast
qed

text \<open>Four bytes written across the border of the two sectors.\<close>

theorem file_is_byte_sequence_witness:
  "\<exists>s'. WriteAt (sync_read 7 1) (sync_write 7 1) (\<lambda>_. 0xff) demo_hdr [1, 2, 3, 4] 4 126 demo_dstate = Inr (4, s')
     \<and> contents (sync_sec s') demo_hdr = overlay 126 [1, 2, 3, 4] (contents (sync_sec demo_dstate) demo_hdr)"
  using file_is_byte_sequence [OF demo_hdr_ok demo_dstate_ok, of 126 4 "[1, 2, 3, 4]" 7 1 "\<lambda>_. 0xff"]
  by (auto simp: demo_hdr_def)

section \<open>Headers\<close>

text \<open>A header written to a sector with \<open>WriteBack\<close> and fetched from there with \<open>FetchFrom\<close> comes back
  unchanged, on a host of either byte order, and an open file starts at position 0 of it; the
  other sectors keep their contents.\<close>

lemma header_roundtrip:
  assumes "hdr_ints h" "sync_ok s" "sector_ok n"
  shows "\<exists>s' s''. WriteBack be (sync_write dd this) n h s = Inr s'
     \<and> FetchFrom be (sync_read dd this) n s' = Inr (h, s'')
     \<and> OpenFile_new be (sync_read dd this) n s' = Inr (\<lparr>hdr = h, seekPosition = 0\<rparr>, s'')
     \<and> sync_ok s'' \<and> (\<forall>m. sector_ok m \<longrightarrow> m \<noteq> n \<longrightarrow> sync_sec s'' m = sync_sec s m)"
proof -
  obtain s' where w: "sync_write dd this n (hdr_bytes be h) s = Inr s'" "sync_ok s'"
      "\<forall>m. sector_ok m \<longrightarrow> sync_sec s' m = (if m = n then hdr_bytes be h else sync_sec s m)"
    using sd.wr_law [OF assms(2,3) hdr_bytes_of(2) [OF assms(1)], of dd this be] by blast
  obtain s'' where "sync_read dd this n s' = Inr (sync_sec s' n, s'')" "sync_ok s''" "\<forall>m. sector_ok m \<longrightarrow> sync_sec s'' m = sync_sec s' m"
    using sd.rd_law [OF w(2) assms(3), of dd this] by blast
  then show ?thesis using w assms(3) hdr_bytes_of(1) [OF assms(1), of be]
    by (simp add: WriteBack_def FetchFrom_def OpenFile_new_def)
qed

section \<open>Allocation\<close>

lemma alloc_loop_find_n:
  "find_n Find n b = Inr (ks, b') \<Longrightarrow> length ks = n \<Longrightarrow>
   alloc_loop n i h b = (if i + n \<le> length (dataSectors h) \<or> n = 0
     then Inr (h\<lparr>dataSectors := take i (dataSectors h) @ ks @ drop (i + n) (dataSectors h)\<rparr>, b') else Inl WildAccess)"
proof (induction n arbitrary: i h b ks)
  case (Suc n)
  obtain k b1 ks1 where k: "Find b = Inr (k, b1)" "find_n Find n b1 = Inr (ks1, b')" "ks = k # ks1" "length ks1 = n"
    using Suc.prems by (auto simp: rbind_Inr_iff split: prod.splits)
  show ?case
  proof (cases "i < length (dataSectors h)")
    case True
    have "alloc_loop (Suc n) i h b = alloc_loop n (Suc i) (h\<lparr>dataSectors := (dataSectors h)[i := k]\<rparr>) b1"
      using k(1) True by simp
    also have "\<dots> = (if Suc i + n \<le> length (dataSectors h) \<or> n = 0
       then Inr (h\<lparr>dataSectors := take (Suc i) ((dataSectors h)[i := k]) @ ks1 @ drop (Suc i + n) ((dataSectors h)[i := k])\<rparr>, b')
       else Inl WildAccess)"
      unfolding Suc.IH [OF k(2,4)] by simp
    also have "take (Suc i) ((dataSectors h)[i := k]) = take i (dataSectors h) @ [k]"
      using True by (simp add: take_Suc_conv_app_nth)
    also have "drop (Suc i + n) ((dataSectors h)[i := k]) = drop (i + Suc n) (dataSectors h)" by simp
    finally show ?thesis using True k(3) by auto
  next
    case False
    then show ?thesis using k(1) by simp
  qed
qed simp

lemma dealloc_loop_ok:
  assumes "bm_ok b" "i + n \<le> length (dataSectors h)" "set (take n (drop i (dataSectors h))) \<subseteq> marked b"
    "distinct (take n (drop i (dataSectors h)))"
  shows "\<exists>b'. dealloc_loop n i h b = Inr b' \<and> bm_ok b' \<and> numBits b' = numBits b
     \<and> marked b' = marked b - set (take n (drop i (dataSectors h)))"
  using assms
proof (induction n arbitrary: i b)
  case (Suc n)
  let ?s = "dataSectors h ! i" and ?rest = "take n (drop (Suc i) (dataSectors h))"
  have i: "i < length (dataSectors h)" using Suc.prems(2) by simp
  have split: "take (Suc n) (drop i (dataSectors h)) = ?s # ?rest" using i by (simp add: Cons_nth_drop_Suc [symmetric])
  have s: "?s \<in> marked b" "0 \<le> ?s" "?s < numBits b" using Suc.prems(3) marked_range [of b] unfolding split by auto
  obtain b1 where b1: "Clear ?s b = Inr b1" "bm_ok b1" "numBits b1 = numBits b" "marked b1 = marked b - {?s}"
    using Clear_ok [OF Suc.prems(1) s(2,3)] by blast
  have "set ?rest \<subseteq> marked b1" "distinct ?rest" using Suc.prems(3,4) b1(4) unfolding split by auto
  then obtain b' where "dealloc_loop n (Suc i) h b1 = Inr b'" "bm_ok b'" "numBits b' = numBits b1" "marked b' = marked b1 - set ?rest"
    using Suc.IH [OF b1(2), of "Suc i"] Suc.prems(2) by auto
  then show ?case unfolding split using Test_eq [OF Suc.prems(1) s(2,3)] s(1) b1 i by auto
qed simp

lemma Deallocate_ok:
  assumes "bm_ok b" "hdr_ok h" "set (file_sectors h) \<subseteq> marked b"
  shows "\<exists>b'. Deallocate h b = Inr b' \<and> bm_ok b' \<and> numBits b' = numBits b \<and> marked b' = marked b - set (file_sectors h)"
proof -
  have "file_sectors h = take (nat (numSectors h)) (drop 0 (dataSectors h))" "distinct (file_sectors h)" "0 + nat (numSectors h) \<le> length (dataSectors h)"
    using assms(2) by (auto simp: file_sectors_def hdr_ok_def nat_le_iff)
  then show ?thesis using dealloc_loop_ok [OF assms(1), of 0 "nat (numSectors h)" h] assms(3) by (simp add: Deallocate_def)
qed

lemma NumClear_card: "bm_ok b \<Longrightarrow> NumClear b = Inr (int (card ({0..<numBits b} - marked b)))"
proof -
  assume b: "bm_ok b"
  then have nb: "0 \<le> numBits b" by (simp add: bm_ok_def)
  have "card ({0..<numBits b} - marked b) = card {0..<numBits b} - card (marked b)"
    using marked_range by (intro card_Diff_subset) simp_all
  moreover have "card (marked b) \<le> card {0..<numBits b}" using marked_range by (intro card_mono) simp_all
  ultimately show ?thesis using NumClear_eq [OF b] nb by simp
qed

lemma Allocate_full:
  assumes "bm_ok b" "int (card ({0..<numBits b} - marked b)) < divRoundUp fileSize SectorSize"
  shows "Allocate b fileSize h = Inr (False, h\<lparr>numBytes := fileSize, numSectors := divRoundUp fileSize SectorSize\<rparr>, b)"
  using NumClear_card [OF assms(1)] assms(2) by (simp add: Allocate_def Let_def)

lemma Allocate_ok:
  assumes "bm_ok b" "numBits b \<le> NumSectors" "length (dataSectors h) = NumDirect" "0 \<le> fileSize" "fileSize \<le> 3840"
    "divRoundUp fileSize SectorSize \<le> int (card ({0..<numBits b} - marked b))"
  shows "\<exists>h' b'. Allocate b fileSize h = Inr (True, h', b') \<and> hdr_ok h' \<and> numBytes h' = fileSize \<and> bm_ok b' \<and> numBits b' = numBits b
       \<and> set (file_sectors h') \<subseteq> {0..<numBits b} - marked b \<and> marked b' = marked b \<union> set (file_sectors h')
       \<and> set (dataSectors h') \<subseteq> set (file_sectors h') \<union> set (dataSectors h)"
proof -
  let ?k = "divRoundUp fileSize 128"
  have k: "0 \<le> ?k" "?k \<le> 30" using divRoundUp_nonneg [OF assms(4)] divRoundUp_le_iff [OF assms(4), of 128 30] assms(5) by simp_all
  note nc = NumClear_card [OF assms(1)]
  obtain ks b' where ks: "find_n Find (nat ?k) b = Inr (ks, b')" "length ks = nat ?k" "distinct ks"
      "set ks \<subseteq> {0..<numBits b} - marked b" "marked b' = marked b \<union> set ks" "bm_ok b'" "numBits b' = numBits b"
    using bm.find_n_fresh [OF assms(1) nc, of "nat ?k"] k(1) assms(6) by auto
  define h' where "h' = h\<lparr>numBytes := fileSize, numSectors := ?k, dataSectors := ks @ drop (nat ?k) (dataSectors h)\<rparr>"
  have al: "Allocate b fileSize h = Inr (True, h', b')"
    using alloc_loop_find_n [OF ks(1,2), of 0 "h\<lparr>numBytes := fileSize, numSectors := ?k\<rparr>"] nc k assms(3,6)
    by (simp add: Allocate_def Let_def h'_def nat_le_iff)
  have fs: "file_sectors h' = ks" using ks(2) by (simp add: file_sectors_def h'_def)
  have "sector_ok m" if "m \<in> set ks" for m using that ks(4) assms(2) by (auto simp: sector_ok_def)
  then have hk: "hdr_ok h'" using k ks(2,3) assms(3,4) fs by (simp add: hdr_ok_def) (simp add: h'_def)
  moreover have "numBytes h' = fileSize" "set (dataSectors h') \<subseteq> set ks \<union> set (dataSectors h)"
    using set_drop_subset [of "nat ?k" "dataSectors h"] by (auto simp: h'_def)
  ultimately show ?thesis using al ks(4-7) fs by auto
qed

text \<open>
  Nothing bounds the loop of \<open>Allocate\<close> by the size of the table: a file of more than 30 sectors, for
  which there is space on the disk, makes it write beyond the header.
\<close>

lemma Allocate_overruns:
  assumes "bm_ok b" "NumClear b = Inr c" "divRoundUp fileSize SectorSize \<le> c" "30 < divRoundUp fileSize SectorSize"
    "length (dataSectors h) = NumDirect"
  shows "Allocate b fileSize h = Inl WildAccess"
proof -
  let ?k = "divRoundUp fileSize 128"
  obtain ks b' where "find_n Find (nat ?k) b = Inr (ks, b')" "length ks = nat ?k"
    using bm.find_n_fresh [OF assms(1,2), of "nat ?k"] assms(3,4) by auto
  then show ?thesis
    using alloc_loop_find_n [of "nat ?k" b ks b' 0 "h\<lparr>numBytes := fileSize, numSectors := ?k\<rparr>"] assms(2-5)
    by (simp add: Allocate_def Let_def)
qed

text \<open>C25: \<open>Allocate\<close> has three outcomes. When there are fewer free sectors than the file needs, it reports this and leaves
  the map of free sectors alone. Otherwise, for a size that a header can describe (at most 3840 bytes, 30 sectors), it yields a header that
  describes a file of that size in sectors that were free, each used once, and marks exactly these; \<open>Deallocate\<close> then gives
  exactly these back. For a larger size, for which there is space on the disk, it writes beyond the table of the header.\<close>

theorem allocate_deallocate:
  assumes "bm_ok b" "numBits b \<le> NumSectors" "length (dataSectors h) = NumDirect" "0 \<le> fileSize"
  shows "if int (card ({0..<numBits b} - marked b)) < divRoundUp fileSize SectorSize
    then \<exists>h'. Allocate b fileSize h = Inr (False, h', b)
    else if fileSize \<le> 3840
    then \<exists>h' b' b''. Allocate b fileSize h = Inr (True, h', b') \<and> hdr_ok h' \<and> numBytes h' = fileSize \<and> bm_ok b'
       \<and> set (file_sectors h') \<subseteq> {0..<numBits b} - marked b \<and> marked b' = marked b \<union> set (file_sectors h')
       \<and> Deallocate h' b' = Inr b'' \<and> bm_ok b'' \<and> marked b'' = marked b
    else Allocate b fileSize h = Inl WildAccess"
proof (cases "int (card ({0..<numBits b} - marked b)) < divRoundUp fileSize SectorSize")
  case True
  then show ?thesis using Allocate_full [OF assms(1) True, of h] by simp
next
  case enough: False
  show ?thesis
  proof (cases "fileSize \<le> 3840")
    case True
    then obtain h' b' where a: "Allocate b fileSize h = Inr (True, h', b')" "hdr_ok h'" "numBytes h' = fileSize" "bm_ok b'"
        "set (file_sectors h') \<subseteq> {0..<numBits b} - marked b" "marked b' = marked b \<union> set (file_sectors h')"
      using Allocate_ok [OF assms] enough by auto
    then obtain b'' where "Deallocate h' b' = Inr b''" "bm_ok b''" "marked b'' = marked b' - set (file_sectors h')"
      using Deallocate_ok [OF a(4,2)] by auto
    moreover have "marked b' - set (file_sectors h') = marked b" using a(5,6) by auto
    ultimately show ?thesis using enough True a by auto
  next
    case False
    then have "30 < divRoundUp fileSize SectorSize" using divRoundUp_le_iff [OF assms(4), of 128 30] by simp
    then show ?thesis
      using Allocate_overruns [OF assms(1) NumClear_card [OF assms(1)] _ _ assms(3)] enough False by simp
  qed
qed

theorem allocate_deallocate_witness:
  "\<exists>h' b' b''. Allocate demo_map 200 demo_hdr = Inr (True, h', b') \<and> hdr_ok h' \<and> marked b' = marked demo_map \<union> set (file_sectors h')
     \<and> Deallocate h' b' = Inr b'' \<and> marked b'' = marked demo_map"
proof -
  have "marked demo_map \<subseteq> {0..<32}"
  proof
    fix i assume i: "i \<in> marked demo_map"
    show "i \<in> {0..<32}"
    proof (rule ccontr)
      assume "i \<notin> {0..<32}"
      then have "32 \<le> i" "i < 40" using i by (auto simp: marked_def demo_map_def)
      then have "i div 32 = 1" by (intro int_div_pos_eq [where r = "i - 32"]) simp_all
      then show False using i by (simp add: marked_def demo_map_def)
    qed
  qed
  then have "card {32..<40::int} \<le> card ({0..<numBits demo_map} - marked demo_map)"
    by (intro card_mono) (auto simp: demo_map_def)
  then have "\<not> int (card ({0..<numBits demo_map} - marked demo_map)) < divRoundUp 200 128"
    by (simp add: divRoundUp_def sdiv_nonneg smod_nonneg)
  then show ?thesis using allocate_deallocate [OF demo_map_ok, of demo_hdr 200] by (auto simp: demo_map_def demo_hdr_def)
qed

end
