(* ===== verification/FileSysModel.thy ===== *)
theory FileSysModel
  imports FileModel
begin

unbundle bit_operations_syntax

text \<open>
  Directories (filesys/directory.h, filesys/directory.cc) and the file system (filesys/filesys.h,
  filesys/filesys.cc).

  File names are C strings, given without their terminating NUL. A directory entry keeps the
  padding bytes of its C++ layout, since the table goes to the disk as raw memory. Objects made
  with \<open>new\<close> hold what the allocated storage held before: that is the argument \<open>g\<close>.
\<close>

section \<open>Data\<close>

abbreviation (input) "FileNameMaxLen \<equiv> (9 :: nat)"
abbreviation (input) "NumDirEntries \<equiv> (10 :: int)"
abbreviation (input) "EntrySize \<equiv> (20 :: nat)"
abbreviation (input) "FreeMapSector \<equiv> (0 :: int)"
abbreviation (input) "DirectorySector \<equiv> (1 :: int)"
abbreviation (input) "FreeMapFileSize \<equiv> (128 :: int)"
abbreviation (input) "DirectoryFileSize \<equiv> (200 :: int)"

record DirectoryEntry =
  inUse :: bool
  dsector :: int
  ename :: "byte list"
  epad :: "byte list"

record Directory =
  tableSize :: int
  table :: "DirectoryEntry list"

record FileSystem =
  freeMapFile :: OpenFile
  directoryFile :: OpenFile

record garbage =
  g_bytes :: "nat \<Rightarrow> byte"
  g_words :: "nat \<Rightarrow> 32 word"
  g_entries :: "nat \<Rightarrow> DirectoryEntry"
  g_header :: FileHeader

section \<open>C strings\<close>

definition char_at0 :: "byte list \<Rightarrow> byte" where
  "char_at0 s = (case s of [] \<Rightarrow> 0 | c # _ \<Rightarrow> c)"

text \<open>\<open>!strncmp (a, b, n)\<close> and \<open>strncpy (dst, src, n)\<close>.\<close>

fun strncmp_eq :: "nat \<Rightarrow> byte list \<Rightarrow> byte list \<Rightarrow> bool" where
  "strncmp_eq 0 a b = True"
| "strncmp_eq (Suc n) a b =
     (if char_at0 a \<noteq> char_at0 b then False else if char_at0 a = 0 then True else strncmp_eq n (tl a) (tl b))"

definition strncpy :: "byte list \<Rightarrow> byte list \<Rightarrow> nat \<Rightarrow> byte list" where
  "strncpy dst src n = take n (src @ replicate n 0) @ drop n dst"

section \<open>Directories\<close>

definition Directory_new :: "garbage \<Rightarrow> int \<Rightarrow> Directory res" where
  "Directory_new g sz =
     (if sz < 0 then Inl BadAlloc
      else Inr \<lparr>tableSize = sz, table = map (\<lambda>i. (g_entries g i)\<lparr>inUse := False\<rparr>) [0..<nat sz]\<rparr>)"

text \<open>An entry in memory: the flag, three bytes of padding, the sector, the name, two bytes of padding.\<close>

definition entry_bytes :: "bool \<Rightarrow> DirectoryEntry \<Rightarrow> byte list" where
  "entry_bytes be e = (if inUse e then 1 else 0) # take 3 (epad e) @ int_bytes be (word_of_int (dsector e)) @ ename e @ drop 3 (epad e)"

definition entry_of :: "bool \<Rightarrow> byte list \<Rightarrow> DirectoryEntry" where
  "entry_of be bs = \<lparr>inUse = (bs ! 0 \<noteq> 0), dsector = bytes_int be (take 4 (drop 4 bs)), ename = take 10 (drop 8 bs),
     epad = take 3 (drop 1 bs) @ drop 18 bs\<rparr>"

fun entries_of :: "bool \<Rightarrow> nat \<Rightarrow> byte list \<Rightarrow> DirectoryEntry list" where
  "entries_of be 0 bs = []"
| "entries_of be (Suc n) bs = entry_of be (take EntrySize bs) # entries_of be n (drop EntrySize bs)"

definition table_bytes :: "bool \<Rightarrow> DirectoryEntry list \<Rightarrow> byte list" where
  "table_bytes be es = concat (map (entry_bytes be) es)"

definition Directory_FetchFrom :: "bool \<Rightarrow> 'd sector_read \<Rightarrow> OpenFile \<Rightarrow> Directory \<Rightarrow> 'd \<Rightarrow> (Directory \<times> 'd) res" where
  "Directory_FetchFrom be rd file dir d =
     rbind (ReadAt rd (hdr file) (tableSize dir * int EntrySize) 0 d) (\<lambda>(bs, d').
     Inr (dir\<lparr>table := entries_of be (nat (tableSize dir)) (overlay 0 bs (table_bytes be (table dir)))\<rparr>, d'))"

definition Directory_WriteBack ::
  "bool \<Rightarrow> 'd sector_read \<Rightarrow> 'd sector_write \<Rightarrow> (nat \<Rightarrow> byte) \<Rightarrow> OpenFile \<Rightarrow> Directory \<Rightarrow> 'd \<Rightarrow> 'd res" where
  "Directory_WriteBack be rd wr buf file dir d =
     rbind (WriteAt rd wr buf (hdr file) (table_bytes be (table dir)) (tableSize dir * int EntrySize) 0 d) (\<lambda>(_, d'). Inr d')"

fun FindIndex_loop :: "byte list \<Rightarrow> int \<Rightarrow> DirectoryEntry list \<Rightarrow> int" where
  "FindIndex_loop name i [] = - 1"
| "FindIndex_loop name i (e # es) =
     (if inUse e \<and> strncmp_eq FileNameMaxLen (ename e) name then i else FindIndex_loop name (i + 1) es)"

definition FindIndex :: "byte list \<Rightarrow> Directory \<Rightarrow> int" where
  "FindIndex name dir = FindIndex_loop name 0 (take (nat (tableSize dir)) (table dir))"

definition Directory_Find :: "byte list \<Rightarrow> Directory \<Rightarrow> int" where
  "Directory_Find name dir =
     (let i = FindIndex name dir in if i \<noteq> - 1 then dsector (table dir ! nat i) else - 1)"

fun Add_loop :: "byte list \<Rightarrow> int \<Rightarrow> DirectoryEntry list \<Rightarrow> DirectoryEntry list option" where
  "Add_loop name newSector [] = None"
| "Add_loop name newSector (e # es) =
     (if \<not> inUse e
      then Some (e\<lparr>inUse := True, ename := strncpy (ename e) name FileNameMaxLen, dsector := newSector\<rparr> # es)
      else map_option (\<lambda>es'. e # es') (Add_loop name newSector es))"

definition Directory_Add :: "byte list \<Rightarrow> int \<Rightarrow> Directory \<Rightarrow> bool \<times> Directory" where
  "Directory_Add name newSector dir =
     (if FindIndex name dir \<noteq> - 1 then (False, dir)
      else case Add_loop name newSector (take (nat (tableSize dir)) (table dir)) of
          None \<Rightarrow> (False, dir)
        | Some es \<Rightarrow> (True, dir\<lparr>table := es @ drop (nat (tableSize dir)) (table dir)\<rparr>))"

definition Directory_Remove :: "byte list \<Rightarrow> Directory \<Rightarrow> bool \<times> Directory" where
  "Directory_Remove name dir =
     (let i = FindIndex name dir in
      if i = - 1 then (False, dir)
      else (True, dir\<lparr>table := (table dir)[nat i := (table dir ! nat i)\<lparr>inUse := False\<rparr>]\<rparr>))"

text \<open>\<open>List\<close>: the names printed, each up to its NUL.\<close>

definition Directory_List :: "Directory \<Rightarrow> byte list list" where
  "Directory_List dir = map (\<lambda>e. takeWhile (\<lambda>c. c \<noteq> 0) (ename e)) (filter inUse (take (nat (tableSize dir)) (table dir)))"

section \<open>The file system\<close>

definition FileSystem_open :: "bool \<Rightarrow> 'd sector_read \<Rightarrow> 'd \<Rightarrow> (FileSystem \<times> 'd) res" where
  "FileSystem_open be rd d =
     rbind (OpenFile_new be rd FreeMapSector d) (\<lambda>(fm, d1).
     rbind (OpenFile_new be rd DirectorySector d1) (\<lambda>(df, d2).
     Inr (\<lparr>freeMapFile = fm, directoryFile = df\<rparr>, d2)))"

definition FileSystem_new ::
  "bool \<Rightarrow> 'd sector_read \<Rightarrow> 'd sector_write \<Rightarrow> garbage \<Rightarrow> bool \<Rightarrow> 'd \<Rightarrow> (FileSystem \<times> 'd) res" where
  "FileSystem_new be rd wr g format d =
     (if format then
        rbind (BitMap_new (g_words g) NumSectors) (\<lambda>freeMap.
        rbind (Directory_new g NumDirEntries) (\<lambda>directory.
        rbind (Mark FreeMapSector freeMap) (\<lambda>fm1.
        rbind (Mark DirectorySector fm1) (\<lambda>fm2.
        rbind (Allocate fm2 FreeMapFileSize (g_header g)) (\<lambda>(ok1, mapHdr, fm3).
        rbind (ASSERT ok1) (\<lambda>_.
        rbind (Allocate fm3 DirectoryFileSize (g_header g)) (\<lambda>(ok2, dirHdr, fm4).
        rbind (ASSERT ok2) (\<lambda>_.
        rbind (WriteBack be wr FreeMapSector mapHdr d) (\<lambda>d1.
        rbind (WriteBack be wr DirectorySector dirHdr d1) (\<lambda>d2.
        rbind (FileSystem_open be rd d2) (\<lambda>(fs, d3).
        rbind (BitMap_WriteBack be rd wr (g_bytes g) (freeMapFile fs) fm4 d3) (\<lambda>d4.
        rbind (Directory_WriteBack be rd wr (g_bytes g) (directoryFile fs) directory d4) (\<lambda>d5.
        Inr (fs, d5))))))))))))))
      else FileSystem_open be rd d)"

definition fetch_directory :: "bool \<Rightarrow> 'd sector_read \<Rightarrow> garbage \<Rightarrow> FileSystem \<Rightarrow> 'd \<Rightarrow> (Directory \<times> 'd) res" where
  "fetch_directory be rd g fs d =
     rbind (Directory_new g NumDirEntries) (\<lambda>dir. Directory_FetchFrom be rd (directoryFile fs) dir d)"

definition fetch_freemap :: "bool \<Rightarrow> 'd sector_read \<Rightarrow> garbage \<Rightarrow> FileSystem \<Rightarrow> 'd \<Rightarrow> (bitmap \<times> 'd) res" where
  "fetch_freemap be rd g fs d =
     rbind (BitMap_new (g_words g) NumSectors) (\<lambda>b. BitMap_FetchFrom be rd (freeMapFile fs) b d)"

definition FileSystem_Create ::
  "bool \<Rightarrow> 'd sector_read \<Rightarrow> 'd sector_write \<Rightarrow> garbage \<Rightarrow> byte list \<Rightarrow> int \<Rightarrow> FileSystem \<Rightarrow> 'd \<Rightarrow> (bool \<times> 'd) res" where
  "FileSystem_Create be rd wr g name initialSize fs d =
     rbind (fetch_directory be rd g fs d) (\<lambda>(directory, d1).
     if Directory_Find name directory \<noteq> - 1 then Inr (False, d1)
     else
       rbind (fetch_freemap be rd g fs d1) (\<lambda>(freeMap, d2).
       rbind (Find freeMap) (\<lambda>(sector, fm1).
       if sector = - 1 then Inr (False, d2)
       else
         let (added, directory') = Directory_Add name sector directory in
         if \<not> added then Inr (False, d2)
         else
           rbind (Allocate fm1 initialSize (g_header g)) (\<lambda>(ok, h, fm2).
           if \<not> ok then Inr (False, d2)
           else
             rbind (WriteBack be wr sector h d2) (\<lambda>d3.
             rbind (Directory_WriteBack be rd wr (g_bytes g) (directoryFile fs) directory' d3) (\<lambda>d4.
             rbind (BitMap_WriteBack be rd wr (g_bytes g) (freeMapFile fs) fm2 d4) (\<lambda>d5.
             Inr (True, d5))))))))"

definition FileSystem_Open ::
  "bool \<Rightarrow> 'd sector_read \<Rightarrow> garbage \<Rightarrow> byte list \<Rightarrow> FileSystem \<Rightarrow> 'd \<Rightarrow> (OpenFile option \<times> 'd) res" where
  "FileSystem_Open be rd g name fs d =
     rbind (fetch_directory be rd g fs d) (\<lambda>(directory, d1).
     let sector = Directory_Find name directory in
     if sector \<ge> 0 then rbind (OpenFile_new be rd sector d1) (\<lambda>(f, d2). Inr (Some f, d2))
     else Inr (None, d1))"

definition FileSystem_Remove ::
  "bool \<Rightarrow> 'd sector_read \<Rightarrow> 'd sector_write \<Rightarrow> garbage \<Rightarrow> byte list \<Rightarrow> FileSystem \<Rightarrow> 'd \<Rightarrow> (bool \<times> 'd) res" where
  "FileSystem_Remove be rd wr g name fs d =
     rbind (fetch_directory be rd g fs d) (\<lambda>(directory, d1).
     let sector = Directory_Find name directory in
     if sector = - 1 then Inr (False, d1)
     else
       rbind (FetchFrom be rd sector d1) (\<lambda>(fileHdr, d2).
       rbind (fetch_freemap be rd g fs d2) (\<lambda>(freeMap, d3).
       rbind (Deallocate fileHdr freeMap) (\<lambda>fm1.
       rbind (Clear sector fm1) (\<lambda>fm2.
       let (_, directory') = Directory_Remove name directory in
       rbind (BitMap_WriteBack be rd wr (g_bytes g) (freeMapFile fs) fm2 d3) (\<lambda>d4.
       rbind (Directory_WriteBack be rd wr (g_bytes g) (directoryFile fs) directory' d4) (\<lambda>d5.
       Inr (True, d5))))))))"

definition FileSystem_List :: "bool \<Rightarrow> 'd sector_read \<Rightarrow> garbage \<Rightarrow> FileSystem \<Rightarrow> 'd \<Rightarrow> (byte list list \<times> 'd) res" where
  "FileSystem_List be rd g fs d =
     rbind (fetch_directory be rd g fs d) (\<lambda>(directory, d1). Inr (Directory_List directory, d1))"

section \<open>A directory as a map\<close>

text \<open>What \<open>strncmp\<close> sees of a name: its first nine characters, up to the NUL.\<close>

definition name_key :: "byte list \<Rightarrow> byte list" where
  "name_key s = takeWhile (\<lambda>c. c \<noteq> 0) (take FileNameMaxLen s)"

definition dir_map :: "DirectoryEntry list \<Rightarrow> byte list \<rightharpoonup> int" where
  "dir_map es = map_of (map (\<lambda>e. (name_key (ename e), dsector e)) (filter inUse es))"

definition dir_ok :: "Directory \<Rightarrow> bool" where
  "dir_ok dir \<longleftrightarrow> tableSize dir = int (length (table dir)) \<and> (\<forall>e \<in> set (table dir). length (ename e) = 10)
     \<and> distinct (map (\<lambda>e. name_key (ename e)) (filter inUse (table dir)))"

lemma strncmp_eq_iff:
  "strncmp_eq n a b \<longleftrightarrow> takeWhile (\<lambda>c. c \<noteq> 0) (take n a) = takeWhile (\<lambda>c. c \<noteq> 0) (take n b)"
proof (induction n arbitrary: a b)
  case (Suc n)
  show ?case by (cases a; cases b) (simp_all add: char_at0_def Suc.IH)
qed simp

lemma takeWhile_padded:
  "takeWhile (\<lambda>c. c \<noteq> 0) (take n (xs @ replicate m (0 :: byte))) = takeWhile (\<lambda>c. c \<noteq> 0) (take n xs)"
proof (induction xs arbitrary: n)
  case Nil
  show ?case by (cases n; cases m) simp_all
next
  case (Cons x xs)
  then show ?case by (cases n) simp_all
qed

lemma name_key_strncpy: "name_key (strncpy dst src FileNameMaxLen) = name_key src"
proof -
  have "take 9 (strncpy dst src 9) = take 9 (src @ replicate 9 0)" unfolding strncpy_def by (subst take_append) simp
  then show ?thesis unfolding name_key_def by (simp only: takeWhile_padded)
qed

lemma FindIndex_loop_spec:
  "(FindIndex_loop nm (int i) es = - 1 \<and> (\<forall>e \<in> set es. inUse e \<longrightarrow> name_key (ename e) \<noteq> name_key nm))
 \<or> (\<exists>j < length es. FindIndex_loop nm (int i) es = int (i + j) \<and> inUse (es ! j) \<and> name_key (ename (es ! j)) = name_key nm)"
proof (induction es arbitrary: i)
  case (Cons e es)
  show ?case
  proof (cases "inUse e \<and> name_key (ename e) = name_key nm")
    case True
    then have "FindIndex_loop nm (int i) (e # es) = int i" by (simp add: strncmp_eq_iff name_key_def)
    then show ?thesis using True by (intro disjI2 exI [of _ 0]) simp
  next
    case False
    then have step: "FindIndex_loop nm (int i) (e # es) = FindIndex_loop nm (int (Suc i)) es"
      by (auto simp: strncmp_eq_iff name_key_def algebra_simps)
    from Cons.IH [of "Suc i"] show ?thesis
    proof (elim disjE exE conjE)
      fix j assume "j < length es" "FindIndex_loop nm (int (Suc i)) es = int (Suc i + j)" "inUse (es ! j)" "name_key (ename (es ! j)) = name_key nm"
      then show ?thesis using step by (intro disjI2 exI [of _ "Suc j"]) simp
    qed (use step False in auto)
  qed
qed simp

lemma dir_map_mem:
  assumes "distinct (map (\<lambda>e. name_key (ename e)) (filter inUse es))" "e \<in> set es" "inUse e"
  shows "dir_map es (name_key (ename e)) = Some (dsector e)"
  using assms by (auto simp: dir_map_def comp_def intro!: map_of_is_SomeI)

lemma dir_map_None: "dir_map es k = None \<longleftrightarrow> (\<forall>e \<in> set es. inUse e \<longrightarrow> name_key (ename e) \<noteq> k)"
  by (simp add: dir_map_def map_of_eq_None_iff image_iff) blast

lemma FindIndex_cases:
  assumes "dir_ok dir"
  obtains "FindIndex nm dir = - 1" "dir_map (table dir) (name_key nm) = None"
  | j where "j < length (table dir)" "FindIndex nm dir = int j" "inUse (table dir ! j)" "name_key (ename (table dir ! j)) = name_key nm"
      "dir_map (table dir) (name_key nm) = Some (dsector (table dir ! j))"
proof -
  have t: "take (nat (tableSize dir)) (table dir) = table dir" using assms by (simp add: dir_ok_def)
  have d: "distinct (map (\<lambda>e. name_key (ename e)) (filter inUse (table dir)))" using assms by (simp add: dir_ok_def)
  have f: "FindIndex nm dir = FindIndex_loop nm (int 0) (table dir)" by (simp add: FindIndex_def t)
  from FindIndex_loop_spec [of nm 0 "table dir"] show thesis
  proof (elim disjE exE conjE)
    assume "FindIndex_loop nm (int 0) (table dir) = - 1" "\<forall>e \<in> set (table dir). inUse e \<longrightarrow> name_key (ename e) \<noteq> name_key nm"
    then show thesis using that(1) f dir_map_None by auto
  next
    fix j assume j: "j < length (table dir)" "FindIndex_loop nm (int 0) (table dir) = int (0 + j)" "inUse (table dir ! j)"
      "name_key (ename (table dir ! j)) = name_key nm"
    then show thesis using that(2) [OF j(1) _ j(3,4)] f dir_map_mem [OF d nth_mem [OF j(1)] j(3)] by simp
  qed
qed

lemma Add_loop_spec:
  "(Add_loop nm k es = None \<and> (\<forall>e \<in> set es. inUse e))
 \<or> (\<exists>xs e ys. es = xs @ e # ys \<and> \<not> inUse e \<and> (\<forall>x \<in> set xs. inUse x)
      \<and> Add_loop nm k es = Some (xs @ e\<lparr>inUse := True, ename := strncpy (ename e) nm FileNameMaxLen, dsector := k\<rparr> # ys))"
proof (induction es)
  case (Cons e es)
  show ?case
  proof (cases "inUse e")
    case True
    from Cons.IH show ?thesis
    proof (elim disjE exE conjE)
      fix xs e' ys assume "es = xs @ e' # ys" "\<not> inUse e'" "\<forall>x \<in> set xs. inUse x"
        "Add_loop nm k es = Some (xs @ e'\<lparr>inUse := True, ename := strncpy (ename e') nm 9, dsector := k\<rparr> # ys)"
      then show ?thesis using True by (intro disjI2 exI [of _ "e # xs"] exI [of _ e'] exI [of _ ys]) simp
    qed (use True in simp)
  next
    case False
    then show ?thesis by (intro disjI2 exI [of _ "[]"]) simp
  qed
qed simp

lemma map_of_insert_fresh: "map_of (as @ bs) k = None \<Longrightarrow> map_of (as @ (k, v) # bs) = (map_of (as @ bs))(k \<mapsto> v)"
  by (rule ext) (auto simp: map_add_def split: option.splits)

lemma map_of_delete:
  assumes "distinct (map fst (as @ (k, v) # bs))"
  shows "map_of (as @ bs) = (map_of (as @ (k, v) # bs))(k := None)"
proof (rule ext)
  fix x
  have "map_of as k = None" "map_of bs k = None" using assms by (auto simp: map_of_eq_None_iff)
  then show "map_of (as @ bs) x = ((map_of (as @ (k, v) # bs))(k := None)) x"
    by (auto simp: map_add_def split: option.splits)
qed

lemma add_entry_ok:
  assumes "dir_ok dir" "dir_map (table dir) (name_key nm) = None" "FindIndex nm dir = - 1" "\<exists>e \<in> set (table dir). \<not> inUse e"
  shows "\<exists>dir'. Directory_Add nm k dir = (True, dir') \<and> dir_ok dir' \<and> length (table dir') = length (table dir)
     \<and> dir_map (table dir') = (dir_map (table dir))(name_key nm \<mapsto> k)"
proof -
  have t: "take (nat (tableSize dir)) (table dir) = table dir" "drop (nat (tableSize dir)) (table dir) = []" using assms(1) by (simp_all add: dir_ok_def)
  obtain xs e ys where es: "table dir = xs @ e # ys" "\<not> inUse e" "Add_loop nm k (table dir) =
      Some (xs @ e\<lparr>inUse := True, ename := strncpy (ename e) nm 9, dsector := k\<rparr> # ys)"
    using Add_loop_spec [of nm k "table dir"] assms(4) by blast
  let ?e = "e\<lparr>inUse := True, ename := strncpy (ename e) nm 9, dsector := k\<rparr>" let ?kv = "\<lambda>e. (name_key (ename e), dsector e)"
  have ke: "name_key (ename ?e) = name_key nm" by (simp add: name_key_strncpy)
  have "map_of (map ?kv (filter inUse xs) @ map ?kv (filter inUse ys)) (name_key nm) = None"
    using assms(2) es(1,2) by (simp add: dir_map_def)
  from map_of_insert_fresh [OF this, of k]
  have m: "dir_map (xs @ ?e # ys) = (dir_map (table dir))(name_key nm \<mapsto> k)"
    using es(1,2) ke by (simp add: dir_map_def)
  have "name_key nm \<notin> (\<lambda>e. name_key (ename e)) ` {x \<in> set xs \<union> set ys. inUse x}"
    using assms(2) es(1) by (auto simp: dir_map_None)
  then have "dir_ok (dir\<lparr>table := xs @ ?e # ys\<rparr>)"
    using assms(1) es(1,2) ke by (auto simp: dir_ok_def strncpy_def)
  then show ?thesis using m es assms(3) t by (simp add: Directory_Add_def)
qed

lemma remove_entry_ok:
  assumes "dir_ok dir" "j < length (table dir)" "inUse (table dir ! j)"
  defines "es \<equiv> (table dir)[j := (table dir ! j)\<lparr>inUse := False\<rparr>]"
  shows "dir_ok (dir\<lparr>table := es\<rparr>) \<and> dir_map es = (dir_map (table dir))(name_key (ename (table dir ! j)) := None)"
proof -
  let ?kv = "\<lambda>e. (name_key (ename e), dsector e)"
  obtain xs e ys where t: "table dir = xs @ e # ys" "length xs = j" using id_take_nth_drop [OF assms(2)] assms(2) by fastforce
  then have e: "table dir ! j = e" "es = xs @ e\<lparr>inUse := False\<rparr> # ys" by (auto simp: es_def nth_append list_update_append)
  then have f: "filter inUse (table dir) = filter inUse xs @ e # filter inUse ys" "filter inUse es = filter inUse xs @ filter inUse ys"
    using t(1) assms(3) by simp_all
  have d: "distinct (map (\<lambda>e. name_key (ename e)) (filter inUse (table dir)))" using assms(1) by (simp add: dir_ok_def)
  then have "distinct (map fst (map ?kv (filter inUse xs) @ ?kv e # map ?kv (filter inUse ys)))" unfolding f by (simp add: comp_def)
  from map_of_delete [OF this] have "dir_map es = (dir_map (table dir))(name_key (ename e) := None)"
    unfolding dir_map_def f by simp
  moreover have "distinct (map (\<lambda>e. name_key (ename e)) (filter inUse es))" using d unfolding f by simp
  moreover have "\<forall>x \<in> set es. length (ename x) = 10" using assms(1) unfolding e dir_ok_def t by simp
  moreover have "tableSize dir = int (length es)" using assms(1) unfolding e dir_ok_def t by simp
  ultimately show ?thesis unfolding e(1) by (simp add: dir_ok_def)
qed

lemma Directory_Find_map:
  assumes "dir_ok dir"
  shows "Directory_Find nm dir = (case dir_map (table dir) (name_key nm) of None \<Rightarrow> - 1 | Some k \<Rightarrow> k)"
  by (cases rule: FindIndex_cases [OF assms, of nm]) (simp_all add: Directory_Find_def)

lemma Directory_Add_map:
  assumes "dir_ok dir"
  shows "\<exists>dir'. Directory_Add nm k dir = (dir_map (table dir) (name_key nm) = None \<and> (\<exists>e \<in> set (table dir). \<not> inUse e), dir')
     \<and> dir_ok dir' \<and> length (table dir') = length (table dir)
     \<and> dir_map (table dir') = (if dir_map (table dir) (name_key nm) = None \<and> (\<exists>e \<in> set (table dir). \<not> inUse e)
          then (dir_map (table dir))(name_key nm \<mapsto> k) else dir_map (table dir))"
proof (cases rule: FindIndex_cases [OF assms, of nm])
  case 1
  show ?thesis
  proof (cases "\<exists>e \<in> set (table dir). \<not> inUse e")
    case True then show ?thesis using add_entry_ok [OF assms 1(2,1), of k] 1(2) by auto
  next
    case False
    then have "Add_loop nm k (table dir) = None" using Add_loop_spec [of nm k "table dir"] by auto
    moreover have "take (nat (tableSize dir)) (table dir) = table dir" using assms by (simp add: dir_ok_def)
    ultimately show ?thesis using 1 False assms by (simp add: Directory_Add_def)
  qed
next
  case (2 j)
  then show ?thesis using assms by (simp add: Directory_Add_def)
qed

lemma Directory_Remove_map:
  assumes "dir_ok dir"
  shows "\<exists>dir'. Directory_Remove nm dir = (dir_map (table dir) (name_key nm) \<noteq> None, dir') \<and> dir_ok dir'
     \<and> length (table dir') = length (table dir) \<and> dir_map (table dir') = (dir_map (table dir))(name_key nm := None)"
proof (cases rule: FindIndex_cases [OF assms, of nm])
  case 1
  then show ?thesis using assms by (simp add: Directory_Remove_def fun_upd_idem)
next
  case (2 j)
  then have "Directory_Remove nm dir = (True, dir\<lparr>table := (table dir)[j := (table dir ! j)\<lparr>inUse := False\<rparr>]\<rparr>)"
    by (simp add: Directory_Remove_def Let_def)
  then show ?thesis using 2 remove_entry_ok [OF assms 2(1,3)] by simp
qed

text \<open>C24: a directory is a finite map from names to header sectors, where two names are the same when their
  first nine characters are. \<open>Find\<close> looks a name up, or returns -1; \<open>Add\<close> refuses a name that is there,
  and any name when all entries are in use, and otherwise adds exactly that name; \<open>Remove\<close> deletes
  exactly the name, or reports that it is not there. All keep the table well formed.\<close>

theorem directory_is_map:
  assumes "dir_ok dir"
  shows "Directory_Find nm dir = (case dir_map (table dir) (name_key nm) of None \<Rightarrow> - 1 | Some k \<Rightarrow> k)
    \<and> (\<exists>dir'. Directory_Add nm sec dir =
         (dir_map (table dir) (name_key nm) = None \<and> (\<exists>e \<in> set (table dir). \<not> inUse e), dir') \<and> dir_ok dir'
         \<and> dir_map (table dir') = (if dir_map (table dir) (name_key nm) = None \<and> (\<exists>e \<in> set (table dir). \<not> inUse e)
              then (dir_map (table dir))(name_key nm \<mapsto> sec) else dir_map (table dir)))
    \<and> (\<exists>dir'. Directory_Remove nm dir = (dir_map (table dir) (name_key nm) \<noteq> None, dir') \<and> dir_ok dir'
         \<and> dir_map (table dir') = (dir_map (table dir))(name_key nm := None))"
  using Directory_Find_map [OF assms, of nm] Directory_Add_map [OF assms, of nm sec] Directory_Remove_map [OF assms, of nm] by blast

definition demo_dir :: Directory where
  "demo_dir = \<lparr>tableSize = 2, table =
     [\<lparr>inUse = True, dsector = 7, ename = [97, 98, 0, 0, 0, 0, 0, 0, 0, 5], epad = [0, 0, 0, 0, 0]\<rparr>,
      \<lparr>inUse = False, dsector = 0, ename = [0, 0, 0, 0, 0, 0, 0, 0, 0, 0], epad = [0, 0, 0, 0, 0]\<rparr>]\<rparr>"

theorem directory_is_map_witness:
  "Directory_Find [97, 98] demo_dir = 7
   \<and> (\<exists>dir'. Directory_Add [99] 12 demo_dir = (True, dir') \<and> dir_ok dir' \<and> dir_map (table dir') = (dir_map (table demo_dir))([99] \<mapsto> 12))"
proof -
  have ok: "dir_ok demo_dir" by (simp add: dir_ok_def demo_dir_def)
  have "dir_map (table demo_dir) (name_key [97, 98]) = Some 7" "dir_map (table demo_dir) (name_key [99]) = None"
    "name_key [99] = [99]" "\<exists>e \<in> set (table demo_dir). \<not> inUse e"
    by (simp_all add: dir_map_def demo_dir_def name_key_def)
  then show ?thesis using directory_is_map [OF ok, of "[97, 98]"] directory_is_map [OF ok, of "[99]" 12] by simp
qed

text \<open>Names that differ only after their ninth character are one name to the directory.\<close>

lemma long_names_collide:
  "dir_ok dir \<Longrightarrow> length a = 9 \<Longrightarrow> Directory_Find (a @ [x]) dir = Directory_Find (a @ [y]) dir"
  by (cases rule: FindIndex_cases [of dir "a @ [x]"]; assumption?; cases rule: FindIndex_cases [of dir "a @ [y]"])
     (auto simp: Directory_Find_def name_key_def)

end
