(* ===== verification/FileSysCorrect.thy ===== *)
theory FileSysCorrect
  imports FileCorrect FileSysModel
begin

text \<open>
  The file system as a whole (theory FileSysModel): what is on the disk after it has been
  formatted and after every operation.

  The abstract file system is a finite map from names to byte sequences. The invariant says how the disk
  represents it: the two system files are in place, the directory is well formed, every file has a header that describes
  it, no sector belongs to two of them, and the map of free sectors marks exactly the sectors in use.
\<close>

section \<open>The layout of the disk\<close>

text \<open>The sectors of the disk as a function that does not depend on what is not a sector.\<close>

definition on_disk :: "('d \<Rightarrow> int \<Rightarrow> byte list) \<Rightarrow> 'd \<Rightarrow> int \<Rightarrow> byte list" where
  "on_disk sec d n = (if sector_ok n then sec d n else [])"

definition fs_map :: "bool \<Rightarrow> FileSystem \<Rightarrow> (int \<Rightarrow> byte list) \<Rightarrow> bitmap" where
  "fs_map be fs S = \<lparr>numBits = 1024, numWords = 32, wmap = words_of be (contents S (hdr (freeMapFile fs)))\<rparr>"

definition fs_dir :: "bool \<Rightarrow> FileSystem \<Rightarrow> (int \<Rightarrow> byte list) \<Rightarrow> Directory" where
  "fs_dir be fs S = \<lparr>tableSize = 10, table = entries_of be 10 (contents S (hdr (directoryFile fs)))\<rparr>"

definition fs_index :: "bool \<Rightarrow> FileSystem \<Rightarrow> (int \<Rightarrow> byte list) \<Rightarrow> byte list \<rightharpoonup> int" where
  "fs_index be fs S = dir_map (table (fs_dir be fs S))"

definition sys_sectors :: "FileSystem \<Rightarrow> int list" where
  "sys_sectors fs = 0 # 1 # file_sectors (hdr (freeMapFile fs)) @ file_sectors (hdr (directoryFile fs))"

text \<open>The sectors of a file: the one of its header, and its data.\<close>

definition block :: "(int \<Rightarrow> FileHeader) \<Rightarrow> int \<Rightarrow> int set" where
  "block H s = insert s (set (file_sectors (H s)))"

text \<open>Files named by \<open>idx\<close> with the headers \<open>H\<close>, beside the system sectors; \<open>M\<close> are the sectors in use.\<close>

definition layout :: "int set \<Rightarrow> (byte list \<rightharpoonup> int) \<Rightarrow> (int \<Rightarrow> FileHeader) \<Rightarrow> int set \<Rightarrow> bool" where
  "layout sys idx H M \<longleftrightarrow>
     (\<forall>k s. idx k = Some s \<longrightarrow> sector_ok s \<and> hdr_ok (H s) \<and> s \<notin> set (file_sectors (H s)) \<and> block H s \<inter> sys = {})
     \<and> (\<forall>k k' s s'. idx k = Some s \<longrightarrow> idx k' = Some s' \<longrightarrow> k \<noteq> k' \<longrightarrow> block H s \<inter> block H s' = {})
     \<and> M = sys \<union> (\<Union>s \<in> ran idx. block H s)"

lemma layout_file:
  assumes "layout sys idx H M" "idx k = Some s"
  shows "sector_ok s" "hdr_ok (H s)" "s \<notin> set (file_sectors (H s))" "block H s \<inter> sys = {}" "block H s \<subseteq> M" "s \<in> M"
proof -
  show "sector_ok s" "hdr_ok (H s)" "s \<notin> set (file_sectors (H s))" "block H s \<inter> sys = {}"
    using assms unfolding layout_def by blast+
  have "s \<in> ran idx" using assms(2) by (rule ranI)
  then show "block H s \<subseteq> M" using assms(1) unfolding layout_def by blast
  then show "s \<in> M" by (auto simp: block_def)
qed

lemma layout_disjoint:
  "layout sys idx H M \<Longrightarrow> idx k = Some s \<Longrightarrow> idx k' = Some s' \<Longrightarrow> k \<noteq> k' \<Longrightarrow> block H s \<inter> block H s' = {}"
  unfolding layout_def by blast

lemma layout_cong:
  assumes l: "layout sys idx H M" and e: "\<And>s. s \<in> ran idx \<Longrightarrow> H' s = H s"
  shows "layout sys idx H' M"
proof -
  have b: "block H' s = block H s" "H' s = H s" if "idx k = Some s" for k s
  proof -
    show h: "H' s = H s" using e that by (meson ranI)
    show "block H' s = block H s" by (simp add: block_def h)
  qed
  have "(\<Union>s \<in> ran idx. block H' s) = (\<Union>s \<in> ran idx. block H s)" using b(1) by (intro SUP_cong) (auto simp: ran_def)
  then have "M = sys \<union> (\<Union>s \<in> ran idx. block H' s)" using l by (simp add: layout_def)
  moreover have "block H' s \<inter> block H' s' = {}" if "idx k = Some s" "idx k' = Some s'" "k \<noteq> k'" for k k' s s'
    using layout_disjoint [OF l that] b(1) [OF that(1)] b(1) [OF that(2)] by simp
  moreover have "sector_ok s \<and> hdr_ok (H' s) \<and> s \<notin> set (file_sectors (H' s)) \<and> block H' s \<inter> sys = {}" if "idx k = Some s" for k s
    using layout_file [OF l that] b [OF that] by simp
  ultimately show ?thesis unfolding layout_def by blast
qed

lemma layout_insert:
  assumes l: "layout sys idx H M" and k: "idx k = None" and s: "sector_ok s" "s \<notin> M" "H s = h" "hdr_ok h"
    "s \<notin> set (file_sectors h)" "set (file_sectors h) \<inter> M = {}"
  shows "layout sys (idx(k \<mapsto> s)) H (M \<union> insert s (set (file_sectors h)))"
proof -
  have b: "block H s = insert s (set (file_sectors h))" using s(3) by (simp add: block_def)
  have M: "M = sys \<union> (\<Union>s \<in> ran idx. block H s)" using l by (simp add: layout_def)
  have d: "block H s \<inter> M = {}" using s(2,6) b by auto
  have "ran (idx(k \<mapsto> s)) = insert s (ran idx)" using k by (rule ran_map_upd)
  then have 3: "M \<union> insert s (set (file_sectors h)) = sys \<union> (\<Union>s \<in> ran (idx(k \<mapsto> s)). block H s)" unfolding M b by (auto simp: b)
  have 1: "sector_ok s' \<and> hdr_ok (H s') \<and> s' \<notin> set (file_sectors (H s')) \<and> block H s' \<inter> sys = {}"
    if "(idx(k \<mapsto> s)) k' = Some s'" for k' s'
  proof (cases "k' = k")
    case True
    then show ?thesis using that s d M by auto
  next
    case False
    then show ?thesis using that layout_file [OF l, of k'] by simp
  qed
  have 2: "block H s1 \<inter> block H s2 = {}" if "(idx(k \<mapsto> s)) k1 = Some s1" "(idx(k \<mapsto> s)) k2 = Some s2" "k1 \<noteq> k2" for k1 k2 s1 s2
  proof -
    have old: "block H s' \<inter> block H s = {}" if "idx k' = Some s'" for k' s' using layout_file(5) [OF l that] d by blast
    consider "k1 = k" | "k2 = k" | "k1 \<noteq> k" "k2 \<noteq> k" by blast
    then show ?thesis
    proof cases
      case 1 then show ?thesis using that old [of k2 s2] by auto
    next
      case 2 then show ?thesis using that old [of k1 s1] by auto
    next
      case 3 then show ?thesis using that layout_disjoint [OF l, of k1 s1 k2 s2] by simp
    qed
  qed
  show ?thesis unfolding layout_def using 1 2 3 by blast
qed

lemma layout_delete:
  assumes l: "layout sys idx H M" and k: "idx k = Some s"
  shows "layout sys (idx(k := None)) H (M - block H s)"
proof -
  have sub: "idx k' = Some s'" "k' \<noteq> k" if "(idx(k := None)) k' = Some s'" for k' s' using that by (auto split: if_splits)
  have o: "block H s' \<inter> block H s = {}" if "(idx(k := None)) k' = Some s'" for k' s'
    using layout_disjoint [OF l sub(1) [OF that] k sub(2) [OF that]] .
  have r: "ran idx = insert s (ran (idx(k := None)))" 
  proof (rule set_eqI)
    fix x
    have "idx a = Some x \<Longrightarrow> x \<noteq> s \<Longrightarrow> (idx(k := None)) a = Some x" for a using k by auto
    then show "x \<in> ran idx \<longleftrightarrow> x \<in> insert s (ran (idx(k := None)))" using k sub(1) unfolding ran_def by blast
  qed
  have M: "M = sys \<union> (\<Union>s \<in> ran idx. block H s)" using l by (simp add: layout_def)
  have "(\<Union>s' \<in> ran (idx(k := None)). block H s') \<inter> block H s = {}" using o unfolding ran_def by blast
  moreover have "sys \<inter> block H s = {}" using layout_file(4) [OF l k] by blast
  ultimately have 3: "M - block H s = sys \<union> (\<Union>s \<in> ran (idx(k := None)). block H s)" unfolding M r by auto
  have 1: "sector_ok s' \<and> hdr_ok (H s') \<and> s' \<notin> set (file_sectors (H s')) \<and> block H s' \<inter> sys = {}"
    if "(idx(k := None)) k' = Some s'" for k' s' using layout_file [OF l sub(1) [OF that]] by blast
  have 2: "block H s1 \<inter> block H s2 = {}" if "(idx(k := None)) k1 = Some s1" "(idx(k := None)) k2 = Some s2" "k1 \<noteq> k2" for k1 k2 s1 s2
    using layout_disjoint [OF l sub(1) [OF that(1)] sub(1) [OF that(2)] that(3)] .
  show ?thesis unfolding layout_def using 1 2 3 by blast
qed

section \<open>Encodings\<close>

definition entry_ok :: "DirectoryEntry \<Rightarrow> bool" where
  "entry_ok e \<longleftrightarrow> length (ename e) = 10 \<and> length (epad e) = 5 \<and> - (2 ^ 31) \<le> dsector e \<and> dsector e < 2 ^ 31"

lemma length_entry_bytes: "entry_ok e \<Longrightarrow> length (entry_bytes be e) = 20"
  by (simp add: entry_ok_def entry_bytes_def)

lemma entry_of_bytes: "entry_ok e \<Longrightarrow> entry_of be (entry_bytes be e) = e"
proof -
  assume e: "entry_ok e"
  obtain a b c p q where p: "epad e = [a, b, c, p, q]" using e by (auto simp: entry_ok_def length_Suc_conv eval_nat_numeral)
  let ?w = "word_of_int (dsector e) :: 32 word"
  have bs: "entry_bytes be e = ((if inUse e then 1 else 0) # [a, b, c]) @ int_bytes be ?w @ ename e @ [p, q]"
    by (simp add: entry_bytes_def p)
  have "take 4 (drop 4 (entry_bytes be e)) = int_bytes be ?w" unfolding bs by simp
  moreover have "take 10 (drop 8 (entry_bytes be e)) = ename e" "take 3 (drop 1 (entry_bytes be e)) @ drop 18 (entry_bytes be e) = epad e"
    "entry_bytes be e ! 0 = (if inUse e then 1 else 0)"
    using e unfolding bs by (simp_all add: entry_ok_def p)
  moreover have "sint ?w = dsector e" using e int32_id [of "dsector e"] by (simp add: entry_ok_def int32_def)
  ultimately show ?thesis unfolding entry_of_def by (cases e) auto
qed

lemma length_table_bytes: "(\<forall>e \<in> set es. entry_ok e) \<Longrightarrow> length (table_bytes be es) = 20 * length es"
  unfolding table_bytes_def by (rule length_concat_const) (simp add: length_entry_bytes)

lemma entries_of_bytes: "(\<forall>e \<in> set es. entry_ok e) \<Longrightarrow> entries_of be (length es) (table_bytes be es) = es"
  by (induction es) (simp_all add: table_bytes_def length_entry_bytes entry_of_bytes)

lemma entry_of_ok: "length bs = 20 \<Longrightarrow> entry_ok (entry_of be bs)"
proof -
  assume "length bs = 20"
  moreover have "- (2 ^ 31) \<le> sint (w :: 32 word)" "sint (w :: 32 word) < 2 ^ 31" for w using sint_ge [of w] sint_lt [of w] by simp_all
  ultimately show ?thesis by (simp add: entry_ok_def entry_of_def bytes_int_def Let_def)
qed

lemma entries_of_ok: "length bs = 20 * n \<Longrightarrow> length (entries_of be n bs) = n \<and> (\<forall>e \<in> set (entries_of be n bs). entry_ok e)"
proof (induction n arbitrary: bs)
  case (Suc n)
  then show ?case using Suc.IH [of "drop 20 bs"] by (simp add: entry_of_ok)
qed simp

lemma words_of_bytes: "words_of be (concat (map (int_bytes be) ws)) = ws"
proof (induction ws)
  case (Cons w ws)
  obtain a b c d where q: "int_bytes be w = [a, b, c, d]" by (cases be) (simp_all add: int_bytes_def Let_def)
  then have "word_of_int (bytes_int be [a, b, c, d]) = w" using bytes_int_bytes [of be w] by simp
  then show ?case using Cons q by simp
qed simp

lemma length_words_of: "length bs = 4 * n \<Longrightarrow> length (words_of be bs) = n"
proof (induction n arbitrary: bs)
  case (Suc n)
  then obtain a b c d bs' where "bs = a # b # c # d # bs'" by (auto simp: length_Suc_conv eval_nat_numeral)
  then show ?case using Suc by simp
qed simp

lemma length_map_bytes: "length (concat (map (int_bytes be) ws)) = 4 * length ws"
  by (rule length_concat_const) simp

lemma hdr_of_ints: "hdr_ints (hdr_of be bs)"
proof -
  have "- (2 ^ 31) \<le> sint (w :: 32 word)" "sint (w :: 32 word) < 2 ^ 31" for w using sint_ge [of w] sint_lt [of w] by simp_all
  then show ?thesis by (auto simp: hdr_ints_def hdr_of_def bytes_int_def Let_def)
qed

lemma overlay_all: "length bs = length buf \<Longrightarrow> overlay 0 bs buf = bs"
  by (simp add: overlay_def)

lemma length_contents:
  assumes "hdr_ok h" "\<And>n. n \<in> set (file_sectors h) \<Longrightarrow> length (S n) = 128"
  shows "length (contents S h) = nat (numBytes h)"
proof -
  have "length (concat (map S (file_sectors h))) = 128 * nsec h"
    using length_concat_const [of "file_sectors h" S 128] assms hdr_ok_facts(1) [OF assms(1)] by simp
  then show ?thesis using hdr_ok_facts(3) [OF assms(1)] by (simp add: contents_def)
qed

section \<open>The invariant and the abstract file system\<close>

definition sys_ok :: "FileSystem \<Rightarrow> bool" where
  "sys_ok fs \<longleftrightarrow> hdr_ok (hdr (freeMapFile fs)) \<and> numBytes (hdr (freeMapFile fs)) = FreeMapFileSize
     \<and> hdr_ok (hdr (directoryFile fs)) \<and> numBytes (hdr (directoryFile fs)) = DirectoryFileSize"

definition fs_inv :: "bool \<Rightarrow> FileSystem \<Rightarrow> (int \<Rightarrow> byte list) \<Rightarrow> bool" where
  "fs_inv be fs S \<longleftrightarrow> sys_ok fs
     \<and> hdr_of be (S 0) = hdr (freeMapFile fs) \<and> hdr_of be (S 1) = hdr (directoryFile fs)
     \<and> distinct (sys_sectors fs) \<and> dir_ok (fs_dir be fs S)
     \<and> layout (set (sys_sectors fs)) (fs_index be fs S) (\<lambda>s. hdr_of be (S s)) (marked (fs_map be fs S))"

definition fs_files :: "bool \<Rightarrow> FileSystem \<Rightarrow> (int \<Rightarrow> byte list) \<Rightarrow> byte list \<rightharpoonup> byte list" where
  "fs_files be fs S k = map_option (\<lambda>s. contents S (hdr_of be (S s))) (fs_index be fs S k)"

definition garbage_ok :: "garbage \<Rightarrow> bool" where
  "garbage_ok g \<longleftrightarrow> (\<forall>i. entry_ok (g_entries g i)) \<and> hdr_ints (g_header g)"

lemma fs_map_ok:
  assumes "hdr_ok (hdr (freeMapFile fs))" "numBytes (hdr (freeMapFile fs)) = 128" "\<And>n. sector_ok n \<Longrightarrow> length (S n) = 128"
  shows "bm_ok (fs_map be fs S)" "numBits (fs_map be fs S) = 1024" "numWords (fs_map be fs S) = 32"
    "length (contents S (hdr (freeMapFile fs))) = 128"
proof -
  show l: "length (contents S (hdr (freeMapFile fs))) = 128"
    using length_contents [OF assms(1), of S] assms by (simp add: hdr_ok_def)
  then have "length (words_of be (contents S (hdr (freeMapFile fs)))) = 32" by (intro length_words_of) simp
  then show "bm_ok (fs_map be fs S)" by (simp add: fs_map_def bm_ok_def divRoundUp_def sdiv_nonneg smod_nonneg)
  show "numBits (fs_map be fs S) = 1024" "numWords (fs_map be fs S) = 32" by (simp_all add: fs_map_def)
qed

lemma fs_dir_ok:
  assumes "hdr_ok (hdr (directoryFile fs))" "numBytes (hdr (directoryFile fs)) = 200" "\<And>n. sector_ok n \<Longrightarrow> length (S n) = 128"
  shows "\<forall>e \<in> set (table (fs_dir be fs S)). entry_ok e" "length (table (fs_dir be fs S)) = 10" "tableSize (fs_dir be fs S) = 10"
    "length (contents S (hdr (directoryFile fs))) = 200"
proof -
  show l: "length (contents S (hdr (directoryFile fs))) = 200"
    using length_contents [OF assms(1), of S] assms by (simp add: hdr_ok_def)
  then show "\<forall>e \<in> set (table (fs_dir be fs S)). entry_ok e" "length (table (fs_dir be fs S)) = 10" "tableSize (fs_dir be fs S) = 10"
    using entries_of_ok [of "contents S (hdr (directoryFile fs))" 10 be] by (simp_all add: fs_dir_def del: entries_of.simps)
qed

lemma Directory_Add_entries:
  assumes "\<forall>e \<in> set (table dir). entry_ok e" "sector_ok k" "Directory_Add nm k dir = (b, dir')"
  shows "\<forall>e \<in> set (table dir'). entry_ok e"
proof -
  let ?t = "take (nat (tableSize dir)) (table dir)" let ?r = "drop (nat (tableSize dir)) (table dir)"
  have "set (table dir) = set ?t \<union> set ?r" by (metis append_take_drop_id set_append)
  then have tr: "\<forall>e \<in> set ?t. entry_ok e" "\<forall>e \<in> set ?r. entry_ok e" using assms(1) by blast+
  have upd: "entry_ok (e\<lparr>inUse := True, ename := strncpy (ename e) nm 9, dsector := k\<rparr>)" if "entry_ok e" for e
    using that assms(2) by (simp add: entry_ok_def strncpy_def sector_ok_def)
  from Add_loop_spec [of nm k ?t] show ?thesis
  proof (elim disjE exE conjE)
    fix xs e ys assume "?t = xs @ e # ys" "Add_loop nm k ?t = Some (xs @ e\<lparr>inUse := True, ename := strncpy (ename e) nm 9, dsector := k\<rparr> # ys)"
    then show ?thesis using assms(1,3) tr upd [of e] by (auto simp: Directory_Add_def split: if_splits)
  qed (use assms in \<open>auto simp: Directory_Add_def split: if_splits\<close>)
qed

lemma Directory_Add_size:
  assumes "Directory_Add nm k dir = (b, dir')"
  shows "tableSize dir' = tableSize dir"
  using assms by (auto simp: Directory_Add_def split: if_splits option.splits)

lemma Directory_Remove_entries:
  assumes "\<forall>e \<in> set (table dir). entry_ok e" "Directory_Remove nm dir = (b, dir')"
    "FindIndex nm dir = - 1 \<or> nat (FindIndex nm dir) < length (table dir)"
  shows "(\<forall>e \<in> set (table dir'). entry_ok e) \<and> tableSize dir' = tableSize dir \<and> length (table dir') = length (table dir)"
proof (cases "FindIndex nm dir = - 1")
  case False
  let ?i = "nat (FindIndex nm dir)"
  have "entry_ok ((table dir ! ?i)\<lparr>inUse := False\<rparr>)" using assms(1,3) False by (simp add: entry_ok_def)
  then show ?thesis using assms False set_update_subset_insert [of "table dir" ?i "(table dir ! ?i)\<lparr>inUse := False\<rparr>"]
    by (auto simp: Directory_Remove_def Let_def)
qed (use assms in \<open>simp add: Directory_Remove_def Let_def\<close>)

lemma dir_room:
  assumes "dir_ok dir"
  shows "(\<exists>e \<in> set (table dir). \<not> inUse e) \<longleftrightarrow> card (dom (dir_map (table dir))) < length (table dir)"
proof -
  let ?ks = "map (\<lambda>e. name_key (ename e)) (filter inUse (table dir))"
  have "dom (dir_map (table dir)) = set ?ks" unfolding dir_map_def dom_map_of_conv_image_fst by force
  moreover have "card (set ?ks) = length (filter inUse (table dir))" using assms distinct_card [of ?ks] by (simp add: dir_ok_def)
  ultimately have "card (dom (dir_map (table dir))) = length (filter inUse (table dir))" by simp
  moreover have "length (filter inUse (table dir)) < length (table dir) \<longleftrightarrow> (\<exists>e \<in> set (table dir). \<not> inUse e)"
    using length_filter_less [of _ "table dir" inUse] filter_True [of "table dir" inUse] by (metis less_irrefl)
  ultimately show ?thesis by simp
qed

definition fs_free :: "bool \<Rightarrow> FileSystem \<Rightarrow> (int \<Rightarrow> byte list) \<Rightarrow> nat" where
  "fs_free be fs S = card ({0..<1024} - marked (fs_map be fs S))"

definition can_create :: "bool \<Rightarrow> FileSystem \<Rightarrow> (int \<Rightarrow> byte list) \<Rightarrow> byte list \<Rightarrow> int \<Rightarrow> bool" where
  "can_create be fs S nm fileSize \<longleftrightarrow> fs_index be fs S (name_key nm) = None \<and> card (dom (fs_index be fs S)) < 10
     \<and> 1 + divRoundUp fileSize SectorSize \<le> int (fs_free be fs S)"

lemma Allocate_hdr:
  assumes "bm_ok b" "numBits b = 1024" "hdr_ints gh" "0 \<le> fileSize" "fileSize \<le> 3840"
    "divRoundUp fileSize 128 \<le> int (card ({0..<1024} - marked b))"
  shows "\<exists>h b'. Allocate b fileSize gh = Inr (True, h, b') \<and> hdr_ok h \<and> hdr_ints h \<and> numBytes h = fileSize \<and> bm_ok b' \<and> numBits b' = 1024
     \<and> set (file_sectors h) \<inter> marked b = {} \<and> marked b' = marked b \<union> set (file_sectors h)"
proof -
  have "length (dataSectors gh) = 30" using assms(3) by (simp add: hdr_ints_def)
  then obtain h b' where h: "Allocate b fileSize gh = Inr (True, h, b')" "hdr_ok h" "numBytes h = fileSize" "bm_ok b'" "numBits b' = numBits b"
      "set (file_sectors h) \<subseteq> {0..<numBits b} - marked b" "marked b' = marked b \<union> set (file_sectors h)"
      "set (dataSectors h) \<subseteq> set (file_sectors h) \<union> set (dataSectors gh)"
    using Allocate_ok [OF assms(1), of gh fileSize] assms(2,4-6) by auto
  have "- (2 ^ 31) \<le> z \<and> z < 2 ^ 31" if "z \<in> set (numBytes h # numSectors h # dataSectors h)" for z
  proof -
    have "z \<in> set (dataSectors gh) \<or> z \<in> {0..<1024} \<or> z = fileSize \<or> z = numSectors h" using that h(3,6,8) assms(2) by auto
    moreover have "0 \<le> numSectors h" "numSectors h \<le> 30" using h(2) divRoundUp_nonneg [of "numBytes h" 128] by (simp_all add: hdr_ok_def)
    ultimately show ?thesis using assms(3-5) by (auto simp: hdr_ints_def)
  qed
  then have "hdr_ints h" using h(2) by (simp add: hdr_ints_def hdr_ok_def)
  then show ?thesis using h assms(2) by auto
qed

text \<open>The allocations of a format.\<close>

lemma format_alloc:
  assumes "hdr_ints gh"
  shows "\<exists>b0 b1 b2 mh b3 dh b4. BitMap_new w 1024 = Inr b0 \<and> Mark 0 b0 = Inr b1 \<and> Mark 1 b1 = Inr b2
     \<and> Allocate b2 128 gh = Inr (True, mh, b3) \<and> Allocate b3 200 gh = Inr (True, dh, b4)
     \<and> hdr_ok mh \<and> hdr_ints mh \<and> numBytes mh = 128 \<and> hdr_ok dh \<and> hdr_ints dh \<and> numBytes dh = 200 \<and> bm_ok b4 \<and> numBits b4 = 1024
     \<and> set (file_sectors mh) \<inter> {1, 0} = {} \<and> set (file_sectors dh) \<inter> ({1, 0} \<union> set (file_sectors mh)) = {}
     \<and> marked b4 = {1, 0} \<union> set (file_sectors mh) \<union> set (file_sectors dh)"
proof -
  obtain b0 where b0: "BitMap_new w 1024 = Inr b0" "bm_ok b0" "numBits b0 = 1024" "marked b0 = {}"
    using BitMap_new_all_clear [of 1024 w] by auto
  obtain b1 where b1: "Mark 0 b0 = Inr b1" "bm_ok b1" "numBits b1 = 1024" "marked b1 = {0}" using Mark_ok [OF b0(2), of 0] b0(3,4) by auto
  obtain b2 where b2: "Mark 1 b1 = Inr b2" "bm_ok b2" "numBits b2 = 1024" "marked b2 = {1, 0}" using Mark_ok [OF b1(2), of 1] b1(3,4) by auto
  have k: "divRoundUp 128 128 = 1" "divRoundUp 200 128 = 2" by (simp_all add: divRoundUp_def sdiv_nonneg smod_nonneg)
  have c: "1024 - int (card A) \<le> int (card ({0..<1024} - A))" if "finite A" for A :: "int set"
    using diff_card_le_card_Diff [OF that, of "{0..<1024}"] by simp
  have "divRoundUp 128 128 \<le> int (card ({0..<1024} - marked b2))" using c [of "marked b2"] b2(4) k by simp
  from Allocate_hdr [OF b2(2,3) assms _ _ this]
  obtain mh b3 where b3: "Allocate b2 128 gh = Inr (True, mh, b3)" "hdr_ok mh" "hdr_ints mh" "numBytes mh = 128" "bm_ok b3" "numBits b3 = 1024"
      "set (file_sectors mh) \<inter> marked b2 = {}" "marked b3 = marked b2 \<union> set (file_sectors mh)" by auto
  have "length (file_sectors mh) = 1" using b3(2,4) k by (simp add: hdr_ok_facts(1) nsec_def) (simp add: hdr_ok_def)
  then have "card (marked b3) \<le> 3" unfolding b3(8) b2(4) using card_Un_le [of "{1, 0}" "set (file_sectors mh)"] card_length [of "file_sectors mh"] by simp
  then have "divRoundUp 200 128 \<le> int (card ({0..<1024} - marked b3))" using c [of "marked b3"] b2(4) b3(8) k by simp
  from Allocate_hdr [OF b3(5,6) assms _ _ this]
  obtain dh b4 where b4: "Allocate b3 200 gh = Inr (True, dh, b4)" "hdr_ok dh" "hdr_ints dh" "numBytes dh = 200" "bm_ok b4" "numBits b4 = 1024"
      "set (file_sectors dh) \<inter> marked b3 = {}" "marked b4 = marked b3 \<union> set (file_sectors dh)" by auto
  then show ?thesis using b0(1) b1(1) b2 b3 by auto
qed

lemma Find_Allocate:
  assumes "bm_ok b" "numBits b = 1024" "hdr_ints gh" "0 \<le> fileSize" "fileSize \<le> 3840"
    "1 + divRoundUp fileSize 128 \<le> int (card ({0..<1024} - marked b))"
  shows "\<exists>sector b1 h b2. Find b = Inr (sector, b1) \<and> Allocate b1 fileSize gh = Inr (True, h, b2) \<and> sector_ok sector
     \<and> sector \<notin> marked b \<and> hdr_ok h \<and> hdr_ints h \<and> numBytes h = fileSize \<and> sector \<notin> set (file_sectors h) \<and> set (file_sectors h) \<inter> marked b = {}
     \<and> bm_ok b2 \<and> numBits b2 = 1024 \<and> marked b2 = marked b \<union> insert sector (set (file_sectors h))"
proof -
  have "0 \<le> divRoundUp fileSize 128" using divRoundUp_nonneg [OF assms(4)] by simp
  then have "card ({0..<1024} - marked b) \<noteq> 0" using assms(6) by linarith
  then have "\<not> {0..<numBits b} \<subseteq> marked b" using assms(2) by (metis Diff_eq_empty_iff card.empty)
  then obtain k b1 where k: "Find b = Inr (k, b1)" "k \<in> {0..<1024} - marked b" "bm_ok b1" "numBits b1 = 1024" "marked b1 = insert k (marked b)"
    using bm.find_free [OF assms(1)] assms(2) by auto
  have "{0..<1024} - marked b1 = ({0..<1024} - marked b) - {k}" using k(5) by auto
  then have "divRoundUp fileSize 128 \<le> int (card ({0..<1024} - marked b1))"
    using k(2) assms(6) \<open>0 \<le> divRoundUp fileSize 128\<close> by (simp add: card_Diff_singleton of_nat_diff)
  from Allocate_hdr [OF k(3,4) assms(3-5) this]
  obtain h b2 where h: "Allocate b1 fileSize gh = Inr (True, h, b2)" "hdr_ok h" "hdr_ints h" "numBytes h = fileSize" "bm_ok b2" "numBits b2 = 1024"
      "set (file_sectors h) \<inter> marked b1 = {}" "marked b2 = marked b1 \<union> set (file_sectors h)" by blast
  then have "k \<notin> set (file_sectors h)" "set (file_sectors h) \<inter> marked b = {}" "marked b2 = marked b \<union> insert k (set (file_sectors h))"
    using k(5) by auto
  moreover have "sector_ok k" using k(2) by (simp add: sector_ok_def)
  ultimately show ?thesis using k h by auto
qed

lemma Find_Allocate_overruns:
  assumes "bm_ok b" "numBits b = 1024" "hdr_ints gh" "3840 < fileSize"
    "1 + divRoundUp fileSize 128 \<le> int (card ({0..<1024} - marked b))"
  shows "\<exists>sector b1. Find b = Inr (sector, b1) \<and> sector_ok sector \<and> Allocate b1 fileSize gh = Inl WildAccess"
proof -
  have k30: "30 < divRoundUp fileSize 128" using divRoundUp_le_iff [of fileSize 128 30] assms(4) by simp
  then have "card ({0..<1024} - marked b) \<noteq> 0" using assms(5) by linarith
  then have "\<not> {0..<numBits b} \<subseteq> marked b" using assms(2) by (metis Diff_eq_empty_iff card.empty)
  then obtain k b1 where k: "Find b = Inr (k, b1)" "k \<in> {0..<1024} - marked b" "bm_ok b1" "numBits b1 = 1024" "marked b1 = insert k (marked b)"
    using bm.find_free [OF assms(1)] assms(2) by auto
  have "{0..<1024} - marked b1 = ({0..<1024} - marked b) - {k}" using k(5) by auto
  then have "divRoundUp fileSize 128 \<le> int (card ({0..<1024} - marked b1))"
    using k(2) assms(5) k30 by (simp add: card_Diff_singleton of_nat_diff)
  then have "Allocate b1 fileSize gh = Inl WildAccess"
    using Allocate_overruns [OF k(3) NumClear_card [OF k(3)] _ k30, of gh] assms(3) k(4) by (simp add: hdr_ints_def)
  then show ?thesis using k(1,2) by (auto simp: sector_ok_def)
qed

lemma Find_Allocate_full:
  assumes "bm_ok b" "numBits b = 1024" "int (card ({0..<1024} - marked b)) < 1 + divRoundUp fileSize 128"
  shows "Find b = Inr (- 1, b) \<or> (\<exists>sector b1 h. Find b = Inr (sector, b1) \<and> sector_ok sector \<and> Allocate b1 fileSize gh = Inr (False, h, b1))"
proof (cases "{0..<numBits b} \<subseteq> marked b")
  case True
  then show ?thesis using bm.find_full [OF assms(1)] by simp
next
  case False
  then obtain k b1 where k: "Find b = Inr (k, b1)" "k \<in> {0..<1024} - marked b" "bm_ok b1" "numBits b1 = 1024" "marked b1 = insert k (marked b)"
    using bm.find_free [OF assms(1)] assms(2) by auto
  have e: "{0..<numBits b1} - marked b1 = ({0..<1024} - marked b) - {k}" using k(4,5) by auto
  have "0 < card ({0..<1024} - marked b)" using k(2) by (auto simp: card_gt_0_iff)
  then have "int (card ({0..<numBits b1} - marked b1)) = int (card ({0..<1024} - marked b)) - 1"
    unfolding e using k(2) by (simp add: card_Diff_singleton of_nat_diff)
  then have "int (card ({0..<numBits b1} - marked b1)) < divRoundUp fileSize 128" using assms(3) by simp
  then show ?thesis using Allocate_full [OF k(3), of fileSize gh] k(1,2) by (auto simp: sector_ok_def)
qed

lemma fs_dir_cong: "(\<And>m. m \<in> set (file_sectors (hdr (directoryFile fs))) \<Longrightarrow> S' m = S m) \<Longrightarrow> fs_dir be fs S' = fs_dir be fs S"
  unfolding fs_dir_def using contents_cong [of "hdr (directoryFile fs)" S' S] by simp

lemma fs_map_cong: "(\<And>m. m \<in> set (file_sectors (hdr (freeMapFile fs))) \<Longrightarrow> S' m = S m) \<Longrightarrow> fs_map be fs S' = fs_map be fs S"
  unfolding fs_map_def using contents_cong [of "hdr (freeMapFile fs)" S' S] by simp

lemma file_frame:
  assumes "\<And>m. m \<in> block (\<lambda>s. hdr_of be (S s)) s \<Longrightarrow> S' m = S m"
  shows "hdr_of be (S' s) = hdr_of be (S s)" "contents S' (hdr_of be (S' s)) = contents S (hdr_of be (S s))"
proof -
  show h: "hdr_of be (S' s) = hdr_of be (S s)" using assms [of s] by (simp add: block_def)
  show "contents S' (hdr_of be (S' s)) = contents S (hdr_of be (S s))"
    unfolding h using assms by (intro contents_cong) (simp add: block_def)
qed

lemma fs_inv_facts:
  assumes "fs_inv be fs S"
  shows "sys_ok fs" "hdr_of be (S 0) = hdr (freeMapFile fs)" "hdr_of be (S 1) = hdr (directoryFile fs)" "dir_ok (fs_dir be fs S)"
    "layout (set (sys_sectors fs)) (fs_index be fs S) (\<lambda>s. hdr_of be (S s)) (marked (fs_map be fs S))"
    "0 \<notin> set (file_sectors (hdr (freeMapFile fs)))" "0 \<notin> set (file_sectors (hdr (directoryFile fs)))"
    "1 \<notin> set (file_sectors (hdr (freeMapFile fs)))" "1 \<notin> set (file_sectors (hdr (directoryFile fs)))"
    "set (file_sectors (hdr (freeMapFile fs))) \<inter> set (file_sectors (hdr (directoryFile fs))) = {}"
    "set (sys_sectors fs) \<subseteq> marked (fs_map be fs S)"
  using assms by (auto simp: fs_inv_def sys_sectors_def layout_def)

lemma fs_files_frame:
  assumes "fs_inv be fs S" "fs_index be fs S k = Some s"
    "\<And>m. m \<notin> set (file_sectors (hdr (freeMapFile fs))) \<Longrightarrow> m \<notin> set (file_sectors (hdr (directoryFile fs))) \<Longrightarrow> m \<in> marked (fs_map be fs S) \<Longrightarrow> S' m = S m"
  shows "hdr_of be (S' s) = hdr_of be (S s)" "contents S' (hdr_of be (S' s)) = contents S (hdr_of be (S s))"
proof -
  note l = fs_inv_facts(5) [OF assms(1)]
  have "S' m = S m" if "m \<in> block (\<lambda>s. hdr_of be (S s)) s" for m
    using assms(3) that layout_file(4,5) [OF l assms(2)] by (auto simp: sys_sectors_def)
  from file_frame [of be S s S', OF this]
  show "hdr_of be (S' s) = hdr_of be (S s)" "contents S' (hdr_of be (S' s)) = contents S (hdr_of be (S s))" by simp_all
qed

lemma fs_create_state:
  assumes inv: "fs_inv be fs S" and k: "fs_index be fs S k = None"
    and s: "sector_ok s" "s \<notin> marked (fs_map be fs S)" "hdr_of be (S' s) = h" "hdr_ok h" "s \<notin> set (file_sectors h)"
      "set (file_sectors h) \<inter> marked (fs_map be fs S) = {}"
    and keep: "\<And>m. m \<notin> set (file_sectors (hdr (freeMapFile fs))) \<Longrightarrow> m \<notin> set (file_sectors (hdr (directoryFile fs))) \<Longrightarrow> m \<noteq> s \<Longrightarrow> S' m = S m"
    and dir: "dir_ok (fs_dir be fs S')" "fs_index be fs S' = (fs_index be fs S)(k \<mapsto> s)"
    and M: "marked (fs_map be fs S') = marked (fs_map be fs S) \<union> insert s (set (file_sectors h))"
  shows "fs_inv be fs S' \<and> fs_files be fs S' = (fs_files be fs S)(k \<mapsto> contents S' h)"
proof -
  note f = fs_inv_facts [OF inv]
  have keep': "S' m = S m" if "m \<notin> set (file_sectors (hdr (freeMapFile fs)))" "m \<notin> set (file_sectors (hdr (directoryFile fs)))" "m \<in> marked (fs_map be fs S)" for m
    using keep [OF that(1,2)] that(3) s(2) by auto
  have fr: "hdr_of be (S' s') = hdr_of be (S s')" "contents S' (hdr_of be (S' s')) = contents S (hdr_of be (S s'))"
    if "fs_index be fs S k' = Some s'" for k' s'
    by (rule fs_files_frame [OF inv that]; rule keep'; assumption)+
  have "layout (set (sys_sectors fs)) (fs_index be fs S) (\<lambda>s. hdr_of be (S' s)) (marked (fs_map be fs S))"
  proof (rule layout_cong [OF f(5)])
    fix s' assume "s' \<in> ran (fs_index be fs S)"
    then obtain k' where "fs_index be fs S k' = Some s'" by (auto simp: ran_def)
    then show "hdr_of be (S' s') = hdr_of be (S s')" by (rule fr(1))
  qed
  from layout_insert [OF this k s(1,2) _ s(4-6)] s(3)
  have l: "layout (set (sys_sectors fs)) (fs_index be fs S') (\<lambda>s. hdr_of be (S' s)) (marked (fs_map be fs S'))" unfolding dir(2) M by simp
  have "0 \<in> marked (fs_map be fs S)" "1 \<in> marked (fs_map be fs S)" using f(11) by (auto simp: sys_sectors_def)
  then have "S' 0 = S 0" "S' 1 = S 1" using keep' [of 0] keep' [of 1] f(6-9) by simp_all
  then have "fs_inv be fs S'" using inv l dir(1) by (simp add: fs_inv_def)
  moreover have "fs_files be fs S' k' = ((fs_files be fs S)(k \<mapsto> contents S' h)) k'" for k'
  proof (cases "k' = k")
    case True then show ?thesis by (simp add: fs_files_def dir(2) s(3))
  next
    case False
    show ?thesis
    proof (cases "fs_index be fs S k'")
      case None then show ?thesis using False by (simp add: fs_files_def dir(2))
    next
      case (Some s')
      have "fs_files be fs S' k' = Some (contents S' (hdr_of be (S' s')))" using False Some by (simp add: fs_files_def dir(2))
      moreover have "fs_files be fs S k' = Some (contents S (hdr_of be (S s')))" using Some by (simp add: fs_files_def)
      ultimately show ?thesis using False unfolding fr(2) [OF Some] by simp
    qed
  qed
  ultimately show ?thesis by blast
qed

lemma fs_remove_state:
  assumes inv: "fs_inv be fs S" and k: "fs_index be fs S k = Some s"
    and keep: "\<And>m. m \<notin> set (file_sectors (hdr (freeMapFile fs))) \<Longrightarrow> m \<notin> set (file_sectors (hdr (directoryFile fs))) \<Longrightarrow> S' m = S m"
    and dir: "dir_ok (fs_dir be fs S')" "fs_index be fs S' = (fs_index be fs S)(k := None)"
    and M: "marked (fs_map be fs S') = marked (fs_map be fs S) - block (\<lambda>s. hdr_of be (S s)) s"
  shows "fs_inv be fs S' \<and> fs_files be fs S' = (fs_files be fs S)(k := None)"
proof -
  note f = fs_inv_facts [OF inv]
  have fr: "hdr_of be (S' s') = hdr_of be (S s')" "contents S' (hdr_of be (S' s')) = contents S (hdr_of be (S s'))"
    if "fs_index be fs S k' = Some s'" for k' s'
    by (rule fs_files_frame [OF inv that]; rule keep; assumption)+
  have "layout (set (sys_sectors fs)) (fs_index be fs S') (\<lambda>s. hdr_of be (S' s)) (marked (fs_map be fs S'))"
    unfolding dir(2) M
  proof (rule layout_cong [OF layout_delete [OF f(5) k]])
    fix s' assume "s' \<in> ran ((fs_index be fs S)(k := None))"
    then obtain k' where "fs_index be fs S k' = Some s'" by (auto simp: ran_def split: if_splits)
    then show "hdr_of be (S' s') = hdr_of be (S s')" by (rule fr(1))
  qed
  moreover have "S' 0 = S 0" "S' 1 = S 1" using keep [of 0] keep [of 1] f(6-9) by simp_all
  ultimately have "fs_inv be fs S'" using inv dir(1) by (simp add: fs_inv_def)
  moreover have "fs_files be fs S' k' = ((fs_files be fs S)(k := None)) k'" for k'
  proof (cases "fs_index be fs S k'")
    case None then show ?thesis by (simp add: fs_files_def dir(2))
  next
    case (Some s')
    have "fs_files be fs S' k' = (if k' = k then None else Some (contents S' (hdr_of be (S' s'))))" using Some by (simp add: fs_files_def dir(2))
    moreover have "fs_files be fs S k' = Some (contents S (hdr_of be (S s')))" using Some by (simp add: fs_files_def)
    ultimately show ?thesis unfolding fr(2) [OF Some] by simp
  qed
  ultimately show ?thesis by blast
qed

lemma fs_write_state:
  assumes inv: "fs_inv be fs S" and k: "fs_index be fs S k = Some s"
    and keep: "\<And>m. m \<notin> set (file_sectors (hdr_of be (S s))) \<Longrightarrow> S' m = S m"
  shows "fs_inv be fs S' \<and> fs_files be fs S' = (fs_files be fs S)(k \<mapsto> contents S' (hdr_of be (S s)))"
proof -
  note f = fs_inv_facts [OF inv]
  note l = layout_file [OF f(5) k]
  have out: "S' m = S m" if "m \<in> set (sys_sectors fs)" for m using keep l(4) that by (auto simp: block_def)
  have dir: "fs_dir be fs S' = fs_dir be fs S" "fs_map be fs S' = fs_map be fs S"
    using out by (auto intro!: fs_dir_cong fs_map_cong simp: sys_sectors_def)
  have idx: "fs_index be fs S' = fs_index be fs S" using dir(1) by (simp add: fs_index_def)
  have h: "hdr_of be (S' s') = hdr_of be (S s')" "k' \<noteq> k \<Longrightarrow> contents S' (hdr_of be (S' s')) = contents S (hdr_of be (S s'))"
    if "fs_index be fs S k' = Some s'" for k' s'
  proof -
    show "contents S' (hdr_of be (S' s')) = contents S (hdr_of be (S s'))" if "k' \<noteq> k"
      using layout_disjoint [OF f(5) \<open>fs_index be fs S k' = Some s'\<close> k that] keep by (intro file_frame(2)) (auto simp: block_def)
    show "hdr_of be (S' s') = hdr_of be (S s')"
    proof (cases "k' = k")
      case True then show ?thesis using that k l(3) keep [of s] by simp
    next
      case False
      then show ?thesis using layout_disjoint [OF f(5) that k] keep by (intro file_frame(1)) (auto simp: block_def)
    qed
  qed
  have "layout (set (sys_sectors fs)) (fs_index be fs S') (\<lambda>s. hdr_of be (S' s)) (marked (fs_map be fs S'))"
    unfolding idx dir(2)
  proof (rule layout_cong [OF f(5)])
    fix s' assume "s' \<in> ran (fs_index be fs S)"
    then obtain k' where "fs_index be fs S k' = Some s'" by (auto simp: ran_def)
    then show "hdr_of be (S' s') = hdr_of be (S s')" by (rule h(1))
  qed
  moreover have "S' 0 = S 0" "S' 1 = S 1" using out by (simp_all add: sys_sectors_def)
  ultimately have "fs_inv be fs S'" using inv dir(1) by (simp add: fs_inv_def)
  moreover have "fs_files be fs S' k' = ((fs_files be fs S)(k \<mapsto> contents S' (hdr_of be (S s)))) k'" for k'
  proof (cases "fs_index be fs S k'")
    case None then show ?thesis using k by (auto simp: fs_files_def idx)
  next
    case (Some s')
    then have e: "fs_files be fs S' k' = Some (contents S' (hdr_of be (S' s')))" "fs_files be fs S k' = Some (contents S (hdr_of be (S s')))"
      by (simp_all add: fs_files_def idx)
    show ?thesis
    proof (cases "k' = k")
      case True then show ?thesis using e(1) h(1) [OF Some] Some k by simp
    next
      case False then show ?thesis using e h(2) [OF Some False] by simp
    qed
  qed
  ultimately show ?thesis by blast
qed

section \<open>Sequences of operations\<close>

text \<open>
  What a kernel thread does with files: create, remove, and write to a file that it opens by name; each with the
  contents \<open>g\<close> that new storage happens to have. The result is what \<open>Create\<close> and \<open>Remove\<close> return, or whether
  the file could be opened.
\<close>

datatype fs_op =
    OpCreate "byte list" int
  | OpRemove "byte list"
  | OpWrite "byte list" "byte list" int

definition fs_exec :: "bool \<Rightarrow> 'd sector_read \<Rightarrow> 'd sector_write \<Rightarrow> FileSystem \<Rightarrow> garbage \<Rightarrow> fs_op \<Rightarrow> 'd \<Rightarrow> (bool \<times> 'd) res" where
  "fs_exec be rd wr fs g op d = (case op of
      OpCreate nm fileSize \<Rightarrow> FileSystem_Create be rd wr g nm fileSize fs d
    | OpRemove nm \<Rightarrow> FileSystem_Remove be rd wr g nm fs d
    | OpWrite nm data pos \<Rightarrow>
        rbind (FileSystem_Open be rd g nm fs d) (\<lambda>(f, d1). case f of
            None \<Rightarrow> Inr (False, d1)
          | Some f \<Rightarrow> rbind (WriteAt rd wr (g_bytes g) (hdr f) data (int (length data)) pos d1) (\<lambda>(_, d2). Inr (True, d2))))"

fun fs_execs :: "bool \<Rightarrow> 'd sector_read \<Rightarrow> 'd sector_write \<Rightarrow> FileSystem \<Rightarrow> (garbage \<times> fs_op) list \<Rightarrow> 'd \<Rightarrow> (bool list \<times> 'd) res" where
  "fs_execs be rd wr fs [] d = Inr ([], d)"
| "fs_execs be rd wr fs ((g, op) # ops) d =
     rbind (fs_exec be rd wr fs g op d) (\<lambda>(b, d1). rbind (fs_execs be rd wr fs ops d1) (\<lambda>(bs, d2). Inr (b # bs, d2)))"

fun fsop_ok :: "fs_op \<Rightarrow> bool" where
  "fsop_ok (OpCreate nm fileSize) = (0 \<le> fileSize \<and> fileSize \<le> 3840)"
| "fsop_ok (OpRemove nm) = True"
| "fsop_ok (OpWrite nm data pos) = (0 \<le> pos \<and> pos + int (length data) < 2 ^ 31)"

text \<open>The same operations on the abstract file system: a map from names to contents.\<close>

inductive spec_step :: "fs_op \<Rightarrow> bool \<Rightarrow> (byte list \<rightharpoonup> byte list) \<Rightarrow> (byte list \<rightharpoonup> byte list) \<Rightarrow> bool" where
  spec_create: "m (name_key nm) = None \<Longrightarrow> card (dom m) < 10 \<Longrightarrow> int (length c) = fileSize \<Longrightarrow>
     spec_step (OpCreate nm fileSize) True m (m(name_key nm \<mapsto> c))"
| spec_refuse: "spec_step (OpCreate nm fileSize) False m m"
| spec_remove: "spec_step (OpRemove nm) (m (name_key nm) \<noteq> None) m (m(name_key nm := None))"
| spec_write: "m (name_key nm) = Some c \<Longrightarrow>
     spec_step (OpWrite nm data pos) True m (m(name_key nm \<mapsto> overlay (nat pos) (take (length c - nat pos) data) c))"
| spec_no_file: "m (name_key nm) = None \<Longrightarrow> spec_step (OpWrite nm data pos) False m m"

inductive spec_steps :: "fs_op list \<Rightarrow> bool list \<Rightarrow> (byte list \<rightharpoonup> byte list) \<Rightarrow> (byte list \<rightharpoonup> byte list) \<Rightarrow> bool" where
  spec_nil: "spec_steps [] [] m m"
| spec_cons: "spec_step op b m m1 \<Longrightarrow> spec_steps ops bs m1 m2 \<Longrightarrow> spec_steps (op # ops) (b # bs) m m2"

lemma dom_fs_files: "dom (fs_files be fs S) = dom (fs_index be fs S)" "fs_files be fs S k = None \<longleftrightarrow> fs_index be fs S k = None"
  by (auto simp: fs_files_def)

section \<open>Steps on a sector store\<close>

context sector_store
begin

lemma length_on_disk: "sector_ok n \<Longrightarrow> length (on_disk sec d n) = 128"
  by (simp add: on_disk_def length_sec)

lemma contents_on_disk: "hdr_ok h \<Longrightarrow> contents (on_disk sec d) h = contents (sec d) h"
  by (rule contents_cong) (simp add: on_disk_def hdr_ok_def)

lemma rd_disk:
  assumes "ok d" "sector_ok n"
  shows "\<exists>d'. rd n d = Inr (on_disk sec d n, d') \<and> ok d' \<and> on_disk sec d' = on_disk sec d"
  using rd_law [OF assms] assms(2) by (auto simp: on_disk_def fun_eq_iff)

lemma wr_disk:
  assumes "ok d" "sector_ok n" "length data = 128"
  shows "\<exists>d'. wr n data d = Inr d' \<and> ok d' \<and> on_disk sec d' = (on_disk sec d)(n := data)"
  using wr_law [OF assms] assms(2) by (auto simp: on_disk_def fun_eq_iff)

lemma read_file:
  assumes "ok d" "hdr_ok h"
  shows "\<exists>d'. ReadAt rd h (numBytes h) 0 d = Inr (contents (on_disk sec d) h, d') \<and> ok d' \<and> on_disk sec d' = on_disk sec d"
proof -
  have "numBytes h < 2 ^ 31" using hdr_ok_facts(4) [OF assms(2)] by simp
  then obtain d' where d: "ReadAt rd h (numBytes h) 0 d = Inr (take (nat (numBytes h)) (contents (sec d) h), d')" "ok d'"
      "\<forall>m. sector_ok m \<longrightarrow> sec d' m = sec d m"
    using ReadAt_ok [OF assms(2,1), of 0 "numBytes h"] by auto
  moreover have "take (nat (numBytes h)) (contents (sec d) h) = contents (sec d) h" by (simp add: contents_def)
  moreover have "on_disk sec d' = on_disk sec d" using d(3) by (auto simp: on_disk_def)
  ultimately show ?thesis using contents_on_disk [OF assms(2)] by simp
qed

lemma write_file:
  assumes "ok d" "hdr_ok h" "int (length data) = numBytes h"
  shows "\<exists>d'. WriteAt rd wr garbage h data (numBytes h) 0 d = Inr (numBytes h, d') \<and> ok d' \<and> contents (on_disk sec d') h = data
     \<and> (\<forall>m. m \<notin> set (file_sectors h) \<longrightarrow> on_disk sec d' m = on_disk sec d m)"
proof -
  have "numBytes h < 2 ^ 31" "nat (numBytes h) = length data" using hdr_ok_facts(4) [OF assms(2)] assms(3) by simp_all
  then obtain d' where d: "WriteAt rd wr garbage h data (numBytes h) 0 d = Inr (numBytes h, d')" "ok d'"
      "contents (sec d') h = overlay 0 data (contents (sec d) h)"
      "\<forall>m. sector_ok m \<longrightarrow> m \<notin> set (file_sectors h) \<longrightarrow> sec d' m = sec d m"
    using WriteAt_ok [OF assms(2,1), of 0 "numBytes h" data garbage] assms(3) by (auto simp: nat_eq_iff2)
  have "length (contents (sec d) h) = length data" using length_contents [OF assms(2), of "sec d"] length_sec assms(3) by simp
  then have "contents (sec d') h = data" using d(3) overlay_all by metis
  moreover have "on_disk sec d' m = on_disk sec d m" if "m \<notin> set (file_sectors h)" for m using d(4) that by (simp add: on_disk_def)
  ultimately show ?thesis using d(1,2) contents_on_disk [OF assms(2)] by simp
qed

lemma fetch_directory_ok:
  assumes "ok d" "sys_ok fs" "garbage_ok g"
  shows "\<exists>d'. fetch_directory be rd g fs d = Inr (fs_dir be fs (on_disk sec d), d') \<and> ok d' \<and> on_disk sec d' = on_disk sec d"
proof -
  let ?es = "map (\<lambda>i. (g_entries g i)\<lparr>inUse := False\<rparr>) [0..<nat 10]"
  have sys: "hdr_ok (hdr (directoryFile fs))" "numBytes (hdr (directoryFile fs)) = 200" using assms(2) by (simp_all add: sys_ok_def)
  have "\<forall>e \<in> set ?es. entry_ok e" using assms(3) by (auto simp: garbage_ok_def entry_ok_def)
  then have l: "length (table_bytes be ?es) = 200" using length_table_bytes [of ?es be] by (simp del: upt_rec_numeral)
  obtain d' where d: "ReadAt rd (hdr (directoryFile fs)) 200 0 d = Inr (contents (on_disk sec d) (hdr (directoryFile fs)), d')" "ok d'"
      "on_disk sec d' = on_disk sec d"
    using read_file [OF assms(1) sys(1)] sys(2) by auto
  have "length (contents (on_disk sec d) (hdr (directoryFile fs))) = 200"
    using fs_dir_ok(4) [OF sys, of "on_disk sec d"] length_on_disk by simp
  then have "overlay 0 (contents (on_disk sec d) (hdr (directoryFile fs))) (table_bytes be ?es) = contents (on_disk sec d) (hdr (directoryFile fs))"
    using l by (intro overlay_all) simp
  then show ?thesis using d
    by (simp add: fetch_directory_def Directory_new_def Directory_FetchFrom_def fs_dir_def del: entries_of.simps upt_rec_numeral)
qed

lemma fetch_freemap_ok:
  assumes "ok d" "sys_ok fs"
  shows "\<exists>d'. fetch_freemap be rd g fs d = Inr (fs_map be fs (on_disk sec d), d') \<and> ok d' \<and> on_disk sec d' = on_disk sec d"
proof -
  have sys: "hdr_ok (hdr (freeMapFile fs))" "numBytes (hdr (freeMapFile fs)) = 128" using assms(2) by (simp_all add: sys_ok_def)
  obtain b where b: "BitMap_new (g_words g) 1024 = Inr b" "bm_ok b" "numBits b = 1024"
    using BitMap_new_all_clear [of 1024 "g_words g"] by auto
  have n: "numWords b = 32" "length (wmap b) = 32" using b(2,3) by (simp_all add: bm_ok_def divRoundUp_def sdiv_nonneg smod_nonneg)
  obtain d' where d: "ReadAt rd (hdr (freeMapFile fs)) 128 0 d = Inr (contents (on_disk sec d) (hdr (freeMapFile fs)), d')" "ok d'"
      "on_disk sec d' = on_disk sec d"
    using read_file [OF assms(1) sys(1)] sys(2) by auto
  have "length (contents (on_disk sec d) (hdr (freeMapFile fs))) = 128"
    using fs_map_ok(4) [OF sys, of "on_disk sec d"] length_on_disk by simp
  then have "overlay 0 (contents (on_disk sec d) (hdr (freeMapFile fs))) (concat (map (int_bytes be) (wmap b))) = contents (on_disk sec d) (hdr (freeMapFile fs))"
    using length_map_bytes [of be "wmap b"] n(2) by (intro overlay_all) simp
  moreover have "fs_map be fs (on_disk sec d) = b\<lparr>wmap := words_of be (contents (on_disk sec d) (hdr (freeMapFile fs)))\<rparr>"
    using b(3) n(1) by (cases b) (simp add: fs_map_def)
  ultimately show ?thesis using d b(1) n(1) by (simp add: fetch_freemap_def BitMap_FetchFrom_def)
qed

lemma Directory_WriteBack_ok:
  assumes "ok d" "sys_ok fs" "tableSize dir = 10" "length (table dir) = 10" "\<forall>e \<in> set (table dir). entry_ok e"
  shows "\<exists>d'. Directory_WriteBack be rd wr buf (directoryFile fs) dir d = Inr d' \<and> ok d' \<and> fs_dir be fs (on_disk sec d') = dir
     \<and> (\<forall>m. m \<notin> set (file_sectors (hdr (directoryFile fs))) \<longrightarrow> on_disk sec d' m = on_disk sec d m)"
proof -
  have sys: "hdr_ok (hdr (directoryFile fs))" "numBytes (hdr (directoryFile fs)) = 200" using assms(2) by (simp_all add: sys_ok_def)
  have l: "length (table_bytes be (table dir)) = 200" using length_table_bytes [OF assms(5)] assms(4) by simp
  obtain d' where d: "WriteAt rd wr buf (hdr (directoryFile fs)) (table_bytes be (table dir)) 200 0 d = Inr (200, d')" "ok d'"
      "contents (on_disk sec d') (hdr (directoryFile fs)) = table_bytes be (table dir)"
      "\<forall>m. m \<notin> set (file_sectors (hdr (directoryFile fs))) \<longrightarrow> on_disk sec d' m = on_disk sec d m"
    using write_file [OF assms(1) sys(1), of "table_bytes be (table dir)" buf] l sys(2) by auto
  have "entries_of be 10 (table_bytes be (table dir)) = table dir" using entries_of_bytes [OF assms(5), of be] assms(4) by simp
  then have "fs_dir be fs (on_disk sec d') = dir" using d(3) assms(3) by (cases dir) (simp add: fs_dir_def del: entries_of.simps)
  then show ?thesis using d assms(3) by (simp add: Directory_WriteBack_def)
qed

lemma BitMap_WriteBack_ok:
  assumes "ok d" "sys_ok fs" "bm_ok b" "numBits b = 1024"
  shows "\<exists>d'. BitMap_WriteBack be rd wr buf (freeMapFile fs) b d = Inr d' \<and> ok d' \<and> fs_map be fs (on_disk sec d') = b
     \<and> (\<forall>m. m \<notin> set (file_sectors (hdr (freeMapFile fs))) \<longrightarrow> on_disk sec d' m = on_disk sec d m)"
proof -
  have sys: "hdr_ok (hdr (freeMapFile fs))" "numBytes (hdr (freeMapFile fs)) = 128" using assms(2) by (simp_all add: sys_ok_def)
  have n: "numWords b = 32" "length (wmap b) = 32" using assms(3,4) by (simp_all add: bm_ok_def divRoundUp_def sdiv_nonneg smod_nonneg)
  obtain d' where d: "WriteAt rd wr buf (hdr (freeMapFile fs)) (concat (map (int_bytes be) (wmap b))) 128 0 d = Inr (128, d')" "ok d'"
      "contents (on_disk sec d') (hdr (freeMapFile fs)) = concat (map (int_bytes be) (wmap b))"
      "\<forall>m. m \<notin> set (file_sectors (hdr (freeMapFile fs))) \<longrightarrow> on_disk sec d' m = on_disk sec d m"
    using write_file [OF assms(1) sys(1), of "concat (map (int_bytes be) (wmap b))" buf] length_map_bytes [of be "wmap b"] n sys(2) by auto
  then have "fs_map be fs (on_disk sec d') = b" using n(1) assms(4) words_of_bytes [of be "wmap b"] by (cases b) (simp add: fs_map_def)
  then show ?thesis using d n(1) by (simp add: BitMap_WriteBack_def)
qed

lemma header_WriteBack_ok:
  assumes "ok d" "sector_ok n" "hdr_ints h"
  shows "\<exists>d'. WriteBack be wr n h d = Inr d' \<and> ok d' \<and> hdr_of be (on_disk sec d' n) = h \<and> (\<forall>m. m \<noteq> n \<longrightarrow> on_disk sec d' m = on_disk sec d m)"
  using wr_disk [OF assms(1,2) hdr_bytes_of(2) [OF assms(3), of be]] hdr_bytes_of(1) [OF assms(3), of be] by (auto simp: WriteBack_def)

lemma header_FetchFrom_ok:
  assumes "ok d" "sector_ok n"
  shows "\<exists>d'. FetchFrom be rd n d = Inr (hdr_of be (on_disk sec d n), d') \<and> ok d' \<and> on_disk sec d' = on_disk sec d"
  using rd_disk [OF assms] by (auto simp: FetchFrom_def)

lemma OpenFile_new_ok:
  assumes "ok d" "sector_ok n"
  shows "\<exists>d'. OpenFile_new be rd n d = Inr (\<lparr>hdr = hdr_of be (on_disk sec d n), seekPosition = 0\<rparr>, d') \<and> ok d' \<and> on_disk sec d' = on_disk sec d"
  using header_FetchFrom_ok [OF assms, of be] by (auto simp: OpenFile_new_def)

lemma Open_ok:
  assumes "ok d" "fs_inv be fs (on_disk sec d)" "garbage_ok g"
  shows "\<exists>d'. FileSystem_Open be rd g nm fs d =
       Inr (map_option (\<lambda>s. \<lparr>hdr = hdr_of be (on_disk sec d s), seekPosition = 0\<rparr>) (fs_index be fs (on_disk sec d) (name_key nm)), d')
     \<and> ok d' \<and> on_disk sec d' = on_disk sec d"
proof -
  note f = fs_inv_facts [OF assms(2)]
  obtain d1 where d1: "fetch_directory be rd g fs d = Inr (fs_dir be fs (on_disk sec d), d1)" "ok d1" "on_disk sec d1 = on_disk sec d"
    using fetch_directory_ok [OF assms(1) f(1) assms(3), of be] by blast
  note find = Directory_Find_map [OF f(4), of nm, folded fs_index_def]
  show ?thesis
  proof (cases "fs_index be fs (on_disk sec d) (name_key nm)")
    case None
    then show ?thesis using d1 find by (simp add: FileSystem_Open_def)
  next
    case (Some s)
    have s: "sector_ok s" using layout_file(1) [OF f(5) Some] .
    then obtain d2 where "OpenFile_new be rd s d1 = Inr (\<lparr>hdr = hdr_of be (on_disk sec d s), seekPosition = 0\<rparr>, d2)" "ok d2"
        "on_disk sec d2 = on_disk sec d" using OpenFile_new_ok [OF d1(2) s, of be] d1(3) by auto
    moreover have "0 \<le> s" using s by (simp add: sector_ok_def)
    ultimately show ?thesis using d1(1) find Some by (simp add: FileSystem_Open_def)
  qed
qed

lemma List_ok:
  assumes "ok d" "fs_inv be fs (on_disk sec d)" "garbage_ok g"
  shows "\<exists>d'. FileSystem_List be rd g fs d = Inr (Directory_List (fs_dir be fs (on_disk sec d)), d') \<and> ok d' \<and> on_disk sec d' = on_disk sec d"
  using fetch_directory_ok [OF assms(1) fs_inv_facts(1) [OF assms(2)] assms(3), of be] by (auto simp: FileSystem_List_def)

lemma Create_refused:
  assumes "ok d" "fs_inv be fs (on_disk sec d)" "garbage_ok g" "\<not> can_create be fs (on_disk sec d) nm fileSize"
  shows "\<exists>d'. FileSystem_Create be rd wr g nm fileSize fs d = Inr (False, d') \<and> ok d' \<and> on_disk sec d' = on_disk sec d"
proof -
  let ?S = "on_disk sec d" let ?dir = "fs_dir be fs ?S" let ?b = "fs_map be fs ?S"
  note f = fs_inv_facts [OF assms(2)]
  have sz: "length (table ?dir) = 10" "bm_ok ?b" "numBits ?b = 1024"
    using fs_dir_ok(2) [of fs ?S be] fs_map_ok(1,2) [of fs ?S be] f(1) length_on_disk by (simp_all add: sys_ok_def)
  obtain d1 where d1: "fetch_directory be rd g fs d = Inr (?dir, d1)" "ok d1" "on_disk sec d1 = ?S"
    using fetch_directory_ok [OF assms(1) f(1) assms(3), of be] by blast
  obtain d2 where d2: "fetch_freemap be rd g fs d1 = Inr (?b, d2)" "ok d2" "on_disk sec d2 = ?S"
    using fetch_freemap_ok [OF d1(2) f(1), of be g] d1(3) by auto
  note find = Directory_Find_map [OF f(4), of nm, folded fs_index_def]
  show ?thesis
  proof (cases "fs_index be fs ?S (name_key nm)")
    case (Some s)
    then have "s \<noteq> - 1" using layout_file(1) [OF f(5) Some] by (simp add: sector_ok_def)
    then show ?thesis using d1 find Some by (simp add: FileSystem_Create_def)
  next
    case None
    then consider "\<not> card (dom (fs_index be fs ?S)) < 10" | "int (fs_free be fs ?S) < 1 + divRoundUp fileSize 128"
      using assms(4) by (auto simp: can_create_def)
    then show ?thesis
    proof cases
      case 1
      then have "\<not> (\<exists>e \<in> set (table ?dir). \<not> inUse e)" using dir_room [OF f(4)] sz(1) by (simp add: fs_index_def)
      then have add: "fst (Directory_Add nm k ?dir) = False" for k using Directory_Add_map [OF f(4), of nm k] by auto
      obtain k b1 where "Find ?b = Inr (k, b1)"
        using bm.find_full [OF sz(2)] bm.find_free [OF sz(2)] by (cases "{0..<numBits ?b} \<subseteq> marked ?b") auto
      then show ?thesis using d1 d2 find None add [of k] by (auto simp: FileSystem_Create_def split: prod.splits)
    next
      case 2
      then have "int (card ({0..<1024} - marked ?b)) < 1 + divRoundUp fileSize 128" by (simp add: fs_free_def)
      from Find_Allocate_full [OF sz(2,3) this, of "g_header g"] show ?thesis
        using d1 d2 find None by (auto simp: FileSystem_Create_def split: prod.splits)
    qed
  qed
qed

lemma Create_ok:
  assumes "ok d" "fs_inv be fs (on_disk sec d)" "garbage_ok g" "0 \<le> fileSize" "fileSize \<le> 3840"
    "can_create be fs (on_disk sec d) nm fileSize"
  shows "\<exists>d' c. FileSystem_Create be rd wr g nm fileSize fs d = Inr (True, d') \<and> ok d' \<and> fs_inv be fs (on_disk sec d')
     \<and> int (length c) = fileSize \<and> fs_files be fs (on_disk sec d') = (fs_files be fs (on_disk sec d))(name_key nm \<mapsto> c)"
proof -
  let ?S = "on_disk sec d" let ?dir = "fs_dir be fs ?S" let ?b = "fs_map be fs ?S"
  let ?F = "set (file_sectors (hdr (freeMapFile fs)))" and ?D = "set (file_sectors (hdr (directoryFile fs)))"
  note f = fs_inv_facts [OF assms(2)]
  have sz: "length (table ?dir) = 10" "tableSize ?dir = 10" "\<forall>e \<in> set (table ?dir). entry_ok e" "bm_ok ?b" "numBits ?b = 1024"
    using fs_dir_ok(1-3) [of fs ?S be] fs_map_ok(1,2) [of fs ?S be] f(1) length_on_disk by (simp_all add: sys_ok_def)
  have none: "fs_index be fs ?S (name_key nm) = None" and room: "\<exists>e \<in> set (table ?dir). \<not> inUse e"
    and free: "1 + divRoundUp fileSize 128 \<le> int (card ({0..<1024} - marked ?b))"
    using assms(6) dir_room [OF f(4)] sz(1) by (simp_all add: can_create_def fs_index_def fs_free_def)
  obtain s b1 h b2 where s: "Find ?b = Inr (s, b1)" "Allocate b1 fileSize (g_header g) = Inr (True, h, b2)" "sector_ok s" "s \<notin> marked ?b"
      "hdr_ok h" "hdr_ints h" "numBytes h = fileSize" "s \<notin> set (file_sectors h)" "set (file_sectors h) \<inter> marked ?b = {}"
      "bm_ok b2" "numBits b2 = 1024" "marked b2 = marked ?b \<union> insert s (set (file_sectors h))"
    using Find_Allocate [OF sz(4,5) _ assms(4,5) free, of "g_header g"] assms(3) unfolding garbage_ok_def by blast
  obtain dir' where dir': "Directory_Add nm s ?dir = (True, dir')" "dir_ok dir'" "length (table dir') = 10"
      "dir_map (table dir') = (fs_index be fs ?S)(name_key nm \<mapsto> s)"
    using Directory_Add_map [OF f(4), of nm s] none room sz(1) by (auto simp: fs_index_def)
  have e: "\<forall>e \<in> set (table dir'). entry_ok e" "tableSize dir' = 10"
    using Directory_Add_entries [OF sz(3) s(3) dir'(1)] Directory_Add_size [OF dir'(1)] sz(2) by simp_all
  obtain d1 where d1: "fetch_directory be rd g fs d = Inr (?dir, d1)" "ok d1" "on_disk sec d1 = ?S"
    using fetch_directory_ok [OF assms(1) f(1) assms(3), of be] by blast
  obtain d2 where d2: "fetch_freemap be rd g fs d1 = Inr (?b, d2)" "ok d2" "on_disk sec d2 = ?S"
    using fetch_freemap_ok [OF d1(2) f(1), of be g] d1(3) by auto
  obtain d3 where d3: "WriteBack be wr s h d2 = Inr d3" "ok d3" "hdr_of be (on_disk sec d3 s) = h" "\<forall>m. m \<noteq> s \<longrightarrow> on_disk sec d3 m = ?S m"
    using header_WriteBack_ok [OF d2(2) s(3,6), of be] d2(3) by auto
  obtain d4 where d4: "Directory_WriteBack be rd wr (g_bytes g) (directoryFile fs) dir' d3 = Inr d4" "ok d4"
      "fs_dir be fs (on_disk sec d4) = dir'" "\<forall>m. m \<notin> ?D \<longrightarrow> on_disk sec d4 m = on_disk sec d3 m"
    using Directory_WriteBack_ok [OF d3(2) f(1) e(2) dir'(3) e(1), of be] by blast
  obtain d5 where d5: "BitMap_WriteBack be rd wr (g_bytes g) (freeMapFile fs) b2 d4 = Inr d5" "ok d5"
      "fs_map be fs (on_disk sec d5) = b2" "\<forall>m. m \<notin> ?F \<longrightarrow> on_disk sec d5 m = on_disk sec d4 m"
    using BitMap_WriteBack_ok [OF d4(2) f(1) s(10,11), of be] by blast
  have run: "FileSystem_Create be rd wr g nm fileSize fs d = Inr (True, d5)"
    using d1(1) d2(1) d3(1) d4(1) d5(1) s(1,2,3) dir'(1) none Directory_Find_map [OF f(4), of nm, folded fs_index_def]
    by (auto simp: FileSystem_Create_def sector_ok_def)
  have keep: "on_disk sec d5 m = ?S m" if "m \<notin> ?F" "m \<notin> ?D" "m \<noteq> s" for m using that d3(4) d4(4) d5(4) by simp
  have "s \<notin> ?F" "s \<notin> ?D" using s(4) f(11) by (auto simp: sys_sectors_def)
  then have h: "hdr_of be (on_disk sec d5 s) = h" using d3(3) d4(4) d5(4) by simp
  have "on_disk sec d5 m = on_disk sec d4 m" if "m \<in> ?D" for m using d5(4) that f(10) by blast
  then have "fs_dir be fs (on_disk sec d5) = dir'" using fs_dir_cong [of fs "on_disk sec d5" "on_disk sec d4"] d4(3) by simp
  then have idx: "dir_ok (fs_dir be fs (on_disk sec d5))" "fs_index be fs (on_disk sec d5) = (fs_index be fs ?S)(name_key nm \<mapsto> s)"
    using dir'(2,4) by (simp_all add: fs_index_def)
  have M: "marked (fs_map be fs (on_disk sec d5)) = marked ?b \<union> insert s (set (file_sectors h))" unfolding d5(3) by (rule s(12))
  have "int (length (contents (on_disk sec d5) h)) = fileSize"
    using length_contents [OF s(5), of "on_disk sec d5"] length_on_disk s(5,7) assms(4) by (simp add: hdr_ok_def)
  then show ?thesis using run d5(2) fs_create_state [OF assms(2) none s(3,4) h s(5,8,9) keep idx M] by blast
qed

lemma Create_overruns:
  assumes "ok d" "fs_inv be fs (on_disk sec d)" "garbage_ok g" "3840 < fileSize"
    "can_create be fs (on_disk sec d) nm fileSize"
  shows "FileSystem_Create be rd wr g nm fileSize fs d = Inl WildAccess"
proof -
  let ?S = "on_disk sec d" let ?dir = "fs_dir be fs ?S" let ?b = "fs_map be fs ?S"
  note f = fs_inv_facts [OF assms(2)]
  have sz: "length (table ?dir) = 10" "bm_ok ?b" "numBits ?b = 1024"
    using fs_dir_ok(1-3) [of fs ?S be] fs_map_ok(1,2) [of fs ?S be] f(1) length_on_disk by (simp_all add: sys_ok_def)
  have none: "fs_index be fs ?S (name_key nm) = None" and room: "\<exists>e \<in> set (table ?dir). \<not> inUse e"
    and free: "1 + divRoundUp fileSize 128 \<le> int (card ({0..<1024} - marked ?b))"
    using assms(5) dir_room [OF f(4)] sz(1) by (simp_all add: can_create_def fs_index_def fs_free_def)
  obtain s b1 where s: "Find ?b = Inr (s, b1)" "sector_ok s" "Allocate b1 fileSize (g_header g) = Inl WildAccess"
    using Find_Allocate_overruns [OF sz(2,3) _ assms(4) free, of "g_header g"] assms(3) unfolding garbage_ok_def by blast
  obtain dir' where dir': "Directory_Add nm s ?dir = (True, dir')"
    using Directory_Add_map [OF f(4), of nm s] none room sz(1) by (auto simp: fs_index_def)
  obtain d1 where d1: "fetch_directory be rd g fs d = Inr (?dir, d1)" "ok d1" "on_disk sec d1 = ?S"
    using fetch_directory_ok [OF assms(1) f(1) assms(3), of be] by blast
  obtain d2 where d2: "fetch_freemap be rd g fs d1 = Inr (?b, d2)"
    using fetch_freemap_ok [OF d1(2) f(1), of be g] d1(3) by auto
  show ?thesis
    using d1(1) d2 s dir' none Directory_Find_map [OF f(4), of nm, folded fs_index_def]
    by (auto simp: FileSystem_Create_def sector_ok_def)
qed

lemma Remove_absent:
  assumes "ok d" "fs_inv be fs (on_disk sec d)" "garbage_ok g" "fs_index be fs (on_disk sec d) (name_key nm) = None"
  shows "\<exists>d'. FileSystem_Remove be rd wr g nm fs d = Inr (False, d') \<and> ok d' \<and> on_disk sec d' = on_disk sec d"
proof -
  note f = fs_inv_facts [OF assms(2)]
  show ?thesis using fetch_directory_ok [OF assms(1) f(1) assms(3), of be] Directory_Find_map [OF f(4), of nm, folded fs_index_def] assms(4)
    by (auto simp: FileSystem_Remove_def)
qed

lemma Remove_ok:
  assumes "ok d" "fs_inv be fs (on_disk sec d)" "garbage_ok g" "fs_index be fs (on_disk sec d) (name_key nm) = Some s"
  shows "\<exists>d'. FileSystem_Remove be rd wr g nm fs d = Inr (True, d') \<and> ok d' \<and> fs_inv be fs (on_disk sec d')
     \<and> fs_files be fs (on_disk sec d') = (fs_files be fs (on_disk sec d))(name_key nm := None)"
proof -
  let ?S = "on_disk sec d" let ?dir = "fs_dir be fs ?S" let ?b = "fs_map be fs ?S" let ?h = "hdr_of be (?S s)"
  let ?F = "set (file_sectors (hdr (freeMapFile fs)))" and ?D = "set (file_sectors (hdr (directoryFile fs)))"
  note f = fs_inv_facts [OF assms(2)]
  note l = layout_file [OF f(5) assms(4)]
  have sz: "length (table ?dir) = 10" "tableSize ?dir = 10" "\<forall>e \<in> set (table ?dir). entry_ok e" "bm_ok ?b" "numBits ?b = 1024"
    using fs_dir_ok(1-3) [of fs ?S be] fs_map_ok(1,2) [of fs ?S be] f(1) length_on_disk by (simp_all add: sys_ok_def)
  have sub: "set (file_sectors ?h) \<subseteq> marked ?b" using l(5) by (simp add: block_def)
  obtain b1 where b1: "Deallocate ?h ?b = Inr b1" "bm_ok b1" "numBits b1 = 1024" "marked b1 = marked ?b - set (file_sectors ?h)"
    using Deallocate_ok [OF sz(4) l(2) sub] sz(5) by auto
  obtain b2 where b2: "Clear s b1 = Inr b2" "bm_ok b2" "numBits b2 = 1024" "marked b2 = marked b1 - {s}"
    using Clear_ok [OF b1(2), of s] b1(3) l(1) by (auto simp: sector_ok_def)
  obtain dir' where dir': "Directory_Remove nm ?dir = (True, dir')" "dir_ok dir'" "length (table dir') = 10"
      "dir_map (table dir') = (fs_index be fs ?S)(name_key nm := None)"
    using Directory_Remove_map [OF f(4), of nm] assms(4) sz(1) by (auto simp: fs_index_def)
  have "FindIndex nm ?dir = - 1 \<or> nat (FindIndex nm ?dir) < length (table ?dir)" by (cases rule: FindIndex_cases [OF f(4), of nm]) simp_all
  then have e: "\<forall>e \<in> set (table dir'). entry_ok e" "tableSize dir' = 10"
    using Directory_Remove_entries [OF sz(3) dir'(1)] sz(2) by simp_all
  obtain d1 where d1: "fetch_directory be rd g fs d = Inr (?dir, d1)" "ok d1" "on_disk sec d1 = ?S"
    using fetch_directory_ok [OF assms(1) f(1) assms(3), of be] by blast
  obtain d2 where d2: "FetchFrom be rd s d1 = Inr (?h, d2)" "ok d2" "on_disk sec d2 = ?S"
    using header_FetchFrom_ok [OF d1(2) l(1), of be] d1(3) by auto
  obtain d3 where d3: "fetch_freemap be rd g fs d2 = Inr (?b, d3)" "ok d3" "on_disk sec d3 = ?S"
    using fetch_freemap_ok [OF d2(2) f(1), of be g] d2(3) by auto
  obtain d4 where d4: "BitMap_WriteBack be rd wr (g_bytes g) (freeMapFile fs) b2 d3 = Inr d4" "ok d4"
      "fs_map be fs (on_disk sec d4) = b2" "\<forall>m. m \<notin> ?F \<longrightarrow> on_disk sec d4 m = on_disk sec d3 m"
    using BitMap_WriteBack_ok [OF d3(2) f(1) b2(2,3), of be] by blast
  obtain d5 where d5: "Directory_WriteBack be rd wr (g_bytes g) (directoryFile fs) dir' d4 = Inr d5" "ok d5"
      "fs_dir be fs (on_disk sec d5) = dir'" "\<forall>m. m \<notin> ?D \<longrightarrow> on_disk sec d5 m = on_disk sec d4 m"
    using Directory_WriteBack_ok [OF d4(2) f(1) e(2) dir'(3) e(1), of be] by blast
  have "s \<noteq> - 1" using l(1) by (simp add: sector_ok_def)
  then have run: "FileSystem_Remove be rd wr g nm fs d = Inr (True, d5)"
    using d1(1) d2(1) d3(1) d4(1) d5(1) b1(1) b2(1) dir'(1) assms(4) Directory_Find_map [OF f(4), of nm, folded fs_index_def]
    by (simp add: FileSystem_Remove_def)
  have keep: "on_disk sec d5 m = ?S m" if "m \<notin> ?F" "m \<notin> ?D" for m using that d3(3) d4(4) d5(4) by simp
  have "on_disk sec d5 m = on_disk sec d4 m" if "m \<in> ?F" for m using d5(4) that f(10) by blast
  then have "fs_map be fs (on_disk sec d5) = b2" using fs_map_cong [of fs "on_disk sec d5" "on_disk sec d4"] d4(3) by simp
  then have M: "marked (fs_map be fs (on_disk sec d5)) = marked ?b - block (\<lambda>s. hdr_of be (?S s)) s"
    using b1(4) b2(4) by (auto simp: block_def)
  have idx: "dir_ok (fs_dir be fs (on_disk sec d5))" "fs_index be fs (on_disk sec d5) = (fs_index be fs ?S)(name_key nm := None)"
    using dir'(2,4) d5(3) by (simp_all add: fs_index_def)
  show ?thesis using run d5(2) fs_remove_state [OF assms(2,4) keep idx M] by blast
qed

lemma reopen_ok:
  assumes "ok d" "fs_inv be fs (on_disk sec d)"
  shows "\<exists>fs' d'. FileSystem_new be rd wr g False d = Inr (fs', d') \<and> ok d' \<and> on_disk sec d' = on_disk sec d
     \<and> fs_inv be fs' (on_disk sec d) \<and> fs_files be fs' (on_disk sec d) = fs_files be fs (on_disk sec d)"
proof -
  note f = fs_inv_facts [OF assms(2)]
  have sec01: "sector_ok 0" "sector_ok 1" by (simp_all add: sector_ok_def)
  define fs' where "fs' = \<lparr>freeMapFile = \<lparr>hdr = hdr (freeMapFile fs), seekPosition = 0\<rparr>, directoryFile = \<lparr>hdr = hdr (directoryFile fs), seekPosition = 0\<rparr>\<rparr>"
  obtain d1 where d1: "OpenFile_new be rd 0 d = Inr (freeMapFile fs', d1)" "ok d1" "on_disk sec d1 = on_disk sec d"
    using OpenFile_new_ok [OF assms(1) sec01(1), of be] f(2) by (auto simp: fs'_def)
  obtain d2 where "OpenFile_new be rd 1 d1 = Inr (directoryFile fs', d2)" "ok d2" "on_disk sec d2 = on_disk sec d"
    using OpenFile_new_ok [OF d1(2) sec01(2), of be] f(3) d1(3) by (auto simp: fs'_def)
  then have "FileSystem_new be rd wr g False d = Inr (fs', d2)" "ok d2" "on_disk sec d2 = on_disk sec d"
    using d1 by (simp_all add: FileSystem_new_def FileSystem_open_def)
  moreover have "fs_map be fs' = fs_map be fs" "fs_dir be fs' = fs_dir be fs" "sys_sectors fs' = sys_sectors fs" "sys_ok fs' = sys_ok fs"
    by (simp_all add: fs_map_def fs_dir_def sys_sectors_def sys_ok_def fs'_def fun_eq_iff del: entries_of.simps)
  then have "fs_inv be fs' (on_disk sec d)" "fs_files be fs' (on_disk sec d) = fs_files be fs (on_disk sec d)"
    using assms(2) by (simp_all add: fs_inv_def fs_files_def fs_index_def fs'_def fun_eq_iff del: entries_of.simps)
  ultimately show ?thesis by blast
qed

lemma format_ok:
  assumes "ok d" "garbage_ok g"
  shows "\<exists>fs d'. FileSystem_new be rd wr g True d = Inr (fs, d') \<and> ok d' \<and> fs_inv be fs (on_disk sec d') \<and> fs_files be fs (on_disk sec d') = Map.empty"
proof -
  have g: "hdr_ints (g_header g)" "\<forall>i. entry_ok (g_entries g i)" using assms(2) by (simp_all add: garbage_ok_def)
  have sec01: "sector_ok 0" "sector_ok 1" by (simp_all add: sector_ok_def)
  obtain b0 b1 b2 mh b3 dh b4 where
      bits: "BitMap_new (g_words g) 1024 = Inr b0" "Mark 0 b0 = Inr b1" "Mark 1 b1 = Inr b2" "Allocate b2 128 (g_header g) = Inr (True, mh, b3)"
        "Allocate b3 200 (g_header g) = Inr (True, dh, b4)"
      and b3: "hdr_ok mh" "hdr_ints mh" "numBytes mh = 128" and b4: "hdr_ok dh" "hdr_ints dh" "numBytes dh = 200" "bm_ok b4" "numBits b4 = 1024"
      and dj: "set (file_sectors mh) \<inter> {1, 0} = {}" "set (file_sectors dh) \<inter> ({1, 0} \<union> set (file_sectors mh)) = {}"
        "marked b4 = {1, 0} \<union> set (file_sectors mh) \<union> set (file_sectors dh)"
    using format_alloc [OF g(1), of "g_words g"] by auto
  define fs where "fs = \<lparr>freeMapFile = \<lparr>hdr = mh, seekPosition = 0\<rparr>, directoryFile = \<lparr>hdr = dh, seekPosition = 0\<rparr>\<rparr>"
  define dir where "dir = \<lparr>tableSize = 10, table = map (\<lambda>i. (g_entries g i)\<lparr>inUse := False\<rparr>) [0..<nat 10]\<rparr>"
  have dn: "Directory_new g 10 = Inr dir" by (simp add: Directory_new_def dir_def del: upt_rec_numeral)
  have sys: "sys_ok fs" using b3 b4 by (simp add: sys_ok_def fs_def)
  obtain d1 where d1: "WriteBack be wr 0 mh d = Inr d1" "ok d1" "hdr_of be (on_disk sec d1 0) = mh"
    using header_WriteBack_ok [OF assms(1) sec01(1) b3(2), of be] by blast
  obtain d2 where d2: "WriteBack be wr 1 dh d1 = Inr d2" "ok d2" "hdr_of be (on_disk sec d2 1) = dh" "\<forall>m. m \<noteq> 1 \<longrightarrow> on_disk sec d2 m = on_disk sec d1 m"
    using header_WriteBack_ok [OF d1(2) sec01(2) b4(2), of be] by blast
  have h0: "hdr_of be (on_disk sec d2 0) = mh" using d1(3) d2(4) by simp
  obtain d3 where d3: "OpenFile_new be rd 0 d2 = Inr (freeMapFile fs, d3)" "ok d3" "on_disk sec d3 = on_disk sec d2"
    using OpenFile_new_ok [OF d2(2) sec01(1), of be] h0 by (auto simp: fs_def)
  obtain d4 where d4: "OpenFile_new be rd 1 d3 = Inr (directoryFile fs, d4)" "ok d4" "on_disk sec d4 = on_disk sec d2"
    using OpenFile_new_ok [OF d3(2) sec01(2), of be] d2(3) d3(3) by (auto simp: fs_def)
  obtain d5 where d5: "BitMap_WriteBack be rd wr (g_bytes g) (freeMapFile fs) b4 d4 = Inr d5" "ok d5" "fs_map be fs (on_disk sec d5) = b4"
      "\<forall>m. m \<notin> set (file_sectors mh) \<longrightarrow> on_disk sec d5 m = on_disk sec d4 m"
    using BitMap_WriteBack_ok [OF d4(2) sys b4(4,5), of be "g_bytes g"] by (auto simp: fs_def)
  have e: "\<forall>e \<in> set (table dir). entry_ok e" using g(2) by (auto simp: dir_def entry_ok_def)
  obtain d6 where d6: "Directory_WriteBack be rd wr (g_bytes g) (directoryFile fs) dir d5 = Inr d6" "ok d6" "fs_dir be fs (on_disk sec d6) = dir"
      "\<forall>m. m \<notin> set (file_sectors dh) \<longrightarrow> on_disk sec d6 m = on_disk sec d5 m"
    using Directory_WriteBack_ok [OF d5(2) sys _ _ e, of be "g_bytes g"] by (auto simp: fs_def dir_def simp del: upt_rec_numeral)
  have run: "FileSystem_new be rd wr g True d = Inr (fs, d6)"
    using bits dn d1(1) d2(1) d3(1) d4(1) d5(1) d6(1) by (simp add: FileSystem_new_def FileSystem_open_def fs_def)
  have "on_disk sec d6 0 = on_disk sec d2 0" "on_disk sec d6 1 = on_disk sec d2 1"
    using d4(3) d5(4) d6(4) dj(1,2) by auto
  then have hs: "hdr_of be (on_disk sec d6 0) = mh" "hdr_of be (on_disk sec d6 1) = dh" using h0 d2(3) by simp_all
  have "on_disk sec d6 m = on_disk sec d5 m" if "m \<in> set (file_sectors mh)" for m using d6(4) that dj(2) by auto
  then have "fs_map be fs (on_disk sec d6) = b4" using fs_map_cong [of fs "on_disk sec d6" "on_disk sec d5"] d5(3) by (simp add: fs_def)
  moreover have idx: "fs_index be fs (on_disk sec d6) = Map.empty" unfolding fs_index_def d6(3) by (simp add: dir_map_def dir_def del: upt_rec_numeral)
  moreover have "marked b4 = set (sys_sectors fs)" using dj(3) by (auto simp: sys_sectors_def fs_def)
  ultimately have "layout (set (sys_sectors fs)) (fs_index be fs (on_disk sec d6)) (\<lambda>s. hdr_of be (on_disk sec d6 s)) (marked (fs_map be fs (on_disk sec d6)))"
    by (simp add: layout_def)
  moreover have "dir_ok (fs_dir be fs (on_disk sec d6))"
    unfolding d6(3) using e by (auto simp: dir_ok_def dir_def entry_ok_def simp del: upt_rec_numeral)
  moreover have "distinct (sys_sectors fs)" using b3(1) b4(1) dj(1,2) by (auto simp: sys_sectors_def fs_def hdr_ok_def)
  ultimately have "fs_inv be fs (on_disk sec d6)" using sys hs by (simp add: fs_inv_def fs_def)
  then show ?thesis using run d6(2) idx by (auto simp: fs_files_def fun_eq_iff)
qed

lemma write_ok:
  assumes "ok d" "fs_inv be fs (on_disk sec d)" "fs_index be fs (on_disk sec d) k = Some s" "0 \<le> pos" "pos + int (length data) < 2 ^ 31"
  defines "c \<equiv> contents (on_disk sec d) (hdr_of be (on_disk sec d s))"
  shows "\<exists>n d'. WriteAt rd wr buf (hdr_of be (on_disk sec d s)) data (int (length data)) pos d = Inr (n, d') \<and> ok d' \<and> fs_inv be fs (on_disk sec d')
     \<and> fs_files be fs (on_disk sec d') = (fs_files be fs (on_disk sec d))(k \<mapsto> overlay (nat pos) (take (length c - nat pos) data) c)"
proof -
  let ?h = "hdr_of be (on_disk sec d s)"
  have h: "hdr_ok ?h" using layout_file(2) [OF fs_inv_facts(5) [OF assms(2)] assms(3)] .
  obtain n d' where d: "WriteAt rd wr buf ?h data (int (length data)) pos d = Inr (int n, d')" "ok d'"
      "n = min (length data) (nat (numBytes ?h) - nat pos)" "contents (sec d') ?h = overlay (nat pos) (take n data) (contents (sec d) ?h)"
      "\<forall>m. sector_ok m \<longrightarrow> m \<notin> set (file_sectors ?h) \<longrightarrow> sec d' m = sec d m"
    using WriteAt_ok [OF h assms(1,4,5), of data buf] by auto
  have "length c = nat (numBytes ?h)" unfolding c_def using length_contents [OF h, of "on_disk sec d"] length_on_disk h by (simp add: hdr_ok_def)
  then have "contents (on_disk sec d') ?h = overlay (nat pos) (take (length c - nat pos) data) c"
    using d(3,4) contents_on_disk [OF h] by (simp add: c_def min_def)
  moreover have "on_disk sec d' m = on_disk sec d m" if "m \<notin> set (file_sectors ?h)" for m using d(5) that by (simp add: on_disk_def)
  ultimately show ?thesis using d(1,2) fs_write_state [OF assms(2,3), of "on_disk sec d'"] by auto
qed

lemma exec_result:
  assumes "fs_exec be rd wr fs g op d = Inr (b, d')" "ok d'" "fs_inv be fs (on_disk sec d')"
    "spec_step op b (fs_files be fs (on_disk sec d)) (fs_files be fs (on_disk sec d'))"
  shows "\<exists>b d'. fs_exec be rd wr fs g op d = Inr (b, d') \<and> ok d' \<and> fs_inv be fs (on_disk sec d')
     \<and> spec_step op b (fs_files be fs (on_disk sec d)) (fs_files be fs (on_disk sec d'))"
  using assms by blast

lemma exec_ok:
  assumes "ok d" "fs_inv be fs (on_disk sec d)" "garbage_ok g" "fsop_ok op"
  shows "\<exists>b d'. fs_exec be rd wr fs g op d = Inr (b, d') \<and> ok d' \<and> fs_inv be fs (on_disk sec d')
     \<and> spec_step op b (fs_files be fs (on_disk sec d)) (fs_files be fs (on_disk sec d'))"
proof (cases op)
  case (OpCreate nm fileSize)
  let ?m = "fs_files be fs (on_disk sec d)"
  show ?thesis
  proof (cases "can_create be fs (on_disk sec d) nm fileSize")
    case True
    then have c: "?m (name_key nm) = None" "card (dom ?m) < 10" by (simp_all add: can_create_def dom_fs_files)
    obtain d' c' where d': "FileSystem_Create be rd wr g nm fileSize fs d = Inr (True, d')" "ok d'" "fs_inv be fs (on_disk sec d')"
        "int (length c') = fileSize" "fs_files be fs (on_disk sec d') = ?m(name_key nm \<mapsto> c')"
      using Create_ok [OF assms(1-3) _ _ True] assms(4) OpCreate by auto
    show ?thesis using d' OpCreate spec_create [OF c d'(4)] by (intro exec_result [of be fs g op d True d']) (simp_all add: fs_exec_def)
  next
    case False
    obtain d' where d': "FileSystem_Create be rd wr g nm fileSize fs d = Inr (False, d')" "ok d'" "on_disk sec d' = on_disk sec d"
      using Create_refused [OF assms(1-3) False] by blast
    show ?thesis using d' OpCreate assms(2) spec_refuse by (intro exec_result [of be fs g op d False d']) (simp_all add: fs_exec_def)
  qed
next
  case (OpRemove nm)
  let ?m = "fs_files be fs (on_disk sec d)"
  have sp: "spec_step op (?m (name_key nm) \<noteq> None) ?m (?m(name_key nm := None))" unfolding OpRemove by (rule spec_remove)
  show ?thesis
  proof (cases "fs_index be fs (on_disk sec d) (name_key nm)")
    case None
    then have m: "?m (name_key nm) = None" "?m(name_key nm := None) = ?m" by (simp_all add: fs_files_def fun_eq_iff)
    obtain d' where d': "FileSystem_Remove be rd wr g nm fs d = Inr (False, d')" "ok d'" "on_disk sec d' = on_disk sec d"
      using Remove_absent [OF assms(1-3) None] by blast
    show ?thesis using d' OpRemove assms(2) sp m by (intro exec_result [of be fs g op d False d']) (simp_all add: fs_exec_def)
  next
    case (Some s)
    then have m: "?m (name_key nm) \<noteq> None" by (simp add: fs_files_def)
    obtain d' where d': "FileSystem_Remove be rd wr g nm fs d = Inr (True, d')" "ok d'" "fs_inv be fs (on_disk sec d')"
        "fs_files be fs (on_disk sec d') = ?m(name_key nm := None)"
      using Remove_ok [OF assms(1-3) Some] by blast
    show ?thesis using d' OpRemove sp m by (intro exec_result [of be fs g op d True d']) (simp_all add: fs_exec_def)
  qed
next
  case (OpWrite nm data pos)
  let ?m = "fs_files be fs (on_disk sec d)"
  obtain d1 where d1: "FileSystem_Open be rd g nm fs d =
       Inr (map_option (\<lambda>s. \<lparr>hdr = hdr_of be (on_disk sec d s), seekPosition = 0\<rparr>) (fs_index be fs (on_disk sec d) (name_key nm)), d1)"
      "ok d1" "on_disk sec d1 = on_disk sec d" using Open_ok [OF assms(1-3)] by blast
  show ?thesis
  proof (cases "fs_index be fs (on_disk sec d) (name_key nm)")
    case None
    then have "?m (name_key nm) = None" by (simp add: fs_files_def)
    then show ?thesis using d1 OpWrite assms(2) None spec_no_file
      by (intro exec_result [of be fs g op d False d1]) (simp_all add: fs_exec_def)
  next
    case (Some s)
    let ?c = "contents (on_disk sec d) (hdr_of be (on_disk sec d s))"
    have p: "0 \<le> pos" "pos + int (length data) < 2 ^ 31" using assms(4) OpWrite by simp_all
    have inv1: "fs_inv be fs (on_disk sec d1)" "fs_index be fs (on_disk sec d1) (name_key nm) = Some s" using d1(3) assms(2) Some by simp_all
    obtain n d2 where d2: "WriteAt rd wr (g_bytes g) (hdr_of be (on_disk sec d s)) data (int (length data)) pos d1 = Inr (n, d2)" "ok d2"
        "fs_inv be fs (on_disk sec d2)" "fs_files be fs (on_disk sec d2) = ?m(name_key nm \<mapsto> overlay (nat pos) (take (length ?c - nat pos) data) ?c)"
      using write_ok [OF d1(2) inv1 p, of "g_bytes g"] unfolding d1(3) by blast
    have "?m (name_key nm) = Some ?c" using Some by (simp add: fs_files_def)
    from spec_write [where m = ?m and nm = nm, OF this, of data pos] show ?thesis using d1(1) d2 OpWrite Some
      by (intro exec_result [of be fs g op d True d2]) (simp_all add: fs_exec_def)
  qed
qed

lemma execs_ok:
  "ok d \<Longrightarrow> fs_inv be fs (on_disk sec d) \<Longrightarrow> (\<forall>(g, op) \<in> set ops. garbage_ok g \<and> fsop_ok op) \<Longrightarrow>
   \<exists>bs d'. fs_execs be rd wr fs ops d = Inr (bs, d') \<and> ok d' \<and> fs_inv be fs (on_disk sec d')
     \<and> spec_steps (map snd ops) bs (fs_files be fs (on_disk sec d)) (fs_files be fs (on_disk sec d'))"
proof (induction ops arbitrary: d)
  case Nil
  then show ?case by (auto intro: spec_nil)
next
  case (Cons x ops)
  obtain g op where x: "x = (g, op)" by (cases x)
  have g: "garbage_ok g" "fsop_ok op" "\<forall>(g, op) \<in> set ops. garbage_ok g \<and> fsop_ok op" using Cons.prems(3) x by simp_all
  obtain b d1 where d1: "fs_exec be rd wr fs g op d = Inr (b, d1)" "ok d1" "fs_inv be fs (on_disk sec d1)"
      "spec_step op b (fs_files be fs (on_disk sec d)) (fs_files be fs (on_disk sec d1))"
    using exec_ok [OF Cons.prems(1,2), of g op] g by blast
  obtain bs d2 where "fs_execs be rd wr fs ops d1 = Inr (bs, d2)" "ok d2" "fs_inv be fs (on_disk sec d2)"
      "spec_steps (map snd ops) bs (fs_files be fs (on_disk sec d1)) (fs_files be fs (on_disk sec d2))"
    using Cons.IH [OF d1(2,3) g(3)] by blast
  then show ?case using d1(1) spec_cons [OF d1(4)] by (simp add: x)
qed

end

section \<open>The file system on the simulated disk\<close>

definition demo_garbage :: garbage where
  "demo_garbage = \<lparr>g_bytes = (\<lambda>_. 0xff), g_words = (\<lambda>_. 0xffffffff),
     g_entries = (\<lambda>_. \<lparr>inUse = True, dsector = 3, ename = replicate 10 1, epad = replicate 5 2\<rparr>),
     g_header = \<lparr>numBytes = 7, numSectors = 1, dataSectors = replicate 30 9\<rparr>\<rparr>"

lemma demo_garbage_ok: "garbage_ok demo_garbage"
  by (simp add: garbage_ok_def demo_garbage_def entry_ok_def hdr_ints_def)

text \<open>C3: the file system on a disk that works, reached by sector operations without the lock of the synchronous disk (a stub that
  fails), implements a finite map from names to contents. A format always
  succeeds, and after it every sequence of creations with sizes that a header can describe (0 to 3840 bytes, 30 sectors; a larger size can write
  beyond the header), removals and writes to files opened by name runs without a
  failed assertion or an access outside a table, keeps the structures on the disk consistent (the invariant:
  no sector in two files, the free map marks exactly the sectors in use), and gives the results and the contents that
  the map specification allows, whatever the memory that the kernel allocates held before.\<close>

theorem filesystem_refines_map:
  assumes "sync_ok s" "garbage_ok g" "\<forall>(g, op) \<in> set ops. garbage_ok g \<and> fsop_ok op"
  shows "\<exists>fs s1 bs s2. FileSystem_new be (sync_read dd this) (sync_write dd this) g True s = Inr (fs, s1)
     \<and> fs_execs be (sync_read dd this) (sync_write dd this) fs ops s1 = Inr (bs, s2) \<and> sync_ok s2
     \<and> fs_inv be fs (on_disk sync_sec s2) \<and> spec_steps (map snd ops) bs Map.empty (fs_files be fs (on_disk sync_sec s2))"
proof -
  obtain fs s1 where f: "FileSystem_new be (sync_read dd this) (sync_write dd this) g True s = Inr (fs, s1)" "sync_ok s1"
      "fs_inv be fs (on_disk sync_sec s1)" "fs_files be fs (on_disk sync_sec s1) = Map.empty"
    using sd.format_ok [OF assms(1,2), of be dd this] by blast
  then show ?thesis using sd.execs_ok [OF f(2,3) assms(3), of dd this] by fastforce
qed

theorem filesystem_refines_map_witness:
  "\<exists>fs s1 bs s2. FileSystem_new False (sync_read 7 1) (sync_write 7 1) demo_garbage True demo_dstate = Inr (fs, s1)
     \<and> fs_execs False (sync_read 7 1) (sync_write 7 1) fs
          [(demo_garbage, OpCreate [97] 200), (demo_garbage, OpWrite [97] [1, 2, 3] 126), (demo_garbage, OpRemove [98])] s1 = Inr (bs, s2)
     \<and> fs_inv False fs (on_disk sync_sec s2)"
  using filesystem_refines_map [OF demo_dstate_ok demo_garbage_ok, of
      "[(demo_garbage, OpCreate [97] 200), (demo_garbage, OpWrite [97] [1, 2, 3] 126), (demo_garbage, OpRemove [98])]" False 7 1]
    demo_garbage_ok
  by (simp del: fs_execs.simps) blast

lemma empty_can_create:
  assumes "fs_inv be fs S" "fs_files be fs S = Map.empty" "0 \<le> fileSize" "fileSize \<le> 3840"
  shows "can_create be fs S nm fileSize"
proof -
  have i: "fs_index be fs S = Map.empty" using assms(2) by (auto simp: fs_files_def fun_eq_iff)
  note f = fs_inv_facts [OF assms(1)]
  have "marked (fs_map be fs S) = set (sys_sectors fs)" using f(5) by (simp add: layout_def i)
  moreover have "length (sys_sectors fs) = 5"
  proof -
    have "nsec (hdr (freeMapFile fs)) = 1" "nsec (hdr (directoryFile fs)) = 2"
      using f(1) by (simp_all add: sys_ok_def nsec_def hdr_ok_def divRoundUp_def sdiv_nonneg smod_nonneg)
    then show ?thesis using f(1) hdr_ok_facts(1) by (simp add: sys_sectors_def sys_ok_def)
  qed
  ultimately have "card (marked (fs_map be fs S)) \<le> 5" "finite (marked (fs_map be fs S))" using card_length [of "sys_sectors fs"] by simp_all
  then have "1019 \<le> fs_free be fs S"
    using diff_card_le_card_Diff [of "marked (fs_map be fs S)" "{0..<1024}"] by (simp add: fs_free_def)
  moreover have "divRoundUp fileSize 128 \<le> 30" using divRoundUp_le_iff [OF assms(3), of 128 30] assms(4) by simp
  ultimately show ?thesis by (simp add: can_create_def i)
qed

text \<open>C14: \<open>Create\<close> returns false exactly when the name is there already, or no
  entry of the directory is free, or there are not enough sectors for the header and the data; the disk is then as before: nothing that was
  allocated on the way is lost. Otherwise, for a size that a header can describe (at most 3840 bytes, 30 sectors), it succeeds, the file is there
  with that size and no other file has changed; for a larger size it writes beyond the table of the header. \<open>Open\<close> finds exactly the files that are there, with their contents.\<close>

theorem create_open:
  assumes "sync_ok s" "fs_inv be fs (on_disk sync_sec s)" "garbage_ok g" "0 \<le> fileSize"
  shows "(if can_create be fs (on_disk sync_sec s) nm fileSize \<and> 3840 < fileSize
      then FileSystem_Create be (sync_read dd this) (sync_write dd this) g nm fileSize fs s = Inl WildAccess
      else \<exists>s'. FileSystem_Create be (sync_read dd this) (sync_write dd this) g nm fileSize fs s =
         Inr (can_create be fs (on_disk sync_sec s) nm fileSize, s') \<and> sync_ok s' \<and> fs_inv be fs (on_disk sync_sec s')
       \<and> (if can_create be fs (on_disk sync_sec s) nm fileSize
          then \<exists>c. int (length c) = fileSize \<and> fs_files be fs (on_disk sync_sec s') = (fs_files be fs (on_disk sync_sec s))(name_key nm \<mapsto> c)
          else on_disk sync_sec s' = on_disk sync_sec s))
     \<and> (\<exists>f s'. FileSystem_Open be (sync_read dd this) g nm fs s = Inr (f, s') \<and> sync_ok s' \<and> on_disk sync_sec s' = on_disk sync_sec s
       \<and> map_option (\<lambda>f. contents (on_disk sync_sec s) (hdr f)) f = fs_files be fs (on_disk sync_sec s) (name_key nm))"
proof (rule conjI)
  show "if can_create be fs (on_disk sync_sec s) nm fileSize \<and> 3840 < fileSize
      then FileSystem_Create be (sync_read dd this) (sync_write dd this) g nm fileSize fs s = Inl WildAccess
      else \<exists>s'. FileSystem_Create be (sync_read dd this) (sync_write dd this) g nm fileSize fs s =
         Inr (can_create be fs (on_disk sync_sec s) nm fileSize, s') \<and> sync_ok s' \<and> fs_inv be fs (on_disk sync_sec s')
       \<and> (if can_create be fs (on_disk sync_sec s) nm fileSize
          then \<exists>c. int (length c) = fileSize \<and> fs_files be fs (on_disk sync_sec s') = (fs_files be fs (on_disk sync_sec s))(name_key nm \<mapsto> c)
          else on_disk sync_sec s' = on_disk sync_sec s)"
  proof (cases "can_create be fs (on_disk sync_sec s) nm fileSize")
    case True
    show ?thesis
    proof (cases "fileSize \<le> 3840")
      case small: True
      then show ?thesis using sd.Create_ok [OF assms small True, of dd this] True by auto
    next
      case False
      then show ?thesis using sd.Create_overruns [OF assms(1-3) _ True, of dd this] True by simp
    qed
  next
    case False
    then show ?thesis using sd.Create_refused [OF assms(1-3) False, of dd this] assms(2) by auto
  qed
  show "\<exists>f s'. FileSystem_Open be (sync_read dd this) g nm fs s = Inr (f, s') \<and> sync_ok s' \<and> on_disk sync_sec s' = on_disk sync_sec s
       \<and> map_option (\<lambda>f. contents (on_disk sync_sec s) (hdr f)) f = fs_files be fs (on_disk sync_sec s) (name_key nm)"
    using sd.Open_ok [OF assms(1-3), of dd this nm] by (auto simp: fs_files_def option.map_comp comp_def)
qed

theorem create_open_witness:
  "\<exists>fs s1 s2. FileSystem_new False (sync_read 7 1) (sync_write 7 1) demo_garbage True demo_dstate = Inr (fs, s1)
     \<and> FileSystem_Create False (sync_read 7 1) (sync_write 7 1) demo_garbage [97] 200 fs s1 = Inr (True, s2)"
proof -
  obtain fs s1 where f: "FileSystem_new False (sync_read 7 1) (sync_write 7 1) demo_garbage True demo_dstate = Inr (fs, s1)" "sync_ok s1"
      "fs_inv False fs (on_disk sync_sec s1)" "fs_files False fs (on_disk sync_sec s1) = Map.empty"
    using sd.format_ok [OF demo_dstate_ok demo_garbage_ok, of False 7 1] by blast
  then have "can_create False fs (on_disk sync_sec s1) [97] 200" by (intro empty_can_create) simp_all
  then show ?thesis using f(1) create_open [OF f(2,3) demo_garbage_ok, where fileSize = 200 and dd = 7 and this = 1 and nm = "[97]"] by auto
qed

text \<open>C30: a file system survives a restart: opening a consistent disk without formatting it yields a file system with the
  same files and leaves the disk as it is.\<close>

theorem reopen_same_files:
  assumes "sync_ok s" "fs_inv be fs (on_disk sync_sec s)"
  shows "\<exists>fs' s'. FileSystem_new be (sync_read dd this) (sync_write dd this) g False s = Inr (fs', s') \<and> sync_ok s'
     \<and> on_disk sync_sec s' = on_disk sync_sec s \<and> fs_inv be fs' (on_disk sync_sec s')
     \<and> fs_files be fs' (on_disk sync_sec s') = fs_files be fs (on_disk sync_sec s)"
  using sd.reopen_ok [OF assms, of dd this g] by fastforce

theorem reopen_same_files_witness:
  "\<exists>fs s1 fs' s2. FileSystem_new False (sync_read 7 1) (sync_write 7 1) demo_garbage True demo_dstate = Inr (fs, s1)
     \<and> FileSystem_new False (sync_read 7 1) (sync_write 7 1) demo_garbage False s1 = Inr (fs', s2)
     \<and> fs_files False fs' (on_disk sync_sec s2) = fs_files False fs (on_disk sync_sec s1)"
proof -
  obtain fs s1 where f: "FileSystem_new False (sync_read 7 1) (sync_write 7 1) demo_garbage True demo_dstate = Inr (fs, s1)" "sync_ok s1"
      "fs_inv False fs (on_disk sync_sec s1)"
    using sd.format_ok [OF demo_dstate_ok demo_garbage_ok, of False 7 1] by blast
  then show ?thesis using reopen_same_files [OF f(2,3), of 7 1 demo_garbage] by blast
qed

end
