(* ===== verification/UserProgModel.thy ===== *)
theory UserProgModel
  imports MipsCorrect FileModel
begin

text \<open>
  User programs: loading an executable into an address space (userprog/addrspace.h,
  userprog/addrspace.cc, bin/noff.h), the start of a process (userprog/progtest.cc), the
  kernel's entry on exceptions and system calls (userprog/exception.cc), and an iteration of the
  loop of \<open>Machine::Run\<close> (machine/mipssim.cc).

  The executable is a file of the host, read as in the \<open>FILESYS_STUB\<close> variant of filesys/openfile.h.
\<close>

section \<open>Data\<close>

record Segment =
  virtualAddr :: "32 word"
  inFileAddr :: "32 word"
  segsize :: "32 word"

record NoffHeader =
  noffMagic :: "32 word"
  code :: Segment
  initData :: Segment
  uninitData :: Segment

record AddrSpace =
  noffH :: NoffHeader
  pageTable :: "TranslationEntry list"
  numPages :: "32 word"

abbreviation (input) "NOFFMAGIC \<equiv> (0xbadfad :: 32 word)"
abbreviation (input) "UserStacksAreaSize \<equiv> (1024 :: 32 word)"
abbreviation (input) "USER_START_ADDRESS \<equiv> (0x80 :: 32 word)"
abbreviation (input) "SC_Halt \<equiv> (0 :: 32 word)"

section \<open>Loading a program\<close>

definition stub_ReadAt :: "int \<Rightarrow> int \<Rightarrow> unix_file \<Rightarrow> byte list res" where
  "stub_ReadAt nBytes position f =
     rbind (ASSERT (position \<ge> 0)) (\<lambda>_.
     Inr (map (fbyte f) [nat position..<min (nat position + nat nBytes) (fsize f)]))"

definition segment_of :: "bool \<Rightarrow> byte list \<Rightarrow> nat \<Rightarrow> Segment" where
  "segment_of be bs i =
     (let field = (\<lambda>k. word_of_int (bytes_int be (take 4 (drop (4 * k) bs)))) in
      \<lparr>virtualAddr = field i, inFileAddr = field (i + 1), segsize = field (i + 2)\<rparr>)"

definition noff_of :: "bool \<Rightarrow> byte list \<Rightarrow> NoffHeader" where
  "noff_of be bs =
     \<lparr>noffMagic = word_of_int (bytes_int be (take 4 bs)), code = segment_of be bs 1,
      initData = segment_of be bs 4, uninitData = segment_of be bs 7\<rparr>"

definition SwapSegment :: "bool \<Rightarrow> Segment \<Rightarrow> Segment" where
  "SwapSegment be g =
     \<lparr>virtualAddr = WordToHost be (virtualAddr g), inFileAddr = WordToHost be (inFileAddr g), segsize = WordToHost be (segsize g)\<rparr>"

definition SwapHeader :: "bool \<Rightarrow> NoffHeader \<Rightarrow> NoffHeader" where
  "SwapHeader be h =
     \<lparr>noffMagic = WordToHost be (noffMagic h), code = SwapSegment be (code h),
      initData = SwapSegment be (initData h), uninitData = SwapSegment be (uninitData h)\<rparr>"

definition copy_in :: "int \<Rightarrow> byte list \<Rightarrow> machine \<Rightarrow> machine res" where
  "copy_in va bs m =
     (if bs = [] then Inr m
      else if 0 \<le> va \<and> nat va + length bs \<le> MemorySize
      then Inr (m\<lparr>mainMemory := (\<lambda>i. if nat va \<le> i \<and> i < nat va + length bs then bs ! (i - nat va) else mainMemory m i)\<rparr>)
      else Inl WildAccess)"

definition load_segment :: "unix_file \<Rightarrow> Segment \<Rightarrow> machine \<Rightarrow> machine res" where
  "load_segment f g m =
     (if sint (segsize g) > 0
      then rbind (stub_ReadAt (sint (segsize g)) (sint (inFileAddr g)) f) (\<lambda>bs. copy_in (sint (virtualAddr g)) bs m)
      else Inr m)"

text \<open>
  The constructor: \<open>garb\<close> is what the header held before it was read, \<open>vp\<close> what the new page table
  held in the field \<open>virtualPage\<close>, which is not set; \<open>lst\<close> is \<open>AddrSpaceList\<close> and \<open>this\<close> the new object.
\<close>

definition AddrSpace_new ::
  "bool \<Rightarrow> (nat \<Rightarrow> byte) \<Rightarrow> (nat \<Rightarrow> 32 word) \<Rightarrow> addr \<Rightarrow> unix_file \<Rightarrow> addr list \<Rightarrow> machine \<Rightarrow> (AddrSpace \<times> addr list \<times> machine) res" where
  "AddrSpace_new be garb vp this executable lst m =
     rbind (stub_ReadAt 40 0 executable) (\<lambda>bs.
     let h0 = noff_of be (overlay 0 bs (map garb [0..<40]));
         h = (if noffMagic h0 \<noteq> NOFFMAGIC \<and> WordToHost be (noffMagic h0) = NOFFMAGIC then SwapHeader be h0 else h0) in
     rbind (ASSERT (noffMagic h = NOFFMAGIC)) (\<lambda>_.
     let sz = segsize (code h) + segsize (initData h) + segsize (uninitData h) + UserStacksAreaSize;
         n = sz div 128 + (if sz mod 128 > 0 then 1 else 0) in
     if n > 64 then Inl BadAlloc
     else
       let pt = map (\<lambda>i. \<lparr>virtualPage = vp i, physicalPage = of_nat i, valid = True, readOnly = False, usebit = False, dirty = False\<rparr>) [0..<unat n] in
       rbind (load_segment executable (code h) m) (\<lambda>m1.
       rbind (load_segment executable (initData h) m1) (\<lambda>m2.
       if n = 0 then Inl WildAccess
       else Inr (\<lparr>noffH = h, pageTable = pt[0 := (pt ! 0)\<lparr>valid := False\<rparr>], numPages = n\<rparr>, lst @ [this], m2)))))"

text \<open>The destructor: \<open>List::Remove\<close> asserts to find the object.\<close>

definition AddrSpace_delete :: "addr \<Rightarrow> addr list \<Rightarrow> addr list res" where
  "AddrSpace_delete this lst = rbind (ASSERT (this \<in> set lst)) (\<lambda>_. Inr (remove1 this lst))"

fun clear_regs :: "nat \<Rightarrow> machine \<Rightarrow> machine res" where
  "clear_regs 0 m = Inr m"
| "clear_regs (Suc n) m = rbind (clear_regs n m) (WriteRegister (int n) 0)"

definition InitRegisters :: "AddrSpace \<Rightarrow> machine \<Rightarrow> machine res" where
  "InitRegisters sp m =
     rbind (clear_regs NumTotalRegs m) (\<lambda>m1.
     rbind (WriteRegister (int PCReg) USER_START_ADDRESS m1) (\<lambda>m2.
     rbind (ReadRegister (int PCReg) m2) (\<lambda>pc.
     rbind (WriteRegister (int NextPCReg) (pc + 4) m2) (\<lambda>m3.
     WriteRegister (int StackReg) (numPages sp * 128 - 16) m3))))"

definition RestoreSpace :: "AddrSpace \<Rightarrow> machine \<Rightarrow> machine" where
  "RestoreSpace sp m = m\<lparr>currentPageTable := Some (pageTable sp), currentPageTableSize := numPages sp\<rparr>"

text \<open>\<open>StartProcess\<close> up to \<open>machine->Run\<close>; \<open>None\<close> is the executable that cannot be opened.\<close>

definition StartProcess ::
  "bool \<Rightarrow> (nat \<Rightarrow> byte) \<Rightarrow> (nat \<Rightarrow> 32 word) \<Rightarrow> addr \<Rightarrow> unix_file option \<Rightarrow> addr list \<Rightarrow> machine
     \<Rightarrow> ((AddrSpace option) \<times> addr list \<times> machine) res" where
  "StartProcess be garb vp this file lst m = (case file of
      None \<Rightarrow> Inr (None, lst, m)
    | Some executable \<Rightarrow>
        rbind (AddrSpace_new be garb vp this executable lst m) (\<lambda>(sp, lst', m1).
        rbind (InitRegisters sp m1) (\<lambda>m2.
        Inr (Some sp, lst', (RestoreSpace sp m2)\<lparr>mstatus := UserMode\<rparr>))))"

section \<open>Exceptions\<close>

definition UpdatePC :: "machine \<Rightarrow> machine res" where
  "UpdatePC m =
     rbind (ReadRegister (int PCReg) m) (\<lambda>pc.
     rbind (WriteRegister (int PrevPCReg) pc m) (\<lambda>m1.
     rbind (ReadRegister (int NextPCReg) m1) (\<lambda>pc'.
     rbind (WriteRegister (int PCReg) pc' m1) (\<lambda>m2.
     WriteRegister (int NextPCReg) (pc' + 4) m2))))"

text \<open>\<open>interrupt->Powerdown\<close> exits the simulator.\<close>

definition ExceptionHandler :: exc_handler where
  "ExceptionHandler which m =
     rbind (ReadRegister 2 m) (\<lambda>type.
     case which of
       SyscallException \<Rightarrow>
         rbind (if type = SC_Halt then Inl PowerDown else rbind (ASSERT False) (\<lambda>_. Inr m)) UpdatePC
     | PageFaultException \<Rightarrow> rbind (ASSERT False) (\<lambda>_. Inr m)
     | ReadOnlyException \<Rightarrow> rbind (ASSERT False) (\<lambda>_. Inr m)
     | BusErrorException \<Rightarrow> rbind (ASSERT False) (\<lambda>_. Inr m)
     | AddressErrorException \<Rightarrow> rbind (ASSERT False) (\<lambda>_. Inr m)
     | OverflowException \<Rightarrow> rbind (ASSERT False) (\<lambda>_. Inr m)
     | IllegalInstrException \<Rightarrow> rbind (ASSERT False) (\<lambda>_. Inr m)
     | NoException \<Rightarrow> rbind (ASSERT False) (\<lambda>_. Inr m))"

section \<open>Running\<close>

text \<open>
  One round of the loop of \<open>Run\<close> on the kernel state: the instruction, with the mode of the
  processor, which the interrupt simulation keeps, and the tick. The debugger that the option
  \<open>-s\<close> enters is the argument \<open>dbg\<close>.
\<close>

definition Run_round ::
  "bool \<Rightarrow> (('h, 'z) kernel_scheme \<Rightarrow> ('h, 'z) kernel_scheme) \<Rightarrow> ('h, 'z) kdispatch \<Rightarrow> ('h, 'z) kernel_scheme \<Rightarrow> ('h, 'z) kernel_scheme res option" where
  "Run_round be dbg D s =
     obind (Some (OneInstruction be ExceptionHandler ((mach s)\<lparr>mstatus := istatus s\<rparr>))) (\<lambda>m.
     obind (OneTick D kernel_DL tick_yield (s\<lparr>mach := m, istatus := mstatus m\<rparr>)) (\<lambda>s1.
     Some (Inr (if singleStep (mach s1) \<and> runUntilTime (mach s1) \<le> totalTicks (stats s1) then dbg s1 else s1))))"

section \<open>A user program cannot escape\<close>

text \<open>The first \<open>n\<close> rounds of \<open>Run\<close>, without what the ticks between them do.\<close>

fun user_run :: "bool \<Rightarrow> nat \<Rightarrow> machine \<Rightarrow> machine res" where
  "user_run be 0 m = Inr m"
| "user_run be (Suc n) m = rbind (OneInstruction be ExceptionHandler m) (user_run be n)"

definition user_ok :: "machine \<Rightarrow> bool" where
  "user_ok m \<longleftrightarrow> mmu_ok m \<and> unat (registers m LoadReg) < 32"

lemma ExceptionHandler_stops: "ExceptionHandler e m = Inl PowerDown \<or> ExceptionHandler e m = Inl AssertFail"
  by (cases e) (simp_all add: ExceptionHandler_def ReadRegister_def)

lemma RaiseException_stops:
  assumes "unat (registers m LoadReg) < 32"
  shows "RaiseException ExceptionHandler e bad m = Inl PowerDown \<or> RaiseException ExceptionHandler e bad m = Inl AssertFail"
proof -
  obtain m1 where "DelayedLoad 0 0 (setReg BadVAddrReg bad m) = Inr m1" using assms by (simp add: DelayedLoad_def Let_def)
  then show ?thesis using ExceptionHandler_stops [of e "m1\<lparr>mstatus := SystemMode\<rparr>"]
    by (auto simp: RaiseException_def Let_def)
qed

lemma user_instruction:
  assumes "user_ok m"
  shows "(\<exists>m'. OneInstruction be ExceptionHandler m = Inr m' \<and> user_ok m')
     \<or> OneInstruction be ExceptionHandler m \<in> {Inl PowerDown, Inl AssertFail, Inl HostTrap}"
proof -
  have m: "mmu_ok m" "unat (registers m LoadReg) < 32" using assms by (simp_all add: user_ok_def)
  show ?thesis using OneInstruction_outcome [OF m, of be ExceptionHandler]
  proof (elim disjE exE conjE)
    fix e bad m0 assume "OneInstruction be ExceptionHandler m = RaiseException ExceptionHandler e bad m0" "registers m0 = registers m"
    then show ?thesis using RaiseException_stops [of m0 e bad] m(2) by auto
  qed (auto simp: user_ok_def)
qed

lemma user_run_outcome:
  "user_ok m \<Longrightarrow> (\<exists>m'. user_run be n m = Inr m' \<and> user_ok m') \<or> user_run be n m \<in> {Inl PowerDown, Inl AssertFail, Inl HostTrap}"
proof (induction n arbitrary: m)
  case (Suc n)
  from user_instruction [OF Suc.prems, of be] show ?case
  proof (elim disjE exE conjE)
    fix m' assume "OneInstruction be ExceptionHandler m = Inr m'" "user_ok m'"
    then show ?thesis using Suc.IH [of m'] by simp
  qed auto
qed simp

lemma load_segment_frame: "load_segment f g m = Inr m' \<Longrightarrow> tlb m' = tlb m \<and> registers m' = registers m"
  by (auto simp: load_segment_def copy_in_def rbind_Inr_iff split: if_splits)

lemma clear_regs_eq: "n \<le> 40 \<Longrightarrow> clear_regs n m = Inr (m\<lparr>registers := (\<lambda>i. if i < n then 0 else registers m i)\<rparr>)"
proof (induction n)
  case (Suc n)
  have "(\<lambda>i. if i < n then 0 else registers m i)(n := 0) = (\<lambda>i. if i < Suc n then 0 else registers m i)" by auto
  then show ?case using Suc by (simp add: WriteRegister_def setReg_def)
qed simp

lemma InitRegisters_eq:
  "InitRegisters sp m = Inr (m\<lparr>registers := (\<lambda>i. if i < 40 then 0 else registers m i)(PCReg := USER_START_ADDRESS,
     NextPCReg := USER_START_ADDRESS + 4, StackReg := numPages sp * 128 - 16)\<rparr>)"
  by (simp add: InitRegisters_def clear_regs_eq WriteRegister_def ReadRegister_def setReg_def)

lemma AddrSpace_new_table:
  assumes "AddrSpace_new be garb vp this f lst m = Inr (sp, lst', m')"
  shows "length (pageTable sp) = unat (numPages sp) \<and> tlb m' = tlb m \<and> 0 < numPages sp \<and> numPages sp \<le> 64
     \<and> (\<forall>i < unat (numPages sp). physicalPage (pageTable sp ! i) = of_nat i \<and> valid (pageTable sp ! i) = (i \<noteq> 0)
          \<and> \<not> readOnly (pageTable sp ! i))"
  using assms
  by (auto simp: AddrSpace_new_def Let_def rbind_Inr_iff word_gt_0 unat_gt_0 nth_list_update_if not_less simp del: upt_Suc
      split: if_splits dest!: load_segment_frame)

text \<open>C40: once a process has been started, its program can run for any number of instructions without
  making the simulator access memory outside the simulated machine: either all of them
  execute, and the machine is again in a state that the kernel's assumptions describe, or the program
  halts the machine, or the exception handler aborts, or the host traps on an overflowing
  division. This holds for every executable, whatever its bytes are.\<close>

theorem user_program_confined:
  assumes "StartProcess be garb vp this (Some f) lst m = Inr (Some sp, lst', m0)" "tlb m = None"
  shows "(\<exists>m'. user_run be n m0 = Inr m' \<and> user_ok m') \<or> user_run be n m0 \<in> {Inl PowerDown, Inl AssertFail, Inl HostTrap}"
proof -
  obtain m1 where a: "AddrSpace_new be garb vp this f lst m = Inr (sp, lst', m1)"
      "m0 = (RestoreSpace sp (m1\<lparr>registers := (\<lambda>i. if i < 40 then 0 else registers m1 i)(PCReg := USER_START_ADDRESS,
         NextPCReg := USER_START_ADDRESS + 4, StackReg := numPages sp * 128 - 16)\<rparr>))\<lparr>mstatus := UserMode\<rparr>"
    using assms(1) by (auto simp: StartProcess_def rbind_Inr_iff InitRegisters_eq split: prod.splits)
  then have "user_ok m0" using AddrSpace_new_table [OF a(1)] assms(2)
    by (simp add: user_ok_def RestoreSpace_def mmu_ok_def)
  then show ?thesis by (rule user_run_outcome)
qed

text \<open>An executable of two instructions: one that does nothing, and the system call Halt.\<close>

definition demo_bytes :: "byte list" where
  "demo_bytes = [0xad, 0xdf, 0xba, 0,  0x80, 0, 0, 0,  40, 0, 0, 0,  8, 0, 0, 0,  0, 0, 0, 0,  0, 0, 0, 0,  0, 0, 0, 0,
     0, 0, 0, 0,  0, 0, 0, 0,  0, 0, 0, 0,  0, 0, 0, 0,  12, 0, 0, 0]"

definition demo_exec :: unix_file where
  "demo_exec = \<lparr>fsize = 48, fbyte = (\<lambda>i. if i < 48 then demo_bytes ! i else 0)\<rparr>"

section \<open>Loading\<close>

definition seg_ok :: "unix_file \<Rightarrow> Segment \<Rightarrow> bool" where
  "seg_ok f g \<longleftrightarrow> segsize g = 0
     \<or> 0 < sint (segsize g) \<and> 0 \<le> sint (inFileAddr g) \<and> sint (inFileAddr g) + sint (segsize g) \<le> int (fsize f)
       \<and> 0 \<le> sint (virtualAddr g) \<and> sint (virtualAddr g) + sint (segsize g) \<le> int MemorySize"

definition seg_covers :: "Segment \<Rightarrow> nat \<Rightarrow> bool" where
  "seg_covers g a \<longleftrightarrow> nat (sint (virtualAddr g)) \<le> a \<and> a < nat (sint (virtualAddr g)) + nat (sint (segsize g))"

definition seg_byte :: "unix_file \<Rightarrow> Segment \<Rightarrow> nat \<Rightarrow> byte" where
  "seg_byte f g a = fbyte f (nat (sint (inFileAddr g)) + (a - nat (sint (virtualAddr g))))"

text \<open>A NOFF executable for this host, that fits in the machine with its stack.\<close>

definition noff_ok :: "bool \<Rightarrow> unix_file \<Rightarrow> NoffHeader \<Rightarrow> bool" where
  "noff_ok be f h \<longleftrightarrow> 40 \<le> fsize f \<and> noff_of be (map (fbyte f) [0..<40]) = h \<and> noffMagic h = NOFFMAGIC
     \<and> seg_ok f (code h) \<and> seg_ok f (initData h) \<and> 0 \<le> sint (segsize (uninitData h))
     \<and> sint (segsize (code h)) + sint (segsize (initData h)) + sint (segsize (uninitData h)) \<le> 7168"

definition prog_pages :: "NoffHeader \<Rightarrow> nat" where
  "prog_pages h = nat (sint (segsize (code h)) + sint (segsize (initData h)) + sint (segsize (uninitData h)) + 1024 + 127) div 128"

lemma load_segment_ok:
  assumes "seg_ok f g"
  shows "load_segment f g m = Inr (m\<lparr>mainMemory := (\<lambda>a. if seg_covers g a then seg_byte f g a else mainMemory m a)\<rparr>)"
proof (cases "sint (segsize g) > 0")
  case True
  then have "segsize g \<noteq> 0" by auto
  then have g: "0 \<le> sint (inFileAddr g)" "sint (inFileAddr g) + sint (segsize g) \<le> int (fsize f)"
      "0 \<le> sint (virtualAddr g)" "sint (virtualAddr g) + sint (segsize g) \<le> int MemorySize"
    using assms by (simp_all add: seg_ok_def)
  obtain sz ia va where v: "sint (segsize g) = int sz" "sint (inFileAddr g) = int ia" "sint (virtualAddr g) = int va"
    using g True by (metis nonneg_int_cases order_less_imp_le)
  have b: "0 < sz" "ia + sz \<le> fsize f" "va + sz \<le> 8192" using g True by (simp_all add: v)
  have "stub_ReadAt (int sz) (int ia) f = Inr (map (fbyte f) [ia..<ia + sz])" using b by (simp add: stub_ReadAt_def min_absorb1)
  moreover have "map (fbyte f) [ia..<ia + sz] \<noteq> []" using b(1) by simp
  moreover have "(\<lambda>i. if va \<le> i \<and> i < va + sz then map (fbyte f) [ia..<ia + sz] ! (i - nat (int va)) else mainMemory m i)
      = (\<lambda>i. if va \<le> i \<and> i < va + sz then seg_byte f g i else mainMemory m i)"
    by (rule ext) (auto simp: seg_byte_def v)
  ultimately show ?thesis using True b(3)
    by (simp add: load_segment_def copy_in_def seg_covers_def v)
next
  case False
  then have "sint (segsize g) = 0" using assms by (auto simp: seg_ok_def)
  then have "(\<lambda>a. if seg_covers g a then seg_byte f g a else mainMemory m a) = mainMemory m"
    by (intro ext) (auto simp: seg_covers_def)
  then show ?thesis using False by (simp add: load_segment_def)
qed

lemma unat_sint: "0 \<le> sint (x :: 32 word) \<Longrightarrow> unat x = nat (sint x)"
  using sint_abs [of x] by (simp add: nat_uint_eq [symmetric])

lemma prog_pages_word:
  assumes "0 \<le> sint a" "0 \<le> sint b" "0 \<le> sint c" "sint a + sint b + sint c \<le> 7168"
  defines "sz \<equiv> a + b + c + UserStacksAreaSize :: 32 word"
  shows "unat (sz div 128 + (if sz mod 128 > 0 then 1 else 0)) = nat (sint a + sint b + sint c + 1024 + 127) div 128"
    "0 < unat (sz div 128 + (if sz mod 128 > 0 then 1 else 0))" "unat (sz div 128 + (if sz mod 128 > 0 then 1 else 0)) \<le> 64"
proof -
  define k where "k = nat (sint a) + nat (sint b) + nat (sint c) + 1024"
  have k: "k \<le> 8192" "1024 \<le> k" "nat (sint a + sint b + sint c + 1024 + 127) = k + 127" using assms(1-4) by (simp_all add: k_def nat_le_iff)
  have "unat sz = k" unfolding sz_def using k(1) assms(1-3) by (simp add: unat_word_ariths unat_sint k_def mod_simps)
  have m: "sz mod 128 > 0 \<longleftrightarrow> k mod 128 > 0" using \<open>unat sz = k\<close> by (simp add: word_less_nat_alt unat_mod)
  have d: "unat (sz div 128) = k div 128" using \<open>unat sz = k\<close> by (simp add: unat_div)
  have r: "k div 128 + (if k mod 128 > 0 then 1 else 0) = (k + 127) div 128"
  proof -
    have "(k mod 128 + 127) div 128 = (if k mod 128 > 0 then 1 else 0)"
      using mod_less_divisor [of 128 k] by (cases "k mod 128 > 0") (auto intro!: div_nat_eqI)
    moreover have "k + 127 = k div 128 * 128 + (k mod 128 + 127)" by simp
    then have "(k + 127) div 128 = k div 128 + (k mod 128 + 127) div 128" by (metis div_mult_self3 zero_neq_numeral)
    ultimately show ?thesis by simp
  qed
  have e: "unat (sz div 128 + (if sz mod 128 > 0 then 1 else 0)) = k div 128 + (if k mod 128 > 0 then 1 else 0)"
    using d m k(1) by (simp add: unat_word_ariths)
  show "unat (sz div 128 + (if sz mod 128 > 0 then 1 else 0)) = nat (sint a + sint b + sint c + 1024 + 127) div 128"
    unfolding e r k(3) ..
  show "0 < unat (sz div 128 + (if sz mod 128 > 0 then 1 else 0))" "unat (sz div 128 + (if sz mod 128 > 0 then 1 else 0)) \<le> 64"
    unfolding e r using k(1,2) by linarith+
qed

lemma AddrSpace_new_ok:
  assumes "noff_ok be f h"
  shows "\<exists>sp. AddrSpace_new be garb vp this f lst m = Inr (sp, lst @ [this], m\<lparr>mainMemory :=
       (\<lambda>a. if seg_covers (initData h) a then seg_byte f (initData h) a
            else if seg_covers (code h) a then seg_byte f (code h) a else mainMemory m a)\<rparr>)
     \<and> noffH sp = h \<and> unat (numPages sp) = prog_pages h"
proof -
  let ?sz = "segsize (code h) + segsize (initData h) + segsize (uninitData h) + 1024"
  let ?n = "?sz div 128 + (if ?sz mod 128 > 0 then 1 else 0)"
  have h: "40 \<le> fsize f" "noff_of be (map (fbyte f) [0..<40]) = h" "noffMagic h = NOFFMAGIC" "seg_ok f (code h)" "seg_ok f (initData h)"
    using assms by (simp_all add: noff_ok_def)
  have "0 \<le> sint (segsize (code h))" "0 \<le> sint (segsize (initData h))" using h(4,5) by (auto simp: seg_ok_def)
  then have n: "unat ?n = prog_pages h" "0 < unat ?n" "unat ?n \<le> 64"
    using prog_pages_word [of "segsize (code h)" "segsize (initData h)" "segsize (uninitData h)"] assms
    by (simp_all add: noff_ok_def prog_pages_def)
  have rd: "stub_ReadAt 40 0 f = Inr (map (fbyte f) [0..<40])" using h(1) by (simp add: stub_ReadAt_def min_absorb1)
  have ov: "overlay 0 (map (fbyte f) [0..<40]) (map garb [0..<40]) = map (fbyte f) [0..<40]" by (simp add: overlay_def)
  have "\<not> ?n > 64" "?n \<noteq> 0" using n(2,3) by (auto simp: word_less_nat_alt)
  then show ?thesis
    unfolding AddrSpace_new_def rd rbind_simps Let_def ov h(2)
    using h(3) n(1) by (simp add: load_segment_ok [OF h(4)] load_segment_ok [OF h(5)] cong: if_cong)
qed

text \<open>The translation of an identity page table whose page 0 is invalid.\<close>

lemma Translate_identity:
  assumes "tlb m = None" "currentPageTable m = Some pt" "currentPageTableSize m = n" "length pt = unat n" "n \<le> 64"
    "\<forall>i < unat n. physicalPage (pt ! i) = of_nat i \<and> valid (pt ! i) = (i \<noteq> 0) \<and> \<not> readOnly (pt ! i)"
  shows "if unat va < 128 \<and> 0 < n then Translate va 1 wr m = Inr (Inl PageFaultException)
     else if unat va < 128 * unat n then \<exists>m'. Translate va 1 wr m = Inr (Inr (va, m'))
     else Translate va 1 wr m = Inr (Inl AddressErrorException)"
proof -
  have ok: "mmu_ok m" using assms(1-4) by (simp add: mmu_ok_def)
  have v: "unat (va div 128) = unat va div 128" by (simp add: unat_div)
  have al: "aligned 1 va" "access_size 1" by (simp_all add: aligned_def access_size_def)
  note T = Translate_eq [OF ok al(2), of va wr]
  show ?thesis
  proof (cases "va div 128 < n")
    case False
    then have "unat n \<le> unat va div 128" using v by (simp add: word_less_nat_alt)
    then have "128 * unat n \<le> unat va" by linarith
    moreover have "lookup_entry (va div 128) m = Inr (Inl AddressErrorException)" using False assms(1-3) by (simp add: lookup_entry_def not_less)
    ultimately show ?thesis using T al(1) by (auto simp: word_less_nat_alt)
  next
    case True
    then have i: "unat (va div 128) < unat n" by (simp add: word_less_nat_alt)
    let ?e = "pt ! unat (va div 128)"
    have e: "physicalPage ?e = va div 128" "valid ?e = (unat (va div 128) \<noteq> 0)" "\<not> readOnly ?e" using assms(6) i by simp_all
    have "unat va div 128 < unat n" using i v by simp
    then have range: "unat va < 128 * unat n" "0 < n" by (simp_all add: word_less_nat_alt div_less_iff_less_mult mult.commute)
    show ?thesis
    proof (cases "unat va < 128")
      case True
      then have "unat (va div 128) = 0" using v by simp
      then have "lookup_entry (va div 128) m = Inr (Inl PageFaultException)"
        using assms(1-4) e(2) i \<open>va div 128 < n\<close> by (simp add: lookup_entry_def not_le)
      then show ?thesis using T al(1) range True by simp
    next
      case False
      then have "unat (va div 128) \<noteq> 0" using v by simp
      then have "lookup_entry (va div 128) m = Inr (Inr (InTable (unat (va div 128)), ?e))"
        using assms(1-4) e(2) i \<open>va div 128 < n\<close> by (simp add: lookup_entry_def not_le)
      moreover have "\<not> 64 \<le> va div 128" using \<open>va div 128 < n\<close> assms(5) by (simp add: not_le order_less_le_trans)
      ultimately show ?thesis using T al(1) e(1,3) range False word_mod_div_equality [of va 128] by simp
    qed
  qed
qed

text \<open>Starting a process on a NOFF executable that fits in memory yields a machine in which the code
  and the initialised data are at their addresses, the program counter is at the start address
  and the stack pointer 16 bytes below the end of the address space. Addresses of the program map to themselves, a
  reference below 128, such as a NULL dereference, raises a page fault, and one beyond the end an
  address error.\<close>

lemma program_start:
  assumes "noff_ok be f h" "tlb m = None"
  shows "\<exists>sp m'. StartProcess be garb vp this (Some f) lst m = Inr (Some sp, lst @ [this], m')
     \<and> registers m' PCReg = 0x80 \<and> registers m' NextPCReg = 0x84 \<and> registers m' StackReg = of_nat (128 * prog_pages h) - 16
     \<and> (\<forall>a. mainMemory m' a = (if seg_covers (initData h) a then seg_byte f (initData h) a
            else if seg_covers (code h) a then seg_byte f (code h) a else mainMemory m a))
     \<and> (\<forall>va wr. if unat va < 128 then Translate va 1 wr m' = Inr (Inl PageFaultException)
            else if unat va < 128 * prog_pages h then \<exists>m''. Translate va 1 wr m' = Inr (Inr (va, m''))
            else Translate va 1 wr m' = Inr (Inl AddressErrorException))"
proof -
  let ?mem = "\<lambda>a. if seg_covers (initData h) a then seg_byte f (initData h) a
      else if seg_covers (code h) a then seg_byte f (code h) a else mainMemory m a"
  obtain sp where a: "AddrSpace_new be garb vp this f lst m = Inr (sp, lst @ [this], m\<lparr>mainMemory := ?mem\<rparr>)" "unat (numPages sp) = prog_pages h"
    using AddrSpace_new_ok [OF assms(1), of garb vp this lst m] by (elim exE conjE)
  have t: "length (pageTable sp) = unat (numPages sp)" "0 < numPages sp" "numPages sp \<le> 64"
      "\<forall>i < unat (numPages sp). physicalPage (pageTable sp ! i) = of_nat i \<and> valid (pageTable sp ! i) = (i \<noteq> 0) \<and> \<not> readOnly (pageTable sp ! i)"
    using AddrSpace_new_table [OF a(1)] by blast+
  define m' where "m' = (RestoreSpace sp (m\<lparr>mainMemory := ?mem, registers := (\<lambda>i. if i < 40 then 0 else registers m i)(PCReg := USER_START_ADDRESS,
         NextPCReg := USER_START_ADDRESS + 4, StackReg := numPages sp * 128 - 16)\<rparr>))\<lparr>mstatus := UserMode\<rparr>"
  have s: "StartProcess be garb vp this (Some f) lst m = Inr (Some sp, lst @ [this], m')"
    using a(1) by (simp add: StartProcess_def InitRegisters_eq m'_def cong: if_cong)
  have np: "numPages sp = word_of_nat (prog_pages h)" by (simp add: a(2) [symmetric])
  have regs: "registers m' PCReg = 0x80 \<and> registers m' NextPCReg = 0x84 \<and> registers m' StackReg = of_nat (128 * prog_pages h) - 16"
    by (simp add: m'_def RestoreSpace_def np mult.commute)
  have mem: "mainMemory m' = ?mem" by (simp add: m'_def RestoreSpace_def)
  have m': "tlb m' = None" "currentPageTable m' = Some (pageTable sp)" "currentPageTableSize m' = numPages sp"
    using assms(2) by (simp_all add: m'_def RestoreSpace_def)
  have tr: "if unat va < 128 then Translate va 1 wr m' = Inr (Inl PageFaultException)
            else if unat va < 128 * prog_pages h then \<exists>m''. Translate va 1 wr m' = Inr (Inr (va, m''))
            else Translate va 1 wr m' = Inr (Inl AddressErrorException)" for va wr
    using Translate_identity [OF m' t(1,3,4), of va wr] t(2) a(2) by (simp only: simp_thms)
  show ?thesis by (intro exI [of _ sp] exI [of _ m'] conjI allI) (rule s, (use regs in blast)+, simp only: mem, rule tr)
qed

definition demo_noff :: NoffHeader where
  "demo_noff = \<lparr>noffMagic = NOFFMAGIC, code = \<lparr>virtualAddr = 0x80, inFileAddr = 40, segsize = 8\<rparr>,
     initData = \<lparr>virtualAddr = 0, inFileAddr = 0, segsize = 0\<rparr>, uninitData = \<lparr>virtualAddr = 0, inFileAddr = 0, segsize = 0\<rparr>\<rparr>"

lemma demo_header: "map (fbyte demo_exec) [0..<40] = take 40 demo_bytes"
  by (simp add: demo_exec_def demo_bytes_def upt_rec)

lemma demo_exec_ok: "noff_ok False demo_exec demo_noff"
proof -
  have "noff_of False (take 40 demo_bytes) = demo_noff"
    by (simp add: noff_of_def segment_of_def demo_bytes_def bytes_int_def demo_noff_def)
  then show ?thesis unfolding noff_ok_def demo_header by (simp add: demo_noff_def demo_exec_def seg_ok_def)
qed

text \<open>The demonstration program starts, and its first two instructions cannot escape.\<close>

theorem user_program_confined_witness:
  "\<exists>sp lst m0. StartProcess False (\<lambda>_. 0) (\<lambda>_. 0) 1 (Some demo_exec) [] (Machine_new False False SystemMode) = Inr (Some sp, lst, m0)
     \<and> ((\<exists>m'. user_run False 2 m0 = Inr m' \<and> user_ok m') \<or> user_run False 2 m0 \<in> {Inl PowerDown, Inl AssertFail, Inl HostTrap})"
proof -
  let ?m = "Machine_new False False SystemMode"
  obtain sp m1 where "AddrSpace_new False (\<lambda>_. 0) (\<lambda>_. 0) 1 demo_exec [] ?m = Inr (sp, [] @ [1], m1)"
    using AddrSpace_new_ok [OF demo_exec_ok, of "\<lambda>_. 0" "\<lambda>_. 0" 1 "[]" ?m] by blast
  then obtain m0 where s: "StartProcess False (\<lambda>_. 0) (\<lambda>_. 0) 1 (Some demo_exec) [] ?m = Inr (Some sp, [1], m0)"
    by (simp add: StartProcess_def InitRegisters_eq)
  have "tlb ?m = None" by (simp add: Machine_new_def)
  then show ?thesis using s user_program_confined [OF s, of 2] by blast
qed

end
