(* ===== verification/CoffModel.thy ===== *)
theory CoffModel
  imports UserProgModel FileSysModel
begin

unbundle bit_operations_syntax

text \<open>
  The converter of executables (bin/coff2noff.c with bin/coff.h and bin/noff.h), which writes the files that
  \<open>AddrSpace\<close> loads.

  The input is a file of the host; the result is the file written, or the reason for which the converter exits after removing it.
  The fields of the headers are read in the byte order of the host and converted from little endian.
  \<open>read\<close> and \<open>write\<close> with a negative count fail, with the result -1, and an \<open>lseek\<close> to a negative offset does not move.
\<close>

section \<open>Data\<close>

datatype coff_error = TooShort | NotMipsel | NotOmagic | BothData | BothBss | UnknownSegment

abbreviation (input) "MIPSELMAGIC \<equiv> (0x0162 :: 16 word)"
abbreviation (input) "OMAGIC \<equiv> (0x0107 :: 16 word)"
abbreviation (input) "FilehdrSize \<equiv> (20 :: nat)"
abbreviation (input) "AouthdrSize \<equiv> (56 :: nat)"
abbreviation (input) "ScnhdrSize \<equiv> (40 :: nat)"
abbreviation (input) "NoffSize \<equiv> (40 :: nat)"

record scnhdr =
  s_name :: "byte list"
  s_paddr :: "32 word"
  s_size :: "32 word"
  s_scnptr :: "32 word"

text \<open>The variables of the loop: the header built, the offset for the next segment, the two files with their positions.\<close>

record coff_state =
  noff :: NoffHeader
  inNoffFile :: "32 word"
  inPos :: nat
  outPos :: nat
  outFile :: unix_file

type_synonym 'a cres = "coff_error + 'a"

definition cbind :: "'a cres \<Rightarrow> ('a \<Rightarrow> 'b cres) \<Rightarrow> 'b cres" where
  "cbind r f = (case r of Inl e \<Rightarrow> Inl e | Inr x \<Rightarrow> f x)"

section \<open>Reading and writing\<close>

definition coff_Read :: "int \<Rightarrow> nat \<Rightarrow> unix_file \<Rightarrow> (byte list \<times> nat) cres" where
  "coff_Read nBytes pos f =
     (if nBytes \<ge> 0
      then if pos + nat nBytes \<le> fsize f then Inr (map (fbyte f) [pos..<pos + nat nBytes], pos + nat nBytes) else Inl TooShort
      else if nBytes = - 1 then Inr ([], pos) else Inl TooShort)"

definition coff_word :: "bool \<Rightarrow> byte list \<Rightarrow> nat \<Rightarrow> 32 word" where
  "coff_word be bs off = WordToHost be (word_of_int (bytes_int be (take 4 (drop off bs))))"

definition coff_short :: "bool \<Rightarrow> byte list \<Rightarrow> nat \<Rightarrow> 16 word" where
  "coff_short be bs off =
     (let b0 = ucast (bs ! off) :: 16 word; b1 = ucast (bs ! (off + 1)) :: 16 word in
      ShortToHost be (if be then push_bit 8 b0 OR b1 else b0 OR push_bit 8 b1))"

text \<open>A section header, with the last byte of its name cut off.\<close>

definition scnhdr_of :: "bool \<Rightarrow> byte list \<Rightarrow> scnhdr" where
  "scnhdr_of be bs =
     \<lparr>s_name = (take 8 bs)[7 := 0], s_paddr = coff_word be bs 8, s_size = coff_word be bs 16, s_scnptr = coff_word be bs 20\<rparr>"

fun scnhdrs_of :: "bool \<Rightarrow> nat \<Rightarrow> byte list \<Rightarrow> scnhdr list" where
  "scnhdrs_of be 0 bs = []"
| "scnhdrs_of be (Suc n) bs = scnhdr_of be (take ScnhdrSize bs) # scnhdrs_of be n (drop ScnhdrSize bs)"

section \<open>Section names\<close>

definition cstr :: "byte list \<Rightarrow> byte list" where
  "cstr s = takeWhile (\<lambda>c. c \<noteq> 0) s"

definition is_text :: "scnhdr \<Rightarrow> bool" where
  "is_text s \<longleftrightarrow> cstr (s_name s) = [0x2e, 0x74, 0x65, 0x78, 0x74]"

definition is_data :: "scnhdr \<Rightarrow> bool" where
  "is_data s \<longleftrightarrow> cstr (s_name s) = [0x2e, 0x64, 0x61, 0x74, 0x61] \<or> cstr (s_name s) = [0x2e, 0x72, 0x64, 0x61, 0x74, 0x61]"

definition is_bss :: "scnhdr \<Rightarrow> bool" where
  "is_bss s \<longleftrightarrow> cstr (s_name s) = [0x2e, 0x62, 0x73, 0x73] \<or> cstr (s_name s) = [0x2e, 0x73, 0x62, 0x73, 0x73]"

definition is_drop :: "scnhdr \<Rightarrow> bool" where
  "is_drop s \<longleftrightarrow> cstr (s_name s) = [0x2e, 0x64, 0x72, 0x6f, 0x70] \<or> strncmp_eq 6 (s_name s) [0x2e, 0x64, 0x65, 0x62, 0x75, 0x67]"

section \<open>The conversion\<close>

text \<open>\<open>lseek\<close>, \<open>Read\<close> and \<open>Write\<close> of a segment.\<close>

definition copy_segment :: "unix_file \<Rightarrow> scnhdr \<Rightarrow> coff_state \<Rightarrow> coff_state cres" where
  "copy_segment f s st =
     (let pos = (if sint (s_scnptr s) \<ge> 0 then unat (s_scnptr s) else inPos st) in
      cbind (coff_Read (sint (s_size s)) pos f) (\<lambda>(bs, pos').
      Inr (st\<lparr>inPos := pos', outFile := (if bs = [] then outFile st else WriteFile (outPos st) bs (outFile st)),
              outPos := outPos st + length bs, inNoffFile := inNoffFile st + s_size s\<rparr>)))"

definition put_segment :: "scnhdr \<Rightarrow> coff_state \<Rightarrow> Segment" where
  "put_segment s st = \<lparr>virtualAddr = s_paddr s, inFileAddr = inNoffFile st, segsize = s_size s\<rparr>"

definition coff_section :: "unix_file \<Rightarrow> scnhdr \<Rightarrow> coff_state \<Rightarrow> coff_state cres" where
  "coff_section f s st =
     (let h = noff st in
      if s_size s = 0 then Inr st
      else if is_text s then copy_segment f s (st\<lparr>noff := h\<lparr>code := put_segment s st\<rparr>\<rparr>)
      else if is_data s then
        (if segsize (initData h) \<noteq> 0 then Inl BothData
         else copy_segment f s (st\<lparr>noff := h\<lparr>initData := put_segment s st\<rparr>\<rparr>))
      else if is_bss s then
        (if segsize (uninitData h) \<noteq> 0 then
           if sint (s_paddr s) > sint (virtualAddr (uninitData h) + segsize (uninitData h)) then Inl BothBss
           else Inr (st\<lparr>noff := h\<lparr>uninitData := (uninitData h)\<lparr>segsize := segsize (uninitData h) + s_size s\<rparr>\<rparr>\<rparr>)
         else Inr (st\<lparr>noff := h\<lparr>uninitData := \<lparr>virtualAddr = s_paddr s, inFileAddr = - 1, segsize = s_size s\<rparr>\<rparr>\<rparr>))
      else if is_drop s then Inr st
      else Inl UnknownSegment)"

fun coff_sections :: "unix_file \<Rightarrow> scnhdr list \<Rightarrow> coff_state \<Rightarrow> coff_state cres" where
  "coff_sections f [] st = Inr st"
| "coff_sections f (s # ss) st = cbind (coff_section f s st) (coff_sections f ss)"

definition segment_words :: "Segment \<Rightarrow> 32 word list" where
  "segment_words g = [virtualAddr g, inFileAddr g, segsize g]"

definition noff_bytes :: "bool \<Rightarrow> NoffHeader \<Rightarrow> byte list" where
  "noff_bytes be h =
     concat (map (int_bytes be) (noffMagic h # segment_words (code h) @ segment_words (initData h) @ segment_words (uninitData h)))"

text \<open>\<open>main\<close>; \<open>n0\<close> is what the variable \<open>noffH\<close> held, of which not all fields are set.\<close>

definition coff2noff :: "bool \<Rightarrow> NoffHeader \<Rightarrow> unix_file \<Rightarrow> unix_file cres" where
  "coff2noff be n0 f =
     cbind (coff_Read (int FilehdrSize) 0 f) (\<lambda>(fileh, p1).
     if coff_short be fileh 0 \<noteq> MIPSELMAGIC then Inl NotMipsel
     else
       let numsections = unat (coff_short be fileh 2) in
       cbind (coff_Read (int AouthdrSize) p1 f) (\<lambda>(systemh, p2).
       if coff_short be systemh 0 \<noteq> OMAGIC then Inl NotOmagic
       else
         cbind (coff_Read (int (numsections * ScnhdrSize)) p2 f) (\<lambda>(bs, p3).
         let h = n0\<lparr>noffMagic := NOFFMAGIC, code := (code n0)\<lparr>segsize := 0\<rparr>, initData := (initData n0)\<lparr>segsize := 0\<rparr>,
                    uninitData := (uninitData n0)\<lparr>segsize := 0\<rparr>\<rparr>;
             st = \<lparr>noff = h, inNoffFile = 40, inPos = p3, outPos = NoffSize, outFile = \<lparr>fsize = 0, fbyte = (\<lambda>_. 0)\<rparr>\<rparr> in
         cbind (coff_sections f (scnhdrs_of be numsections bs) st) (\<lambda>st'.
         Inr (WriteFile 0 (noff_bytes be (noff st')) (outFile st'))))))"

section \<open>The file written\<close>

lemma coff_Read_ok: "pos + n \<le> fsize f \<Longrightarrow> coff_Read (int n) pos f = Inr (map (fbyte f) [pos..<pos + n], pos + n)"
  by (simp add: coff_Read_def)

lemma cbind_Inr [simp]: "cbind (Inr x) f = f x"
  by (simp add: cbind_def)

lemma kinds_exclusive: "is_data s \<Longrightarrow> \<not> is_text s" "is_bss s \<Longrightarrow> \<not> is_text s \<and> \<not> is_data s"
  by (auto simp: is_text_def is_data_def is_bss_def)

lemma noff_bytes_of: "noff_of be (noff_bytes be h) = h" "length (noff_bytes be h) = 40"
  by (simp_all add: noff_of_def noff_bytes_def segment_of_def segment_words_def)

text \<open>The bytes that the converter copies for a section, and the sections that it can handle.\<close>

definition copied_size :: "scnhdr \<Rightarrow> nat" where
  "copied_size s = (if is_text s \<or> is_data s then unat (s_size s) else 0)"

definition nonempty :: "(scnhdr \<Rightarrow> bool) \<Rightarrow> scnhdr list \<Rightarrow> scnhdr list" where
  "nonempty P ss = filter (\<lambda>s. P s \<and> s_size s \<noteq> 0) ss"

definition section_ok :: "unix_file \<Rightarrow> scnhdr \<Rightarrow> bool" where
  "section_ok f s \<longleftrightarrow> s_size s = 0
     \<or> (if is_text s \<or> is_data s
        then 0 < sint (s_size s) \<and> 0 \<le> sint (s_scnptr s) \<and> unat (s_scnptr s) + unat (s_size s) \<le> fsize f
        else is_bss s \<or> is_drop s)"

definition sections_ok :: "unix_file \<Rightarrow> scnhdr list \<Rightarrow> bool" where
  "sections_ok f ss \<longleftrightarrow> list_all (section_ok f) ss \<and> length (nonempty is_text ss) \<le> 1 \<and> length (nonempty is_data ss) \<le> 1
     \<and> length (nonempty is_bss ss) \<le> 1 \<and> 40 + sum_list (map copied_size ss) < 2 ^ 31"

text \<open>A segment of the file written holds a section of the file read.\<close>

definition seg_has :: "unix_file \<Rightarrow> unix_file \<Rightarrow> scnhdr \<Rightarrow> Segment \<Rightarrow> bool" where
  "seg_has f out s g \<longleftrightarrow> virtualAddr g = s_paddr s \<and> segsize g = s_size s \<and> 40 \<le> unat (inFileAddr g)
     \<and> unat (inFileAddr g) + unat (s_size s) \<le> fsize out \<and> unat (inFileAddr g) + unat (s_size s) < 2 ^ 31
     \<and> (\<forall>i < unat (s_size s). fbyte out (unat (inFileAddr g) + i) = fbyte f (unat (s_scnptr s) + i))"

definition kind_done :: "(scnhdr \<Rightarrow> Segment \<Rightarrow> bool) \<Rightarrow> scnhdr list \<Rightarrow> Segment \<Rightarrow> bool" where
  "kind_done H ss g \<longleftrightarrow> (case ss of [] \<Rightarrow> segsize g = 0 | s # _ \<Rightarrow> H s g)"

definition bss_has :: "scnhdr \<Rightarrow> Segment \<Rightarrow> bool" where
  "bss_has s g \<longleftrightarrow> g = \<lparr>virtualAddr = s_paddr s, inFileAddr = - 1, segsize = s_size s\<rparr>"

definition coff_inv :: "unix_file \<Rightarrow> scnhdr list \<Rightarrow> coff_state \<Rightarrow> bool" where
  "coff_inv f ss st \<longleftrightarrow> outPos st = unat (inNoffFile st) \<and> outPos st = 40 + sum_list (map copied_size ss) \<and> fsize (outFile st) \<le> outPos st
     \<and> noffMagic (noff st) = NOFFMAGIC
     \<and> kind_done (seg_has f (outFile st)) (nonempty is_text ss) (code (noff st))
     \<and> kind_done (seg_has f (outFile st)) (nonempty is_data ss) (initData (noff st))
     \<and> kind_done bss_has (nonempty is_bss ss) (uninitData (noff st))"

lemma kind_done_simps [simp]: "kind_done H [] g \<longleftrightarrow> segsize g = 0" "kind_done H (s # ss) g \<longleftrightarrow> H s g"
  by (simp_all add: kind_done_def)

lemma kind_done_mono: "kind_done H ss g \<Longrightarrow> (\<And>s. H s g \<Longrightarrow> H' s g) \<Longrightarrow> kind_done H' ss g"
  by (auto simp: kind_done_def split: list.splits)

lemma seg_has_append:
  assumes "seg_has f out s g" "fsize out \<le> p"
  shows "seg_has f (WriteFile p bs out) s g"
  using assms by (auto simp: seg_has_def WriteFile_def)

lemma seg_has_header:
  assumes "seg_has f out s g" "length bs \<le> 40"
  shows "seg_has f (WriteFile 0 bs out) s g"
  using assms by (auto simp: seg_has_def WriteFile_def)

text \<open>Copying a section, which appends it to the file written.\<close>

lemma copy_segment_ok:
  assumes "0 < sint (s_size s)" "0 \<le> sint (s_scnptr s)" "unat (s_scnptr s) + unat (s_size s) \<le> fsize f"
    "outPos st = unat (inNoffFile st)" "fsize (outFile st) \<le> outPos st" "40 \<le> outPos st" "outPos st + unat (s_size s) < 2 ^ 31"
  shows "\<exists>st'. copy_segment f s st = Inr st' \<and> noff st' = noff st \<and> outPos st' = outPos st + unat (s_size s)
     \<and> outPos st' = unat (inNoffFile st') \<and> fsize (outFile st') \<le> outPos st'
     \<and> seg_has f (outFile st') s (put_segment s st)
     \<and> (\<forall>t g. seg_has f (outFile st) t g \<longrightarrow> seg_has f (outFile st') t g)"
proof -
  let ?bs = "map (fbyte f) [unat (s_scnptr s)..<unat (s_scnptr s) + unat (s_size s)]"
  let ?st = "st\<lparr>inPos := unat (s_scnptr s) + unat (s_size s), outFile := WriteFile (outPos st) ?bs (outFile st),
      outPos := outPos st + unat (s_size s), inNoffFile := inNoffFile st + s_size s\<rparr>"
  have sz: "nat (sint (s_size s)) = unat (s_size s)" "0 < unat (s_size s)" using assms(1) unat_sint [of "s_size s"] by simp_all
  have rd: "coff_Read (sint (s_size s)) (unat (s_scnptr s)) f = Inr (?bs, unat (s_scnptr s) + unat (s_size s))"
    using assms(1,3) sz(1) by (simp add: coff_Read_def)
  have "copy_segment f s st = Inr ?st" using assms(2) sz(2) by (simp add: copy_segment_def rd)
  moreover have "unat (inNoffFile st + s_size s) = outPos st + unat (s_size s)" using assms(4,7) by (simp add: unat_word_ariths)
  moreover have "seg_has f (outFile ?st) s (put_segment s st)"
    using assms(4,6,7) by (auto simp: seg_has_def put_segment_def WriteFile_def)
  ultimately show ?thesis using assms(5) seg_has_append [OF _ assms(5), of f _ _ ?bs]
    by (intro exI [of _ ?st]) (auto simp: WriteFile_def)
qed

lemma nonempty_append [simp]: "nonempty P (xs @ ys) = nonempty P xs @ nonempty P ys"
  by (simp add: nonempty_def)

lemma nonempty_Cons [simp]: "nonempty P (s # ss) = (if P s \<and> s_size s \<noteq> 0 then s # nonempty P ss else nonempty P ss)"
  by (simp add: nonempty_def)

lemma nonempty_Nil [simp]: "nonempty P [] = []"
  by (simp add: nonempty_def)

text \<open>A section whose bytes are copied; \<open>h\<close> is the header with its segment.\<close>

lemma coff_copy_step:
  assumes inv: "coff_inv f pre st" and ok: "sections_ok f (pre @ s # ss)" and s: "s_size s \<noteq> 0" "is_text s \<or> is_data s"
  shows "\<exists>st'. copy_segment f s (st\<lparr>noff := h\<rparr>) = Inr st' \<and> noff st' = h \<and> outPos st' = 40 + sum_list (map copied_size (pre @ [s]))
     \<and> outPos st' = unat (inNoffFile st') \<and> fsize (outFile st') \<le> outPos st' \<and> seg_has f (outFile st') s (put_segment s st)
     \<and> (\<forall>t g. seg_has f (outFile st) t g \<longrightarrow> seg_has f (outFile st') t g)"
proof -
  have "section_ok f s" using ok by (simp add: sections_ok_def)
  then have r: "0 < sint (s_size s)" "0 \<le> sint (s_scnptr s)" "unat (s_scnptr s) + unat (s_size s) \<le> fsize f"
    using s by (simp_all add: section_ok_def)
  have c: "copied_size s = unat (s_size s)" using s(2) by (simp add: copied_size_def)
  have i: "outPos (st\<lparr>noff := h\<rparr>) = unat (inNoffFile (st\<lparr>noff := h\<rparr>))" "fsize (outFile (st\<lparr>noff := h\<rparr>)) \<le> outPos (st\<lparr>noff := h\<rparr>)"
      "40 \<le> outPos (st\<lparr>noff := h\<rparr>)" "outPos (st\<lparr>noff := h\<rparr>) + unat (s_size s) < 2 ^ 31"
    using inv ok c by (simp_all add: coff_inv_def sections_ok_def)
  show ?thesis using copy_segment_ok [OF r i] inv c by (auto simp: coff_inv_def put_segment_def)
qed

lemma coff_section_ok:
  assumes inv: "coff_inv f pre st" and ok: "sections_ok f (pre @ s # ss)"
  shows "\<exists>st'. coff_section f s st = Inr st' \<and> coff_inv f (pre @ [s]) st'"
proof -
  have k: "section_ok f s" using ok by (simp add: sections_ok_def)
  have one: "nonempty P pre = []" if "P s" "s_size s \<noteq> 0" "length (nonempty P (pre @ s # ss)) \<le> 1" for P using that by simp
  consider (empty) "s_size s = 0" | (txts) "s_size s \<noteq> 0" "is_text s" | (data) "s_size s \<noteq> 0" "is_data s" | (bss) "s_size s \<noteq> 0" "is_bss s"
    | (drop) "s_size s \<noteq> 0" "is_drop s" "\<not> is_text s" "\<not> is_data s" "\<not> is_bss s" using k by (auto simp: section_ok_def split: if_splits)
  then show ?thesis
  proof cases
    case empty
    then show ?thesis using inv by (simp add: coff_section_def coff_inv_def copied_size_def)
  next
    case drop
    then show ?thesis using inv by (simp add: coff_section_def coff_inv_def copied_size_def)
  next
    case bss
    then have n: "nonempty is_bss pre = []" using one ok by (simp add: sections_ok_def)
    then have "segsize (uninitData (noff st)) = 0" using inv by (simp add: coff_inv_def)
    then show ?thesis using inv bss n kinds_exclusive(2) [OF bss(2)]
      by (simp add: coff_section_def coff_inv_def copied_size_def bss_has_def)
  next
    case txts
    then have n: "nonempty is_text pre = []" using one ok by (simp add: sections_ok_def)
    have x: "\<not> is_data s" "\<not> is_bss s" using txts(2) kinds_exclusive by blast+
    let ?h = "(noff st)\<lparr>code := put_segment s st\<rparr>"
    obtain st' where c: "copy_segment f s (st\<lparr>noff := ?h\<rparr>) = Inr st'" "noff st' = ?h" "outPos st' = 40 + sum_list (map copied_size (pre @ [s]))"
        "outPos st' = unat (inNoffFile st')" "fsize (outFile st') \<le> outPos st'" "seg_has f (outFile st') s (put_segment s st)"
        "\<And>t g. seg_has f (outFile st) t g \<Longrightarrow> seg_has f (outFile st') t g"
      using coff_copy_step [OF inv ok txts(1), of ?h] txts(2) by blast
    have "kind_done (seg_has f (outFile st')) (nonempty is_data pre) (initData (noff st))"
      using inv c(7) by (auto simp: coff_inv_def elim: kind_done_mono)
    then have "coff_inv f (pre @ [s]) st'" using inv c(2-6) n txts x by (simp add: coff_inv_def)
    then show ?thesis using c(1) txts by (simp add: coff_section_def)
  next
    case data
    then have n: "nonempty is_data pre = []" using one ok by (simp add: sections_ok_def)
    then have z: "segsize (initData (noff st)) = 0" using inv by (simp add: coff_inv_def)
    have x: "\<not> is_text s" "\<not> is_bss s" using data(2) kinds_exclusive by blast+
    let ?h = "(noff st)\<lparr>initData := put_segment s st\<rparr>"
    obtain st' where c: "copy_segment f s (st\<lparr>noff := ?h\<rparr>) = Inr st'" "noff st' = ?h" "outPos st' = 40 + sum_list (map copied_size (pre @ [s]))"
        "outPos st' = unat (inNoffFile st')" "fsize (outFile st') \<le> outPos st'" "seg_has f (outFile st') s (put_segment s st)"
        "\<And>t g. seg_has f (outFile st) t g \<Longrightarrow> seg_has f (outFile st') t g"
      using coff_copy_step [OF inv ok data(1), of ?h] data(2) by blast
    have "kind_done (seg_has f (outFile st')) (nonempty is_text pre) (code (noff st))"
      using inv c(7) by (auto simp: coff_inv_def elim: kind_done_mono)
    then have "coff_inv f (pre @ [s]) st'" using inv c(2-6) n data x by (simp add: coff_inv_def)
    then show ?thesis using c(1) data x z by (simp add: coff_section_def)
  qed
qed

lemma coff_sections_ok:
  "coff_inv f pre st \<Longrightarrow> sections_ok f (pre @ ss) \<Longrightarrow> \<exists>st'. coff_sections f ss st = Inr st' \<and> coff_inv f (pre @ ss) st'"
proof (induction ss arbitrary: pre st)
  case (Cons s ss)
  obtain st' where "coff_section f s st = Inr st'" "coff_inv f (pre @ [s]) st'" using coff_section_ok [OF Cons.prems] by blast
  then show ?case using Cons.IH [of "pre @ [s]" st'] Cons.prems(2) by simp
qed simp

text \<open>A COFF file with its section headers.\<close>

definition coff_file :: "bool \<Rightarrow> unix_file \<Rightarrow> scnhdr list \<Rightarrow> bool" where
  "coff_file be f ss \<longleftrightarrow> 76 + 40 * length ss \<le> fsize f
     \<and> coff_short be (map (fbyte f) [0..<20]) 0 = MIPSELMAGIC \<and> unat (coff_short be (map (fbyte f) [0..<20]) 2) = length ss
     \<and> coff_short be (map (fbyte f) [20..<76]) 0 = OMAGIC
     \<and> scnhdrs_of be (length ss) (map (fbyte f) [76..<76 + 40 * length ss]) = ss"

text \<open>The header of the file written describes the sections.\<close>

definition noff_for :: "unix_file \<Rightarrow> scnhdr list \<Rightarrow> unix_file \<Rightarrow> NoffHeader \<Rightarrow> bool" where
  "noff_for f ss out h \<longleftrightarrow> noffMagic h = NOFFMAGIC \<and> kind_done (seg_has f out) (nonempty is_text ss) (code h)
     \<and> kind_done (seg_has f out) (nonempty is_data ss) (initData h) \<and> kind_done bss_has (nonempty is_bss ss) (uninitData h)"

lemma coff2noff_ok:
  assumes cf: "coff_file be f ss" and ok: "sections_ok f ss"
  shows "\<exists>out h. coff2noff be n0 f = Inr out \<and> 40 \<le> fsize out \<and> noff_of be (map (fbyte out) [0..<40]) = h \<and> noff_for f ss out h"
proof -
  let ?h = "n0\<lparr>noffMagic := NOFFMAGIC, code := (code n0)\<lparr>segsize := 0\<rparr>, initData := (initData n0)\<lparr>segsize := 0\<rparr>,
      uninitData := (uninitData n0)\<lparr>segsize := 0\<rparr>\<rparr>"
  let ?st = "\<lparr>noff = ?h, inNoffFile = 40, inPos = 76 + 40 * length ss, outPos = NoffSize, outFile = \<lparr>fsize = 0, fbyte = (\<lambda>_. 0)\<rparr>\<rparr>"
  have "coff_inv f [] ?st" by (simp add: coff_inv_def)
  then obtain st' where st': "coff_sections f ss ?st = Inr st'" "coff_inv f ss st'" using coff_sections_ok [of f "[]" ?st ss] ok by auto
  let ?out = "WriteFile 0 (noff_bytes be (noff st')) (outFile st')"
  have rd: "coff_Read (int 20) 0 f = Inr (map (fbyte f) [0..<20], 20)" "coff_Read (int 56) 20 f = Inr (map (fbyte f) [20..<76], 76)"
      "coff_Read (int (length ss * 40)) 76 f = Inr (map (fbyte f) [76..<76 + 40 * length ss], 76 + 40 * length ss)"
    using cf coff_Read_ok [of 0 20 f] coff_Read_ok [of 20 56 f] coff_Read_ok [of 76 "length ss * 40" f]
    by (simp_all add: coff_file_def mult.commute del: upt_rec_numeral)
  have "coff2noff be n0 f = Inr ?out"
    using cf st'(1) unfolding coff2noff_def coff_file_def by (simp add: rd del: upt_rec_numeral of_nat_mult of_nat_numeral)
  moreover have "map (fbyte ?out) [0..<40] = noff_bytes be (noff st')"
    by (rule nth_equalityI) (simp_all add: noff_bytes_of(2) WriteFile_def)
  moreover have "noff_for f ss ?out (noff st')"
    using st'(2) seg_has_header [of f "outFile st'" _ _ "noff_bytes be (noff st')"]
    by (auto simp: noff_for_def coff_inv_def noff_bytes_of(2) elim: kind_done_mono)
  ultimately show ?thesis by (intro exI [of _ ?out]) (simp add: noff_bytes_of WriteFile_def)
qed

section \<open>Loading what was converted\<close>

text \<open>The sections of a program that fits in the machine, with its stack.\<close>

definition section_covers :: "scnhdr \<Rightarrow> nat \<Rightarrow> bool" where
  "section_covers s a \<longleftrightarrow> unat (s_paddr s) \<le> a \<and> a < unat (s_paddr s) + unat (s_size s)"

definition total_size :: "scnhdr list \<Rightarrow> nat" where
  "total_size ss = sum_list (map (unat \<circ> s_size) ss)"

definition in_memory :: "scnhdr list \<Rightarrow> bool" where
  "in_memory ss \<longleftrightarrow> list_all (\<lambda>s. unat (s_paddr s) + unat (s_size s) \<le> MemorySize) ss"

definition program_fits :: "scnhdr list \<Rightarrow> bool" where
  "program_fits ss \<longleftrightarrow> in_memory (nonempty is_text ss) \<and> in_memory (nonempty is_data ss)
     \<and> list_all (\<lambda>s. list_all (\<lambda>t. unat (s_paddr s) + unat (s_size s) \<le> unat (s_paddr t)
          \<or> unat (s_paddr t) + unat (s_size t) \<le> unat (s_paddr s)) (nonempty is_data ss)) (nonempty is_text ss)
     \<and> total_size (nonempty is_text ss @ nonempty is_data ss @ nonempty is_bss ss) \<le> 7168"

lemma seg_loaded:
  assumes "kind_done (seg_has f out) xs g" "length xs \<le> 1" "in_memory xs" "\<forall>s \<in> set xs. s_size s \<noteq> 0"
  shows "seg_ok out g" "sint (segsize g) = int (total_size xs)" "seg_covers g a \<longleftrightarrow> (\<exists>s \<in> set xs. section_covers s a)"
    "s \<in> set xs \<Longrightarrow> i < unat (s_size s) \<Longrightarrow> seg_byte out g (unat (s_paddr s) + i) = fbyte f (unat (s_scnptr s) + i)"
proof -
  consider (none) "xs = []" "segsize g = 0" | (one) t where "xs = [t]" "seg_has f out t g"
    using assms(1,2) by (cases xs) (auto simp: Suc_le_eq)
  then have "seg_ok out g \<and> sint (segsize g) = int (total_size xs) \<and> (seg_covers g a \<longleftrightarrow> (\<exists>s \<in> set xs. section_covers s a))
     \<and> (s \<in> set xs \<longrightarrow> i < unat (s_size s) \<longrightarrow> seg_byte out g (unat (s_paddr s) + i) = fbyte f (unat (s_scnptr s) + i))"
  proof cases
    case none
    then show ?thesis by (auto simp: seg_ok_def total_size_def seg_covers_def)
  next
    case one
    have h: "virtualAddr g = s_paddr t" "segsize g = s_size t" "unat (inFileAddr g) + unat (s_size t) \<le> fsize out"
        "unat (inFileAddr g) + unat (s_size t) < 2 ^ 31"
        "\<forall>i < unat (s_size t). fbyte out (unat (inFileAddr g) + i) = fbyte f (unat (s_scnptr t) + i)"
      using one(2) by (simp_all add: seg_has_def)
    have b: "unat (s_paddr t) + unat (s_size t) \<le> 8192" "0 < unat (s_size t)" using assms(3,4) one(1) by (auto simp: in_memory_def unat_gt_0)
    have v: "sint (segsize g) = int (unat (s_size t))" "sint (virtualAddr g) = int (unat (s_paddr t))" "sint (inFileAddr g) = int (unat (inFileAddr g))"
      using h(1,2,4) b by (simp_all add: sint_small)
    have "seg_ok out g" unfolding seg_ok_def v using h(3) b by (intro disjI2 conjI) linarith+
    moreover have "seg_covers g a \<longleftrightarrow> section_covers t a" by (simp add: seg_covers_def section_covers_def v)
    moreover have "i < unat (s_size t) \<Longrightarrow> seg_byte out g (unat (s_paddr t) + i) = fbyte f (unat (s_scnptr t) + i)"
      using h(5) by (simp add: seg_byte_def v)
    ultimately show ?thesis using one(1) v(1) by (auto simp: total_size_def)
  qed
  then show "seg_ok out g" "sint (segsize g) = int (total_size xs)" "seg_covers g a \<longleftrightarrow> (\<exists>s \<in> set xs. section_covers s a)"
    "s \<in> set xs \<Longrightarrow> i < unat (s_size s) \<Longrightarrow> seg_byte out g (unat (s_paddr s) + i) = fbyte f (unat (s_scnptr s) + i)" by blast+
qed

lemma bss_size:
  assumes "kind_done bss_has xs g" "length xs \<le> 1" "total_size xs \<le> 7168"
  shows "sint (segsize g) = int (total_size xs)"
  using assms by (cases xs) (auto simp: Suc_le_eq bss_has_def total_size_def sint_small)

lemma nonempty_sizes: "\<forall>s \<in> set (nonempty P ss). s_size s \<noteq> 0" "s \<in> set (nonempty P ss) \<longleftrightarrow> s \<in> set ss \<and> P s \<and> s_size s \<noteq> 0"
  by (auto simp: nonempty_def)

text \<open>C11: a COFF executable with at most one nonempty section of each kind is converted, and when the result fits in the
  machine, loading it puts every byte of its text and data sections at the address that the section header gives, leaves
  the rest of memory alone, and makes an address space of as many pages as the sections and the stack need.\<close>

theorem converted_program_loads:
  assumes "coff_file be f ss" "sections_ok f ss" "program_fits ss"
  shows "\<exists>out sp m'. coff2noff be n0 f = Inr out \<and> AddrSpace_new be garb vp this out lst m = Inr (sp, lst @ [this], m')
     \<and> unat (numPages sp) = (total_size (nonempty is_text ss @ nonempty is_data ss @ nonempty is_bss ss) + 1024 + 127) div 128
     \<and> (\<forall>s \<in> set (nonempty is_text ss @ nonempty is_data ss). \<forall>i < unat (s_size s).
          mainMemory m' (unat (s_paddr s) + i) = fbyte f (unat (s_scnptr s) + i))
     \<and> (\<forall>a. (\<forall>s \<in> set (nonempty is_text ss @ nonempty is_data ss). \<not> section_covers s a) \<longrightarrow> mainMemory m' a = mainMemory m a)"
proof -
  let ?T = "nonempty is_text ss" and ?D = "nonempty is_data ss" and ?B = "nonempty is_bss ss"
  obtain out h where o: "coff2noff be n0 f = Inr out" "40 \<le> fsize out" "noff_of be (map (fbyte out) [0..<40]) = h" "noff_for f ss out h"
    using coff2noff_ok [OF assms(1,2)] by blast
  have k: "kind_done (seg_has f out) ?T (code h)" "kind_done (seg_has f out) ?D (initData h)" "kind_done bss_has ?B (uninitData h)"
    using o(4) by (simp_all add: noff_for_def)
  have l: "length ?T \<le> 1" "length ?D \<le> 1" "length ?B \<le> 1" using assms(2) by (simp_all add: sections_ok_def)
  have mem: "in_memory ?T" "in_memory ?D" and tot: "total_size ?T + total_size ?D + total_size ?B \<le> 7168"
    using assms(3) by (simp_all add: program_fits_def total_size_def)
  note T = seg_loaded [OF k(1) l(1) mem(1) nonempty_sizes(1)] and D = seg_loaded [OF k(2) l(2) mem(2) nonempty_sizes(1)]
  have B: "sint (segsize (uninitData h)) = int (total_size ?B)" using bss_size [OF k(3) l(3)] tot by simp
  have "noff_ok be out h" unfolding noff_ok_def using o(2-4) T(1,2) D(1,2) B tot by (simp add: noff_for_def del: upt_rec_numeral)
  then obtain sp where sp: "unat (numPages sp) = prog_pages h" "AddrSpace_new be garb vp this out lst m = Inr (sp, lst @ [this], m\<lparr>mainMemory :=
       (\<lambda>a. if seg_covers (initData h) a then seg_byte out (initData h) a
            else if seg_covers (code h) a then seg_byte out (code h) a else mainMemory m a)\<rparr>)" (is "_ = Inr (_, _, ?m')")
    using AddrSpace_new_ok [of be out h garb vp this lst m] by blast
  have "prog_pages h = (total_size (?T @ ?D @ ?B) + 1024 + 127) div 128"
    unfolding prog_pages_def T(2) D(2) B by (simp add: total_size_def nat_add_distrib add.assoc)
  moreover have "mainMemory ?m' (unat (s_paddr s) + i) = fbyte f (unat (s_scnptr s) + i)" if "s \<in> set (?T @ ?D)" "i < unat (s_size s)" for s i
  proof (cases "s \<in> set ?D")
    case True
    then have "seg_covers (initData h) (unat (s_paddr s) + i)" unfolding D(3) using that(2) by (intro bexI [OF _ True]) (simp add: section_covers_def)
    then show ?thesis using D(4) [OF True that(2)] by simp
  next
    case False
    then have s: "s \<in> set ?T" using that(1) by simp
    then have "\<not> seg_covers (initData h) (unat (s_paddr s) + i)"
      unfolding D(3) using assms(3) that(2) by (fastforce simp: program_fits_def list_all_iff section_covers_def)
    moreover have "seg_covers (code h) (unat (s_paddr s) + i)" unfolding T(3) using that(2) by (intro bexI [OF _ s]) (simp add: section_covers_def)
    ultimately show ?thesis using T(4) [OF s that(2)] by simp
  qed
  moreover have "mainMemory ?m' a = mainMemory m a" if "\<forall>s \<in> set (?T @ ?D). \<not> section_covers s a" for a
    using that T(3) [of a] D(3) [of a] by auto
  ultimately show ?thesis using o(1) sp by (intro exI [of _ out] exI [of _ sp] exI [of _ ?m'] conjI) simp_all
qed

definition demo_coff_bytes :: "byte list" where
  "demo_coff_bytes =
     [98, 1, 2] @ replicate 17 0 @
     [7, 1] @ replicate 54 0 @
     [46, 116, 101, 120, 116, 0, 0, 0, 128, 0, 0, 0, 128, 0, 0, 0, 8, 0, 0, 0, 156] @ replicate 19 0 @
     [46, 98, 115, 115, 0, 0, 0, 0, 0, 4, 0, 0, 0, 4, 0, 0, 16] @ replicate 23 0 @
     [4, 0, 2, 36, 12] @ replicate 3 0"

definition demo_coff :: unix_file where
  "demo_coff = \<lparr>fsize = 164, fbyte = (\<lambda>i. if i < 164 then demo_coff_bytes ! i else 0)\<rparr>"

definition demo_sections :: "scnhdr list" where
  "demo_sections = [\<lparr>s_name = [46, 116, 101, 120, 116, 0, 0, 0], s_paddr = 128, s_size = 8, s_scnptr = 156\<rparr>,
     \<lparr>s_name = [46, 98, 115, 115, 0, 0, 0, 0], s_paddr = 1024, s_size = 16, s_scnptr = 0\<rparr>]"

lemma demo_coff_file: "coff_file False demo_coff demo_sections"
proof -
  have "map (fbyte demo_coff) [0..<20] = [98, 1, 2] @ replicate 17 0" "map (fbyte demo_coff) [20..<76] = [7, 1] @ replicate 54 0"
      "scnhdrs_of False 2 (map (fbyte demo_coff) [76..<156]) = demo_sections" "length demo_sections = 2" by code_simp+
  then show ?thesis unfolding coff_file_def by code_simp
qed

lemma demo_kinds:
  "nonempty is_text demo_sections = [demo_sections ! 0]" "nonempty is_data demo_sections = []" "nonempty is_bss demo_sections = [demo_sections ! 1]"
  by code_simp+

lemma demo_sections_fields:
  "unat (s_paddr (demo_sections ! 0)) = 128" "unat (s_size (demo_sections ! 0)) = 8" "unat (s_scnptr (demo_sections ! 0)) = 156"
  "unat (s_size (demo_sections ! 1)) = 16" "sint (s_size (demo_sections ! 0)) = 8" "sint (s_scnptr (demo_sections ! 0)) = 156"
  by (simp_all add: demo_sections_def)

lemma demo_coff_ok: "sections_ok demo_coff demo_sections" "program_fits demo_sections"
proof -
  have k: "is_text (demo_sections ! 0)" "is_bss (demo_sections ! 1)" "\<not> is_text (demo_sections ! 1)" "\<not> is_data (demo_sections ! 1)"
    by code_simp+
  have ss: "demo_sections = [demo_sections ! 0, demo_sections ! 1]" by code_simp
  have "list_all (section_ok demo_coff) [demo_sections ! 0, demo_sections ! 1]" "sum_list (map copied_size [demo_sections ! 0, demo_sections ! 1]) = 8"
    using k by (simp_all add: section_ok_def copied_size_def demo_sections_fields demo_coff_def)
  then show "sections_ok demo_coff demo_sections" unfolding ss [symmetric] by (simp add: sections_ok_def demo_kinds)
  show "program_fits demo_sections" by (simp add: program_fits_def demo_kinds in_memory_def total_size_def demo_sections_fields del: One_nat_def)
qed

theorem converted_program_loads_witness:
  "\<exists>out sp m'. coff2noff False demo_noff demo_coff = Inr out
     \<and> AddrSpace_new False (\<lambda>_. 0) (\<lambda>_. 0) 1 out [] (Machine_new False False SystemMode) = Inr (sp, [1], m')
     \<and> unat (numPages sp) = 9 \<and> mainMemory m' 128 = 4 \<and> mainMemory m' 131 = 0x24"
proof -
  from converted_program_loads [OF demo_coff_file demo_coff_ok, of demo_noff "\<lambda>_. 0" "\<lambda>_. 0" 1 "[]" "Machine_new False False SystemMode"]
  obtain out sp m' where a: "coff2noff False demo_noff demo_coff = Inr out"
      "AddrSpace_new False (\<lambda>_. 0) (\<lambda>_. 0) 1 out [] (Machine_new False False SystemMode) = Inr (sp, [1], m')" "unat (numPages sp) = 9"
      "\<forall>i < 8. mainMemory m' (128 + i) = fbyte demo_coff (156 + i)"
    by (auto simp: demo_kinds total_size_def demo_sections_fields simp del: One_nat_def)
  have "mainMemory m' (128 + 0) = fbyte demo_coff (156 + 0)" "mainMemory m' (128 + 3) = fbyte demo_coff (156 + 3)"
    by (rule a(4) [rule_format], simp)+
  moreover have "fbyte demo_coff 156 = 4" "fbyte demo_coff 159 = 0x24" by (simp_all add: demo_coff_def demo_coff_bytes_def nth_append)
  ultimately show ?thesis using a(1-3) by auto
qed

end
