(* ===== verification/ConsoleModel.thy ===== *)
theory ConsoleModel
  imports DiskModel
begin

unbundle bit_operations_syntax

text \<open>
  The console device (machine/console.h, machine/console.cc) with the host's terminal.

  The keyboard is the sequence of bytes that the host file has still to deliver, empty at its end; whether a byte can be
  read now (\<open>PollFile\<close>) is the argument \<open>poll\<close>, and whether the locale of the host is UTF-8
  (\<open>nl_langinfo\<close>) the argument \<open>utf8\<close>. The display is the sequence of bytes written. The handlers that the client
  registered are run by the argument \<open>run\<close>; they may use the console. The device is part of the kernel state of theory
  ThreadModel, so that handlers can signal semaphores, as those of the console test in userprog/progtest.cc do.
\<close>

section \<open>Data\<close>

abbreviation (input) "NOCHAR \<equiv> (- 42 :: int)"
abbreviation (input) "EOF \<equiv> (- 1 :: int)"
abbreviation (input) "ConsoleTime \<equiv> (100 :: int)"

record 'h Console =
  readFileNo :: int
  writeFileNo :: int
  writeHandler :: 'h
  readHandler :: 'h
  handlerArg :: addr
  putBusy :: bool
  incoming :: int

record 'h cstate = "'h kernel" +
  con :: "'h Console"
  stdin_busy :: bool
  kbd :: "byte list"
  display :: "byte list"

type_synonym ('h, 'z) crun = "'h \<Rightarrow> addr \<Rightarrow> ('h, 'z) cstate_scheme \<Rightarrow> ('h, 'z) cstate_scheme res"

section \<open>Operations\<close>

text \<open>
  The constructor; \<open>rfd\<close> and \<open>wfd\<close> are the descriptors that the host returns for the files, negative when they cannot be
  opened, or \<open>None\<close> for standard input and output. \<open>rp\<close> names the routine \<open>ConsoleReadPoll\<close>.
\<close>

definition Console_new ::
  "'h \<Rightarrow> addr \<Rightarrow> int option \<Rightarrow> int option \<Rightarrow> 'h \<Rightarrow> 'h \<Rightarrow> addr \<Rightarrow> ('h, 'z) cstate_scheme \<Rightarrow> ('h, 'z) cstate_scheme res" where
  "Console_new rp this rfd wfd readAvailHandler writeDoneHandler callArg s =
     rbind (case rfd of
         None \<Rightarrow> rbind (ASSERT (\<not> stdin_busy s)) (\<lambda>_. Inr (0, s\<lparr>stdin_busy := True\<rparr>))
       | Some fd \<Rightarrow> rbind (ASSERT (fd \<ge> 0)) (\<lambda>_. Inr (fd, s))) (\<lambda>(r, s1).
     rbind (case wfd of
         None \<Rightarrow> Inr 1
       | Some fd \<Rightarrow> rbind (ASSERT (fd \<ge> 0)) (\<lambda>_. Inr fd)) (\<lambda>w.
     Schedule rp this ConsoleTime ConsoleReadInt
       (s1\<lparr>con := \<lparr>readFileNo = r, writeFileNo = w, writeHandler = writeDoneHandler, readHandler = readAvailHandler,
          handlerArg = callArg, putBusy = False, incoming = NOCHAR\<rparr>\<rparr>)))"

text \<open>The end of \<open>CheckCharAvail\<close> when the polling goes on: \<open>n\<close> is the number of bytes read.\<close>

definition check_end :: "'h \<Rightarrow> addr \<Rightarrow> ('h, 'z) crun \<Rightarrow> nat \<Rightarrow> ('h, 'z) cstate_scheme \<Rightarrow> ('h, 'z) cstate_scheme res" where
  "check_end rp this run n s =
     rbind (Schedule rp this ConsoleTime ConsoleReadInt s) (\<lambda>s1.
     if n \<noteq> 0
     then run (readHandler (con s1)) (handlerArg (con s1))
            (s1\<lparr>stats := (stats s1)\<lparr>numConsoleCharsRead := numConsoleCharsRead (stats s1) + 1\<rparr>\<rparr>)
     else Inr s1)"

definition CheckCharAvail ::
  "bool \<Rightarrow> bool \<Rightarrow> 'h \<Rightarrow> addr \<Rightarrow> ('h, 'z) crun \<Rightarrow> ('h, 'z) cstate_scheme \<Rightarrow> ('h, 'z) cstate_scheme res" where
  "CheckCharAvail utf8 poll rp this run s =
     (let put = (\<lambda>ch t. t\<lparr>con := (con t)\<lparr>incoming := ch\<rparr>\<rparr>);
          eof = (\<lambda>t. rbind (run (readHandler (con t)) (handlerArg (con t)) (put EOF t)) (check_end rp this run 0)) in
      if readFileNo (con s) = - 1 then Inr (s\<lparr>con := (con s)\<lparr>readFileNo := - 2\<rparr>\<rparr>)
      else if incoming (con s) \<noteq> NOCHAR \<or> \<not> poll then check_end rp this run 0 s
      else case kbd s of
          [] \<Rightarrow> eof s
        | c # rest \<Rightarrow>
            let s1 = s\<lparr>kbd := rest\<rparr> in
            if \<not> utf8 then check_end rp this run 1 (put (uint c) s1)
            else if c AND 0x80 = 0 then check_end rp this run 1 (put (uint c) s1)
            else if c AND 0xe0 \<noteq> 0xc0 then Inr s1
            else if c AND 0x1c \<noteq> 0 then Inr s1
            else case rest of
                [] \<Rightarrow> eof s1
              | d # rest' \<Rightarrow>
                  let s2 = s1\<lparr>kbd := rest'\<rparr> in
                  if d AND 0xc0 \<noteq> 0x80 then Inr s2
                  else check_end rp this run 1 (put (push_bit 6 (uint c AND 0x03) OR uint d) s2))"


definition RX :: "('h, 'z) cstate_scheme \<Rightarrow> (int \<times> ('h, 'z) cstate_scheme) res" where
  "RX s =
     rbind (ASSERT (incoming (con s) \<noteq> NOCHAR)) (\<lambda>_.
     Inr (incoming (con s), s\<lparr>con := (con s)\<lparr>incoming := NOCHAR\<rparr>\<rparr>))"

text \<open>The bytes that \<open>TX\<close> writes for a character.\<close>

definition tx_bytes :: "bool \<Rightarrow> int \<Rightarrow> byte list" where
  "tx_bytes utf8 ch =
     (if ch < 0x80 \<or> \<not> utf8 then [word_of_int ch]
      else if ch < 0x100 then [word_of_int (drop_bit 6 (ch AND 0xc0) OR 0xc0), word_of_int (ch AND 0x3f OR 0x80)]
      else [])"

definition TX :: "bool \<Rightarrow> 'h \<Rightarrow> addr \<Rightarrow> int \<Rightarrow> ('h, 'z) cstate_scheme \<Rightarrow> ('h, 'z) cstate_scheme res" where
  "TX utf8 wd this ch s =
     rbind (ASSERT (\<not> putBusy (con s))) (\<lambda>_.
     let ch' = (if ch < 0 \<and> ch \<ge> - 128 then ch + 256 else ch) in
     Schedule wd this ConsoleTime ConsoleWriteInt
       (s\<lparr>display := display s @ tx_bytes utf8 ch', con := (con s)\<lparr>putBusy := True\<rparr>\<rparr>))"

text \<open>The loop \<open>while (busy) currentThread->Yield ();\<close> of the destructor, on what \<open>Yield\<close> does.\<close>

partial_function (option) yield_while ::
  "(('h, 'z) cstate_scheme \<Rightarrow> bool) \<Rightarrow> (('h, 'z) cstate_scheme \<Rightarrow> ('h, 'z) cstate_scheme res option) \<Rightarrow>
   ('h, 'z) cstate_scheme \<Rightarrow> ('h, 'z) cstate_scheme res option" where
  "yield_while busy Y s =
     (if busy s
      then (case Y s of None \<Rightarrow> None | Some r \<Rightarrow> (case r of Inl e \<Rightarrow> Some (Inl e) | Inr s' \<Rightarrow> yield_while busy Y s'))
      else Some (Inr s))"

definition Console_delete ::
  "(('h, 'z) cstate_scheme \<Rightarrow> ('h, 'z) cstate_scheme res option) \<Rightarrow> ('h, 'z) cstate_scheme \<Rightarrow> ('h, 'z) cstate_scheme res option" where
  "Console_delete Y s =
     (let s1 = (if readFileNo (con s) \<noteq> 0 then s else s\<lparr>stdin_busy := False\<rparr>);
          s2 = s1\<lparr>con := (con s1)\<lparr>readFileNo := - 1, writeFileNo := - 1\<rparr>\<rparr> in
      obind (yield_while (\<lambda>t. readFileNo (con t) \<noteq> - 2) Y s2) (\<lambda>s3.
      yield_while (\<lambda>t. putBusy (con t)) Y s3))"

section \<open>The console test\<close>

text \<open>
  The handlers of userprog/progtest.cc signal the semaphores \<open>ra\<close> (readAvail) and \<open>wd\<close> (writeDone). The pending interrupts of this
  kernel are those of the timer and the console; \<open>poll\<close> tells when the host has input.
\<close>

datatype handler_name = TimerHandler | ConsoleReadPoll | ConsoleWriteDone | ReadAvailHandler | WriteDoneHandler

definition console_run :: "addr \<Rightarrow> addr \<Rightarrow> (handler_name, 'z) crun" where
  "console_run ra wd h a s = (case h of
      ReadAvailHandler \<Rightarrow> V_body ra s
    | WriteDoneHandler \<Rightarrow> V_body wd s
    | _ \<Rightarrow> Inl WildAccess)"


text \<open>The body of the loop of \<open>ConsoleTest\<close> between the two waits: \<open>ch\<close> is a \<open>char\<close>, which is signed.\<close>

definition echo :: "bool \<Rightarrow> addr \<Rightarrow> (handler_name, 'z) cstate_scheme \<Rightarrow> (int \<times> (handler_name, 'z) cstate_scheme) res" where
  "echo utf8 this s =
     rbind (RX s) (\<lambda>(ch, s1).
     let c = sint (word_of_int ch :: 8 word) in
     rbind (TX utf8 ConsoleWriteDone this c s1) (\<lambda>s2. Inr (c, s2)))"

section \<open>The device and the kernel\<close>

lemma console_frame_simps [simp]:
  "intr_ok (s\<lparr>con := c\<rparr>) = intr_ok s" "intr_ok (s\<lparr>kbd := k\<rparr>) = intr_ok s"
  "handler_frame (s\<lparr>con := c\<rparr>) t = handler_frame s t" "handler_frame (s\<lparr>kbd := k\<rparr>) t = handler_frame s t"
  "thr_frame (s\<lparr>con := c\<rparr>) t = thr_frame s t" "thr_frame (s\<lparr>kbd := k\<rparr>) t = thr_frame s t"
  "thr_frame t (s\<lparr>con := c\<rparr>) = thr_frame t s" "thr_frame t (s\<lparr>kbd := k\<rparr>) = thr_frame t s"
  "thr_inv (s\<lparr>con := c\<rparr>) = thr_inv s" "thr_inv (s\<lparr>kbd := k\<rparr>) = thr_inv s"
  by (simp_all add: intr_ok_def handler_frame_def ticks_def due_list_def thr_frame_def thr_inv_def)

text \<open>
  What every handler of this kernel keeps, as one predicate on its result: the interrupt state within the contract, and the
  threads when they were in order; then the only errors are a semaphore that does not exist and one whose value is the largest \<open>int\<close>.
\<close>

definition keeps :: "('h, 'z) kernel_scheme \<Rightarrow> ('h, 'z) kernel_scheme res \<Rightarrow> bool" where
  "keeps s r \<longleftrightarrow> (case r of
      Inl e \<Rightarrow> thr_inv s \<longrightarrow> e \<in> {WildAccess, IntOverflow}
    | Inr s' \<Rightarrow> handler_frame s s' \<and> (thr_inv s \<longrightarrow> thr_frame s s'))"

lemma V_body_parts: "V_body a s = Inr s' \<Longrightarrow> \<exists>x y z. s' = s\<lparr>threads := x, readyList := y, sems := z\<rparr>"
proof -
  assume v: "V_body a s = Inr s'"
  obtain q where q: "sems s a = Some q" using v by (auto simp: V_body_def get_sem_def split: option.splits)
  show ?thesis
  proof (cases "queue q")
    case Nil
    then have "s' = s\<lparr>threads := threads s, readyList := readyList s, sems := (sems s)(a \<mapsto> q\<lparr>semvalue := semvalue q + 1\<rparr>)\<rparr>"
      using v q by (auto simp: V_body_def get_sem_def set_sem_def rbind_Inr_iff int_inc_def split: if_splits)
    then show ?thesis by blast
  next
    case (Cons t ts)
    then show ?thesis using v q
      by (auto simp: V_body_def get_sem_def set_sem_def ReadyToRun_def setStatus_def upd_thread_def rbind_Inr_iff int_inc_def
          split: option.splits if_splits)
  qed
qed

lemma V_body_keeps:
  assumes "intr_ok s"
  shows "keeps s (V_body a s)"
proof (cases "V_body a s")
  case (Inl e)
  have "e \<in> {WildAccess, IntOverflow}" if "thr_inv s"
  proof (cases "a \<in> dom (sems s)")
    case True then show ?thesis using V_body_thr [OF that True] V_body_full [OF that, of a] Inl by auto
  next
    case False
    then have "V_body a s = Inl WildAccess" by (auto simp: V_body_def get_sem_def split: option.splits)
    then show ?thesis using Inl by simp
  qed
  then show ?thesis using Inl by (simp add: keeps_def)
next
  case (Inr s')
  obtain x y z where s': "s' = s\<lparr>threads := x, readyList := y, sems := z\<rparr>" using V_body_parts [OF Inr] by blast
  then have "handler_frame s s'" using assms by (simp add: handler_frame_def intr_ok_def ticks_def due_list_def)
  moreover have "thr_frame s s'" if "thr_inv s"
  proof (cases "a \<in> dom (sems s)")
    case True then show ?thesis using V_body_thr [OF that True] V_body_full [OF that, of a] Inr by auto
  next
    case False
    then show ?thesis using Inr by (auto simp: V_body_def get_sem_def split: option.splits)
  qed
  ultimately show ?thesis using Inr by (simp add: keeps_def)
qed




lemma keeps_run: "intr_ok s \<Longrightarrow> keeps s (console_run ra wd h a s)"
  using V_body_keeps [of s ra] V_body_keeps [of s wd] by (cases h) (simp_all add: console_run_def keeps_def)







section \<open>Characters\<close>

text \<open>The bytes of a character are few enough to check them all.\<close>

lemma range_all: "list_all P [lo..hi] \<Longrightarrow> lo \<le> ch \<Longrightarrow> ch \<le> hi \<Longrightarrow> P ch"
  unfolding list_all_iff set_upto by simp

definition latin1_ok :: "int \<Rightarrow> bool" where
  "latin1_ok ch \<longleftrightarrow>
     (let c = word_of_int (drop_bit 6 (ch AND 0xc0) OR 0xc0) :: byte; d = word_of_int (ch AND 0x3f OR 0x80) :: byte in
      c AND 0x80 \<noteq> 0 \<and> c AND 0xe0 = 0xc0 \<and> c AND 0x1c = 0 \<and> d AND 0xc0 = 0x80 \<and> push_bit 6 (uint c AND 0x03) OR uint d = ch)"

text \<open>Decoding what \<open>TX\<close> wrote.\<close>

lemma latin1_decoded: "0x80 \<le> ch \<Longrightarrow> ch < 0x100 \<Longrightarrow> latin1_ok ch"
proof -
  have "list_all latin1_ok [128..255]" by code_simp
  then show "0x80 \<le> ch \<Longrightarrow> ch < 0x100 \<Longrightarrow> latin1_ok ch" using range_all [of latin1_ok 128 255 ch] by simp
qed

lemma ascii_byte: "0 \<le> ch \<Longrightarrow> ch < 0x100 \<Longrightarrow> uint (word_of_int ch :: byte) = ch"
  by (simp add: uint_word_of_int)

lemma ascii_bit: "0 \<le> ch \<Longrightarrow> ch < 0x80 \<Longrightarrow> (word_of_int ch :: byte) AND 0x80 = 0"
proof -
  have "list_all (\<lambda>ch. (word_of_int ch :: byte) AND 0x80 = 0) [0..127]" by code_simp
  then show "0 \<le> ch \<Longrightarrow> ch < 0x80 \<Longrightarrow> (word_of_int ch :: byte) AND 0x80 = 0" using range_all [of _ 0 127 ch] by simp
qed

text \<open>A character passed through the \<open>char\<close> of the echo loop.\<close>

definition char_back :: "int \<Rightarrow> int" where
  "char_back ch = (let c = sint (word_of_int ch :: 8 word) in if c < 0 \<and> c \<ge> - 128 then c + 256 else c)"

lemma char_back_id: "0 \<le> ch \<Longrightarrow> ch < 0x100 \<Longrightarrow> char_back ch = ch"
proof -
  have "list_all (\<lambda>ch. char_back ch = ch) [0..255]" by code_simp
  then show "0 \<le> ch \<Longrightarrow> ch < 0x100 \<Longrightarrow> char_back ch = ch" using range_all [of "\<lambda>ch. char_back ch = ch" 0 255 ch] by simp
qed

text \<open>Reading a character in the encoding of the host.\<close>

lemma CheckCharAvail_char:
  assumes "0 \<le> ch" "ch < 0x100" "kbd s = tx_bytes utf8 ch @ rest" "readFileNo (con s) \<noteq> - 1" "incoming (con s) = NOCHAR"
  shows "CheckCharAvail utf8 True rp this run s = check_end rp this run 1 (s\<lparr>kbd := rest, con := (con s)\<lparr>incoming := ch\<rparr>\<rparr>)"
proof (cases "ch < 0x80 \<or> \<not> utf8")
  case True
  then show ?thesis using assms ascii_byte [OF assms(1,2)] ascii_bit [OF assms(1)]
    by (auto simp: CheckCharAvail_def tx_bytes_def Let_def)
next
  case False
  then have "0x80 \<le> ch" by simp
  from latin1_decoded [OF this assms(2)] show ?thesis using assms False
    by (simp add: CheckCharAvail_def tx_bytes_def Let_def latin1_ok_def)
qed

lemma check_end_run:
  assumes "thr_inv s" "ra \<in> dom (sems s)" "\<not> V_full ra s" "readHandler (con s) = ReadAvailHandler"
  defines "t \<equiv> totalTicks (stats s) + ConsoleTime"
  shows "\<exists>x y z. check_end rp this (console_run ra wd) 1 s = Inr (s\<lparr>
       pending := sorted_ins t (PendingInterrupt_new rp this t ConsoleReadInt) (pending s),
       stats := (stats s)\<lparr>numConsoleCharsRead := numConsoleCharsRead (stats s) + 1\<rparr>, threads := x, readyList := y, sems := z\<rparr>)"
proof -
  let ?s = "s\<lparr>pending := sorted_ins t (PendingInterrupt_new rp this t ConsoleReadInt) (pending s),
       stats := (stats s)\<lparr>numConsoleCharsRead := numConsoleCharsRead (stats s) + 1\<rparr>\<rparr>"
  have "thr_inv ?s" "ra \<in> dom (sems ?s)" "\<not> V_full ra ?s" using assms(1-3) by (simp_all add: thr_inv_def V_full_def)
  then obtain s' where v: "V_body ra ?s = Inr s'" using V_body_thr by blast
  have "check_end rp this (console_run ra wd) 1 s = V_body ra ?s"
    using assms(4) by (simp add: check_end_def Schedule_def Let_def t_def console_run_def)
  then show ?thesis using V_body_parts [OF v] v by auto
qed

lemma check_end_full:
  assumes "thr_inv s" "V_full ra s" "readHandler (con s) = ReadAvailHandler"
  shows "check_end rp this (console_run ra wd) 1 s = Inl IntOverflow"
proof -
  define t where "t = totalTicks (stats s) + ConsoleTime"
  let ?s = "s\<lparr>pending := sorted_ins t (PendingInterrupt_new rp this t ConsoleReadInt) (pending s),
       stats := (stats s)\<lparr>numConsoleCharsRead := numConsoleCharsRead (stats s) + 1\<rparr>\<rparr>"
  have "V_body ra ?s = Inl IntOverflow"
    using assms(1,2) by (intro V_body_full) (simp_all add: V_full_def thr_inv_def)
  then show ?thesis using assms(3) by (simp add: check_end_def Schedule_def Let_def t_def console_run_def)
qed

text \<open>C13: the console round trip: in either locale of the host, a character of the Latin-1 set that arrives in the encoding of the host
  is put into the input buffer, the handler wakes the reader and the next poll is scheduled; the loop of the console
  test then takes it out, which frees the buffer, and the bytes that it writes to the display are the bytes that were typed. When the value of the semaphore of
  the reader is the largest \<open>int\<close> already, the handler overflows it.\<close>

theorem console_echo:
  assumes "0 \<le> ch" "ch < 0x100" "kbd s = tx_bytes utf8 ch @ rest" "readFileNo (con s) \<noteq> - 1" "incoming (con s) = NOCHAR"
    "\<not> putBusy (con s)" "readHandler (con s) = ReadAvailHandler" "thr_inv s" "ra \<in> dom (sems s)"
  defines "t \<equiv> totalTicks (stats s) + ConsoleTime"
  shows "if V_full ra s then CheckCharAvail utf8 True ConsoleReadPoll this (console_run ra wd) s = Inl IntOverflow
     else \<exists>s1 c s2. CheckCharAvail utf8 True ConsoleReadPoll this (console_run ra wd) s = Inr s1 \<and> incoming (con s1) = ch
     \<and> echo utf8 this s1 = Inr (c, s2) \<and> display s2 = display s @ tx_bytes utf8 ch \<and> kbd s2 = rest
     \<and> incoming (con s2) = NOCHAR \<and> putBusy (con s2)
     \<and> pending s2 = sorted_ins t (PendingInterrupt_new ConsoleWriteDone this t ConsoleWriteInt)
         (sorted_ins t (PendingInterrupt_new ConsoleReadPoll this t ConsoleReadInt) (pending s))"
proof (cases "V_full ra s")
  case True
  let ?s = "s\<lparr>kbd := rest, con := (con s)\<lparr>incoming := ch\<rparr>\<rparr>"
  have "thr_inv ?s" "V_full ra ?s" "readHandler (con ?s) = ReadAvailHandler" using assms(7,8) True by (simp_all add: V_full_def)
  note full = check_end_full [OF this, of ConsoleReadPoll this wd]
  then show ?thesis using True CheckCharAvail_char [OF assms(1-5), of ConsoleReadPoll this "console_run ra wd"] by simp
next
  case False
  let ?s = "s\<lparr>kbd := rest, con := (con s)\<lparr>incoming := ch\<rparr>\<rparr>"
  have pre: "thr_inv ?s" "ra \<in> dom (sems ?s)" "\<not> V_full ra ?s" "readHandler (con ?s) = ReadAvailHandler"
    using assms(7-9) False by (simp_all add: V_full_def)
  obtain x y z where ce: "check_end ConsoleReadPoll this (console_run ra wd) 1 ?s = Inr (?s\<lparr>
       pending := sorted_ins t (PendingInterrupt_new ConsoleReadPoll this t ConsoleReadInt) (pending s),
       stats := (stats s)\<lparr>numConsoleCharsRead := numConsoleCharsRead (stats s) + 1\<rparr>, threads := x, readyList := y, sems := z\<rparr>)"
    using check_end_run [OF pre, of ConsoleReadPoll this wd] unfolding t_def by auto
  have tx: "tx_bytes utf8 (let c = sint (word_of_int ch :: 8 word) in if c < 0 \<and> c \<ge> - 128 then c + 256 else c) = tx_bytes utf8 ch"
    using char_back_id [OF assms(1,2)] by (simp add: char_back_def)
  have "ch \<noteq> NOCHAR" using assms(1) by simp
  then show ?thesis using ce CheckCharAvail_char [OF assms(1-5), of ConsoleReadPoll this "console_run ra wd"] tx assms(6) False
    by (simp add: echo_def RX_def TX_def Schedule_def Let_def t_def)
qed

text \<open>What the console does not understand: the first bytes are not a character of Latin-1 in UTF-8.\<close>

definition drops :: "bool \<Rightarrow> byte list \<Rightarrow> bool" where
  "drops utf8 bs \<longleftrightarrow> utf8 \<and> (case bs of [] \<Rightarrow> False
     | c # rest \<Rightarrow> c AND 0x80 \<noteq> 0 \<and> (c AND 0xe0 \<noteq> 0xc0 \<or> c AND 0x1c \<noteq> 0 \<or> (case rest of [] \<Rightarrow> False | d # _ \<Rightarrow> d AND 0xc0 \<noteq> 0x80)))"

lemma check_end_polls:
  fixes s :: "(handler_name, 'z) cstate_scheme"
  assumes "intr_ok s" "check_end rp this (console_run ra wd) n s = Inr s'"
  defines "t \<equiv> totalTicks (stats s) + ConsoleTime"
  shows "(t, PendingInterrupt_new rp this t ConsoleReadInt) \<in> set (pending s')"
proof -
  let ?p = "PendingInterrupt_new rp this t ConsoleReadInt"
  let ?s = "s\<lparr>pending := sorted_ins t ?p (pending s)\<rparr>"
  let ?r = "?s\<lparr>stats := (stats ?s)\<lparr>numConsoleCharsRead := numConsoleCharsRead (stats ?s) + 1\<rparr>\<rparr>"
  have S: "Schedule rp this ConsoleTime ConsoleReadInt s = Inr ?s" by (simp add: Schedule_def Let_def t_def)
  then have ok: "intr_ok ?r" using Schedule_frame [OF assms(1) S] by (simp add: handler_frame_def)
  have p: "(t, ?p) \<in> set (pending ?s)" by simp
  show ?thesis
  proof (cases "n = 0")
    case True then show ?thesis using assms(2) S p by (simp add: check_end_def)
  next
    case False
    then have "keeps ?r (Inr s')" using keeps_run [OF ok, of ra wd "readHandler (con s)" "handlerArg (con s)"] assms(2) S by (simp add: check_end_def)
    then show ?thesis using p by (auto simp: keeps_def handler_frame_def)
  qed
qed

text \<open>C29: the console goes on polling for input after every poll but two: when the device has been closed, and when
  the host delivers bytes that are not a Latin-1 character in UTF-8. In that case the bytes are dropped, as intended, but the routine
  returns before it schedules the next poll: nothing is pending that was not, and the console is deaf from then on.\<close>

theorem console_polling:
  fixes s :: "(handler_name, 'z) cstate_scheme"
  assumes "intr_ok s" "CheckCharAvail utf8 poll rp this (console_run ra wd) s = Inr s'"
  defines "t \<equiv> totalTicks (stats s) + ConsoleTime"
  shows "if readFileNo (con s) = - 1 then pending s' = pending s \<and> readFileNo (con s') = - 2
     else if incoming (con s) = NOCHAR \<and> poll \<and> drops utf8 (kbd s) then pending s' = pending s \<and> con s' = con s
     else (t, PendingInterrupt_new rp this t ConsoleReadInt) \<in> set (pending s')"
proof -
  note ce = check_end_polls [where rp = rp and this = this and ra = ra and wd = wd and s' = s']
  have eof: "(t, PendingInterrupt_new rp this t ConsoleReadInt) \<in> set (pending s')"
    if r: "rbind (console_run ra wd h a u) (check_end rp this (console_run ra wd) 0) = Inr s'" and u: "intr_ok u" "stats u = stats s"
    for h a and u :: "(handler_name, 'z) cstate_scheme"
  proof -
    obtain u1 where u1: "console_run ra wd h a u = Inr u1" "check_end rp this (console_run ra wd) 0 u1 = Inr s'"
      using r unfolding rbind_Inr_iff by blast
    then have "intr_ok u1" "totalTicks (stats u1) = totalTicks (stats s)"
      using keeps_run [OF u(1), of ra wd h a] u(2) by (simp_all add: keeps_def handler_frame_def ticks_def)
    then show ?thesis using ce [OF _ u1(2)] by (simp add: t_def)
  qed
  have upd: "intr_ok (s\<lparr>kbd := k, con := c\<rparr>)" "intr_ok (s\<lparr>con := c\<rparr>)" for k c using assms(1) by simp_all
  show ?thesis
    using assms(2) ce [OF assms(1)] ce [OF upd(1)] eof [OF _ upd(1)] eof [OF _ upd(2)]
    by (auto simp: CheckCharAvail_def Let_def drops_def t_def split: if_splits list.splits)
qed

section \<open>A kernel with a console\<close>

text \<open>The console test after its constructors, with the Latin-1 character 0xe9 typed in UTF-8.\<close>

definition demo_console :: "handler_name cstate" where
  "demo_console = kernel.extend
     ((boot_state (\<lambda>n. n))\<lparr>level := IntOn, threadList := [1], currentThread := 1, sems := [9 \<mapsto> Semaphore_new 0, 10 \<mapsto> Semaphore_new 0],
        threads := [1 \<mapsto> \<lparr>tname = ''main'', tstatus = RUNNING, stack = None, main_stack = True,
          userRegisters = (\<lambda>_. 0)(37 := 0, 38 := 0), space = NULL, kstack = [Body NULL NULL, FinishFrame]\<rparr>]\<rparr>)
     (cstate.fields \<lparr>readFileNo = 0, writeFileNo = 1, writeHandler = WriteDoneHandler, readHandler = ReadAvailHandler,
        handlerArg = 0, putBusy = False, incoming = NOCHAR\<rparr> True [0xc3, 0xa9, 0x71] [])"

lemmas demo_console_eval = demo_console_def boot_state_def Interrupt_new_def intr.defs kernel.defs cstate.defs Semaphore_new_def

lemma demo_console_inv: "qinv demo_console"
  by (simp add: qinv_def thr_inv_def kparts mem_ok_def base_frames_def Machine_new_def intr_ok_def stat_def sem_range_def demo_console_eval)

theorem console_echo_witness:
  "\<exists>s1 c s2. CheckCharAvail True True ConsoleReadPoll 7 (console_run 9 10) demo_console = Inr s1 \<and> incoming (con s1) = 0xe9
     \<and> echo True 7 s1 = Inr (c, s2) \<and> display s2 = [0xc3, 0xa9]"
proof -
  have b: "tx_bytes True 0xe9 = [0xc3, 0xa9]" by code_simp
  have "thr_inv demo_console" using qinv_thr [OF demo_console_inv] .
  moreover have "\<not> V_full 9 demo_console" by (simp add: V_full_def demo_console_eval)
  ultimately show ?thesis using console_echo [of "0xe9" demo_console True "[0x71]" 9 7 10]
    by (fastforce simp: b demo_console_eval)
qed

theorem console_polling_witness:
  "\<exists>s'. CheckCharAvail True True ConsoleReadPoll 7 (console_run 9 10) (demo_console\<lparr>kbd := [0xe2, 0x82, 0xac]\<rparr>) = Inr s'
     \<and> pending s' = [] \<and> incoming (con s') = NOCHAR"
proof -
  let ?s = "demo_console\<lparr>kbd := [0xe2, 0x82, 0xac]\<rparr>"
  have "intr_ok ?s" "readFileNo (con ?s) = 0" "incoming (con ?s) = NOCHAR" "pending ?s = []" by (simp_all add: demo_console_eval intr_ok_def)
  moreover have "drops True (kbd ?s)" by (simp add: drops_def)
  moreover have "CheckCharAvail True True ConsoleReadPoll 7 (console_run 9 10) ?s = Inr (?s\<lparr>kbd := [0x82, 0xac]\<rparr>)"
    by (simp add: CheckCharAvail_def demo_console_eval)
  ultimately show ?thesis using console_polling [of ?s True True ConsoleReadPoll 7 9 10 "?s\<lparr>kbd := [0x82, 0xac]\<rparr>"] by auto
qed



end
