(* ===== verification/NetworkModel.thy ===== *)
theory NetworkModel
  imports Complex_Main FileModel
begin

unbundle bit_operations_syntax

text \<open>
  The network device (machine/network.h, machine/network.cc) on the datagram sockets of the host (machine/sysdep.cc).

  Machines are processes of one host. A socket is named after the address of its machine; \<open>socks\<close>
  gives for every address the datagrams that wait there, oldest first, or \<open>None\<close> when no machine has that address.
  \<open>PollSocket\<close> reports whether one waits. The addresses are \<open>int\<close> and the length is \<open>unsigned\<close> in the code; all are words here, and
  \<open>be\<close> is the byte order of the host. The chance that a packet gets through is a \<open>double\<close>: its value is rational, and the
  product with 100 is computed by \<open>fmul\<close>, which stands for the host's floating-point multiplication.
\<close>

section \<open>Data\<close>

abbreviation (input) "MaxWireSize \<equiv> (64 :: nat)"
abbreviation (input) "HeaderSize \<equiv> (12 :: nat)"
abbreviation (input) "MaxPacketSize \<equiv> (52 :: nat)"
abbreviation (input) "NetworkTime \<equiv> (100 :: int)"

record PacketHeader =
  pto :: "32 word"
  pfrom :: "32 word"
  plength :: "32 word"

record 'h Network =
  ident :: "32 word"
  chanceToWork :: rat
  nwriteHandler :: 'h
  nreadHandler :: 'h
  nhandlerArg :: addr
  sendBusy :: bool
  inHdr :: PacketHeader
  inbox :: "byte list"

record 'h nstate = "'h kernel" +
  net :: "'h Network"

type_synonym sockets = "32 word \<Rightarrow> byte list list option"
type_synonym ('h, 'z) nrun = "'h \<Rightarrow> addr \<Rightarrow> ('h, 'z) nstate_scheme \<Rightarrow> ('h, 'z) nstate_scheme res"

section \<open>Packets\<close>

text \<open>A header in memory, and back.\<close>

definition words_bytes :: "bool \<Rightarrow> 32 word list \<Rightarrow> byte list" where
  "words_bytes be ws = concat (map (int_bytes be) ws)"

definition word_at :: "bool \<Rightarrow> nat \<Rightarrow> byte list \<Rightarrow> 32 word" where
  "word_at be i bs = word_of_int (bytes_int be (take 4 (drop (4 * i) bs)))"

definition packet_hdr :: "bool \<Rightarrow> byte list \<Rightarrow> PacketHeader" where
  "packet_hdr be bs = \<lparr>pto = word_at be 0 bs, pfrom = word_at be 1 bs, plength = word_at be 2 bs\<rparr>"

text \<open>The buffer that \<open>Send\<close> puts on the wire; \<open>garbage\<close> is what the new buffer held.\<close>

definition wire :: "bool \<Rightarrow> (nat \<Rightarrow> byte) \<Rightarrow> PacketHeader \<Rightarrow> byte list \<Rightarrow> byte list" where
  "wire be garbage ph data =
     overlay HeaderSize data (overlay 0 (words_bytes be [pto ph, pfrom ph, plength ph]) (map garbage [0..<MaxWireSize]))"

section \<open>The device\<close>

text \<open>\<open>rr\<close> and \<open>sd\<close> name the routines \<open>NetworkReadPoll\<close> and \<open>NetworkSendDone\<close>; \<open>n0\<close> is what the object held before.\<close>

definition Network_new ::
  "'h \<Rightarrow> addr \<Rightarrow> 'h Network \<Rightarrow> 32 word \<Rightarrow> rat \<Rightarrow> 'h \<Rightarrow> 'h \<Rightarrow> addr \<Rightarrow> sockets \<Rightarrow> ('h, 'z) nstate_scheme \<Rightarrow> (sockets \<times> ('h, 'z) nstate_scheme) res" where
  "Network_new rr this n0 addr reliability readAvailHandler writeDoneHandler callArg socks s =
     (let n = n0\<lparr>ident := addr,
                chanceToWork := (if reliability < 0 then 0 else if reliability > 1 then 1 else reliability),
                nwriteHandler := writeDoneHandler, nreadHandler := readAvailHandler, nhandlerArg := callArg,
                sendBusy := False, inHdr := (inHdr n0)\<lparr>plength := 0\<rparr>\<rparr> in
      rbind (Schedule rr this NetworkTime NetworkRecvInt (s\<lparr>net := n\<rparr>)) (\<lambda>s1. Inr (socks(addr \<mapsto> []), s1)))"

definition Network_delete :: "sockets \<Rightarrow> ('h, 'z) nstate_scheme \<Rightarrow> sockets" where
  "Network_delete socks s = socks(ident (net s) := None)"

definition CheckPktAvail ::
  "bool \<Rightarrow> 'h \<Rightarrow> addr \<Rightarrow> ('h, 'z) nrun \<Rightarrow> sockets \<Rightarrow> ('h, 'z) nstate_scheme \<Rightarrow> (sockets \<times> ('h, 'z) nstate_scheme) res" where
  "CheckPktAvail be rr this run socks s =
     rbind (Schedule rr this NetworkTime NetworkRecvInt s) (\<lambda>s1.
     if plength (inHdr (net s1)) \<noteq> 0 then Inr (socks, s1)
     else case socks (ident (net s1)) of
         Some (w # ws) \<Rightarrow>
           rbind (ASSERT (length w = MaxWireSize)) (\<lambda>_.
           let ph = packet_hdr be w in
           rbind (ASSERT (pto ph = ident (net s1) \<and> unat (plength ph) \<le> MaxPacketSize)) (\<lambda>_.
           let data = take (unat (plength ph)) (drop HeaderSize w);
               n = (net s1)\<lparr>inHdr := ph, inbox := overlay 0 data (inbox (net s1))\<rparr>;
               s2 = s1\<lparr>net := n, stats := (stats s1)\<lparr>numPacketsRecvd := numPacketsRecvd (stats s1) + 1\<rparr>\<rparr> in
           rbind (run (nreadHandler n) (nhandlerArg n) s2) (\<lambda>s3.
           Inr (socks(ident (net s1) \<mapsto> ws), s3))))
       | _ \<Rightarrow> Inr (socks, s1))"

definition SendDone :: "('h, 'z) nrun \<Rightarrow> ('h, 'z) nstate_scheme \<Rightarrow> ('h, 'z) nstate_scheme res" where
  "SendDone run s =
     run (nwriteHandler (net s)) (nhandlerArg (net s))
       (s\<lparr>net := (net s)\<lparr>sendBusy := False\<rparr>, stats := (stats s)\<lparr>numPacketsSent := numPacketsSent (stats s) + 1\<rparr>\<rparr>)"

text \<open>\<open>SendToSocket\<close> fails its assertion when nobody has that address.\<close>

definition Send ::
  "bool \<Rightarrow> (rat \<Rightarrow> rat \<Rightarrow> rat) \<Rightarrow> (nat \<Rightarrow> byte) \<Rightarrow> 'h \<Rightarrow> addr \<Rightarrow> PacketHeader \<Rightarrow> byte list \<Rightarrow> sockets \<Rightarrow> ('h, 'z) nstate_scheme
     \<Rightarrow> (sockets \<times> ('h, 'z) nstate_scheme) res" where
  "Send be fmul garbage sd this ph data socks s =
     rbind (ASSERT (\<not> sendBusy (net s) \<and> plength ph > 0 \<and> unat (plength ph) \<le> MaxPacketSize \<and> pfrom ph = ident (net s))) (\<lambda>_.
     rbind (Schedule sd this NetworkTime NetworkSendInt s) (\<lambda>s1.
     let (r, s2) = Random s1 in
     if of_int (r smod 100) \<ge> fmul (chanceToWork (net s2)) 100 then Inr (socks, s2)
     else if length data < unat (plength ph) then Inl WildAccess
     else
       let w = wire be garbage ph (take (unat (plength ph)) data) in
       case socks (pto ph) of
         None \<Rightarrow> rbind (ASSERT False) (\<lambda>_. Inr (socks, s2))
       | Some ws \<Rightarrow> Inr (socks(pto ph \<mapsto> ws @ [w]), s2)))"

definition Network_Receive :: "('h, 'z) nstate_scheme \<Rightarrow> PacketHeader \<times> byte list \<times> ('h, 'z) nstate_scheme" where
  "Network_Receive s =
     (let ph = inHdr (net s) in
      (ph, if plength ph \<noteq> 0 then take (unat (plength ph)) (inbox (net s)) else [],
       s\<lparr>net := (net s)\<lparr>inHdr := (inHdr (net s))\<lparr>plength := 0\<rparr>\<rparr>\<rparr>))"

section \<open>Layout\<close>

lemma length_words_bytes: "length (words_bytes be ws) = 4 * length ws"
  unfolding words_bytes_def by (rule length_concat_const) simp

lemma word_at_bytes:
  assumes "i < length ws"
  shows "word_at be i (words_bytes be ws @ bs) = ws ! i"
proof -
  have "take 4 (drop (4 * i) (words_bytes be ws @ bs)) = take 4 (drop (4 * i) (words_bytes be ws))"
    using assms length_words_bytes [of be ws] by simp
  also have "\<dots> = int_bytes be (ws ! i)" unfolding words_bytes_def using assms by (intro take_drop_concat) simp_all
  finally show ?thesis by (simp add: word_at_def)
qed

lemma wire_eq:
  assumes "length data \<le> MaxPacketSize"
  shows "\<exists>pad. wire be garbage ph data = words_bytes be [pto ph, pfrom ph, plength ph] @ data @ pad
     \<and> length (wire be garbage ph data) = MaxWireSize"
proof -
  let ?h = "words_bytes be [pto ph, pfrom ph, plength ph]" let ?g = "map garbage [0..<64]"
  have l: "length ?h = 12" by (simp add: length_words_bytes)
  have "overlay 0 ?h ?g = ?h @ drop 12 ?g" by (simp add: overlay_def l del: upt_rec_numeral)
  then have "wire be garbage ph data = ?h @ data @ drop (12 + length data) (?h @ drop 12 ?g)"
    by (simp add: wire_def overlay_def l del: upt_rec_numeral)
  moreover have "length (?h @ data @ drop (12 + length data) (?h @ drop 12 ?g)) = 64" using assms l by (simp del: upt_rec_numeral)
  ultimately show ?thesis by metis
qed

lemma wire_parsed:
  assumes "length data = unat (plength ph)" "length data \<le> MaxPacketSize"
  shows "packet_hdr be (wire be garbage ph data) = ph" "take (unat (plength ph)) (drop HeaderSize (wire be garbage ph data)) = data"
    "length (wire be garbage ph data) = MaxWireSize"
proof -
  let ?ws = "[pto ph, pfrom ph, plength ph]"
  obtain pad where w: "wire be garbage ph data = words_bytes be ?ws @ data @ pad" "length (wire be garbage ph data) = 64"
    using wire_eq [OF assms(2), of be garbage ph] by blast
  show "length (wire be garbage ph data) = 64" by (rule w(2))
  show "packet_hdr be (wire be garbage ph data) = ph"
    unfolding w(1) packet_hdr_def using word_at_bytes [of 0 ?ws be] word_at_bytes [of 1 ?ws be] word_at_bytes [of 2 ?ws be] by simp
  show "take (unat (plength ph)) (drop 12 (wire be garbage ph data)) = data"
    unfolding w(1) using assms(1) length_words_bytes [of be ?ws] by simp
qed

section \<open>Delivery\<close>

text \<open>The random number decides, before anything is written, whether a packet is lost.\<close>

definition lost :: "(rat \<Rightarrow> rat \<Rightarrow> rat) \<Rightarrow> ('h, 'z) nstate_scheme \<Rightarrow> bool" where
  "lost fmul s \<longleftrightarrow> of_int (int (rng s (rpos s)) smod 100) \<ge> fmul (chanceToWork (net s)) 100"

text \<open>A packet that the device may send.\<close>

definition packet_ok :: "PacketHeader \<Rightarrow> byte list \<Rightarrow> ('h, 'z) nstate_scheme \<Rightarrow> bool" where
  "packet_ok ph data s \<longleftrightarrow> \<not> sendBusy (net s) \<and> 0 < plength ph \<and> unat (plength ph) \<le> MaxPacketSize \<and> pfrom ph = ident (net s)
     \<and> unat (plength ph) \<le> length data"

lemma Send_ok:
  assumes "packet_ok ph data s" "\<not> lost fmul s" "socks (pto ph) = Some ws"
  shows "\<exists>s'. Send be fmul garbage sd this ph data socks s = Inr (socks(pto ph \<mapsto> ws @ [wire be garbage ph (take (unat (plength ph)) data)]), s')
     \<and> net s' = net s \<and> pending s' = sorted_ins (totalTicks (stats s) + NetworkTime)
         (PendingInterrupt_new sd this (totalTicks (stats s) + NetworkTime) NetworkSendInt) (pending s)"
  using assms by (simp add: Send_def packet_ok_def lost_def Schedule_def Random_def Let_def)

lemma Send_lost:
  assumes "packet_ok ph data s" "lost fmul s"
  shows "\<exists>s'. Send be fmul garbage sd this ph data socks s = Inr (socks, s')
     \<and> net s' = net s \<and> pending s' = sorted_ins (totalTicks (stats s) + NetworkTime)
         (PendingInterrupt_new sd this (totalTicks (stats s) + NetworkTime) NetworkSendInt) (pending s)"
  using assms by (simp add: Send_def packet_ok_def lost_def Schedule_def Random_def Let_def)

text \<open>
  The handler of a client signals a semaphore, as that of the post office does: \<open>a\<close> is the semaphore, which may depend on what the
  client keeps in its part of the state. \<open>arrived\<close> is the state in which it is called when the packet \<open>w\<close> has been read.
\<close>

definition signals :: "('h, 'z) nrun \<Rightarrow> 'h \<Rightarrow> addr \<Rightarrow> addr \<Rightarrow> ('h, 'z) nstate_scheme \<Rightarrow> bool" where
  "signals run h x a s \<longleftrightarrow> (\<forall>u. nstate.more u = nstate.more s \<longrightarrow> run h x u = V_body a u)"

definition arrived :: "bool \<Rightarrow> 'h \<Rightarrow> addr \<Rightarrow> byte list \<Rightarrow> ('h, 'z) nstate_scheme \<Rightarrow> ('h, 'z) nstate_scheme" where
  "arrived be rr this w s =
     (let t = totalTicks (stats s) + NetworkTime; ph = packet_hdr be w in
      s\<lparr>pending := sorted_ins t (PendingInterrupt_new rr this t NetworkRecvInt) (pending s),
        net := (net s)\<lparr>inHdr := ph, inbox := overlay 0 (take (unat (plength ph)) (drop HeaderSize w)) (inbox (net s))\<rparr>,
        stats := (stats s)\<lparr>numPacketsRecvd := numPacketsRecvd (stats s) + 1\<rparr>\<rparr>)"

lemma arrived_simps [simp]:
  "nstate.more (arrived be rr this w s) = nstate.more s" "sems (arrived be rr this w s) = sems s"
  "thr_inv (arrived be rr this w s) = thr_inv s"
  by (simp_all add: arrived_def Let_def thr_inv_def)

text \<open>What a signal does to a semaphore whose value is below the largest \<open>int\<close>, and to the rest of the state.\<close>

lemma V_body_signal:
  assumes "thr_inv s" "sems s a = Some q" "semvalue q < 2 ^ 31 - 1"
  shows "\<exists>x y z q'. V_body a s = Inr (s\<lparr>threads := x, readyList := y, sems := z\<rparr>) \<and> z a = Some q' \<and> semvalue q' = semvalue q + 1"
proof -
  have nf: "\<not> V_full a s" using assms(2,3) by (simp add: V_full_def)
  obtain s' where s': "V_body a s = Inr s'" "s' = s\<lparr>threads := threads s', readyList := readyList s', sems := sems s'\<rparr>"
    using V_body_thr [OF assms(1) _ nf] assms(2) by blast
  have "\<exists>q'. sems s' a = Some q' \<and> semvalue q' = semvalue q + 1"
    using s'(1) assms(2,3)
    by (cases "queue q") (auto simp: V_body_def get_sem_def set_sem_def ReadyToRun_def setStatus_def upd_thread_def rbind_Inr_iff
        split: option.splits)
  then show ?thesis using s' by metis
qed

lemma CheckPktAvail_packet:
  assumes "plength (inHdr (net s)) = 0" "socks (ident (net s)) = Some (wire be garbage ph data # ws)" "pto ph = ident (net s)"
    "length data = unat (plength ph)" "length data \<le> MaxPacketSize" "length (inbox (net s)) = MaxPacketSize"
    "signals run (nreadHandler (net s)) (nhandlerArg (net s)) a s" "thr_inv s" "sems s a = Some q" "semvalue q < 2 ^ 31 - 1"
  shows "\<exists>s' q'. CheckPktAvail be rr this run socks s = Inr (socks(ident (net s) \<mapsto> ws), s') \<and> inHdr (net s') = ph
     \<and> take (unat (plength ph)) (inbox (net s')) = data \<and> nstate.more s' = nstate.more s
     \<and> sems s' a = Some q' \<and> semvalue q' = semvalue q + 1"
proof -
  note w = wire_parsed [OF assms(4,5), of be garbage]
  let ?w = "wire be garbage ph data" let ?s = "arrived be rr this ?w s"
  obtain x y z q' where v: "V_body a ?s = Inr (?s\<lparr>threads := x, readyList := y, sems := z\<rparr>)" "z a = Some q'" "semvalue q' = semvalue q + 1"
    using V_body_signal [of ?s a q] assms(8-10) by auto
  have "run (nreadHandler (net s)) (nhandlerArg (net s)) ?s = Inr (?s\<lparr>threads := x, readyList := y, sems := z\<rparr>)"
    using assms(7) v(1) by (simp add: signals_def)
  then have c: "CheckPktAvail be rr this run socks s = Inr (socks(ident (net s) \<mapsto> ws), ?s\<lparr>threads := x, readyList := y, sems := z\<rparr>)"
    using assms(1-5) w by (simp add: CheckPktAvail_def Schedule_def arrived_def Let_def)
  have n: "inHdr (net ?s) = ph" "inbox (net ?s) = overlay 0 data (inbox (net s))" using w by (simp_all add: arrived_def Let_def)
  have "take (unat (plength ph)) (overlay 0 data (inbox (net s))) = data"
    using assms(4-6) by (simp add: overlay_def)
  then show ?thesis using c v(2,3) n arrived_simps(1) [of be rr this ?w s] by simp
qed

lemma packet_arrives:
  assumes "packet_ok ph data a" "\<not> lost fmul a" "socks (pto ph) = Some []" "ident (net b) = pto ph" "plength (inHdr (net b)) = 0"
    "length (inbox (net b)) = MaxPacketSize"
    "signals run (nreadHandler (net b)) (nhandlerArg (net b)) sa b" "thr_inv b" "sems b sa = Some q" "semvalue q < 2 ^ 31 - 1"
  shows "\<exists>socks1 a1 b1 b2 q'. Send be fmul garbage sd this ph data socks a = Inr (socks1, a1)
      \<and> CheckPktAvail be rr that run socks1 b = Inr (socks, b1) \<and> sems b1 sa = Some q' \<and> semvalue q' = semvalue q + 1
      \<and> Network_Receive b1 = (ph, take (unat (plength ph)) data, b2) \<and> plength (inHdr (net b2)) = 0 \<and> nstate.more b2 = nstate.more b
      \<and> (totalTicks (stats a) + NetworkTime, PendingInterrupt_new sd this (totalTicks (stats a) + NetworkTime) NetworkSendInt) \<in> set (pending a1)"
proof -
  let ?d = "take (unat (plength ph)) data" let ?w = "wire be garbage ph ?d"
  obtain a1 where a: "Send be fmul garbage sd this ph data socks a = Inr (socks(pto ph \<mapsto> [?w]), a1)"
      "pending a1 = sorted_ins (totalTicks (stats a) + NetworkTime) (PendingInterrupt_new sd this (totalTicks (stats a) + NetworkTime) NetworkSendInt) (pending a)"
    using Send_ok [where socks = socks, OF assms(1-3), of be garbage sd this] by auto
  have d: "length ?d = unat (plength ph)" "length ?d \<le> 52" "plength ph \<noteq> 0" using assms(1) by (auto simp: packet_ok_def)
  let ?q = "socks(pto ph \<mapsto> [?w])"
  have q': "?q (ident (net b)) = Some [?w]" "pto ph = ident (net b)" using assms(4) by simp_all
  obtain b1 q' where b: "CheckPktAvail be rr that run ?q b = Inr (?q(ident (net b) \<mapsto> []), b1)" "inHdr (net b1) = ph"
      "take (unat (plength ph)) (inbox (net b1)) = ?d" "nstate.more b1 = nstate.more b" "sems b1 sa = Some q'" "semvalue q' = semvalue q + 1"
    using CheckPktAvail_packet [where run = run and socks = ?q, OF assms(5) q' d(1,2) assms(6-10), of rr that] by blast
  have sq: "?q(ident (net b) \<mapsto> []) = socks" using assms(3,4) by (simp add: fun_upd_idem)
  have "Network_Receive b1 = (ph, ?d, b1\<lparr>net := (net b1)\<lparr>inHdr := ph\<lparr>plength := 0\<rparr>\<rparr>\<rparr>)"
    using b(2,3) d(3) by (simp add: Network_Receive_def Let_def)
  moreover have "(totalTicks (stats a) + 100, PendingInterrupt_new sd this (totalTicks (stats a) + 100) NetworkSendInt) \<in> set (pending a1)"
    unfolding a(2) by simp
  moreover have "plength (inHdr (net (b1\<lparr>net := (net b1)\<lparr>inHdr := ph\<lparr>plength := 0\<rparr>\<rparr>\<rparr>))) = 0"
      "nstate.more (b1\<lparr>net := (net b1)\<lparr>inHdr := ph\<lparr>plength := 0\<rparr>\<rparr>\<rparr>) = nstate.more b" using b(4) by simp_all
  ultimately show ?thesis using a(1) b(1) [unfolded sq] b(5,6) by blast
qed

text \<open>C28: a packet that is not lost arrives as it was sent. When \<open>Send\<close> on one machine accepts a packet for another one
  whose socket is empty and whose buffer is free, then the next poll there takes it, header and payload, whatever the transfer buffer held
  before, and calls the handler, which adds one to the semaphore that it signals (whose value is below the largest \<open>int\<close>); and \<open>Receive\<close> returns
  exactly this packet and frees the buffer. The completion interrupt of the sender is
  scheduled in any case; when the random number says that the packet is lost, no socket changes.\<close>

theorem network_delivery:
  assumes "packet_ok ph data a" "\<not> lost fmul a" "socks (pto ph) = Some []" "ident (net b) = pto ph" "plength (inHdr (net b)) = 0"
    "length (inbox (net b)) = MaxPacketSize"
    "signals run (nreadHandler (net b)) (nhandlerArg (net b)) sa b" "thr_inv b" "sems b sa = Some q" "semvalue q < 2 ^ 31 - 1"
  shows "(\<exists>socks1 a1 b1 b2 q'. Send be fmul garbage sd this ph data socks a = Inr (socks1, a1)
      \<and> CheckPktAvail be rr that run socks1 b = Inr (socks, b1) \<and> sems b1 sa = Some q' \<and> semvalue q' = semvalue q + 1
      \<and> Network_Receive b1 = (ph, take (unat (plength ph)) data, b2) \<and> plength (inHdr (net b2)) = 0
      \<and> (totalTicks (stats a) + NetworkTime, PendingInterrupt_new sd this (totalTicks (stats a) + NetworkTime) NetworkSendInt) \<in> set (pending a1))
    \<and> (\<forall>g. lost g a \<longrightarrow> (\<exists>a1. Send be g garbage sd this ph data socks a = Inr (socks, a1)
      \<and> (totalTicks (stats a) + NetworkTime, PendingInterrupt_new sd this (totalTicks (stats a) + NetworkTime) NetworkSendInt) \<in> set (pending a1)))"
proof (intro conjI allI impI)
  show "\<exists>socks1 a1 b1 b2 q'. Send be fmul garbage sd this ph data socks a = Inr (socks1, a1)
      \<and> CheckPktAvail be rr that run socks1 b = Inr (socks, b1) \<and> sems b1 sa = Some q' \<and> semvalue q' = semvalue q + 1
      \<and> Network_Receive b1 = (ph, take (unat (plength ph)) data, b2) \<and> plength (inHdr (net b2)) = 0
      \<and> (totalTicks (stats a) + NetworkTime, PendingInterrupt_new sd this (totalTicks (stats a) + NetworkTime) NetworkSendInt) \<in> set (pending a1)"
    using packet_arrives [where socks = socks, OF assms, of be garbage sd this rr that] by blast
  fix g assume "lost g a"
  then show "\<exists>a1. Send be g garbage sd this ph data socks a = Inr (socks, a1)
      \<and> (totalTicks (stats a) + NetworkTime, PendingInterrupt_new sd this (totalTicks (stats a) + NetworkTime) NetworkSendInt) \<in> set (pending a1)"
    using Send_lost [OF assms(1), of g be garbage sd this socks] by auto
qed

text \<open>Two machines on a reliable network, where semaphore 3 waits for packets.\<close>

definition demo_net :: "32 word \<Rightarrow> unit nstate" where
  "demo_net addr = kernel.extend ((boot_state (\<lambda>n. n))\<lparr>sems := [3 \<mapsto> Semaphore_new 0, 4 \<mapsto> Semaphore_new 0]\<rparr>) (nstate.fields
     \<lparr>ident = addr, chanceToWork = 1, nwriteHandler = (), nreadHandler = (), nhandlerArg = 0, sendBusy = False,
      inHdr = \<lparr>pto = 0, pfrom = 0, plength = 0\<rparr>, inbox = replicate 52 0\<rparr>)"

lemmas demo_net_eval = demo_net_def boot_state_def Interrupt_new_def intr.defs kernel.defs nstate.defs Semaphore_new_def

lemma demo_net_facts:
  "\<not> lost (*) (demo_net addr)" "ident (net (demo_net addr)) = addr" "plength (inHdr (net (demo_net addr))) = 0"
  "length (inbox (net (demo_net addr))) = 52"
  by (simp_all add: lost_def smod_nonneg demo_net_eval)

lemma demo_net_sems: "thr_inv (demo_net addr)" "sems (demo_net addr) 3 = Some (Semaphore_new 0)"
  by (simp_all add: thr_inv_def kparts sem_range_def stat_def Machine_new_def demo_net_eval)

lemma signals_fixed: "signals (\<lambda>_ _. V_body a) h x a s"
  by (simp add: signals_def)

theorem network_delivery_witness:
  "\<exists>socks1 a1 b1 b2. Send False (*) (\<lambda>_. 0xff) () 5 \<lparr>pto = 2, pfrom = 1, plength = 3\<rparr> [7, 8, 9] [1 \<mapsto> [], 2 \<mapsto> []] (demo_net 1) = Inr (socks1, a1)
      \<and> CheckPktAvail False () 6 (\<lambda>_ _. V_body 3) socks1 (demo_net 2) = Inr ([1 \<mapsto> [], 2 \<mapsto> []], b1)
      \<and> Network_Receive b1 = (\<lparr>pto = 2, pfrom = 1, plength = 3\<rparr>, [7, 8, 9], b2)"
proof -
  let ?h = "\<lparr>pto = 2, pfrom = 1, plength = 3\<rparr>"
  have ok: "packet_ok ?h [7, 8, 9] (demo_net 1)" by (simp add: packet_ok_def demo_net_eval)
  have v: "semvalue (Semaphore_new 0) < 2 ^ 31 - 1" by (simp add: Semaphore_new_def)
  show ?thesis
    using network_delivery [OF ok demo_net_facts(1), of "[1 \<mapsto> [], 2 \<mapsto> []]" "demo_net 2" "\<lambda>_ _. V_body 3" 3 _ False "\<lambda>_. 0xff" "()" 5 "()" 6,
        OF _ _ demo_net_facts(3,4) signals_fixed demo_net_sems v]
      demo_net_facts(2)
    by (simp add: fun_upd_twist) blast
qed

end
