(* ===== verification/PostModel.thy ===== *)
theory PostModel
  imports NetworkModel
begin

text \<open>
  Synchronized lists (threads/synchlist.cc) and the post office (network/post.h, network/post.cc) over the
  network device.

  A mail box is a synchronized list, whose lock and condition are those of threads/synch.cc. They are stubs that fail an assertion,
  and so does every operation here that uses one; the parts of the routines before that, which build and
  check messages, are definitions of their own. A list is kept beside the state \<open>'s\<close> on which locks work.
\<close>

section \<open>Synchronized lists\<close>


definition SynchList_Append :: "'a \<Rightarrow> 'a list \<times> 's \<Rightarrow> ('a list \<times> 's) res" where
  "SynchList_Append x l =
     rbind (Lock_Acquire l) (\<lambda>(xs, s).
     rbind (Condition_Signal (xs @ [x], s)) Lock_Release)"

text \<open>\<open>while (list->IsEmpty ()) listEmpty->Wait (lock);\<close>\<close>

partial_function (option) wait_nonempty :: "'a list \<times> 's \<Rightarrow> ('a list \<times> 's) res option" where
  "wait_nonempty l =
     (if fst l = [] then (case Condition_Wait l of Inl e \<Rightarrow> Some (Inl e) | Inr l' \<Rightarrow> wait_nonempty l')
      else Some (Inr l))"

definition SynchList_Remove :: "'a list \<times> 's \<Rightarrow> ('a \<times> 'a list \<times> 's) res option" where
  "SynchList_Remove l =
     obind (Some (Lock_Acquire l)) (\<lambda>l1.
     obind (wait_nonempty l1) (\<lambda>(xs, s).
     obind (Some (Lock_Release (tl xs, s))) (\<lambda>l2. Some (Inr (hd xs, l2)))))"

definition SynchList_Mapcar :: "('a \<Rightarrow> 's \<Rightarrow> 's) \<Rightarrow> 'a list \<times> 's \<Rightarrow> ('a list \<times> 's) res" where
  "SynchList_Mapcar func l =
     rbind (Lock_Acquire l) (\<lambda>(xs, s). Lock_Release (xs, fold func xs s))"

section \<open>Data\<close>

abbreviation (input) "MaxMailSize \<equiv> (40 :: nat)"

record MailHeader =
  mto :: "32 word"
  mfrom :: "32 word"
  mlength :: "32 word"

record Mail =
  pktHdr :: PacketHeader
  mailHdr :: MailHeader
  mdata :: "byte list"

record 'h pstate = "'h nstate" +
  netAddr :: "32 word"
  boxes :: "Mail list list"
  numBoxes :: int
  messageAvailable :: addr
  messageSent :: addr

section \<open>Mail\<close>

definition Mail_new :: "(nat \<Rightarrow> byte) \<Rightarrow> PacketHeader \<Rightarrow> MailHeader \<Rightarrow> byte list \<Rightarrow> Mail res" where
  "Mail_new garbage pktH mailH msgData =
     rbind (ASSERT (unat (mlength mailH) \<le> MaxMailSize)) (\<lambda>_.
     if length msgData < unat (mlength mailH) then Inl WildAccess
     else Inr \<lparr>pktHdr = pktH, mailHdr = mailH,
               mdata = overlay 0 (take (unat (mlength mailH)) msgData) (map garbage [0..<MaxMailSize])\<rparr>)"

definition MailBox_Put :: "(nat \<Rightarrow> byte) \<Rightarrow> PacketHeader \<Rightarrow> MailHeader \<Rightarrow> byte list \<Rightarrow> Mail list \<times> 's \<Rightarrow> (Mail list \<times> 's) res" where
  "MailBox_Put garbage ph mh data box = rbind (Mail_new garbage ph mh data) (\<lambda>m. SynchList_Append m box)"

text \<open>What \<open>Get\<close> copies out of a message.\<close>

definition mail_parts :: "Mail \<Rightarrow> PacketHeader \<times> MailHeader \<times> byte list" where
  "mail_parts m = (pktHdr m, mailHdr m, take (unat (mlength (mailHdr m))) (mdata m))"

definition MailBox_Get :: "Mail list \<times> 's \<Rightarrow> ((PacketHeader \<times> MailHeader \<times> byte list) \<times> Mail list \<times> 's) res option" where
  "MailBox_Get box = obind (SynchList_Remove box) (\<lambda>(m, box'). Some (Inr (mail_parts m, box')))"

definition mail_hdr :: "bool \<Rightarrow> byte list \<Rightarrow> MailHeader" where
  "mail_hdr be bs = \<lparr>mto = word_at be 0 bs, mfrom = word_at be 1 bs, mlength = word_at be 2 bs\<rparr>"

section \<open>The post office\<close>

text \<open>What \<open>Send\<close> hands to the network: the checks, the packet header filled in, and the buffer.\<close>

definition post_packet ::
  "bool \<Rightarrow> (nat \<Rightarrow> byte) \<Rightarrow> PacketHeader \<Rightarrow> MailHeader \<Rightarrow> byte list \<Rightarrow> ('h, 'z) pstate_scheme \<Rightarrow> (PacketHeader \<times> byte list) res" where
  "post_packet be garbage ph mh data s =
     rbind (ASSERT (unat (mlength mh) \<le> MaxMailSize)) (\<lambda>_.
     rbind (ASSERT (0 \<le> sint (mto mh) \<and> sint (mto mh) < numBoxes s)) (\<lambda>_.
     if length data < unat (mlength mh) then Inl WildAccess
     else Inr (ph\<lparr>pfrom := netAddr s, plength := mlength mh + 12\<rparr>,
               overlay HeaderSize (take (unat (mlength mh)) data)
                 (overlay 0 (words_bytes be [mto mh, mfrom mh, mlength mh]) (map garbage [0..<MaxPacketSize])))))"

definition PostOffice_Send ::
  "bool \<Rightarrow> (rat \<Rightarrow> rat \<Rightarrow> rat) \<Rightarrow> (nat \<Rightarrow> byte) \<Rightarrow> (nat \<Rightarrow> byte) \<Rightarrow> ('h, ('h, 'z pstate_ext) nstate_ext) kdispatch \<Rightarrow> 'h \<Rightarrow> addr \<Rightarrow> PacketHeader \<Rightarrow> MailHeader
     \<Rightarrow> byte list \<Rightarrow> sockets \<Rightarrow> ('h, 'z) pstate_scheme \<Rightarrow> (sockets \<times> ('h, 'z) pstate_scheme) res option" where
  "PostOffice_Send be fmul g1 g2 D sd this ph mh data socks s =
     obind (Some (post_packet be g1 ph mh data s)) (\<lambda>(ph', buffer).
     obind (Some (Lock_Acquire s)) (\<lambda>s1.
     obind (Some (Send be fmul g2 sd this ph' buffer socks s1)) (\<lambda>(socks', s2).
     obind (Semaphore_P D (messageSent s2) s2) (\<lambda>s3.
     obind (Some (Lock_Release s3)) (\<lambda>s4. Some (Inr (socks', s4)))))))"

text \<open>
  A round of \<open>PostalDelivery\<close>: \<open>buf0\<close> is what the buffer of the postal worker holds from before. The part from \<open>Receive\<close> on that
  finds the box and the message is \<open>sort_mail\<close>.
\<close>

definition sort_mail ::
  "bool \<Rightarrow> byte list \<Rightarrow> ('h, 'z) pstate_scheme \<Rightarrow> (nat \<times> PacketHeader \<times> MailHeader \<times> byte list \<times> ('h, 'z) pstate_scheme) res" where
  "sort_mail be buf0 s =
     (let (ph, data, s1) = Network_Receive s; buffer = overlay 0 data buf0; mh = mail_hdr be buffer in
      rbind (ASSERT (0 \<le> sint (mto mh) \<and> sint (mto mh) < numBoxes s1)) (\<lambda>_.
      rbind (ASSERT (unat (mlength mh) \<le> MaxMailSize)) (\<lambda>_.
      Inr (unat (mto mh), ph, mh, drop HeaderSize buffer, s1))))"

definition PostalDelivery_round ::
  "bool \<Rightarrow> (nat \<Rightarrow> byte) \<Rightarrow> ('h, ('h, 'z pstate_ext) nstate_ext) kdispatch \<Rightarrow> byte list \<Rightarrow> ('h, 'z) pstate_scheme \<Rightarrow> ('h, 'z) pstate_scheme res option" where
  "PostalDelivery_round be garbage D buf0 s =
     obind (Semaphore_P D (messageAvailable s) s) (\<lambda>s1.
     obind (Some (sort_mail be buf0 s1)) (\<lambda>(i, ph, mh, data, s2).
     obind (Some (MailBox_Put garbage ph mh data (boxes s2 ! i, s2))) (\<lambda>(b, s3).
     Some (Inr (s3\<lparr>boxes := (boxes s3)[i := b]\<rparr>)))))"

definition PostOffice_Receive ::
  "int \<Rightarrow> ('h, 'z) pstate_scheme \<Rightarrow> ((PacketHeader \<times> MailHeader \<times> byte list) \<times> ('h, 'z) pstate_scheme) res option" where
  "PostOffice_Receive box s =
     obind (Some (ASSERT (box \<ge> 0 \<and> box < numBoxes s))) (\<lambda>_.
     obind (MailBox_Get (boxes s ! nat box, s)) (\<lambda>((ph, mh, data), b, s1).
     obind (Some (ASSERT (unat (mlength mh) \<le> MaxMailSize))) (\<lambda>_.
     Some (Inr ((ph, mh, data), s1\<lparr>boxes := (boxes s1)[nat box := b]\<rparr>)))))"







definition PostOffice_delete :: "sockets \<Rightarrow> ('h, 'z) pstate_scheme \<Rightarrow> sockets \<times> ('h, 'z) pstate_scheme" where
  "PostOffice_delete socks s =
     (Network_delete socks s, s\<lparr>boxes := [], sems := (sems s)(messageAvailable s := None, messageSent s := None)\<rparr>)"

section \<open>Messages through the network\<close>









end
