(* ===== verification/FsTestModel.thy ===== *)
theory FsTestModel
  imports FileSysCorrect
begin

text \<open>
  The file utilities and the performance test of filesys/fstest.cc, on the file system of theory FileSysModel.

  A file of the host is a \<open>unix_file\<close>, or \<open>None\<close> when it cannot be opened. The messages that say how a routine
  ended are the constructors of \<open>outcome\<close>; what \<open>Print\<close> writes on the terminal is a list of bytes.
\<close>

section \<open>Definitions\<close>

datatype outcome = Finished | CannotOpen | CannotCreate | CannotWrite | CannotRead | CannotRemove

abbreviation (input) "TransferSize \<equiv> (10 :: nat)"
abbreviation (input) "ContentSize \<equiv> (10 :: nat)"

text \<open>The loop of \<open>Copy\<close> over what is left of the host file; \<open>gb\<close> gives, for every call of \<open>Write\<close>, what its new buffer holds.\<close>

fun copy_loop ::
  "'d sector_read \<Rightarrow> 'd sector_write \<Rightarrow> (nat \<Rightarrow> nat \<Rightarrow> byte) \<Rightarrow> byte list \<Rightarrow> OpenFile \<Rightarrow> 'd \<Rightarrow> 'd res" where
  "copy_loop rd wr gb bs f d =
     (if bs = [] then Inr d
      else
        let chunk = take TransferSize bs in
        rbind (OpenFile_Write rd wr (gb (length bs)) chunk (int (length chunk)) f d) (\<lambda>(_, f', d').
        copy_loop rd wr gb (drop TransferSize bs) f' d'))"

declare copy_loop.simps [simp del]

definition Copy ::
  "bool \<Rightarrow> 'd sector_read \<Rightarrow> 'd sector_write \<Rightarrow> garbage \<Rightarrow> garbage \<Rightarrow> (nat \<Rightarrow> nat \<Rightarrow> byte) \<Rightarrow> FileSystem \<Rightarrow> unix_file option \<Rightarrow> byte list \<Rightarrow> 'd
     \<Rightarrow> (outcome \<times> 'd) res" where
  "Copy be rd wr g1 g2 gb fs source target d = (case source of
      None \<Rightarrow> Inr (CannotOpen, d)
    | Some fp \<Rightarrow>
        let fileLength = int32 (int (fsize fp)) in
        rbind (FileSystem_Create be rd wr g1 target fileLength fs d) (\<lambda>(created, d1).
        if \<not> created then Inr (CannotCreate, d1)
        else
          rbind (FileSystem_Open be rd g2 target fs d1) (\<lambda>(openFile, d2). case openFile of
              None \<Rightarrow> Inl AssertFail
            | Some f \<Rightarrow> rbind (copy_loop rd wr gb (map (fbyte fp) [0..<fsize fp]) f d2) (\<lambda>d3. Inr (Finished, d3)))))"

text \<open>The loop of \<open>Print\<close>; \<open>out\<close> is what has been printed.\<close>

partial_function (option) print_loop ::
  "'d sector_read \<Rightarrow> OpenFile \<Rightarrow> byte list \<Rightarrow> 'd \<Rightarrow> (byte list \<times> 'd) res option" where
  "print_loop rd f out d =
     (case OpenFile_Read rd (int TransferSize) f d of
        Inl e \<Rightarrow> Some (Inl e)
      | Inr r \<Rightarrow>
          (if fst r = [] then Some (Inr (out, snd (snd r)))
           else print_loop rd (fst (snd r)) (out @ fst r) (snd (snd r))))"

definition Print_file ::
  "bool \<Rightarrow> 'd sector_read \<Rightarrow> garbage \<Rightarrow> FileSystem \<Rightarrow> byte list \<Rightarrow> 'd \<Rightarrow> (outcome \<times> byte list \<times> 'd) res option" where
  "Print_file be rd g fs name d =
     obind (Some (FileSystem_Open be rd g name fs d)) (\<lambda>(openFile, d1). case openFile of
        None \<Rightarrow> Some (Inr (CannotOpen, [], d1))
      | Some f \<Rightarrow> obind (print_loop rd f [] d1) (\<lambda>(out, d2). Some (Inr (Finished, out, d2))))"

text \<open>The performance test: the file \<open>TestFile\<close> and the ten digits.\<close>

definition FileName :: "byte list" where
  "FileName = [84, 101, 115, 116, 70, 105, 108, 101]"

definition Contents :: "byte list" where
  "Contents = [49, 50, 51, 52, 53, 54, 55, 56, 57, 48]"

text \<open>The loops run for \<open>i = 0, 10, \<dots>\<close> below 50000: \<open>n\<close> is the number of rounds left.\<close>

fun write_rounds ::
  "'d sector_read \<Rightarrow> 'd sector_write \<Rightarrow> (nat \<Rightarrow> nat \<Rightarrow> byte) \<Rightarrow> nat \<Rightarrow> OpenFile \<Rightarrow> 'd \<Rightarrow> (outcome \<times> 'd) res" where
  "write_rounds rd wr gb 0 f d = Inr (Finished, d)"
| "write_rounds rd wr gb (Suc n) f d =
     rbind (OpenFile_Write rd wr (gb n) Contents (int ContentSize) f d) (\<lambda>(numBytes, f', d').
     if numBytes < 10 then Inr (CannotWrite, d') else write_rounds rd wr gb n f' d')"

definition FileWrite ::
  "bool \<Rightarrow> 'd sector_read \<Rightarrow> 'd sector_write \<Rightarrow> garbage \<Rightarrow> garbage \<Rightarrow> (nat \<Rightarrow> nat \<Rightarrow> byte) \<Rightarrow> FileSystem \<Rightarrow> 'd \<Rightarrow> (outcome \<times> 'd) res" where
  "FileWrite be rd wr g1 g2 gb fs d =
     rbind (FileSystem_Create be rd wr g1 FileName 0 fs d) (\<lambda>(created, d1).
     if \<not> created then Inr (CannotCreate, d1)
     else
       rbind (FileSystem_Open be rd g2 FileName fs d1) (\<lambda>(openFile, d2). case openFile of
           None \<Rightarrow> Inr (CannotOpen, d2)
         | Some f \<Rightarrow> write_rounds rd wr gb 5000 f d2))"

fun read_rounds :: "'d sector_read \<Rightarrow> nat \<Rightarrow> OpenFile \<Rightarrow> 'd \<Rightarrow> (outcome \<times> 'd) res" where
  "read_rounds rd 0 f d = Inr (Finished, d)"
| "read_rounds rd (Suc n) f d =
     rbind (OpenFile_Read rd (int ContentSize) f d) (\<lambda>(buffer, f', d').
     if length buffer < 10 \<or> \<not> strncmp_eq ContentSize buffer Contents then Inr (CannotRead, d') else read_rounds rd n f' d')"

definition FileRead :: "bool \<Rightarrow> 'd sector_read \<Rightarrow> garbage \<Rightarrow> FileSystem \<Rightarrow> 'd \<Rightarrow> (outcome \<times> 'd) res" where
  "FileRead be rd g fs d =
     rbind (FileSystem_Open be rd g FileName fs d) (\<lambda>(openFile, d1). case openFile of
         None \<Rightarrow> Inr (CannotOpen, d1)
       | Some f \<Rightarrow> read_rounds rd 5000 f d1)"

text \<open>The result is how the three parts ended; \<open>g\<close> and \<open>g'\<close> give the storage of the calls.\<close>

definition PerformanceTest ::
  "bool \<Rightarrow> 'd sector_read \<Rightarrow> 'd sector_write \<Rightarrow> (nat \<Rightarrow> garbage) \<Rightarrow> (nat \<Rightarrow> nat \<Rightarrow> byte) \<Rightarrow> FileSystem \<Rightarrow> 'd \<Rightarrow> ((outcome \<times> outcome \<times> outcome) \<times> 'd) res" where
  "PerformanceTest be rd wr g gb fs d =
     rbind (FileWrite be rd wr (g 0) (g 1) gb fs d) (\<lambda>(w, d1).
     rbind (FileRead be rd (g 2) fs d1) (\<lambda>(r, d2).
     rbind (FileSystem_Remove be rd wr (g 3) FileName fs d2) (\<lambda>(removed, d3).
     Inr ((w, r, if removed then Finished else CannotRemove), d3))))"

section \<open>The loops on a sector store\<close>

lemma take_overlay: "p + length bs \<le> length c \<Longrightarrow> take (p + length bs) (overlay p bs c) = take p c @ bs"
  by (simp add: overlay_def)

context sector_store
begin

lemma copy_loop_ok:
  assumes "hdr_ok (hdr f)" "ok d" "seekPosition f = int p" "p + length bs = nat (numBytes (hdr f))"
  shows "\<exists>d'. copy_loop rd wr gb bs f d = Inr d' \<and> ok d' \<and> contents (sec d') (hdr f) = take p (contents (sec d) (hdr f)) @ bs
     \<and> (\<forall>m. sector_ok m \<longrightarrow> m \<notin> set (file_sectors (hdr f)) \<longrightarrow> sec d' m = sec d m)"
  using assms
proof (induction "length bs" arbitrary: bs f d p rule: less_induct)
  case less
  let ?h = "hdr f"
  have len: "length (contents (sec d) ?h) = nat (numBytes ?h)" for d using length_contents [OF less.prems(1), of "sec d"] length_sec by simp
  show ?case
  proof (cases "bs = []")
    case True
    then show ?thesis using less.prems(2,4) len [of d] by (simp add: copy_loop.simps)
  next
    case False
    let ?L = "length (take 10 bs)"
    have L: "p + ?L \<le> nat (numBytes ?h)" "0 < ?L" "numBytes ?h \<le> 3840" "0 \<le> numBytes ?h"
      using less.prems(1,4) False hdr_ok_facts(4) by (auto simp: hdr_ok_def)
    have big: "int p + int ?L < 2 ^ 31" using L(1,3) by simp
    have n: "min (nat (int ?L)) (nat (numBytes ?h) - nat (int p)) = ?L" using L by simp
    have t: "take ?L (take 10 bs) = take 10 bs" by (rule take_all) simp
    obtain d1 where d1: "WriteAt rd wr (gb (length bs)) ?h (take 10 bs) (int ?L) (int p) d = Inr (int ?L, d1)" "ok d1"
        "contents (sec d1) ?h = overlay p (take 10 bs) (contents (sec d) ?h)"
        "\<forall>m. sector_ok m \<longrightarrow> m \<notin> set (file_sectors ?h) \<longrightarrow> sec d1 m = sec d m"
      using WriteAt_ok [OF less.prems(1,2) _ big, of "take 10 bs" "gb (length bs)", unfolded n t] by (auto simp del: length_take)
    let ?f = "f\<lparr>seekPosition := int p + int ?L\<rparr>"
    have "length (drop 10 bs) < length bs" "p + ?L + length (drop 10 bs) = nat (numBytes ?h)" using False less.prems(4) by (auto simp: min_def)
    then obtain d2 where d2: "copy_loop rd wr gb (drop 10 bs) ?f d1 = Inr d2" "ok d2"
        "contents (sec d2) ?h = take (p + ?L) (contents (sec d1) ?h) @ drop 10 bs"
        "\<forall>m. sector_ok m \<longrightarrow> m \<notin> set (file_sectors ?h) \<longrightarrow> sec d2 m = sec d1 m"
      using less.hyps [of "drop 10 bs" ?f d1 "p + ?L"] less.prems(1) d1(2) by auto
    have "take (p + ?L) (overlay p (take 10 bs) (contents (sec d) ?h)) = take p (contents (sec d) ?h) @ take 10 bs"
      using L(1) len [of d] by (intro take_overlay) simp
    then have "contents (sec d2) ?h = take p (contents (sec d) ?h) @ bs" using d2(3) d1(3) by simp
    moreover have "copy_loop rd wr gb bs f d = Inr d2"
      using False d1(1) d2(1) less.prems(3) by (subst copy_loop.simps) (simp add: OpenFile_Write_def)
    ultimately show ?thesis using d2(2,4) d1(4) by auto
  qed
qed

lemma print_loop_ok:
  assumes "hdr_ok (hdr f)" "ok d" "seekPosition f = int p" "p \<le> nat (numBytes (hdr f))"
  shows "\<exists>d'. print_loop rd f out d = Some (Inr (out @ drop p (contents (sec d) (hdr f)), d')) \<and> ok d' \<and> (\<forall>m. sector_ok m \<longrightarrow> sec d' m = sec d m)"
  using assms
proof (induction "nat (numBytes (hdr f)) - p" arbitrary: f d p out rule: less_induct)
  case less
  let ?h = "hdr f" let ?c = "contents (sec d) (hdr f)"
  have len: "length ?c = nat (numBytes ?h)" using length_contents [OF less.prems(1), of "sec d"] length_sec by simp
  have big: "int p + 10 < 2 ^ 31" using hdr_ok_facts(4) [OF less.prems(1)] less.prems(4) by simp
  obtain d1 where d1: "ReadAt rd ?h 10 (int p) d = Inr (take 10 (drop p ?c), d1)" "ok d1" "\<forall>m. sector_ok m \<longrightarrow> sec d1 m = sec d m"
    using ReadAt_ok [OF less.prems(1,2) _ big] by auto
  let ?bs = "take 10 (drop p ?c)" let ?f = "f\<lparr>seekPosition := int p + int (length ?bs)\<rparr>"
  have rd: "OpenFile_Read rd 10 f d = Inr (?bs, ?f, d1)" using d1(1) less.prems(3) by (simp add: OpenFile_Read_def)
  show ?case
  proof (cases "?bs = []")
    case True
    then show ?thesis using rd d1(2,3) by (subst print_loop.simps) simp
  next
    case False
    then have p: "p < nat (numBytes ?h)" using len by simp
    have c: "contents (sec d1) ?h = ?c" using d1(3) less.prems(1) by (intro contents_cong) (simp add: hdr_ok_def)
    have m: "nat (numBytes ?h) - (p + length ?bs) < nat (numBytes ?h) - p" "p + length ?bs \<le> nat (numBytes ?h)" using p len by auto
    obtain d2 where d2: "print_loop rd ?f (out @ ?bs) d1 = Some (Inr ((out @ ?bs) @ drop (p + length ?bs) ?c, d2))" "ok d2"
        "\<forall>m. sector_ok m \<longrightarrow> sec d2 m = sec d1 m"
      using less.hyps [of ?f "p + length ?bs" d1 "out @ ?bs"] m less.prems(1) d1(2) c by auto
    have "?bs @ drop (p + length ?bs) ?c = drop p ?c" using len p by (simp add: min_def) (metis append_take_drop_id drop_drop add.commute)
    then have "print_loop rd f out d = Some (Inr (out @ drop p ?c, d2))" using rd d2(1) False by (subst print_loop.simps) simp
    then show ?thesis using d2(2,3) d1(3) by auto
  qed
qed

text \<open>\<open>Copy\<close> followed by \<open>Print\<close>, on a file system in order.\<close>

lemma Copy_ok:
  assumes "ok d" "fs_inv be fs (on_disk sec d)" "garbage_ok g1" "garbage_ok g2" "fsize fp \<le> 3840"
    "can_create be fs (on_disk sec d) nm (int (fsize fp))"
  shows "\<exists>d'. Copy be rd wr g1 g2 gb fs (Some fp) nm d = Inr (Finished, d') \<and> ok d' \<and> fs_inv be fs (on_disk sec d')
     \<and> fs_files be fs (on_disk sec d') = (fs_files be fs (on_disk sec d))(name_key nm \<mapsto> map (fbyte fp) [0..<fsize fp])"
proof -
  let ?bs = "map (fbyte fp) [0..<fsize fp]" and ?k = "name_key nm"
  have i: "int32 (int (fsize fp)) = int (fsize fp)" using assms(5) by (intro int32_id) simp_all
  obtain d1 c where d1: "FileSystem_Create be rd wr g1 nm (int (fsize fp)) fs d = Inr (True, d1)" "ok d1" "fs_inv be fs (on_disk sec d1)"
      "length c = fsize fp" "fs_files be fs (on_disk sec d1) = (fs_files be fs (on_disk sec d))(?k \<mapsto> c)"
    using Create_ok [OF assms(1-3) _ _ assms(6)] assms(5) by auto
  have "fs_files be fs (on_disk sec d1) ?k = Some c" using d1(5) by simp
  then obtain s where s: "fs_index be fs (on_disk sec d1) ?k = Some s" "contents (on_disk sec d1) (hdr_of be (on_disk sec d1 s)) = c"
    by (auto simp: fs_files_def)
  let ?h = "hdr_of be (on_disk sec d1 s)" let ?f = "\<lparr>hdr = ?h, seekPosition = 0\<rparr>"
  have h: "hdr_ok ?h" using layout_file(2) [OF fs_inv_facts(5) [OF d1(3)] s(1)] .
  obtain d2 where d2: "FileSystem_Open be rd g2 nm fs d1 = Inr (Some ?f, d2)" "ok d2" "on_disk sec d2 = on_disk sec d1"
    using Open_ok [OF d1(2,3) assms(4), of nm] s(1) by auto
  have "nat (numBytes ?h) = fsize fp" using length_contents [OF h, of "on_disk sec d1"] length_on_disk h s(2) d1(4) by (simp add: hdr_ok_def)
  then obtain d3 where d3: "copy_loop rd wr gb ?bs ?f d2 = Inr d3" "ok d3" "contents (sec d3) ?h = ?bs"
      "\<forall>m. sector_ok m \<longrightarrow> m \<notin> set (file_sectors ?h) \<longrightarrow> sec d3 m = sec d2 m"
    using copy_loop_ok [of ?f d2 0 ?bs gb] h d2(2) by auto
  have keep: "on_disk sec d3 m = on_disk sec d1 m" if "m \<notin> set (file_sectors ?h)" for m
  proof -
    have "on_disk sec d3 m = on_disk sec d2 m" using d3(4) that by (simp add: on_disk_def)
    then show ?thesis using d2(3) by simp
  qed
  have "contents (on_disk sec d3) ?h = ?bs" using d3(3) contents_on_disk [OF h] by simp
  then have "fs_inv be fs (on_disk sec d3) \<and> fs_files be fs (on_disk sec d3) = (fs_files be fs (on_disk sec d))(?k \<mapsto> ?bs)"
    using fs_write_state [OF d1(3) s(1) keep] d1(5) by simp
  then show ?thesis using d1(1) d2(1) d3(1,2) i by (auto simp: Copy_def)
qed

lemma Print_ok:
  assumes "ok d" "fs_inv be fs (on_disk sec d)" "garbage_ok g"
  shows "\<exists>d'. Print_file be rd g fs nm d = Some (Inr (case fs_files be fs (on_disk sec d) (name_key nm) of
        None \<Rightarrow> (CannotOpen, [], d') | Some c \<Rightarrow> (Finished, c, d'))) \<and> ok d' \<and> on_disk sec d' = on_disk sec d"
proof -
  obtain d1 where d1: "FileSystem_Open be rd g nm fs d =
       Inr (map_option (\<lambda>s. \<lparr>hdr = hdr_of be (on_disk sec d s), seekPosition = 0\<rparr>) (fs_index be fs (on_disk sec d) (name_key nm)), d1)"
     "ok d1" "on_disk sec d1 = on_disk sec d" using Open_ok [OF assms, of nm] by blast
  show ?thesis
  proof (cases "fs_index be fs (on_disk sec d) (name_key nm)")
    case None
    then show ?thesis using d1 by (simp add: Print_file_def fs_files_def)
  next
    case (Some s)
    let ?h = "hdr_of be (on_disk sec d s)"
    have h: "hdr_ok ?h" using layout_file(2) [OF fs_inv_facts(5) [OF assms(2)] Some] .
    then obtain d2 where d2: "print_loop rd \<lparr>hdr = ?h, seekPosition = 0\<rparr> [] d1 = Some (Inr (contents (sec d1) ?h, d2))" "ok d2"
        "\<forall>m. sector_ok m \<longrightarrow> sec d2 m = sec d1 m"
      using print_loop_ok [of "\<lparr>hdr = ?h, seekPosition = 0\<rparr>" d1 0 "[]"] d1(2) by auto
    have "on_disk sec d2 = on_disk sec d1" using d2(3) by (auto simp: on_disk_def)
    moreover have "contents (sec d1) ?h = contents (on_disk sec d) ?h" using contents_on_disk [OF h, of d1] d1(3) by simp
    ultimately show ?thesis using d1 d2(1,2) Some by (simp add: Print_file_def fs_files_def)
  qed
qed

text \<open>An empty file can be opened but neither written nor read.\<close>

lemma empty_file_ok:
  assumes "ok d" "fs_inv be fs (on_disk sec d)" "garbage_ok g" "fs_files be fs (on_disk sec d) (name_key nm) = Some []"
  shows "\<exists>f d'. FileSystem_Open be rd g nm fs d = Inr (Some f, d') \<and> ok d' \<and> on_disk sec d' = on_disk sec d
     \<and> (\<forall>gb n. write_rounds rd wr gb (Suc n) f d' = Inr (CannotWrite, d')) \<and> (\<forall>n. read_rounds rd (Suc n) f d' = Inr (CannotRead, d'))"
proof -
  obtain s where s: "fs_index be fs (on_disk sec d) (name_key nm) = Some s" "contents (on_disk sec d) (hdr_of be (on_disk sec d s)) = []"
    using assms(4) by (auto simp: fs_files_def)
  let ?h = "hdr_of be (on_disk sec d s)"
  have h: "hdr_ok ?h" using layout_file(2) [OF fs_inv_facts(5) [OF assms(2)] s(1)] .
  then have z: "numBytes ?h = 0" using length_contents [OF h, of "on_disk sec d"] length_on_disk s(2) by (simp add: hdr_ok_def)
  obtain d1 where d1: "FileSystem_Open be rd g nm fs d = Inr (Some \<lparr>hdr = ?h, seekPosition = 0\<rparr>, d1)" "ok d1" "on_disk sec d1 = on_disk sec d"
    using Open_ok [OF assms(1-3), of nm] s(1) by auto
  then show ?thesis using z
    by (auto simp: OpenFile_Write_def OpenFile_Read_def WriteAt_def ReadAt_def FileLength_def)
qed

lemma PerformanceTest_ok:
  assumes "ok d" "fs_inv be fs (on_disk sec d)" "garbage_ok (g 0)" "garbage_ok (g 1)" "garbage_ok (g 2)" "garbage_ok (g 3)"
    "can_create be fs (on_disk sec d) FileName 0"
  shows "\<exists>d'. PerformanceTest be rd wr g gb fs d = Inr ((CannotWrite, CannotRead, Finished), d') \<and> ok d' \<and> fs_inv be fs (on_disk sec d')
     \<and> fs_files be fs (on_disk sec d') = fs_files be fs (on_disk sec d)"
proof -
  let ?k = "name_key FileName" and ?m = "fs_files be fs (on_disk sec d)"
  obtain d1 where d1: "FileSystem_Create be rd wr (g 0) FileName 0 fs d = Inr (True, d1)" "ok d1" "fs_inv be fs (on_disk sec d1)"
      "fs_files be fs (on_disk sec d1) = ?m(?k \<mapsto> [])"
    using Create_ok [OF assms(1-3) _ _ assms(7)] by auto
  have e: "fs_files be fs (on_disk sec d1) ?k = Some []" using d1(4) by simp
  obtain f d2 where d2: "FileSystem_Open be rd (g 1) FileName fs d1 = Inr (Some f, d2)" "ok d2" "on_disk sec d2 = on_disk sec d1"
      "\<And>n. write_rounds rd wr gb (Suc n) f d2 = Inr (CannotWrite, d2)" using empty_file_ok [OF d1(2,3) assms(4) e] by blast
  obtain f' d3 where d3: "FileSystem_Open be rd (g 2) FileName fs d2 = Inr (Some f', d3)" "ok d3" "on_disk sec d3 = on_disk sec d1"
      "\<And>n. read_rounds rd (Suc n) f' d3 = Inr (CannotRead, d3)" using empty_file_ok [of d2 be fs "g 2" FileName] d1(3) assms(5) e d2(2,3) by auto
  obtain s where s: "fs_index be fs (on_disk sec d3) ?k = Some s" using e d3(3) by (auto simp: fs_files_def)
  have i3: "fs_inv be fs (on_disk sec d3)" using d1(3) d3(3) by simp
  obtain d4 where d4: "FileSystem_Remove be rd wr (g 3) FileName fs d3 = Inr (True, d4)" "ok d4" "fs_inv be fs (on_disk sec d4)"
      "fs_files be fs (on_disk sec d4) = (fs_files be fs (on_disk sec d3))(?k := None)"
    using Remove_ok [OF d3(2) i3 assms(6) s] by blast
  have "?m ?k = None" using assms(7) by (simp add: can_create_def dom_fs_files)
  then have "(?m(?k \<mapsto> []))(?k := None) = ?m" by (auto simp: fun_eq_iff)
  then have "fs_files be fs (on_disk sec d4) = ?m" using d4(4) d3(3) d1(4) by simp
  moreover have "FileWrite be rd wr (g 0) (g 1) gb fs d = Inr (CannotWrite, d2)" "FileRead be rd (g 2) fs d2 = Inr (CannotRead, d3)"
    using d1(1) d2(1) d2(4) [of 4999] d3(1) d3(4) [of 4999] by (simp_all add: FileWrite_def FileRead_def del: write_rounds.simps read_rounds.simps)
  ultimately show ?thesis using d4(1-3) by (simp add: PerformanceTest_def)
qed

end

text \<open>C22: \<open>Copy\<close> of a host file that fits in a Nachos file, under a new name with room on the disk, makes a file with exactly
  the bytes of the host file, although it writes ten bytes at a time, across sectors; no other file changes, and \<open>Print\<close> then
  prints these bytes and returns.\<close>

theorem copy_then_print:
  assumes "sync_ok s" "fs_inv be fs (on_disk sync_sec s)" "garbage_ok g1" "garbage_ok g2" "garbage_ok g3" "fsize fp \<le> 3840"
    "can_create be fs (on_disk sync_sec s) nm (int (fsize fp))"
  shows "\<exists>s1 s2. Copy be (sync_read dd this) (sync_write dd this) g1 g2 gb fs (Some fp) nm s = Inr (Finished, s1) \<and> sync_ok s1
     \<and> fs_inv be fs (on_disk sync_sec s1)
     \<and> fs_files be fs (on_disk sync_sec s1) = (fs_files be fs (on_disk sync_sec s))(name_key nm \<mapsto> map (fbyte fp) [0..<fsize fp])
     \<and> Print_file be (sync_read dd this) g3 fs nm s1 = Some (Inr (Finished, map (fbyte fp) [0..<fsize fp], s2))
     \<and> on_disk sync_sec s2 = on_disk sync_sec s1"
proof -
  obtain s1 where s1: "Copy be (sync_read dd this) (sync_write dd this) g1 g2 gb fs (Some fp) nm s = Inr (Finished, s1)" "sync_ok s1"
      "fs_inv be fs (on_disk sync_sec s1)"
      "fs_files be fs (on_disk sync_sec s1) = (fs_files be fs (on_disk sync_sec s))(name_key nm \<mapsto> map (fbyte fp) [0..<fsize fp])"
    using sd.Copy_ok [OF assms(1-4,6,7), of dd this gb] by blast
  then show ?thesis using sd.Print_ok [OF s1(2,3) assms(5), of dd this nm] by auto
qed

text \<open>C31: the performance test cannot succeed: it creates its file with length 0, and files do not grow. On a file system in order that
  has no such file but room for it, the first write fails, the first read fails, and the file is removed again; all files are as before.\<close>

theorem performance_test_fails:
  assumes "sync_ok s" "fs_inv be fs (on_disk sync_sec s)" "garbage_ok (g 0)" "garbage_ok (g 1)" "garbage_ok (g 2)" "garbage_ok (g 3)"
    "can_create be fs (on_disk sync_sec s) FileName 0"
  shows "\<exists>s'. PerformanceTest be (sync_read dd this) (sync_write dd this) g gb fs s = Inr ((CannotWrite, CannotRead, Finished), s')
     \<and> sync_ok s' \<and> fs_inv be fs (on_disk sync_sec s') \<and> fs_files be fs (on_disk sync_sec s') = fs_files be fs (on_disk sync_sec s)"
  using sd.PerformanceTest_ok [OF assms, of dd this gb] by blast

text \<open>A disk just formatted, with a host file of 130 bytes.\<close>

definition demo_host_file :: unix_file where
  "demo_host_file = \<lparr>fsize = 130, fbyte = (\<lambda>i. of_nat i)\<rparr>"

theorem copy_then_print_witness:
  "\<exists>fs s1 s2 s3. FileSystem_new False (sync_read 7 1) (sync_write 7 1) demo_garbage True demo_dstate = Inr (fs, s1)
     \<and> Copy False (sync_read 7 1) (sync_write 7 1) demo_garbage demo_garbage (\<lambda>_ _. 0) fs (Some demo_host_file) [97] s1 = Inr (Finished, s2)
     \<and> Print_file False (sync_read 7 1) demo_garbage fs [97] s2 = Some (Inr (Finished, map of_nat [0..<130], s3))"
proof -
  obtain fs s1 where f: "FileSystem_new False (sync_read 7 1) (sync_write 7 1) demo_garbage True demo_dstate = Inr (fs, s1)" "sync_ok s1"
      "fs_inv False fs (on_disk sync_sec s1)" "fs_files False fs (on_disk sync_sec s1) = Map.empty"
    using sd.format_ok [OF demo_dstate_ok demo_garbage_ok, of False 7 1] by blast
  have "can_create False fs (on_disk sync_sec s1) [97] (int (fsize demo_host_file))"
    by (rule empty_can_create [OF f(3,4)]) (simp_all add: demo_host_file_def)
  from copy_then_print [OF f(2,3) demo_garbage_ok demo_garbage_ok demo_garbage_ok _ this, of 7 1 "\<lambda>_ _. 0"]
  show ?thesis using f(1) by (auto simp: demo_host_file_def simp del: upt_rec_numeral)
qed

theorem performance_test_fails_witness:
  "\<exists>fs s1 s2. FileSystem_new False (sync_read 7 1) (sync_write 7 1) demo_garbage True demo_dstate = Inr (fs, s1)
     \<and> PerformanceTest False (sync_read 7 1) (sync_write 7 1) (\<lambda>_. demo_garbage) (\<lambda>_ _. 0) fs s1 = Inr ((CannotWrite, CannotRead, Finished), s2)"
proof -
  obtain fs s1 where f: "FileSystem_new False (sync_read 7 1) (sync_write 7 1) demo_garbage True demo_dstate = Inr (fs, s1)" "sync_ok s1"
      "fs_inv False fs (on_disk sync_sec s1)" "fs_files False fs (on_disk sync_sec s1) = Map.empty"
    using sd.format_ok [OF demo_dstate_ok demo_garbage_ok, of False 7 1] by blast
  have "can_create False fs (on_disk sync_sec s1) FileName 0" by (rule empty_can_create [OF f(3,4)]) simp_all
  from performance_test_fails [OF f(2,3) demo_garbage_ok demo_garbage_ok demo_garbage_ok demo_garbage_ok this]
  show ?thesis using f(1) by fast
qed

end
