(* ===== verification/SystemModel.thy ===== *)
theory SystemModel
  imports Complex_Main UserProgModel
begin

text \<open>
  The command line: the loop over the arguments in \<open>Initialize\<close> (threads/system.cc), which sets the options of the
  system, and the one in \<open>main\<close> (threads/main.cc), which runs the tests and programs asked for.

  Which parts Nachos is built with are the flags of \<open>build\<close>, the macros of the makefiles. An argument is a string; \<open>atoi\<close> is the
  library function on values that fit in an \<open>int\<close>, and \<open>atof\<close> is an argument. What a command does is modelled in the theories
  of the components: here it is a value of \<open>action\<close>. The debugger of user programs, which reads lines from the terminal, is modelled with it.
\<close>

section \<open>Data\<close>

record build =
  THREADS :: bool
  USER_PROGRAM :: bool
  FILESYS :: bool
  FILESYS_NEEDED :: bool
  NETWORK :: bool

record options =
  debugArgs :: string
  randomSeed :: "int option"
  debugUserProg :: bool
  format_disk :: bool
  rely :: rat
  netname :: int

datatype init_error = AssertionFailed | ExitFailure

datatype action =
    RunThreadTest
  | PrintCopyright
  | RunProgram string
  | TestConsole "(string \<times> string) option"
  | CopyFile string string
  | PrintFile string
  | RemoveFile string
  | ListFiles
  | PrintFileSystem
  | RunPerformanceTest
  | RunMailTest int

datatype main_result = Help | InitFailed init_error | Ran options "action list" bool

section \<open>Arguments\<close>

definition is_space :: "char \<Rightarrow> bool" where
  "is_space c \<longleftrightarrow> c = CHR '' '' \<or> 9 \<le> (of_char c :: int) \<and> (of_char c :: int) \<le> 13"

definition is_digit :: "char \<Rightarrow> bool" where
  "is_digit c \<longleftrightarrow> 48 \<le> (of_char c :: int) \<and> (of_char c :: int) \<le> 57"

fun digits_value :: "int \<Rightarrow> string \<Rightarrow> int" where
  "digits_value acc [] = acc"
| "digits_value acc (c # cs) = (if is_digit c then digits_value (10 * acc + (of_char c - 48)) cs else acc)"

text \<open>The number that both \<open>atoi\<close> and \<open>sscanf\<close> with \<open>%d\<close> read: spaces, a sign, digits; and what stands behind the sign.\<close>

definition scan_number :: "string \<Rightarrow> int \<times> string" where
  "scan_number s =
     (let t = dropWhile is_space s in
      if t \<noteq> [] \<and> hd t = CHR ''-'' then (int32 (- digits_value 0 (tl t)), tl t)
      else if t \<noteq> [] \<and> hd t = CHR ''+'' then (int32 (digits_value 0 (tl t)), tl t)
      else (int32 (digits_value 0 t), t))"

definition atoi :: "string \<Rightarrow> int" where
  "atoi s = fst (scan_number s)"

definition sscanf_d :: "string \<Rightarrow> int option" where
  "sscanf_d s = (let (n, ds) = scan_number s in if ds \<noteq> [] \<and> is_digit (hd ds) then Some n else None)"

definition default_options :: options where
  "default_options =
     \<lparr>debugArgs = [], randomSeed = None, debugUserProg = False, format_disk = False, rely = 1, netname = 0\<rparr>"

text \<open>A round of the loop of \<open>Initialize\<close> at the argument \<open>a\<close> with \<open>rest\<close> behind it: \<open>argCount\<close> and the options.\<close>

definition init_option :: "build \<Rightarrow> (string \<Rightarrow> rat) \<Rightarrow> string \<Rightarrow> string list \<Rightarrow> options \<Rightarrow> init_error + (nat \<times> options)" where
  "init_option b atof a rest opts =
     (let first =
        (if a = ''-d'' then
           (if rest = [] then Inr (1, opts\<lparr>debugArgs := ''+''\<rparr>) else Inr (2, opts\<lparr>debugArgs := hd rest\<rparr>))
         else if a = ''-rs'' then
           (if rest = [] then Inl AssertionFailed
            else if atoi (hd rest) = 0 then Inl ExitFailure
            else Inr (2, opts\<lparr>randomSeed := Some (atoi (hd rest))\<rparr>))
         else Inr (1, opts)) in
      case first of
        Inl e \<Rightarrow> Inl e
      | Inr (argCount, o1) \<Rightarrow>
          let o2 = (if USER_PROGRAM b \<and> a = ''-s'' then o1\<lparr>debugUserProg := True\<rparr> else o1);
              o3 = (if FILESYS_NEEDED b \<and> a = ''-f'' then o2\<lparr>format_disk := True\<rparr> else o2) in
          if NETWORK b \<and> a = ''-l'' then
            (if rest = [] then Inl AssertionFailed else Inr (2, o3\<lparr>rely := atof (hd rest)\<rparr>))
          else if NETWORK b \<and> a = ''-m'' then
            (if rest = [] then Inl AssertionFailed else Inr (2, o3\<lparr>netname := atoi (hd rest)\<rparr>))
          else Inr (argCount, o3))"

fun init_args :: "build \<Rightarrow> (string \<Rightarrow> rat) \<Rightarrow> string list \<Rightarrow> options \<Rightarrow> init_error + options" where
  "init_args b atof [] opts = Inr opts"
| "init_args b atof (a # rest) opts =
     (case init_option b atof a rest opts of
        Inl e \<Rightarrow> Inl e
      | Inr (argCount, opts') \<Rightarrow> init_args b atof (drop (argCount - 1) rest) opts')"

text \<open>A round of the loop of \<open>main\<close>: \<open>argCount\<close> and what is run, or \<open>None\<close> when an assertion on the number of arguments fails.\<close>

definition user_command :: "build \<Rightarrow> string \<Rightarrow> string list \<Rightarrow> (nat \<times> action list) option" where
  "user_command b a rest =
     (if \<not> USER_PROGRAM b then Some (1, [])
      else if a = ''-x'' then (if rest = [] then None else Some (2, [RunProgram (hd rest)]))
      else if a = ''-c'' then
        (if rest = [] then Some (1, [TestConsole None])
         else if length rest \<le> 1 then None
         else Some (3, [TestConsole (Some (rest ! 0, rest ! 1))]))
      else Some (1, []))"

definition file_command :: "build \<Rightarrow> nat \<Rightarrow> string \<Rightarrow> string list \<Rightarrow> (nat \<times> action list) option" where
  "file_command b argCount a rest =
     (if \<not> FILESYS b then Some (argCount, [])
      else if a = ''-cp'' then (if length rest \<le> 1 then None else Some (3, [CopyFile (rest ! 0) (rest ! 1)]))
      else if a = ''-p'' then (if rest = [] then None else Some (2, [PrintFile (hd rest)]))
      else if a = ''-r'' then (if rest = [] then None else Some (2, [RemoveFile (hd rest)]))
      else if a = ''-l'' then Some (argCount, [ListFiles])
      else if a = ''-D'' then Some (argCount, [PrintFileSystem])
      else if a = ''-t'' then Some (argCount, [RunPerformanceTest])
      else Some (argCount, []))"

definition mail_command :: "build \<Rightarrow> nat \<Rightarrow> string \<Rightarrow> string list \<Rightarrow> (nat \<times> action list) option" where
  "mail_command b argCount a rest =
     (if NETWORK b \<and> a = ''-o'' then (if rest = [] then None else Some (2, [RunMailTest (atoi (hd rest))]))
      else Some (argCount, []))"

definition main_command :: "build \<Rightarrow> string \<Rightarrow> string list \<Rightarrow> (nat \<times> action list) option" where
  "main_command b a rest =
     (case user_command b a rest of None \<Rightarrow> None | Some (n1, as1) \<Rightarrow>
     (case file_command b n1 a rest of None \<Rightarrow> None | Some (n2, as2) \<Rightarrow>
     (case mail_command b n2 a rest of None \<Rightarrow> None | Some (n3, as3) \<Rightarrow>
        Some (n3, (if a = ''-z'' then [PrintCopyright] else []) @ as1 @ as2 @ as3))))"

fun main_args :: "build \<Rightarrow> string list \<Rightarrow> action list \<times> bool" where
  "main_args b [] = ([], True)"
| "main_args b (a # rest) =
     (case main_command b a rest of
        None \<Rightarrow> ([], False)
      | Some (argCount, acts) \<Rightarrow> (let (acts', ok) = main_args b (drop (argCount - 1) rest) in (acts @ acts', ok)))"

text \<open>
  \<open>main\<close> up to the end of the first thread; \<open>args\<close> are the arguments behind the name of the program. The flag of \<open>Ran\<close> tells
  whether the loop got to its end. A command such as \<open>-x\<close> that does not return is the last one that runs.
\<close>

definition nachos_main :: "build \<Rightarrow> (string \<Rightarrow> rat) \<Rightarrow> string list \<Rightarrow> main_result" where
  "nachos_main b atof args =
     (if args \<noteq> [] \<and> hd args = ''-h'' then Help
      else case init_args b atof args default_options of
          Inl e \<Rightarrow> InitFailed e
        | Inr opts \<Rightarrow>
            let (acts, ok) = main_args b args in Ran opts ((if THREADS b then [RunThreadTest] else []) @ acts) ok)"

text \<open>The flags given with \<open>-d\<close> decide which debugging messages appear (threads/utility.cc); \<open>strchr\<close> also finds the NUL at the end of the list.\<close>

definition DebugIsEnabled :: "string option \<Rightarrow> char \<Rightarrow> bool" where
  "DebugIsEnabled enableFlags flag = (case enableFlags of
      Some flags \<Rightarrow> flag \<in> set flags \<or> flag = CHR 0x00 \<or> CHR ''+'' \<in> set flags
    | None \<Rightarrow> False)"

section \<open>The debugger of user programs\<close>

text \<open>
  \<open>Machine::Debugger\<close> (machine/machine.cc), entered by the loop of \<open>Run\<close> when the option \<open>-s\<close> was given, on the
  line that the user types; the help text and the dumps are left out. It is the argument \<open>dbg\<close> of \<open>Run_round\<close>.
\<close>

definition Debugger :: "string \<Rightarrow> machine \<Rightarrow> machine" where
  "Debugger buf m = (case sscanf_d buf of
      Some num \<Rightarrow> m\<lparr>runUntilTime := num\<rparr>
    | None \<Rightarrow>
        let m1 = m\<lparr>runUntilTime := 0\<rparr> in
        if buf \<noteq> [] \<and> hd buf = CHR ''c'' then m1\<lparr>singleStep := False\<rparr> else m1)"

lemma Debugger_commands:
  "singleStep (Debugger (CHR ''c'' # rest) m) = False"
  "Debugger [CHR 0x0a] m = m\<lparr>runUntilTime := 0\<rparr>"
  "Debugger [CHR ''?'', CHR 0x0a] m = m\<lparr>runUntilTime := 0\<rparr>"
  "runUntilTime (Debugger (''200'' @ [CHR 0x0a]) m) = 200"
  by (simp_all add: Debugger_def sscanf_d_def scan_number_def is_space_def is_digit_def int32_def)

section \<open>What a command line means\<close>

text \<open>The options and commands, each with its operands, and how they are written.\<close>

datatype item =
    Debug string
  | Seed string
  | SingleStep
  | Format
  | Reliability string
  | MachineId string
  | Mail string
  | Command action

fun command_args :: "action \<Rightarrow> string list" where
  "command_args PrintCopyright = [''-z'']"
| "command_args (RunProgram p) = [''-x'', p]"
| "command_args (TestConsole None) = [''-c'']"
| "command_args (TestConsole (Some (i, q))) = [''-c'', i, q]"
| "command_args (CopyFile p q) = [''-cp'', p, q]"
| "command_args (PrintFile p) = [''-p'', p]"
| "command_args (RemoveFile p) = [''-r'', p]"
| "command_args ListFiles = [''-l'']"
| "command_args PrintFileSystem = [''-D'']"
| "command_args RunPerformanceTest = [''-t'']"
| "command_args _ = []"

fun item_args :: "item \<Rightarrow> string list" where
  "item_args (Debug flags) = [''-d'', flags]"
| "item_args (Seed n) = [''-rs'', n]"
| "item_args SingleStep = [''-s'']"
| "item_args Format = [''-f'']"
| "item_args (Reliability x) = [''-l'', x]"
| "item_args (MachineId n) = [''-m'', n]"
| "item_args (Mail n) = [''-o'', n]"
| "item_args (Command c) = command_args c"

fun item_option :: "(string \<Rightarrow> rat) \<Rightarrow> item \<Rightarrow> options \<Rightarrow> options" where
  "item_option atof (Debug flags) opts = opts\<lparr>debugArgs := flags\<rparr>"
| "item_option atof (Seed n) opts = opts\<lparr>randomSeed := Some (atoi n)\<rparr>"
| "item_option atof SingleStep opts = opts\<lparr>debugUserProg := True\<rparr>"
| "item_option atof Format opts = opts\<lparr>format_disk := True\<rparr>"
| "item_option atof (Reliability x) opts = opts\<lparr>rely := atof x\<rparr>"
| "item_option atof (MachineId n) opts = opts\<lparr>netname := atoi n\<rparr>"
| "item_option atof (Mail n) opts = opts"
| "item_option atof (Command c) opts = opts"

fun item_actions :: "item \<Rightarrow> action list" where
  "item_actions (Command c) = [c]"
| "item_actions (Mail n) = [RunMailTest (atoi n)]"
| "item_actions _ = []"

text \<open>An operand that no loop takes for an option.\<close>

definition plain :: "string \<Rightarrow> bool" where
  "plain a \<longleftrightarrow> a = [] \<or> hd a \<noteq> CHR ''-''"

text \<open>What can be asked of a given build: the letter l means two things, so that it can be used in builds with one of them only.\<close>

fun command_ok :: "build \<Rightarrow> action \<Rightarrow> bool" where
  "command_ok b PrintCopyright = True"
| "command_ok b (RunProgram p) = (USER_PROGRAM b \<and> plain p)"
| "command_ok b (TestConsole None) = False"
| "command_ok b (TestConsole (Some (i, q))) = (USER_PROGRAM b \<and> plain i \<and> plain q)"
| "command_ok b (CopyFile p q) = (FILESYS b \<and> plain p \<and> plain q)"
| "command_ok b (PrintFile p) = (FILESYS b \<and> plain p)"
| "command_ok b (RemoveFile p) = (FILESYS b \<and> plain p)"
| "command_ok b ListFiles = (FILESYS b \<and> \<not> NETWORK b)"
| "command_ok b PrintFileSystem = FILESYS b"
| "command_ok b RunPerformanceTest = FILESYS b"
| "command_ok b _ = False"

fun item_ok :: "build \<Rightarrow> item \<Rightarrow> bool" where
  "item_ok b (Debug flags) = plain flags"
| "item_ok b (Seed n) = (plain n \<and> atoi n \<noteq> 0)"
| "item_ok b SingleStep = USER_PROGRAM b"
| "item_ok b Format = FILESYS_NEEDED b"
| "item_ok b (Reliability x) = (NETWORK b \<and> \<not> FILESYS b \<and> plain x)"
| "item_ok b (MachineId n) = (NETWORK b \<and> plain n)"
| "item_ok b (Mail n) = (NETWORK b \<and> plain n)"
| "item_ok b (Command c) = command_ok b c"

lemma plain_neq: "plain a \<Longrightarrow> a \<noteq> CHR ''-'' # cs"
  by (auto simp: plain_def)

lemma init_plain: "plain a \<Longrightarrow> init_option b atof a rest opts = Inr (1, opts)"
  by (simp add: init_option_def plain_neq)

lemma main_plain: "plain a \<Longrightarrow> main_command b a rest = Some (1, [])"
  by (simp add: main_command_def user_command_def file_command_def mail_command_def plain_neq)

lemma plain_operands:
  "list_all plain ops \<Longrightarrow> init_args b atof (ops @ rest) opts = init_args b atof rest opts"
  "list_all plain ops \<Longrightarrow> main_args b (ops @ rest) = main_args b rest"
  by (induction ops) (simp_all add: init_plain main_plain)

text \<open>\<open>Initialize\<close> skips the commands, and \<open>main\<close> the options.\<close>

lemma command_skipped:
  assumes "command_ok b c"
  shows "\<exists>a ops. command_args c = a # ops \<and> (\<forall>rest. init_option b atof a rest opts = Inr (1, opts)) \<and> list_all plain ops"
  using assms by (cases "(b, c)" rule: command_ok.cases) (auto simp: init_option_def)

lemma init_item:
  assumes "item_ok b i"
  shows "init_args b atof (item_args i @ rest) opts = init_args b atof rest (item_option atof i opts)"
proof (cases i)
  case (Command c)
  then obtain a ops where "command_args c = a # ops" "\<forall>rest. init_option b atof a rest opts = Inr (1, opts)" "list_all plain ops"
    using command_skipped [of b c atof opts] assms by auto
  then show ?thesis using Command by (simp add: plain_operands)
qed (use assms in \<open>simp_all add: init_option_def plain_neq\<close>)

lemma main_command_run:
  assumes "command_ok b c"
  shows "main_args b (command_args c @ rest) = (let (acts, ok) = main_args b rest in (c # acts, ok))"
  using assms
  by (cases "(b, c)" rule: command_ok.cases)
    (auto simp: main_command_def user_command_def file_command_def mail_command_def split: prod.splits)

lemma option_skipped:
  assumes "item_ok b i" "item_actions i = []"
  shows "main_args b (item_args i @ rest) = main_args b rest"
proof -
  obtain a ops where "item_args i = a # ops" "\<forall>rest. main_command b a rest = Some (1, [])" "list_all plain ops"
    using assms by (cases i) (auto simp: main_command_def user_command_def file_command_def mail_command_def)
  then show ?thesis by (simp add: plain_operands)
qed

lemma main_item:
  assumes "item_ok b i"
  shows "main_args b (item_args i @ rest) = (let (acts, ok) = main_args b rest in (item_actions i @ acts, ok))"
proof (cases i)
  case (Command c)
  then show ?thesis using main_command_run [of b c rest] assms by simp
next
  case (Mail n)
  then show ?thesis using assms
    by (auto simp: main_command_def user_command_def file_command_def mail_command_def split: prod.splits)
qed (use assms option_skipped [of b i rest] in \<open>simp_all add: case_prod_beta\<close>)

lemma item_head:
  assumes "item_ok b i"
  shows "item_args i \<noteq> [] \<and> hd (item_args i) \<noteq> ''-h''"
proof (cases i)
  case (Command c)
  then show ?thesis using assms by (cases "(b, c)" rule: command_ok.cases) simp_all
qed simp_all

text \<open>C33: the command line is read back as it was written. For options and commands that the build has, with operands that do not look like options,
  in any order, \<open>Initialize\<close> sets exactly the options given, the last of each kind winning, and \<open>main\<close> runs exactly the
  commands given, in their order; neither loop stops at an assertion, nor takes an argument that is meant for the other. Left out
  are seeds that \<open>atoi\<close> reads as 0, which end the program, \<open>-d\<close> and \<open>-c\<close> without their operands, which are read as such only at the end
  of the line, and \<open>-l\<close> in a build with both the file system and the network, where it means two things. The letter that sets the
  reliability of the network is l, as the code has it; the text that \<open>-h\<close> prints says n.\<close>

theorem command_line_read:
  assumes "list_all (item_ok b) items"
  shows "nachos_main b atof (concat (map item_args items)) =
     Ran (fold (item_option atof) items default_options) ((if THREADS b then [RunThreadTest] else []) @ concat (map item_actions items)) True"
proof -
  have "init_args b atof (concat (map item_args items)) opts = Inr (fold (item_option atof) items opts)" for opts
    using assms by (induction items arbitrary: opts) (simp_all add: init_item)
  moreover have "main_args b (concat (map item_args items)) = (concat (map item_actions items), True)"
    using assms by (induction items) (simp_all add: main_item)
  moreover have "concat (map item_args items) \<noteq> [] \<longrightarrow> hd (concat (map item_args items)) \<noteq> ''-h''"
  proof (cases items)
    case (Cons i xs)
    then have "item_args i \<noteq> [] \<and> hd (item_args i) \<noteq> ''-h''" using assms by (intro item_head [of b]) simp
    then show ?thesis using Cons by simp
  qed simp
  ultimately show ?thesis by (auto simp: nachos_main_def)
qed

text \<open>With both the file system and the network, the letter l of the command line is ambiguous: it both sets the reliability, from an operand that must
  be there, and lists the files.\<close>

lemma letter_l_conflict:
  assumes "FILESYS b" "NETWORK b"
  shows "nachos_main b atof [''-l''] = InitFailed AssertionFailed"
    "plain x \<Longrightarrow> nachos_main b atof [''-l'', x] =
       Ran (default_options\<lparr>rely := atof x\<rparr>) ((if THREADS b then [RunThreadTest] else []) @ [ListFiles]) True"
  using assms
  by (simp_all add: nachos_main_def init_option_def main_command_def user_command_def file_command_def mail_command_def plain_neq)

lemma letter_n_ignored: "init_args b atof (''-n'' # rest) opts = init_args b atof rest opts"
  by (simp add: init_option_def)

theorem command_line_read_witness:
  "nachos_main \<lparr>THREADS = False, USER_PROGRAM = True, FILESYS = True, FILESYS_NEEDED = True, NETWORK = False\<rparr> (\<lambda>_. 1)
     [''-d'', ''t'', ''-rs'', ''42'', ''-f'', ''-cp'', ''halt'', ''h'', ''-x'', ''h'']
   = Ran (default_options\<lparr>debugArgs := ''t'', randomSeed := Some 42, format_disk := True\<rparr>) [CopyFile ''halt'' ''h'', RunProgram ''h''] True"
proof -
  let ?b = "\<lparr>THREADS = False, USER_PROGRAM = True, FILESYS = True, FILESYS_NEEDED = True, NETWORK = False\<rparr>"
  have n: "atoi ''42'' = 42" by code_simp
  have "list_all (item_ok ?b) [Debug ''t'', Seed ''42'', Format, Command (CopyFile ''halt'' ''h''), Command (RunProgram ''h'')]"
    by (simp add: n plain_def)
  from command_line_read [OF this, of "\<lambda>_. 1"] show ?thesis by (simp add: n)
qed

end
