(* ===== verification/ThreadTestModel.thy ===== *)
theory ThreadTestModel
  imports ThreadModel
begin

text \<open>
  The ping-pong of threads/threadtest.cc, run on the kernel of theory ThreadModel from start-up to power-down.

  Every thread executes \<open>SimpleThread\<close>: the main program, as the second half of \<open>ThreadTest\<close>, with 0, and the
  thread that \<open>ThreadTest\<close> starts with the argument 1. The local variable \<open>num\<close> of a thread is kept in \<open>loops\<close>,
  what is printed in \<open>printed\<close>.
\<close>

record tstate =
  kern :: "unit kernel"
  loops :: "addr \<Rightarrow> nat"
  printed :: "(addr \<times> nat) list"

abbreviation (input) "MainThread \<equiv> (2 :: addr)"
abbreviation (input) "ForkedThread \<equiv> (3 :: addr)"
abbreviation (input) "SimpleThread \<equiv> (4 :: addr)"

text \<open>The code that a thread runs between two calls that may switch: an iteration of the loop of \<open>SimpleThread\<close> or its return.\<close>

definition SimpleThread_round :: "(unit, unit) kdispatch \<Rightarrow> addr \<Rightarrow> tstate \<Rightarrow> tstate res option" where
  "SimpleThread_round D which st =
     (let t = currentThread (kern st); num = loops st t in
      if num < 10
      then obind (exec_op D OpYield (kern st)) (\<lambda>s.
        Some (Inr (st\<lparr>kern := s, loops := (loops st)(t := num + 1), printed := printed st @ [(which, num)]\<rparr>)))
      else Some (Inr (st\<lparr>kern := pop_frame (kern st)\<rparr>)))"

definition run_step :: "(unit, unit) kdispatch \<Rightarrow> tstate \<Rightarrow> tstate res option" where
  "run_step D st =
     (case threads (kern st) (currentThread (kern st)) of
        None \<Rightarrow> Some (Inl WildAccess)
      | Some c \<Rightarrow>
         (case kstack c of
            [] \<Rightarrow> Some (Inl WildAccess)
          | Body f which # _ \<Rightarrow> SimpleThread_round D which st
          | f # _ \<Rightarrow> obind (exec_frame D f (pop_frame (kern st))) (\<lambda>s. Some (Inr (st\<lparr>kern := s\<rparr>)))))"

fun run_steps :: "(unit, unit) kdispatch \<Rightarrow> nat \<Rightarrow> tstate \<Rightarrow> tstate \<times> nachos_error option" where
  "run_steps D 0 st = (st, None)"
| "run_steps D (Suc n) st = (case run_step D st of
      Some (Inr st') \<Rightarrow> run_steps D n st'
    | Some (Inl e) \<Rightarrow> (st, Some e)
    | None \<Rightarrow> (st, None))"

definition ThreadTest :: "(unit, unit) kdispatch \<Rightarrow> unit kernel \<Rightarrow> tstate res option" where
  "ThreadTest D s =
     obind (exec_op D (OpNewThread ''forked thread'' ForkedThread) s) (\<lambda>s1.
     obind (exec_op D (OpStart ForkedThread SimpleThread 1) s1) (\<lambda>s2.
     Some (Inr \<lparr>kern = s2, loops = (\<lambda>_. 0), printed = []\<rparr>)))"

declare check_loop.simps [code] sleep_loop.simps [code]

section \<open>The whole run\<close>

lemma run_steps_more: "run_steps D n st = (st', Some e) \<Longrightarrow> run_steps D (n + k) st = (st', Some e)"
  by (induction n arbitrary: st) (auto split: option.splits sum.splits)

text \<open>The run from start-up, without the timer, in \<open>n\<close> steps: what is printed, and why the machine stopped.\<close>

definition test_outcome ::
  "(unit, unit) kdispatch \<Rightarrow> (nat \<Rightarrow> nat) \<Rightarrow> (nat \<Rightarrow> 32 word) \<Rightarrow> nat \<Rightarrow> ((addr \<times> nat) list \<times> nachos_error option) option" where
  "test_outcome D rand regs n = (case obind (Initialize D rand False () 1 MainThread regs) (ThreadTest D) of
      Some (Inr st) \<Rightarrow> (let (st', e) = run_steps D n st in Some (printed st', e))
    | _ \<Rightarrow> None)"

lemma test_outcome_90: "test_outcome D rand regs 90 = Some (concat (map (\<lambda>i. [(0, i), (1, i)]) [0..<10]), Some PowerDown)"
  by code_simp

text \<open>The thread test plays ping-pong to its end. From start-up without the timer, whatever the random numbers, the storage of the
  threads and the handlers are, the main program and the thread that it starts print in turn, ten times each, then both finish, the
  idle machine finds nothing that could happen any more and powers down; 90 steps are enough, and more change nothing.\<close>

lemma ThreadTest_ping_pong:
  "\<exists>st st'. obind (Initialize D rand False () 1 MainThread regs) (ThreadTest D) = Some (Inr st)
     \<and> (\<forall>k. run_steps D (90 + k) st = (st', Some PowerDown)) \<and> printed st' = concat (map (\<lambda>i. [(0, i), (1, i)]) [0..<10])"
proof -
  obtain st where st: "obind (Initialize D rand False () 1 MainThread regs) (ThreadTest D) = Some (Inr st)"
    using test_outcome_90 [of D rand regs] unfolding test_outcome_def by (auto split: option.splits sum.splits)
  obtain st' e where r: "run_steps D 90 st = (st', e)" by (cases "run_steps D 90 st")
  then have "e = Some PowerDown" "printed st' = concat (map (\<lambda>i. [(0, i), (1, i)]) [0..<10])"
    using test_outcome_90 [of D rand regs] st by (simp_all add: test_outcome_def del: upt_rec_numeral)
  then show ?thesis using st r run_steps_more by blast
qed

end
