(* ===== verification/PrintModel.thy ===== *)
theory PrintModel
  imports MipsCorrect
begin

unbundle bit_operations_syntax

text \<open>
  Formatted output of the C library, as far as the sources use it (\<open>printf\<close>, \<open>fprintf\<close>): the conversions
  \<open>%d\<close>, \<open>%u\<close>, \<open>%x\<close>, \<open>%c\<close>, \<open>%s\<close> with an optional \<open>0\<close> and one digit of field width, and \<open>%lld\<close>. Arguments
  of type \<open>int\<close> are 32-bit words. The lemmas show that a printed number can be read back, with or without
  leading zeros.
\<close>

abbreviation (input) "TAB \<equiv> CHR 0x09"
abbreviation (input) "NL \<equiv> CHR 0x0A"

section \<open>Numbers\<close>

definition digit :: "nat \<Rightarrow> char" where
  "digit d = ''0123456789abcdef'' ! d"

fun digits :: "nat \<Rightarrow> nat \<Rightarrow> string" where
  "digits b n = (if b < 2 \<or> n < b then [digit n] else digits b (n div b) @ [digit (n mod b)])"

declare digits.simps [simp del]

definition zero_pad :: "nat \<Rightarrow> string \<Rightarrow> string" where
  "zero_pad w s = replicate (w - length s) (CHR ''0'') @ s"

definition show_int :: "int \<Rightarrow> string" where
  "show_int i = (if i < 0 then CHR ''-'' # digits 10 (nat (- i)) else digits 10 (nat i))"

section \<open>Formats\<close>

datatype parg = PInt "32 word" | PLong int | PStr string

definition conversion :: "char \<Rightarrow> nat \<Rightarrow> parg \<Rightarrow> string" where
  "conversion c w a = (case a of
      PInt v \<Rightarrow>
        if c = CHR ''d'' then show_int (sint v)
        else if c = CHR ''u'' then zero_pad w (digits 10 (unat v))
        else if c = CHR ''x'' then zero_pad w (digits 16 (unat v))
        else [char_of (unat v)]
    | PLong i \<Rightarrow> show_int i
    | PStr s \<Rightarrow> s)"

text \<open>The field width (\<open>08\<close>), and the length modifier (\<open>ll\<close>), which only selects the type of the argument.\<close>

definition field_width :: "string \<Rightarrow> nat \<times> string" where
  "field_width f = (if take 1 f = ''0'' then (of_char (f ! 1) - 48, drop 2 f) else (0, if take 2 f = ''ll'' then drop 2 f else f))"

lemma field_width_length [termination_simp]: "(w, g) = field_width f \<Longrightarrow> length g \<le> length f"
  by (auto simp: field_width_def split: if_splits)

text \<open>A conversion without an argument is undefined; nothing more is printed then.\<close>

fun printf :: "string \<Rightarrow> parg list \<Rightarrow> string" where
  "printf [] as = []"
| "printf (c # f) as =
     (if c \<noteq> CHR ''%'' then c # printf f as
      else (case field_width f of (w, g) \<Rightarrow>
        (case (g, as) of (k # r, a # bs) \<Rightarrow> conversion k w a @ printf r bs | _ \<Rightarrow> [])))"

section \<open>Reading a number back\<close>

definition digit_value :: "char \<Rightarrow> nat" where
  "digit_value c = (if of_char c < (58 :: nat) then of_char c - 48 else of_char c - 87)"

definition number :: "nat \<Rightarrow> string \<Rightarrow> nat" where
  "number b s = foldl (\<lambda>v c. b * v + digit_value c) 0 s"

lemma digit_value_digit: "d < 16 \<Longrightarrow> digit_value (digit d) = d"
proof -
  have "list_all (\<lambda>d. digit_value (digit d) = d) [0..<16]" by code_simp
  then show "d < 16 \<Longrightarrow> ?thesis" by (simp only: list_all_iff set_upt) simp
qed

lemma number_append: "number b (s @ [c]) = b * number b s + digit_value c"
  by (simp add: number_def)

lemma number_digits: "2 \<le> b \<Longrightarrow> b \<le> 16 \<Longrightarrow> number b (digits b n) = n"
proof (induction b n rule: digits.induct)
  case (1 b n)
  show ?case
  proof (cases "n < b")
    case True
    then show ?thesis using "1.prems" by (subst digits.simps) (simp add: number_def digit_value_digit)
  next
    case False
    have "n mod b < 16" using "1.prems" mod_less_divisor [of b n] by linarith
    then show ?thesis using 1 False by (subst digits.simps) (simp add: number_append digit_value_digit)
  qed
qed

lemma number_zero_pad: "number b (zero_pad w s) = number b s"
proof -
  have "foldl (\<lambda>v c. b * v + digit_value c) 0 (replicate k (CHR ''0'') @ s) = foldl (\<lambda>v c. b * v + digit_value c) 0 s" for k
    by (induction k) (simp_all add: digit_value_def)
  then show ?thesis by (simp add: number_def zero_pad_def)
qed

lemma hex_inject: "zero_pad w (digits 16 (unat x)) = zero_pad w (digits 16 (unat y)) \<longleftrightarrow> x = y"
proof
  assume "zero_pad w (digits 16 (unat x)) = zero_pad w (digits 16 (unat y))"
  then have "number 16 (digits 16 (unat x)) = number 16 (digits 16 (unat y))" by (metis number_zero_pad)
  then show "x = y" by (simp add: number_digits word_unat_eq_iff)
qed simp

text \<open>The characters of a number in hexadecimal: no punctuation.\<close>

lemma set_digits: "2 \<le> b \<Longrightarrow> b \<le> 16 \<Longrightarrow> set (digits b n) \<subseteq> set ''0123456789abcdef''"
proof (induction b n rule: digits.induct)
  case (1 b n)
  have d: "d < 16 \<Longrightarrow> digit d \<in> set ''0123456789abcdef''" for d
    unfolding digit_def by (rule nth_mem) simp
  have "n mod b < 16" using "1.prems" mod_less_divisor [of b n] by linarith
  then have "digit (n mod b) \<in> set ''0123456789abcdef''" by (rule d)
  moreover have "n < b \<Longrightarrow> digit n \<in> set ''0123456789abcdef''" using d "1.prems" by simp
  ultimately have "set (digits b n) \<subseteq> S" if "S = set ''0123456789abcdef''" for S
    using 1 unfolding that [symmetric] by (subst digits.simps) simp
  then show ?case by blast
qed

lemma set_hex: "set (zero_pad w (digits 16 n)) \<subseteq> set ''0123456789abcdef''"
  using set_digits [of 16 n] by (auto simp: zero_pad_def)

end
