(* ===== verification/DisasmModel.thy ===== *)
theory DisasmModel
  imports PrintModel DiskModel
begin

unbundle bit_operations_syntax

text \<open>
  The disassembler (bin/d.c, bin/instr.h, bin/encode.h, bin/opstrings.c, bin/disasm.c, bin/int.h) and the trace that the
  simulated processor prints (machine/mipssim.h, machine/mipssim.cc).

  The macros of instr.h select fields of an instruction. \<open>dump_ascii\<close> is the text of an instruction; \<open>longdis\<close>, a
  global variable, is its first argument. The lemmas compare it with the simulator: the same
  mnemonics, and for most instructions all operands that the simulator's own table lists.
\<close>

section \<open>Instruction formats\<close>

definition rd :: "32 word \<Rightarrow> nat" where
  "rd i = unat (drop_bit 11 i AND 0x1f)"

definition rt :: "32 word \<Rightarrow> nat" where
  "rt i = unat (drop_bit 16 i AND 0x1f)"

definition rs :: "32 word \<Rightarrow> nat" where
  "rs i = unat (drop_bit 21 i AND 0x1f)"

definition shamt :: "32 word \<Rightarrow> 32 word" where
  "shamt i = drop_bit 6 i AND 0x1f"

definition immed :: "32 word \<Rightarrow> 32 word" where
  "immed i = (if i AND 0x8000 \<noteq> 0 then i OR (- 0x8000) else i AND 0x7fff)"

definition off26 :: "32 word \<Rightarrow> 32 word" where
  "off26 i = push_bit 2 (i AND 0x3ffffff)"

definition top4 :: "32 word \<Rightarrow> 32 word" where
  "top4 i = i AND NOT 0xfffffff"

definition off16 :: "32 word \<Rightarrow> 32 word" where
  "off16 i = push_bit 2 (immed i)"

section \<open>Operation codes\<close>

abbreviation (input) "I_SPECIAL \<equiv> (0 :: nat)"
abbreviation (input) "I_BCOND \<equiv> (1 :: nat)"
abbreviation (input) "I_J \<equiv> (2 :: nat)"
abbreviation (input) "I_JAL \<equiv> (3 :: nat)"
abbreviation (input) "I_BEQ \<equiv> (4 :: nat)"
abbreviation (input) "I_BNE \<equiv> (5 :: nat)"
abbreviation (input) "I_BLEZ \<equiv> (6 :: nat)"
abbreviation (input) "I_BGTZ \<equiv> (7 :: nat)"
abbreviation (input) "I_ADDI \<equiv> (8 :: nat)"
abbreviation (input) "I_ADDIU \<equiv> (9 :: nat)"
abbreviation (input) "I_SLTI \<equiv> (10 :: nat)"
abbreviation (input) "I_SLTIU \<equiv> (11 :: nat)"
abbreviation (input) "I_ANDI \<equiv> (12 :: nat)"
abbreviation (input) "I_ORI \<equiv> (13 :: nat)"
abbreviation (input) "I_XORI \<equiv> (14 :: nat)"
abbreviation (input) "I_LUI \<equiv> (15 :: nat)"
abbreviation (input) "I_COP0 \<equiv> (16 :: nat)"
abbreviation (input) "I_COP1 \<equiv> (17 :: nat)"
abbreviation (input) "I_COP2 \<equiv> (18 :: nat)"
abbreviation (input) "I_COP3 \<equiv> (19 :: nat)"
abbreviation (input) "I_LB \<equiv> (32 :: nat)"
abbreviation (input) "I_LH \<equiv> (33 :: nat)"
abbreviation (input) "I_LWL \<equiv> (34 :: nat)"
abbreviation (input) "I_LW \<equiv> (35 :: nat)"
abbreviation (input) "I_LBU \<equiv> (36 :: nat)"
abbreviation (input) "I_LHU \<equiv> (37 :: nat)"
abbreviation (input) "I_LWR \<equiv> (38 :: nat)"
abbreviation (input) "I_SB \<equiv> (40 :: nat)"
abbreviation (input) "I_SH \<equiv> (41 :: nat)"
abbreviation (input) "I_SWL \<equiv> (42 :: nat)"
abbreviation (input) "I_SW \<equiv> (43 :: nat)"
abbreviation (input) "I_SWR \<equiv> (46 :: nat)"
abbreviation (input) "I_LWC0 \<equiv> (48 :: nat)"
abbreviation (input) "I_LWC1 \<equiv> (49 :: nat)"
abbreviation (input) "I_LWC2 \<equiv> (50 :: nat)"
abbreviation (input) "I_LWC3 \<equiv> (51 :: nat)"
abbreviation (input) "I_SWC0 \<equiv> (56 :: nat)"
abbreviation (input) "I_SWC1 \<equiv> (57 :: nat)"
abbreviation (input) "I_SWC2 \<equiv> (58 :: nat)"
abbreviation (input) "I_SWC3 \<equiv> (59 :: nat)"
abbreviation (input) "I_SLL \<equiv> (0 :: nat)"
abbreviation (input) "I_SRL \<equiv> (2 :: nat)"
abbreviation (input) "I_SRA \<equiv> (3 :: nat)"
abbreviation (input) "I_SLLV \<equiv> (4 :: nat)"
abbreviation (input) "I_SRLV \<equiv> (6 :: nat)"
abbreviation (input) "I_SRAV \<equiv> (7 :: nat)"
abbreviation (input) "I_JR \<equiv> (8 :: nat)"
abbreviation (input) "I_JALR \<equiv> (9 :: nat)"
abbreviation (input) "I_SYSCALL \<equiv> (12 :: nat)"
abbreviation (input) "I_BREAK \<equiv> (13 :: nat)"
abbreviation (input) "I_MFHI \<equiv> (16 :: nat)"
abbreviation (input) "I_MTHI \<equiv> (17 :: nat)"
abbreviation (input) "I_MFLO \<equiv> (18 :: nat)"
abbreviation (input) "I_MTLO \<equiv> (19 :: nat)"
abbreviation (input) "I_MULT \<equiv> (24 :: nat)"
abbreviation (input) "I_MULTU \<equiv> (25 :: nat)"
abbreviation (input) "I_DIV \<equiv> (26 :: nat)"
abbreviation (input) "I_DIVU \<equiv> (27 :: nat)"
abbreviation (input) "I_ADD \<equiv> (32 :: nat)"
abbreviation (input) "I_ADDU \<equiv> (33 :: nat)"
abbreviation (input) "I_SUB \<equiv> (34 :: nat)"
abbreviation (input) "I_SUBU \<equiv> (35 :: nat)"
abbreviation (input) "I_AND \<equiv> (36 :: nat)"
abbreviation (input) "I_OR \<equiv> (37 :: nat)"
abbreviation (input) "I_XOR \<equiv> (38 :: nat)"
abbreviation (input) "I_NOR \<equiv> (39 :: nat)"
abbreviation (input) "I_SLT \<equiv> (42 :: nat)"
abbreviation (input) "I_SLTU \<equiv> (43 :: nat)"
abbreviation (input) "I_BLTZ \<equiv> (0 :: nat)"
abbreviation (input) "I_BGEZ \<equiv> (1 :: nat)"
abbreviation (input) "I_BLTZAL \<equiv> (16 :: nat)"
abbreviation (input) "I_BGEZAL \<equiv> (17 :: nat)"
abbreviation (input) "I_NOP \<equiv> (0 :: 32 word)"

section \<open>Names\<close>

definition regstrings :: "string list" where
  "regstrings = [
     ''0'', ''r1'', ''r2'', ''r3'', ''r4'', ''r5'', ''r6'', ''r7'', ''r8'', ''r9'',
     ''r10'', ''r11'', ''r12'', ''r13'', ''r14'', ''r15'', ''r16'', ''r17'', ''r18'', ''r19'',
     ''r20'', ''r21'', ''r22'', ''r23'', ''r24'', ''r25'', ''r26'', ''r27'', ''gp'', ''sp'',
     ''r30'', ''r31'']"

definition R :: "nat \<Rightarrow> parg" where
  "R i = PStr (regstrings ! i)"

definition normalops :: "string list" where
  "normalops = [
     ''special'', ''bcond'', ''j'', ''jal'', ''beq'', ''bne'', ''blez'', ''bgtz'',
     ''addi'', ''addiu'', ''slti'', ''sltiu'', ''andi'', ''ori'', ''xori'', ''lui'',
     ''cop0'', ''cop1'', ''cop2'', ''cop3'', ''024'', ''025'', ''026'', ''027'',
     ''030'', ''031'', ''032'', ''033'', ''034'', ''035'', ''036'', ''037'',
     ''lb'', ''lh'', ''lwl'', ''lw'', ''lbu'', ''lhu'', ''lwr'', ''047'',
     ''sb'', ''sh'', ''swl'', ''sw'', ''054'', ''055'', ''swr'', ''057'',
     ''lwc0'', ''lwc1'', ''lwc2'', ''lwc3'', ''064'', ''065'', ''066'', ''067'',
     ''swc0'', ''swc1'', ''swc2'', ''swc3'', ''074'', ''075'', ''076'', ''077'']"

definition specialops :: "string list" where
  "specialops = [
     ''sll'', ''001'', ''srl'', ''sra'', ''sllv'', ''005'', ''srlv'', ''srav'',
     ''jr'', ''jalr'', ''012'', ''013'', ''syscall'', ''break'', ''016'', ''017'',
     ''mfhi'', ''mthi'', ''mflo'', ''mtlo'', ''024'', ''025'', ''026'', ''027'',
     ''mult'', ''multu'', ''div'', ''divu'', ''034'', ''035'', ''036'', ''037'',
     ''add'', ''addu'', ''sub'', ''subu'', ''and'', ''or'', ''xor'', ''nor'',
     ''050'', ''051'', ''slt'', ''sltu'', ''054'', ''055'', ''056'', ''057'',
     ''060'', ''061'', ''062'', ''063'', ''064'', ''065'', ''066'', ''067'',
     ''070'', ''071'', ''072'', ''073'', ''074'', ''075'', ''076'', ''077'']"

text \<open>The formats of the simulator's trace, with the operands that they print.\<close>

definition opStrings :: "(string \<times> RegType list) list" where
  \<open>opStrings = [
     (''Shouldn't happen'', [NONE, NONE, NONE]), (''ADD r%d,r%d,r%d'', [RD, RS, RT]),
     (''ADDI r%d,r%d,%d'', [RT, RS, EXTRA]), (''ADDIU r%d,r%d,%d'', [RT, RS, EXTRA]),
     (''ADDU r%d,r%d,r%d'', [RD, RS, RT]), (''AND r%d,r%d,r%d'', [RD, RS, RT]),
     (''ANDI r%d,r%d,%d'', [RT, RS, EXTRA]), (''BEQ r%d,r%d,%d'', [RS, RT, EXTRA]),
     (''BGEZ r%d,%d'', [RS, EXTRA, NONE]), (''BGEZAL r%d,%d'', [RS, EXTRA, NONE]),
     (''BGTZ r%d,%d'', [RS, EXTRA, NONE]), (''BLEZ r%d,%d'', [RS, EXTRA, NONE]),
     (''BLTZ r%d,%d'', [RS, EXTRA, NONE]), (''BLTZAL r%d,%d'', [RS, EXTRA, NONE]),
     (''BNE r%d,r%d,%d'', [RS, RT, EXTRA]), (''Shouldn't happen'', [NONE, NONE, NONE]),
     (''DIV r%d,r%d'', [RS, RT, NONE]), (''DIVU r%d,r%d'', [RS, RT, NONE]),
     (''J 4*%d'', [EXTRA, NONE, NONE]), (''JAL 4*%d'', [EXTRA, NONE, NONE]),
     (''JALR r%d,r%d'', [RD, RS, NONE]), (''JR r%d,r%d'', [RD, RS, NONE]),
     (''LB r%d,%d(r%d)'', [RT, EXTRA, RS]), (''LBU r%d,%d(r%d)'', [RT, EXTRA, RS]),
     (''LH r%d,%d(r%d)'', [RT, EXTRA, RS]), (''LHU r%d,%d(r%d)'', [RT, EXTRA, RS]),
     (''LUI r%d,%d'', [RT, EXTRA, NONE]), (''LW r%d,%d(r%d)'', [RT, EXTRA, RS]),
     (''LWL r%d,%d(r%d)'', [RT, EXTRA, RS]), (''LWR r%d,%d(r%d)'', [RT, EXTRA, RS]),
     (''Shouldn't happen'', [NONE, NONE, NONE]), (''MFHI r%d'', [RD, NONE, NONE]),
     (''MFLO r%d'', [RD, NONE, NONE]), (''Shouldn't happen'', [NONE, NONE, NONE]),
     (''MTHI r%d'', [RS, NONE, NONE]), (''MTLO r%d'', [RS, NONE, NONE]),
     (''MULT r%d,r%d'', [RS, RT, NONE]), (''MULTU r%d,r%d'', [RS, RT, NONE]),
     (''NOR r%d,r%d,r%d'', [RD, RS, RT]), (''OR r%d,r%d,r%d'', [RD, RS, RT]),
     (''ORI r%d,r%d,%d'', [RT, RS, EXTRA]), (''RFE'', [NONE, NONE, NONE]),
     (''SB r%d,%d(r%d)'', [RT, EXTRA, RS]), (''SH r%d,%d(r%d)'', [RT, EXTRA, RS]),
     (''SLL r%d,r%d,%d'', [RD, RT, EXTRA]), (''SLLV r%d,r%d,r%d'', [RD, RT, RS]),
     (''SLT r%d,r%d,r%d'', [RD, RS, RT]), (''SLTI r%d,r%d,%d'', [RT, RS, EXTRA]),
     (''SLTIU r%d,r%d,%d'', [RT, RS, EXTRA]), (''SLTU r%d,r%d,r%d'', [RD, RS, RT]),
     (''SRA r%d,r%d,%d'', [RD, RT, EXTRA]), (''SRAV r%d,r%d,r%d'', [RD, RT, RS]),
     (''SRL r%d,r%d,%d'', [RD, RT, EXTRA]), (''SRLV r%d,r%d,r%d'', [RD, RT, RS]),
     (''SUB r%d,r%d,r%d'', [RD, RS, RT]), (''SUBU r%d,r%d,r%d'', [RD, RS, RT]),
     (''SW r%d,%d(r%d)'', [RT, EXTRA, RS]), (''SWL r%d,%d(r%d)'', [RT, EXTRA, RS]),
     (''SWR r%d,%d(r%d)'', [RT, EXTRA, RS]), (''XOR r%d,r%d,r%d'', [RD, RS, RT]),
     (''XORI r%d,r%d,%d'', [RT, RS, EXTRA]), (''SYSCALL'', [NONE, NONE, NONE]),
     (''Unimplemented'', [NONE, NONE, NONE]), (''Reserved'', [NONE, NONE, NONE])]\<close>

section \<open>The disassembler\<close>

definition dump_special :: "32 word \<Rightarrow> string" where
  "dump_special instruction =
     (let opcode = unat (instruction AND 0x3f) in
      printf (''%s'' @ [TAB]) [PStr (specialops ! opcode)] @
      (if opcode \<in> set [I_SLL, I_SRL, I_SRA] then
         printf ''%s,%s,0x%x'' [R (rd instruction), R (rt instruction), PInt (shamt instruction)]
       else if opcode \<in> set [I_SLLV, I_SRLV, I_SRAV] then
         printf ''%s,%s,%s'' [R (rd instruction), R (rt instruction), R (rs instruction)]
       else if opcode \<in> set [I_JR, I_JALR, I_MFLO, I_MTLO] then printf ''%s'' [R (rs instruction)]
       else if opcode \<in> set [I_SYSCALL, I_BREAK] then []
       else if opcode \<in> set [I_MFHI, I_MTHI] then printf ''%s'' [R (rd instruction)]
       else if opcode \<in> set [I_MULT, I_MULTU, I_DIV, I_DIVU] then printf ''%s,%s'' [R (rs instruction), R (rt instruction)]
       else if opcode \<in> set [I_ADD, I_ADDU, I_SUB, I_SUBU, I_AND, I_OR, I_XOR, I_NOR, I_SLT, I_SLTU] then
         printf ''%s,%s,%s'' [R (rd instruction), R (rs instruction), R (rt instruction)]
       else []))"

definition dump_bcond :: "32 word \<Rightarrow> 32 word \<Rightarrow> string" where
  "dump_bcond instruction pc =
     (let op = rt instruction in
      printf (if op = I_BLTZ then ''bltz'' else if op = I_BGEZ then ''bgez'' else if op = I_BLTZAL then ''bltzal''
              else if op = I_BGEZAL then ''bgezal'' else ''BCOND'') [] @
      printf (TAB # ''%s,%08x'') [R (rs instruction), PInt (off16 instruction + pc + 4)])"

definition dump_normal :: "nat \<Rightarrow> 32 word \<Rightarrow> 32 word \<Rightarrow> string" where
  "dump_normal opcode instruction pc =
     printf (''%s'' @ [TAB]) [PStr (normalops ! opcode)] @
     (if opcode \<in> set [I_J, I_JAL] then printf ''%08x'' [PInt (top4 pc OR off26 instruction)]
      else if opcode \<in> set [I_BEQ, I_BNE] then
        printf ''%s,%s,%08x'' [R (rt instruction), R (rs instruction), PInt (off16 instruction + pc + 4)]
      else if opcode \<in> set [I_ADDI, I_ADDIU, I_SLTI, I_SLTIU, I_ANDI, I_ORI, I_XORI] then
        printf ''%s,%s,0x%x'' [R (rt instruction), R (rs instruction), PInt (immed instruction)]
      else if opcode = I_LUI then printf ''%s,0x%x'' [R (rt instruction), PInt (immed instruction)]
      else if opcode \<in> set [I_COP0, I_COP1, I_COP2, I_COP3] then []
      else if opcode \<in> set [I_LB, I_LH, I_LWL, I_LW, I_LBU, I_LHU, I_LWR, I_SB, I_SH, I_SWL, I_SW, I_SWR,
                            I_LWC0, I_LWC1, I_LWC2, I_LWC3, I_SWC0, I_SWC1, I_SWC2, I_SWC3] then
        printf ''%s,0x%x(%s)'' [R (rt instruction), PInt (immed instruction), R (rs instruction)]
      else [])"

definition dump_ascii :: "bool \<Rightarrow> 32 word \<Rightarrow> 32 word \<Rightarrow> string" where
  "dump_ascii longdis instruction pc =
     (if longdis then printf ''%08x: %08x  '' [PInt pc, PInt instruction] else []) @ printf [TAB] [] @
     (let opcode = unat (drop_bit 26 instruction) in
      if instruction = I_NOP then printf ''nop'' []
      else if opcode = I_SPECIAL then dump_special instruction
      else if opcode = I_BCOND then dump_bcond instruction pc
      else dump_normal opcode instruction pc)"

section \<open>The trace of the simulated processor\<close>

text \<open>The debugging output of \<open>OneInstruction\<close>; the assertion that the operation code is at most \<open>MaxOpcode\<close>.\<close>

definition trace_instruction :: "32 word \<Rightarrow> Instruction \<Rightarrow> string res" where
  "trace_instruction pc i =
     rbind (ASSERT (opCode i \<le> 63)) (\<lambda>_.
     let str = opStrings ! opCode i in
     Inr (printf ''At PC = 0x%x: '' [PInt pc] @ printf (fst str) (map (\<lambda>t. PInt (word_of_int (TypeToReg t i))) (snd str)) @ [NL]))"

section \<open>Listing a program\<close>

text \<open>The memory of the tools (int.h): \<open>MEMSIZE\<close> bytes, which programs see from \<open>memoffset\<close> on.\<close>

abbreviation (input) "MEMSIZE \<equiv> (16777216 :: int)"
abbreviation (input) "memoffset \<equiv> (0x10000000 :: 32 word)"

definition mem_index :: "32 word \<Rightarrow> int" where
  "mem_index addr = sint addr - sint memoffset"

definition in_mem :: "32 word \<Rightarrow> nat \<Rightarrow> bool" where
  "in_mem addr n \<longleftrightarrow> 0 \<le> mem_index addr \<and> mem_index addr + int n \<le> MEMSIZE"

definition fetch :: "bool \<Rightarrow> (nat \<Rightarrow> 8 word) \<Rightarrow> 32 word \<Rightarrow> (32 word) res" where
  "fetch be mem addr = (if in_mem addr 4 then Inr (host_load32 be mem (nat (mem_index addr))) else Inl WildAccess)"

fun disasm_loop :: "bool \<Rightarrow> (nat \<Rightarrow> 8 word) \<Rightarrow> nat \<Rightarrow> 32 word \<Rightarrow> string res" where
  "disasm_loop be mem 0 pc = Inr []"
| "disasm_loop be mem (Suc n) pc =
     rbind (fetch be mem pc) (\<lambda>instr.
     rbind (disasm_loop be mem n (pc + 4)) (\<lambda>out. Inr (dump_ascii True instr pc @ [NL] @ out)))"

text \<open>\<open>disasm\<close>: one line for every four bytes of the text section, also for a last part of a word.\<close>

definition disasm :: "bool \<Rightarrow> (nat \<Rightarrow> 8 word) \<Rightarrow> int \<Rightarrow> string res" where
  "disasm be mem text_size = disasm_loop be mem (nat ((text_size + 3) div 4)) memoffset"

section \<open>Fields and tables\<close>

text \<open>Facts about a whole table, by evaluation, are used at an index.\<close>

lemma table_at: "list_all P [0..<n] \<Longrightarrow> k < n \<Longrightarrow> P k"
  by (simp add: list_all_iff)

lemma fields_less: "rd v < 32" "rs v < 32" "rt v < 32"
  by (simp_all add: rd_def rs_def rt_def and_mask_less)

lemma Decode_fields [simp]:
  "ird (Decode v) = rd v" "irs (Decode v) = rs v" "irt (Decode v) = rt v"
  by (simp_all add: Decode_def Let_def rd_def rs_def rt_def)

lemma top_field: "unat (drop_bit 26 (v :: 32 word) AND 0x3f) = unat (drop_bit 26 v)"
proof -
  have "drop_bit 26 v AND 0x3f = take_bit 6 (drop_bit 26 v)" by (simp add: take_bit_eq_mask mask_eq_exp_minus_1)
  also have "\<dots> = drop_bit 26 v" by (rule bit_word_eqI) (auto simp: bit_take_bit_iff bit_drop_bit_eq dest: bit_imp_le_length)
  finally show ?thesis by simp
qed

lemma opcode_less: "unat (drop_bit 26 (v :: 32 word)) < 64"
  using and_mask_less(2) [of "drop_bit 26 v"] by (simp add: top_field)

lemma rt_field: "v AND 0x1f0000 = push_bit 16 (word_of_nat (rt v))"
proof -
  have m: "(0x1f0000 :: 32 word) = push_bit 16 (mask 5)" "(0x1f :: 32 word) = mask 5" by (simp_all add: mask_eq_exp_minus_1)
  have "v AND 0x1f0000 = push_bit 16 (drop_bit 16 v AND 0x1f)"
    unfolding m by (rule bit_word_eqI) (auto simp: word32_bits)
  then show ?thesis by (simp add: rt_def)
qed

lemma bcond_table:
  "k < 32 \<Longrightarrow> (let i = push_bit 16 (word_of_nat k) :: 32 word in
     (i = 0 \<longleftrightarrow> k = 0) \<and> (i = 0x10000 \<longleftrightarrow> k = 1) \<and> (i = 0x100000 \<longleftrightarrow> k = 16) \<and> (i = 0x110000 \<longleftrightarrow> k = 17))"
  by (rule table_at [of _ 32]) code_simp

lemma opTable_codes:
  "k < 64 \<Longrightarrow> (k = 0 \<longleftrightarrow> fst (opTable ! k) = SPECIAL) \<and> (k = 1 \<longleftrightarrow> fst (opTable ! k) = BCOND)
     \<and> (snd (opTable ! k) = (if k = 0 then RFMT else if k = 2 \<or> k = 3 then JFMT else IFMT))"
  by (rule table_at [of _ 64]) code_simp

text \<open>The operation code of the simulator, over the fields that the disassembler reads.\<close>

definition bcond_code :: "nat \<Rightarrow> nat" where
  "bcond_code k = (if k = 0 then OP_BLTZ else if k = 1 then OP_BGEZ else if k = 16 then OP_BLTZAL
     else if k = 17 then OP_BGEZAL else OP_UNIMP)"

lemma Decode_code:
  "opCode (Decode v) = (let k = unat (drop_bit 26 v) in
     if k = 0 then specialTable ! unat (v AND 0x3f) else if k = 1 then bcond_code (rt v) else fst (opTable ! k))"
  using opTable_codes [OF opcode_less [of v]] bcond_table [OF fields_less(3) [of v]]
  by (simp add: Decode_def Let_def top_field rt_field bcond_code_def)

lemma and_bit15: "(x :: 32 word) AND push_bit 15 1 \<noteq> 0 \<longleftrightarrow> bit x 15"
proof -
  have "x AND push_bit 15 1 \<noteq> 0 \<longleftrightarrow> (\<exists>n. bit (x AND push_bit 15 1) n)" by (metis bit_0_eq bit_eqI bot_apply bot_bool_def)
  moreover have "bit (x AND push_bit 15 1) n \<longleftrightarrow> n = 15 \<and> bit x 15" for n
    by (simp only: bit_and_iff bit_push_bit_iff bit_1_iff) (auto dest: bit_imp_le_length)
  ultimately show ?thesis by simp
qed

lemma immed_sign: "immed v = (let e = v AND 0xffff in if e AND 0x8000 \<noteq> 0 then e OR 0xffff0000 else e)"
proof -
  have m: "(0xffff :: 32 word) = mask 16" "(0x8000 :: 32 word) = push_bit 15 1" "(0xffff0000 :: 32 word) = NOT (mask 16)"
    "(0x7fff :: 32 word) = mask 15" by (simp_all add: mask_eq_exp_minus_1)
  have m': "(- 0x8000 :: 32 word) = NOT (mask 15)" by (simp add: mask_eq_exp_minus_1)
  have e: "n < 16 \<longleftrightarrow> n < 15 \<or> n = 15" for n :: nat by auto
  show ?thesis
    unfolding immed_def Let_def m' unfolding m and_bit15
    by (rule bit_word_eqI) (auto simp: bit_and_iff bit_or_iff bit_not_iff bit_mask_iff e)
qed

lemma Decode_extra:
  "iextra (Decode v) = (let k = unat (drop_bit 26 v) in
     if k = 0 then shamt v else if k = 2 \<or> k = 3 then v AND 0x3ffffff else immed v)"
  using opTable_codes [OF opcode_less [of v]] by (simp add: Decode_def Let_def top_field shamt_def immed_sign)

section \<open>Mnemonics\<close>

definition lower :: "char \<Rightarrow> char" where
  "lower c = (let n = of_char c :: nat in if 65 \<le> n \<and> n \<le> 90 then char_of (n + 32) else c)"

text \<open>The name that the simulator's trace gives to an operation code, in lower case, and the first word of a disassembled line.\<close>

definition trace_name :: "nat \<Rightarrow> string" where
  "trace_name k = map lower (takeWhile (\<lambda>c. c \<noteq> CHR '' '') (fst (opStrings ! k)))"

definition mnemonic :: "string \<Rightarrow> string" where
  "mnemonic text = takeWhile (\<lambda>c. c \<noteq> TAB) (drop 1 text)"

definition bcond_name :: "nat \<Rightarrow> string" where
  "bcond_name op = (if op = I_BLTZ then ''bltz'' else if op = I_BGEZ then ''bgez'' else if op = I_BLTZAL then ''bltzal''
              else if op = I_BGEZAL then ''bgezal'' else ''BCOND'')"

definition op_name :: "32 word \<Rightarrow> string" where
  "op_name v = (let k = unat (drop_bit 26 v) in
     if k = 0 then specialops ! unat (v AND 0x3f) else if k = 1 then bcond_name (rt v) else normalops ! k)"

definition known :: "nat \<Rightarrow> bool" where
  "known k \<longleftrightarrow> k \<noteq> OP_RES \<and> k \<noteq> OP_UNIMP"

definition name_of :: "nat \<Rightarrow> string \<Rightarrow> bool" where
  "name_of k s \<longleftrightarrow> TAB \<notin> set s \<and> (known k \<longrightarrow> s = trace_name k)"

lemma special_names: "k < 64 \<Longrightarrow> name_of (specialTable ! k) (specialops ! k)"
  by (rule table_at [of _ 64]) code_simp

lemma normal_names: "k < 64 \<Longrightarrow> k \<noteq> 0 \<Longrightarrow> k \<noteq> 1 \<Longrightarrow> name_of (fst (opTable ! k)) (normalops ! k)"
proof -
  have "list_all (\<lambda>k. k \<noteq> 0 \<longrightarrow> k \<noteq> 1 \<longrightarrow> name_of (fst (opTable ! k)) (normalops ! k)) [0..<64]" by code_simp
  then show "k < 64 \<Longrightarrow> k \<noteq> 0 \<Longrightarrow> k \<noteq> 1 \<Longrightarrow> ?thesis" by (blast dest: table_at)
qed

lemma bcond_names: "k < 32 \<Longrightarrow> name_of (bcond_code k) (bcond_name k)"
  by (rule table_at [of _ 32]) code_simp

lemma op_name: "name_of (opCode (Decode v)) (op_name v)"
  using special_names [OF and_mask_less(2) [of v]] normal_names [OF opcode_less [of v]] bcond_names [OF fields_less(3) [of v]]
  by (simp add: op_name_def Decode_code Let_def)

lemma printf_plain: "CHR ''%'' \<notin> set s \<Longrightarrow> printf (s @ f) as = s @ printf f as"
  by (induction s) auto

lemmas print_shapes = field_width_def conversion_def R_def

lemma dump_special_shape: "\<exists>r. dump_special v = specialops ! unat (v AND 0x3f) @ TAB # r"
  by (simp add: dump_special_def Let_def print_shapes)

lemma dump_normal_shape: "\<exists>r. dump_normal k v pc = normalops ! k @ TAB # r"
  by (simp add: dump_normal_def print_shapes)

lemma dump_bcond_shape: "\<exists>r. dump_bcond v pc = bcond_name (rt v) @ TAB # r"
  by (simp add: dump_bcond_def bcond_name_def Let_def print_shapes)

lemma dump_shape:
  assumes "v \<noteq> 0"
  shows "\<exists>r. dump_ascii False v pc = TAB # op_name v @ TAB # r"
  using assms dump_special_shape [of v] dump_normal_shape [of "unat (drop_bit 26 v)" v pc] dump_bcond_shape [of v pc]
  by (auto simp: dump_ascii_def op_name_def Let_def)

lemma disassembler_mnemonic:
  assumes "v \<noteq> 0" "known (opCode (Decode v))"
  shows "mnemonic (dump_ascii False v pc) = trace_name (opCode (Decode v))"
proof -
  obtain r where "dump_ascii False v pc = TAB # op_name v @ TAB # r" using dump_shape [OF assms(1)] by blast
  then show ?thesis using op_name [of v] assms(2)
    by (simp add: mnemonic_def name_of_def takeWhile_append) (metis (full_types))
qed

text \<open>C21: the disassembler and the trace of the simulated processor name instructions alike: the mnemonic that
  \<open>dump_ascii\<close> prints for a word is, in lower case, the one in the table \<open>opStrings\<close> at the operation code
  that Decode finds, for every word that is not the no-operation and that the processor implements.\<close>

theorem disassembler_names:
  assumes "v \<noteq> 0" "known (opCode (Decode v))"
  shows "mnemonic (dump_ascii False v pc) = trace_name (opCode (Decode v))"
  using disassembler_mnemonic [OF assms] .

theorem disassembler_names_witness:
  "mnemonic (dump_ascii False 0x27bd0018 0) = ''addiu'' \<and> dump_ascii False 0x27bd0018 0 = TAB # ''addiu'' @ TAB # ''sp,sp,0x18''"
proof -
  have "known (opCode (Decode 0x27bd0018)) \<and> trace_name (opCode (Decode 0x27bd0018)) = ''addiu''" by code_simp
  then have "mnemonic (dump_ascii False 0x27bd0018 0) = ''addiu''" using disassembler_names [of "0x27bd0018" "0"] by simp
  moreover have "dump_ascii False 0x27bd0018 0 = TAB # ''addiu'' @ TAB # ''sp,sp,0x18''" by code_simp
  ultimately show ?thesis ..
qed

section \<open>Operands\<close>

text \<open>The groups of instructions that are printed alike: over the function field, the opcode field and the operation codes of the simulator.\<close>

definition special_group :: "nat \<Rightarrow> nat" where
  "special_group n =
     (if n \<in> set [I_SLL, I_SRL, I_SRA] then 1 else if n \<in> set [I_SLLV, I_SRLV, I_SRAV] then 2
      else if n \<in> set [I_JR, I_JALR, I_MFLO, I_MTLO] then 3 else if n \<in> set [I_MFHI, I_MTHI] then 4
      else if n \<in> set [I_MULT, I_MULTU, I_DIV, I_DIVU] then 5
      else if n \<in> set [I_ADD, I_ADDU, I_SUB, I_SUBU, I_AND, I_OR, I_XOR, I_NOR, I_SLT, I_SLTU] then 6 else 0)"

definition normal_group :: "nat \<Rightarrow> nat" where
  "normal_group n =
     (if n \<in> set [I_J, I_JAL] then 8 else if n \<in> set [I_BEQ, I_BNE] then 9
      else if n \<in> set [I_ADDI, I_ADDIU, I_SLTI, I_SLTIU, I_ANDI, I_ORI, I_XORI] then 10 else if n = I_LUI then 11
      else if n \<in> set [I_COP0, I_COP1, I_COP2, I_COP3] then 0
      else if n \<in> set [I_LB, I_LH, I_LWL, I_LW, I_LBU, I_LHU, I_LWR, I_SB, I_SH, I_SWL, I_SW, I_SWR,
                        I_LWC0, I_LWC1, I_LWC2, I_LWC3, I_SWC0, I_SWC1, I_SWC2, I_SWC3] then 12 else 0)"

definition print_group :: "nat \<Rightarrow> nat" where
  "print_group k =
     (if k \<in> set [OP_SLL, OP_SRL, OP_SRA] then 1 else if k \<in> set [OP_SLLV, OP_SRLV, OP_SRAV] then 2
      else if k \<in> set [OP_JR, OP_JALR, OP_MFLO, OP_MTLO] then 3 else if k \<in> set [OP_MFHI, OP_MTHI] then 4
      else if k \<in> set [OP_MULT, OP_MULTU, OP_DIV, OP_DIVU] then 5
      else if k \<in> set [OP_ADD, OP_ADDU, OP_SUB, OP_SUBU, OP_AND, OP_OR, OP_XOR, OP_NOR, OP_SLT, OP_SLTU] then 6
      else if k \<in> set [OP_BLTZ, OP_BGEZ, OP_BLTZAL, OP_BGEZAL] then 7
      else if k \<in> set [OP_J, OP_JAL] then 8 else if k \<in> set [OP_BEQ, OP_BNE] then 9
      else if k \<in> set [OP_ADDI, OP_ADDIU, OP_SLTI, OP_SLTIU, OP_ANDI, OP_ORI, OP_XORI] then 10 else if k = OP_LUI then 11
      else if k \<in> set [OP_LB, OP_LH, OP_LWL, OP_LW, OP_LBU, OP_LHU, OP_LWR, OP_SB, OP_SH, OP_SWL, OP_SW, OP_SWR] then 12 else 0)"

definition group_text :: "nat \<Rightarrow> 32 word \<Rightarrow> 32 word \<Rightarrow> string" where
  "group_text g v pc =
     (let r = (\<lambda>i. regstrings ! i); hex = (\<lambda>w. zero_pad 0 (digits 16 (unat w))); target = zero_pad 8 (digits 16 (unat (off16 v + pc + 4))) in
      if g = 1 then r (rd v) @ '','' @ r (rt v) @ '',0x'' @ hex (shamt v)
      else if g = 2 then r (rd v) @ '','' @ r (rt v) @ '','' @ r (rs v)
      else if g = 3 then r (rs v)
      else if g = 4 then r (rd v)
      else if g = 5 then r (rs v) @ '','' @ r (rt v)
      else if g = 6 then r (rd v) @ '','' @ r (rs v) @ '','' @ r (rt v)
      else if g = 7 then r (rs v) @ '','' @ target
      else if g = 8 then zero_pad 8 (digits 16 (unat (top4 pc OR off26 v)))
      else if g = 9 then r (rt v) @ '','' @ r (rs v) @ '','' @ target
      else if g = 10 then r (rt v) @ '','' @ r (rs v) @ '',0x'' @ hex (immed v)
      else if g = 11 then r (rt v) @ '',0x'' @ hex (immed v)
      else if g = 12 then r (rt v) @ '',0x'' @ hex (immed v) @ ''('' @ r (rs v) @ '')''
      else [])"

definition group_fields :: "nat \<Rightarrow> RegType list" where
  "group_fields g =
     [[], [RD, RT, EXTRA], [RD, RT, RS], [RS], [RD], [RS, RT], [RD, RS, RT], [RS, EXTRA], [EXTRA], [RT, RS, EXTRA],
      [RT, RS, EXTRA], [RT, EXTRA], [RT, EXTRA, RS]] ! g"

lemma print_formats:
  "printf [CHR ''%'', CHR ''s'', TAB] [PStr x] = x @ [TAB]"
  "printf ''%s'' [R a] = regstrings ! a"
  "printf ''%s,%s'' [R a, R b] = regstrings ! a @ '','' @ regstrings ! b"
  "printf ''%s,%s,%s'' [R a, R b, R c] = regstrings ! a @ '','' @ regstrings ! b @ '','' @ regstrings ! c"
  "printf ''%s,0x%x'' [R a, PInt w] = regstrings ! a @ '',0x'' @ zero_pad 0 (digits 16 (unat w))"
  "printf ''%s,%s,0x%x'' [R a, R b, PInt w] = regstrings ! a @ '','' @ regstrings ! b @ '',0x'' @ zero_pad 0 (digits 16 (unat w))"
  "printf ''%s,0x%x(%s)'' [R a, PInt w, R b] = regstrings ! a @ '',0x'' @ zero_pad 0 (digits 16 (unat w)) @ ''('' @ regstrings ! b @ '')''"
  "printf ''%08x'' [PInt w] = zero_pad 8 (digits 16 (unat w))"
  "printf ''%s,%s,%08x'' [R a, R b, PInt w] = regstrings ! a @ '','' @ regstrings ! b @ '','' @ zero_pad 8 (digits 16 (unat w))"
  "printf (TAB # ''%s,%08x'') [R a, PInt w] = TAB # regstrings ! a @ '','' @ zero_pad 8 (digits 16 (unat w))"
  by (simp_all add: print_shapes)

lemma dump_special_text: "dump_special v = specialops ! unat (v AND 0x3f) @ TAB # group_text (special_group (unat (v AND 0x3f))) v pc"
  unfolding dump_special_def special_group_def group_text_def Let_def by (auto simp: print_formats simp del: printf.simps)

lemma dump_normal_text: "dump_normal k v pc = normalops ! k @ TAB # group_text (normal_group k) v pc"
  unfolding dump_normal_def normal_group_def group_text_def Let_def by (auto simp: print_formats simp del: printf.simps)

lemma dump_bcond_text: "dump_bcond v pc = bcond_name (rt v) @ TAB # group_text 7 v pc"
  by (simp add: dump_bcond_def bcond_name_def group_text_def Let_def print_shapes)

text \<open>Where an operation code comes from, and where its last operand is.\<close>

lemma special_groups:
  "k < 64 \<Longrightarrow> known (specialTable ! k) \<Longrightarrow> print_group (specialTable ! k) = special_group k \<and> special_group k \<le> 6"
proof -
  have "list_all (\<lambda>k. known (specialTable ! k) \<longrightarrow> print_group (specialTable ! k) = special_group k \<and> special_group k \<le> 6) [0..<64]"
    by code_simp
  then show "k < 64 \<Longrightarrow> known (specialTable ! k) \<Longrightarrow> ?thesis" by (blast dest: table_at)
qed

lemma normal_groups:
  "k < 64 \<Longrightarrow> k \<noteq> 0 \<Longrightarrow> k \<noteq> 1 \<Longrightarrow> known (fst (opTable ! k)) \<Longrightarrow>
   print_group (fst (opTable ! k)) = normal_group k \<and> (normal_group k = 8 \<longleftrightarrow> k = 2 \<or> k = 3) \<and> normal_group k \<notin> {1..7}"
proof -
  have "list_all (\<lambda>k. k \<noteq> 0 \<longrightarrow> k \<noteq> 1 \<longrightarrow> known (fst (opTable ! k)) \<longrightarrow>
      print_group (fst (opTable ! k)) = normal_group k \<and> (normal_group k = 8 \<longleftrightarrow> k = 2 \<or> k = 3) \<and> normal_group k \<notin> set [1, 2, 3, 4, 5, 6, 7]) [0..<64]"
    by code_simp
  then have "k < 64 \<Longrightarrow> k \<noteq> 0 \<Longrightarrow> k \<noteq> 1 \<Longrightarrow> known (fst (opTable ! k)) \<Longrightarrow>
      print_group (fst (opTable ! k)) = normal_group k \<and> (normal_group k = 8 \<longleftrightarrow> k = 2 \<or> k = 3) \<and> normal_group k \<notin> set [1, 2, 3, 4, 5, 6, 7]"
    by (blast dest: table_at)
  moreover have "{1..7} = set [1, 2, 3, 4, 5, 6, 7 :: nat]" by auto
  ultimately show "k < 64 \<Longrightarrow> k \<noteq> 0 \<Longrightarrow> k \<noteq> 1 \<Longrightarrow> known (fst (opTable ! k)) \<Longrightarrow> ?thesis" by simp
qed

lemma bcond_groups: "known (bcond_code k) \<Longrightarrow> print_group (bcond_code k) = 7"
  by (auto simp: bcond_code_def known_def print_group_def split: if_splits)

lemma dump_text:
  assumes "v \<noteq> 0" "known (opCode (Decode v))"
  shows "dump_ascii False v pc = TAB # trace_name (opCode (Decode v)) @ TAB # group_text (print_group (opCode (Decode v))) v pc"
proof -
  have n: "op_name v = trace_name (opCode (Decode v))" using op_name [of v] assms(2) by (simp add: name_of_def)
  show ?thesis
    unfolding n [symmetric]
    using assms special_groups [OF and_mask_less(2) [of v]] normal_groups [OF opcode_less [of v]] bcond_groups [of "rt v"]
      dump_special_text [of v pc] dump_normal_text [of "unat (drop_bit 26 v)" v pc] dump_bcond_text [of v pc]
    by (auto simp: dump_ascii_def op_name_def Decode_code Let_def split: if_splits)
qed

lemma extra_text:
  assumes "known (opCode (Decode v))" "print_group (opCode (Decode v)) \<noteq> 0"
  shows "iextra (Decode v) = (let g = print_group (opCode (Decode v)) in
    if g \<le> 6 then shamt v else if g = 8 then v AND 0x3ffffff else immed v)"
  using assms special_groups [OF and_mask_less(2) [of v]] normal_groups [OF opcode_less [of v]] bcond_groups [of "rt v"]
  by (auto simp: Decode_code Decode_extra Let_def not_le split: if_splits)

text \<open>The text of the operands can be taken apart.\<close>

lemma sep_inject: "c \<notin> set a \<Longrightarrow> c \<notin> set b \<Longrightarrow> a @ c # x = b @ c # y \<longleftrightarrow> a = b \<and> x = y"
proof (induction a arbitrary: b)
  case Nil
  then show ?case by (cases b) auto
next
  case (Cons d a)
  then show ?case by (cases b) auto
qed

lemma reg_comma: "i < 32 \<Longrightarrow> CHR '','' \<notin> set (regstrings ! i)"
  by (rule table_at [of _ 32]) code_simp

lemma reg_inject: "i < 32 \<Longrightarrow> j < 32 \<Longrightarrow> regstrings ! i = regstrings ! j \<longleftrightarrow> i = j"
proof -
  have "distinct regstrings" "length regstrings = 32" by code_simp+
  then show "i < 32 \<Longrightarrow> j < 32 \<Longrightarrow> ?thesis" by (simp add: nth_eq_iff_index_eq)
qed

lemma hex_punctuation: "CHR '','' \<notin> set (zero_pad w (digits 16 n))" "CHR ''('' \<notin> set (zero_pad w (digits 16 n))"
  using set_hex [of w n] by auto

lemma immed_bits: "bit (immed v) n \<longleftrightarrow> n < 32 \<and> (if n < 15 then bit v n else bit v 15)"
proof -
  have m: "(0xffff :: 32 word) = mask 16" "(0x8000 :: 32 word) = push_bit 15 1" "(0xffff0000 :: 32 word) = NOT (mask 16)"
    by (simp_all add: mask_eq_exp_minus_1)
  have "n < 16 \<longleftrightarrow> n < 15 \<or> n = 15" by auto
  then show ?thesis unfolding immed_sign Let_def m and_bit15
    by (auto simp: bit_and_iff bit_or_iff bit_not_iff bit_mask_iff dest: bit_imp_le_length)
qed

lemma off16_inject: "off16 v = off16 w \<longleftrightarrow> immed v = immed w"
proof
  assume e: "off16 v = off16 w"
  have b: "bit (immed v) n = bit (immed w) n" if "n < 30" for n
  proof -
    have "bit (off16 v) (n + 2) = bit (off16 w) (n + 2)" using e by simp
    then show ?thesis using that by (simp add: off16_def bit_push_bit_iff)
  qed
  show "immed v = immed w"
  proof (rule bit_word_eqI)
    fix n assume "n < LENGTH(32)"
    then show "bit (immed v) n = bit (immed w) n"
      using b [of n] b [of 15] by (cases "n < 30") (simp_all add: immed_bits)
  qed
qed (simp add: off16_def)

lemma target_inject: "top4 pc OR off26 v = top4 pc OR off26 w \<longleftrightarrow> v AND 0x3ffffff = w AND 0x3ffffff"
proof
  assume e: "top4 pc OR off26 v = top4 pc OR off26 w"
  have m: "(0x3ffffff :: 32 word) = mask 26" "(0xfffffff :: 32 word) = mask 28" by (simp_all add: mask_eq_exp_minus_1)
  show "v AND 0x3ffffff = w AND 0x3ffffff"
  proof (rule bit_word_eqI)
    fix n
    have "bit (top4 pc OR off26 v) (n + 2) = bit (top4 pc OR off26 w) (n + 2)" using e by simp
    then show "bit (v AND 0x3ffffff) n = bit (w AND 0x3ffffff) n"
      unfolding top4_def off26_def m by (cases "n < 26") (simp_all add: word32_bits)
  qed
qed (simp add: off26_def)

section \<open>Disassembling loses nothing\<close>

text \<open>An operand of the simulator's table, as the disassembler prints it for a group of instructions.\<close>

definition printed_field :: "nat \<Rightarrow> RegType \<Rightarrow> 32 word \<Rightarrow> int" where
  "printed_field g t v = (case t of
      RS \<Rightarrow> int (rs v) | RT \<Rightarrow> int (rt v) | RD \<Rightarrow> int (rd v)
    | EXTRA \<Rightarrow> sint (if g \<le> 6 then shamt v else if g = 8 then v AND 0x3ffffff else immed v) | NONE \<Rightarrow> - 1)"

lemma group_text_fields:
  assumes "group_text g v pc = group_text g w pc" "1 \<le> g" "g \<le> 12"
  shows "\<forall>t \<in> set (group_fields g). printed_field g t v = printed_field g t w"
proof -
  have "g \<in> set [1, 2, 3, 4, 5, 6, 7, 8, 9, 10, 11, 12]" using assms(2,3) by (simp, arith)
  then show ?thesis
    using assms(1)
    by (auto simp: group_text_def group_fields_def Let_def printed_field_def sep_inject reg_comma fields_less reg_inject
        hex_punctuation hex_inject off16_inject target_inject)
qed

lemma field_of_group:
  assumes "known (opCode (Decode v))" "print_group (opCode (Decode v)) \<noteq> 0"
  shows "TypeToReg t (Decode v) = printed_field (print_group (opCode (Decode v))) t v"
  using extra_text [OF assms] by (simp add: TypeToReg_def printed_field_def Let_def split: RegType.split)

text \<open>
  The operation codes whose operands are all printed, and correctly: not the branches that compare
  with zero and not the jumps and moves for which the disassembler takes the wrong field.
\<close>

definition printed :: "nat \<Rightarrow> bool" where
  "printed k \<longleftrightarrow> k \<in> set valid_ops \<and> known k \<and> k \<notin> set [OP_BGTZ, OP_BLEZ, OP_JALR, OP_JR, OP_MFLO, OP_MTHI]"

definition same_operands :: "Instruction \<Rightarrow> Instruction \<Rightarrow> bool" where
  "same_operands i j \<longleftrightarrow> opCode i = opCode j \<and> (\<forall>t \<in> set (snd (opStrings ! opCode i)). TypeToReg t i = TypeToReg t j)"

lemma printed_operands:
  "printed k \<Longrightarrow> set (snd (opStrings ! k)) \<subseteq> insert NONE (set (group_fields (print_group k))) \<and> print_group k \<le> 12"
proof -
  have t: "list_all (\<lambda>k. printed k \<longrightarrow> list_all (\<lambda>t. t = NONE \<or> t \<in> set (group_fields (print_group k))) (snd (opStrings ! k))
      \<and> print_group k \<le> 12) [0..<64]"
    by code_simp
  have "k \<in> set valid_ops \<Longrightarrow> k < 64" by (auto simp: valid_ops_def)
  then show "printed k \<Longrightarrow> ?thesis" using table_at [OF t, of k] by (auto simp: printed_def list_all_iff)
qed

definition name_key :: "string \<Rightarrow> int" where
  "name_key s = foldl (\<lambda>v c. 256 * v + of_char c) 0 s"

lemma names_inject: "printed k \<Longrightarrow> printed l \<Longrightarrow> trace_name k = trace_name l \<Longrightarrow> k = l"
proof -
  have "distinct (map (name_key \<circ> trace_name) (filter printed [0..<64]))" by code_simp
  then have d: "distinct (map trace_name (filter printed [0..<64]))" by (simp only: distinct_map) (blast dest: inj_on_imageI2)
  have "k \<in> set valid_ops \<Longrightarrow> k < 64" for k by (auto simp: valid_ops_def)
  then show "printed k \<Longrightarrow> printed l \<Longrightarrow> trace_name k = trace_name l \<Longrightarrow> k = l"
    using d [unfolded distinct_map] by (auto simp: printed_def dest!: inj_onD)
qed

text \<open>C15: a disassembled line determines the instruction. If two words print the same at the same address, then the
  simulated processor decodes them to the same operation with the same operands, those that its own
  table lists; this holds for the no-operation and every implemented instruction, except BGTZ and BLEZ, whose operands are not printed,
  and JALR, JR, MFLO and MTHI, which print one field instead of another.\<close>

theorem disassembly_determines:
  assumes "dump_ascii False v pc = dump_ascii False w pc" "printed (opCode (Decode v))" "printed (opCode (Decode w))"
  shows "same_operands (Decode v) (Decode w)"
proof (cases "v = 0 \<or> w = 0")
  case True
  have nop: "dump_ascii False 0 pc = TAB # ''nop''" by (simp add: dump_ascii_def)
  have "u = 0" if "TAB # ''nop'' = dump_ascii False u pc" for u
  proof (rule ccontr)
    assume "u \<noteq> 0"
    then obtain r where "''nop'' = op_name u @ TAB # r" using dump_shape [of u pc] \<open>TAB # ''nop'' = _\<close> by auto
    then have "TAB \<in> set ''nop''" by (metis in_set_conv_decomp)
    then show False by simp
  qed
  then have "v = w" using True assms(1) nop by metis
  then show ?thesis by (simp add: same_operands_def)
next
  case False
  let ?k = "opCode (Decode v)" let ?l = "opCode (Decode w)"
  have p: "known ?k" "known ?l" using assms(2,3) by (simp_all add: printed_def)
  have n: "mnemonic (dump_ascii False v pc) = trace_name ?k" "mnemonic (dump_ascii False w pc) = trace_name ?l"
    using disassembler_mnemonic p False by blast+
  then have kl: "?k = ?l" using names_inject assms by metis
  have "group_text (print_group ?k) v pc = group_text (print_group ?k) w pc"
    using assms(1) dump_text [of v pc] dump_text [of w pc] p False kl by simp
  then have "t = NONE \<or> printed_field (print_group ?k) t v = printed_field (print_group ?k) t w" if "t \<in> set (snd (opStrings ! ?k))" for t
    using that printed_operands [OF assms(2)] group_text_fields [of "print_group ?k" v pc w]
    by (cases "print_group ?k = 0") (auto simp: group_fields_def)
  moreover have "print_group ?k \<noteq> 0 \<or> set (snd (opStrings ! ?k)) \<subseteq> {NONE}"
    using printed_operands [OF assms(2)] by (cases "print_group ?k = 0") (auto simp: group_fields_def)
  ultimately have f: "t = NONE \<or> print_group ?k \<noteq> 0 \<and> printed_field (print_group ?k) t v = printed_field (print_group ?k) t w"
    if "t \<in> set (snd (opStrings ! ?k))" for t using that by auto
  have "TypeToReg t (Decode v) = TypeToReg t (Decode w)" if t: "t \<in> set (snd (opStrings ! ?k))" for t
  proof (cases "t = NONE")
    case True
    then show ?thesis by (simp add: TypeToReg_def)
  next
    case False
    then show ?thesis using f [OF t] field_of_group [OF p(1), of t] field_of_group [OF p(2), of t] kl by auto
  qed
  then show ?thesis using kl by (simp add: same_operands_def)
qed

text \<open>Two words for the same addition, which differ in bits that it does not use.\<close>

theorem disassembly_determines_witness:
  "same_operands (Decode 0x00221820) (Decode 0x00221860) \<and> (0x00221820 :: 32 word) \<noteq> 0x00221860"
proof -
  have "dump_ascii False 0x00221820 0 = dump_ascii False 0x00221860 0" by code_simp
  moreover have "printed (opCode (Decode 0x00221820)) \<and> printed (opCode (Decode 0x00221860))" by code_simp
  ultimately show ?thesis using disassembly_determines [of "0x00221820" 0 "0x00221860"] by simp
qed

text \<open>MFLO into register 3, MTHI from register 3, JALR through register 3 with the link in register 4, and BGTZ, as they are printed.\<close>

lemma disassembler_operands:
  "dump_ascii False 0x00001812 0 = TAB # ''mflo'' @ TAB # ''0'' \<and> dump_ascii False 0x00600011 0 = TAB # ''mthi'' @ TAB # ''0''
   \<and> dump_ascii False 0x00602009 0 = TAB # ''jalr'' @ TAB # ''r3'' \<and> dump_ascii False 0x1c600003 0 = TAB # ''bgtz'' @ [TAB]"
  by code_simp

lemma trace_operands:
  "res_sat (trace_instruction 0 (Decode 0x00001812)) (\<lambda>t. t = ''At PC = 0x0: MFLO r3'' @ [NL])
   \<and> res_sat (trace_instruction 0 (Decode 0x00600011)) (\<lambda>t. t = ''At PC = 0x0: MTHI r3'' @ [NL])
   \<and> res_sat (trace_instruction 0 (Decode 0x00602009)) (\<lambda>t. t = ''At PC = 0x0: JALR r4,r3'' @ [NL])
   \<and> res_sat (trace_instruction 0 (Decode 0x1c600003)) (\<lambda>t. t = ''At PC = 0x0: BGTZ r3,3'' @ [NL])"
  by code_simp

lemma trace_total: "\<exists>t. trace_instruction pc (Decode v) = Inr t"
proof -
  have "opCode (Decode v) \<le> 63" using Decode_ok [of v] by (auto simp: valid_ops_def)
  then show ?thesis by (simp add: trace_instruction_def Let_def)
qed

end
