(* ===== verification/ExecuteModel.thy ===== *)
theory ExecuteModel
  imports DisasmModel
begin

unbundle bit_operations_syntax

text \<open>
  The stand-alone MIPS simulator of bin/ (bin/execute.c, bin/system.c, with the memory of bin/int.h).

  It runs on the host's memory without address translation, delayed loads or exceptions: a load or store is the
  host's, at any alignment and in the byte order of the host (\<open>be\<close>). A shift count
  above 31, which C leaves undefined, is taken modulo 32, as the hosts' shift instructions do. The operating
  system of the host is an argument, \<open>host\<close>, with a state of its own, \<open>world\<close>.
\<close>

section \<open>State\<close>

text \<open>
  \<open>cur_pc\<close> and \<open>next_pc\<close> are the local variables \<open>pc\<close> and \<open>npc\<close> of \<open>runprogram\<close>; \<open>printed_out\<close> is what has been
  written to the standard output and error.
\<close>

record 'w xstate =
  Reg :: "nat \<Rightarrow> 32 word"
  HI :: "32 word"
  LO :: "32 word"
  memory :: "nat \<Rightarrow> 8 word"
  cur_pc :: "32 word"
  next_pc :: "32 word"
  icount :: "32 word"
  printed_out :: string
  world :: 'w

record flags =
  TRACE :: bool
  Traptrace :: bool
  Regtrace :: bool

text \<open>Why the run ends: \<open>exit\<close> with its status, an access outside the memory, a trap of the host's division.\<close>

datatype 'w xstop = Exit nat "'w xstate" | Wild | HostFault

type_synonym ('w, 'a) xres = "'w xstop + 'a"
type_synonym 'w xcase = "32 word \<Rightarrow> 32 word \<Rightarrow> 'w xstate \<Rightarrow> ('w, 'w xstate) xres option"

datatype host_call =
    HRead "32 word" int "32 word" | HWrite "32 word" int "32 word" | HOpen int "32 word" "32 word"
  | HLseek "32 word" "32 word" "32 word" | HIoctl "32 word" "32 word" int | HFstat "32 word" "32 word" | HGetpagesize

type_synonym 'w host = "host_call \<Rightarrow> 'w \<Rightarrow> (nat \<Rightarrow> 8 word) \<Rightarrow> 32 word \<times> 'w \<times> (nat \<Rightarrow> 8 word)"

definition xbind :: "('w, 'a) xres \<Rightarrow> ('a \<Rightarrow> ('w, 'b) xres) \<Rightarrow> ('w, 'b) xres" where
  "xbind r f = (case r of Inl e \<Rightarrow> Inl e | Inr x \<Rightarrow> f x)"

lemma xbind_simps [simp]: "xbind (Inr x) f = f x" "xbind (Inl e) f = Inl e"
  by (simp_all add: xbind_def)

definition setR :: "nat \<Rightarrow> 32 word \<Rightarrow> 'w xstate \<Rightarrow> 'w xstate" where
  "setR r v x = x\<lparr>Reg := (Reg x)(r := v)\<rparr>"

definition put :: "string \<Rightarrow> 'w xstate \<Rightarrow> 'w xstate" where
  "put s x = x\<lparr>printed_out := printed_out x @ s\<rparr>"

definition ok :: "'w xstate \<Rightarrow> ('w, 'w xstate) xres option" where
  "ok x = Some (Inr x)"

section \<open>Memory\<close>

definition xfetch :: "bool \<Rightarrow> 32 word \<Rightarrow> 'w xstate \<Rightarrow> ('w, 32 word) xres" where
  "xfetch be addr x = (case fetch be (memory x) addr of Inl e \<Rightarrow> Inl Wild | Inr v \<Rightarrow> Inr v)"

definition hfetch :: "bool \<Rightarrow> 32 word \<Rightarrow> 'w xstate \<Rightarrow> ('w, 16 word) xres" where
  "hfetch be addr x = (if in_mem addr 2 then Inr (host_load16 be (memory x) (nat (mem_index addr))) else Inl Wild)"

definition bfetch :: "32 word \<Rightarrow> 'w xstate \<Rightarrow> ('w, 8 word) xres" where
  "bfetch addr x = (if in_mem addr 1 then Inr (memory x (nat (mem_index addr))) else Inl Wild)"

definition store_word :: "bool \<Rightarrow> 32 word \<Rightarrow> 32 word \<Rightarrow> 'w xstate \<Rightarrow> ('w, 'w xstate) xres" where
  "store_word be addr i x =
     (if in_mem addr 4 then Inr (x\<lparr>memory := host_store32 be (nat (mem_index addr)) i (memory x)\<rparr>) else Inl Wild)"

definition sstore :: "bool \<Rightarrow> 32 word \<Rightarrow> 32 word \<Rightarrow> 'w xstate \<Rightarrow> ('w, 'w xstate) xres" where
  "sstore be addr i x =
     (if in_mem addr 2 then Inr (x\<lparr>memory := host_store16 be (nat (mem_index addr)) (ucast i) (memory x)\<rparr>) else Inl Wild)"

definition cstore :: "32 word \<Rightarrow> 32 word \<Rightarrow> 'w xstate \<Rightarrow> ('w, 'w xstate) xres" where
  "cstore addr i x =
     (if in_mem addr 1 then Inr (x\<lparr>memory := (memory x)(nat (mem_index addr) := ucast i)\<rparr>) else Inl Wild)"

section \<open>System calls\<close>

definition dump_row :: "string \<Rightarrow> nat \<Rightarrow> 'w xstate \<Rightarrow> string" where
  "dump_row title j x = title @ concat (map (\<lambda>j. printf '' %08x'' [PInt (Reg x j)]) [j..<j + 8]) @ [NL]"

definition dump_reg :: "'w xstate \<Rightarrow> string" where
  "dump_reg x = dump_row '' 0:'' 0 x @ dump_row '' 8:'' 8 x @ dump_row ''16:'' 16 x @ dump_row ''24:'' 24 x"

text \<open>The exits for what is not implemented.\<close>

definition u :: "'w xstate \<Rightarrow> ('w, 'w xstate) xres" where
  "u x = Inl (Exit 2 (put (''Unimplemented Instruction'' @ [NL]) x))"

definition no_coprocessors :: "'w xstate \<Rightarrow> ('w, 'w xstate) xres" where
  "no_coprocessors x = Inl (Exit 2 (put (''Sorry, no coprocessors.'' @ [NL]) x))"

definition u_to_int_addr :: "32 word \<Rightarrow> int" where
  "u_to_int_addr ptr = mem_index ptr"

definition host_result :: "'w host \<Rightarrow> host_call \<Rightarrow> 'w xstate \<Rightarrow> ('w, 'w xstate) xres" where
  "host_result host c x = (case host c (world x) (memory x) of (v, w, mem) \<Rightarrow> Inr (setR 1 v (x\<lparr>world := w, memory := mem\<rparr>)))"

definition ioctl_request :: "32 word \<Rightarrow> 32 word" where
  "ioctl_request o1 =
     (let size = drop_bit 16 o1 AND 0x7f; ioctl_group = drop_bit 8 o1 AND 0xff in
      if ioctl_group = 0x74 \<and> size = 8 then (o1 AND NOT (push_bit 16 0x7f)) OR push_bit 16 6 else o1)"

definition syscall :: "flags \<Rightarrow> 'w host \<Rightarrow> 'w xstate \<Rightarrow> ('w, 'w xstate) xres" where
  "syscall fl host x =
     (let syscallno = Reg x 2; o0 = Reg x 4; o1 = Reg x 5; o2 = Reg x 6 in
      if syscallno = 1 then Inl (Exit 0 x)
      else if syscallno = 3 then host_result host (HRead o0 (u_to_int_addr o1) o2) x
      else if syscallno = 4 then host_result host (HWrite o0 (u_to_int_addr o1) o2) x
      else if syscallno = 5 then host_result host (HOpen (u_to_int_addr o0) o1 o2) x
      else if syscallno = 6 then Inr (setR 1 0 x)
      else if syscallno = 17 then Inr (setR 1 ((word_of_int (sint o0 sdiv 8192) + 1) * 8192) x)
      else if syscallno = 19 then host_result host (HLseek o0 o1 o2) x
      else if syscallno = 54 then
        xbind (host_result host (HIoctl o0 (ioctl_request o1) (u_to_int_addr o2)) x) (\<lambda>x'. Inr (setR 1 0 x'))
      else if syscallno = 62 then host_result host (HFstat o1 o2) x
      else if syscallno = 64 then host_result host HGetpagesize x
      else Inl (Exit 2 (put (printf (''Unknown System call %d'' @ [NL]) [PInt syscallno] @ (if Traptrace fl then [] else dump_reg x)) x)))"

definition system_trap :: "flags \<Rightarrow> 'w host \<Rightarrow> 'w xstate \<Rightarrow> ('w, 'w xstate) xres" where
  "system_trap fl host x =
     xbind (syscall fl host
              (if Traptrace fl then put (printf (''**System call %d'' @ [NL]) [PInt (Reg x 2)] @ dump_reg x) x else x)) (\<lambda>x'.
     Inr (if Traptrace fl then put (''**Afterwards:'' @ [NL] @ dump_reg x') x' else x'))"

definition system_break :: "flags \<Rightarrow> 'w host \<Rightarrow> 'w xstate \<Rightarrow> ('w, 'w xstate) xres" where
  "system_break fl host x = system_trap fl host (if Traptrace fl then put ''**breakpoint '' x else x)"

section \<open>Instructions\<close>

text \<open>
  The cases of the switch, in the order of the source and in groups that return \<open>None\<close> for what is not theirs. The
  arguments are the instruction, its address and the state, in which \<open>next_pc\<close> is already the address after the
  next instruction.
\<close>

definition x_shift :: "'w xcase" where
  "x_shift instr xpc x =
     (let f = unat (instr AND 0x3f); t = Reg x (rt instr); s = unat (Reg x (rs instr) AND 0x1f); n = unat (shamt instr) in
      if f = I_SLL then ok (setR (rd instr) (push_bit n t) x)
      else if f = I_SRL then ok (setR (rd instr) (drop_bit n t) x)
      else if f = I_SRA then ok (setR (rd instr) (signed_drop_bit n t) x)
      else if f = I_SLLV then ok (setR (rd instr) (push_bit s t) x)
      else if f = I_SRLV then ok (setR (rd instr) (drop_bit s t) x)
      else if f = I_SRAV then ok (setR (rd instr) (signed_drop_bit s t) x)
      else None)"

definition x_jump_trap :: "flags \<Rightarrow> 'w host \<Rightarrow> 'w xcase" where
  "x_jump_trap fl host instr xpc x =
     (let f = unat (instr AND 0x3f) in
      if f = I_JR then ok (x\<lparr>next_pc := Reg x (rs instr)\<rparr>)
      else if f = I_JALR then ok (setR (rd instr) (xpc + 8) (x\<lparr>next_pc := Reg x (rs instr)\<rparr>))
      else if f = I_SYSCALL then Some (system_trap fl host x)
      else if f = I_BREAK then Some (system_break fl host x)
      else None)"

definition x_hilo :: "'w xcase" where
  "x_hilo instr xpc x =
     (let f = unat (instr AND 0x3f) in
      if f = I_MFHI then ok (setR (rd instr) (HI x) x)
      else if f = I_MTHI then ok (x\<lparr>HI := Reg x (rs instr)\<rparr>)
      else if f = I_MFLO then ok (setR (rd instr) (LO x) x)
      else if f = I_MTLO then ok (x\<lparr>LO := Reg x (rs instr)\<rparr>)
      else None)"

text \<open>The high word of a product from the halves of the factors, with the arithmetic shifts of \<open>int\<close>.\<close>

definition mul_high :: "32 word \<Rightarrow> 32 word \<Rightarrow> 32 word" where
  "mul_high t1 t2 =
     (let t1l = t1 AND 0xffff; t1h = signed_drop_bit 16 t1 AND 0xffff; t2l = t2 AND 0xffff; t2h = signed_drop_bit 16 t2 AND 0xffff in
      t1h * t2h + signed_drop_bit 16 (t1h * t2l) + signed_drop_bit 16 (t2h * t1l))"

definition mult_hilo :: "32 word \<Rightarrow> 32 word \<Rightarrow> 32 word \<times> 32 word" where
  "mult_hilo r1 r2 =
     (let t1 = (if sint r1 < 0 then - r1 else r1); t2 = (if sint r2 < 0 then - r2 else r2);
          neg = ((sint r1 < 0) \<noteq> (sint r2 < 0)); lo = t1 * t2; hi = mul_high t1 t2 in
      if neg then (let lo' = NOT lo + 1 in (if lo' = 0 then NOT hi + 1 else NOT hi, lo')) else (hi, lo))"

definition x_muldiv :: "'w xcase" where
  "x_muldiv instr xpc x =
     (let f = unat (instr AND 0x3f); r1 = Reg x (rs instr); r2 = Reg x (rt instr) in
      if f = I_MULT then (let (hi, lo) = mult_hilo r1 r2 in ok (x\<lparr>LO := lo, HI := hi\<rparr>))
      else if f = I_MULTU then ok (x\<lparr>LO := r1 * r2, HI := mul_high r1 r2\<rparr>)
      else if f = I_DIV then
        (if r2 = 0 \<or> r1 = SIGN_BIT \<and> r2 = - 1 then Some (Inl HostFault)
         else ok (x\<lparr>LO := word_of_int (sint r1 sdiv sint r2), HI := word_of_int (sint r1 smod sint r2)\<rparr>))
      else if f = I_DIVU then
        (if r2 = 0 then Some (Inl HostFault) else ok (x\<lparr>LO := r1 div r2, HI := r1 mod r2\<rparr>))
      else None)"

definition x_alu :: "'w xcase" where
  "x_alu instr xpc x =
     (let f = unat (instr AND 0x3f); r1 = Reg x (rs instr); r2 = Reg x (rt instr); d = rd instr in
      if f = I_ADD \<or> f = I_ADDU then ok (setR d (r1 + r2) x)
      else if f = I_SUB \<or> f = I_SUBU then ok (setR d (r1 - r2) x)
      else if f = I_AND then ok (setR d (r1 AND r2) x)
      else if f = I_OR then ok (setR d (r1 OR r2) x)
      else if f = I_XOR then ok (setR d (r1 XOR r2) x)
      else if f = I_NOR then ok (setR d (NOT (r1 OR r2)) x)
      else if f = I_SLT then ok (setR d (of_bool (sint r1 < sint r2)) x)
      else if f = I_SLTU then ok (setR d (of_bool (r1 < r2)) x)
      else None)"

definition default :: "'a \<Rightarrow> 'a option \<Rightarrow> 'a" where
  "default d r = (case r of None \<Rightarrow> d | Some x \<Rightarrow> x)"

definition x_special :: "flags \<Rightarrow> 'w host \<Rightarrow> 32 word \<Rightarrow> 32 word \<Rightarrow> 'w xstate \<Rightarrow> ('w, 'w xstate) xres" where
  "x_special fl host instr xpc x =
     default (u x)
      (or_else (x_shift instr xpc x)
      (or_else (x_jump_trap fl host instr xpc x)
      (or_else (x_hilo instr xpc x)
      (or_else (x_muldiv instr xpc x)
               (x_alu instr xpc x)))))"

definition branch :: "bool \<Rightarrow> 32 word \<Rightarrow> 32 word \<Rightarrow> 'w xstate \<Rightarrow> ('w, 'w xstate) xres" where
  "branch b instr xpc x = Inr (if b then x\<lparr>next_pc := xpc + 4 + push_bit 2 (immed instr)\<rparr> else x)"

definition x_bcond :: "32 word \<Rightarrow> 32 word \<Rightarrow> 'w xstate \<Rightarrow> ('w, 'w xstate) xres" where
  "x_bcond instr xpc x =
     (let op = rt instr; link = setR 31 (xpc + 8) x in
      if op = I_BLTZ then branch (sint (Reg x (rs instr)) < 0) instr xpc x
      else if op = I_BGEZ then branch (sint (Reg x (rs instr)) \<ge> 0) instr xpc x
      else if op = I_BLTZAL then branch (sint (Reg link (rs instr)) < 0) instr xpc link
      else if op = I_BGEZAL then branch (sint (Reg link (rs instr)) \<ge> 0) instr xpc link
      else u x)"

definition x_jump_branch :: "'w xcase" where
  "x_jump_branch instr xpc x =
     (let k = unat (drop_bit 26 instr AND 0x3f); r1 = Reg x (rs instr); r2 = Reg x (rt instr);
          target = (xpc AND 0xf0000000) OR push_bit 2 (instr AND 0x03ffffff) in
      if k = I_J then ok (x\<lparr>next_pc := target\<rparr>)
      else if k = I_JAL then ok ((setR 31 (xpc + 8) x)\<lparr>next_pc := target\<rparr>)
      else if k = I_BEQ then Some (branch (r1 = r2) instr xpc x)
      else if k = I_BNE then Some (branch (r1 \<noteq> r2) instr xpc x)
      else if k = I_BLEZ then Some (branch (sint r1 \<le> 0) instr xpc x)
      else if k = I_BGTZ then Some (branch (sint r1 > 0) instr xpc x)
      else None)"

definition x_immediate :: "'w xcase" where
  "x_immediate instr xpc x =
     (let k = unat (drop_bit 26 instr AND 0x3f); r1 = Reg x (rs instr); d = rt instr; i = immed instr in
      if k = I_ADDI \<or> k = I_ADDIU then ok (setR d (r1 + i) x)
      else if k = I_SLTI then ok (setR d (of_bool (sint r1 < sint i)) x)
      else if k = I_SLTIU then ok (setR d (of_bool (r1 < i)) x)
      else if k = I_ANDI then ok (setR d (r1 AND i) x)
      else if k = I_ORI then ok (setR d (r1 OR i) x)
      else if k = I_XORI then ok (setR d (r1 XOR i) x)
      else if k = I_LUI then ok (setR d (push_bit 16 instr) x)
      else None)"

definition x_load :: "bool \<Rightarrow> 'w xcase" where
  "x_load be instr xpc x =
     (let k = unat (drop_bit 26 instr AND 0x3f); d = rt instr; i = Reg x (rs instr) + immed instr; old = Reg x d;
          left = unat (8 * (i AND 3)); right = unat (8 * ((- i) AND 3)) in
      if k = I_LB then Some (xbind (bfetch i x) (\<lambda>v. Inr (setR d (scast v) x)))
      else if k = I_LH then Some (xbind (hfetch be i x) (\<lambda>v. Inr (setR d (scast v) x)))
      else if k = I_LWL then
        Some (xbind (xfetch be (i AND 0xfffffffc) x) (\<lambda>v.
          Inr (setR d ((old AND signed_drop_bit right (- 1)) OR push_bit left v) x)))
      else if k = I_LW then Some (xbind (xfetch be i x) (\<lambda>v. Inr (setR d v x)))
      else if k = I_LBU then Some (xbind (bfetch i x) (\<lambda>v. Inr (setR d (ucast v) x)))
      else if k = I_LHU then Some (xbind (hfetch be i x) (\<lambda>v. Inr (setR d (ucast v) x)))
      else if k = I_LWR then
        Some (xbind (xfetch be (i AND 0xfffffffc) x) (\<lambda>v.
          Inr (setR d ((if i AND 3 = 0 then 0 else old AND push_bit left (- 1)) OR signed_drop_bit right v) x)))
      else None)"

definition x_store :: "bool \<Rightarrow> 'w xcase" where
  "x_store be instr xpc x =
     (let k = unat (drop_bit 26 instr AND 0x3f); v = Reg x (rt instr); i = Reg x (rs instr) + immed instr in
      if k = I_SB then Some (cstore i v x)
      else if k = I_SH then Some (sstore be i v x)
      else if k = I_SWL then Some (u (put (''sorry, no SWL yet.'' @ [NL]) x))
      else if k = I_SW then Some (store_word be i v x)
      else if k = I_SWR then Some (u (put (''sorry, no SWR yet.'' @ [NL]) x))
      else if k \<in> set [I_LWC0, I_LWC1, I_LWC2, I_LWC3, I_SWC0, I_SWC1, I_SWC2, I_SWC3, I_COP0, I_COP1, I_COP2, I_COP3]
      then Some (no_coprocessors x)
      else None)"

definition execute :: "bool \<Rightarrow> flags \<Rightarrow> 'w host \<Rightarrow> 32 word \<Rightarrow> 32 word \<Rightarrow> 'w xstate \<Rightarrow> ('w, 'w xstate) xres" where
  "execute be fl host instr xpc x =
     (let k = unat (drop_bit 26 instr AND 0x3f) in
      if k = I_SPECIAL then x_special fl host instr xpc x
      else if k = I_BCOND then x_bcond instr xpc x
      else
        default (u x)
         (or_else (x_jump_branch instr xpc x)
         (or_else (x_immediate instr xpc x)
         (or_else (x_load be instr xpc x)
                  (x_store be instr xpc x)))))"

section \<open>The loop\<close>

definition trace_step :: "flags \<Rightarrow> 32 word \<Rightarrow> 32 word \<Rightarrow> 'w xstate \<Rightarrow> 'w xstate" where
  "trace_step fl instr xpc x =
     (if TRACE fl then put (dump_ascii True instr xpc @ [NL] @ (if Regtrace fl then dump_reg x else [])) x else x)"

definition step :: "bool \<Rightarrow> flags \<Rightarrow> 'w host \<Rightarrow> 'w xstate \<Rightarrow> ('w, 'w xstate) xres" where
  "step be fl host x0 =
     (let x = x0\<lparr>icount := icount x0 + 1\<rparr>; xpc = cur_pc x; x1 = x\<lparr>cur_pc := next_pc x, next_pc := next_pc x + 4\<rparr> in
      xbind (xfetch be xpc x1) (\<lambda>instr.
      let x2 = setR 0 0 x1 in
      xbind (if instr = 0 then Inr x2 else execute be fl host instr xpc x2) (\<lambda>x3.
      Inr (trace_step fl instr xpc x3))))"

text \<open>The loop of \<open>runprogram\<close>, which only ends by stopping.\<close>

partial_function (option) run :: "bool \<Rightarrow> flags \<Rightarrow> 'w host \<Rightarrow> 'w xstate \<Rightarrow> 'w xstop option" where
  "run be fl host x = (case step be fl host x of Inl e \<Rightarrow> Some e | Inr x' \<Rightarrow> run be fl host x')"

section \<open>Starting a program\<close>

text \<open>The strings that the program is called with are lists of nonzero bytes.\<close>

definition put_byte :: "32 word \<Rightarrow> 8 word \<Rightarrow> (nat \<Rightarrow> 8 word) \<Rightarrow> (nat \<Rightarrow> 8 word) res" where
  "put_byte addr b mem = (if in_mem addr 1 then Inr (mem(nat (mem_index addr) := b)) else Inl WildAccess)"

fun strcpy :: "32 word \<Rightarrow> 8 word list \<Rightarrow> (nat \<Rightarrow> 8 word) \<Rightarrow> (nat \<Rightarrow> 8 word) res" where
  "strcpy addr [] mem = put_byte addr 0 mem"
| "strcpy addr (c # s) mem = rbind (put_byte addr c mem) (strcpy (addr + 1) s)"

definition put_word :: "bool \<Rightarrow> 32 word \<Rightarrow> 32 word \<Rightarrow> (nat \<Rightarrow> 8 word) \<Rightarrow> (nat \<Rightarrow> 8 word) res" where
  "put_word be addr v mem = (if in_mem addr 4 then Inr (host_store32 be (nat (mem_index addr)) v mem) else Inl WildAccess)"

fun put_args :: "bool \<Rightarrow> 8 word list list \<Rightarrow> 32 word \<Rightarrow> 32 word \<Rightarrow> (nat \<Rightarrow> 8 word) \<Rightarrow> (nat \<Rightarrow> 8 word) res" where
  "put_args be [] aci ai mem = Inr mem"
| "put_args be (s # argv) aci ai mem =
     rbind (strcpy ai s mem) (\<lambda>mem1.
     rbind (put_word be aci ai mem1) (put_args be argv (aci + 4) (ai + (of_nat (length s) + 1))))"

abbreviation (input) "initial_sp \<equiv> (0x10fffc00 :: 32 word)"

text \<open>\<open>runprogram\<close> up to its loop; the registers and the memory are global variables, which start as zero but for the loaded sections.\<close>

definition program_start_state :: "bool \<Rightarrow> 32 word \<Rightarrow> 8 word list list \<Rightarrow> 'w xstate \<Rightarrow> 'w xstate res" where
  "program_start_state be startpc argv x =
     rbind (put_word be initial_sp (of_nat (length argv)) (memory x)) (\<lambda>mem1.
     rbind (put_args be argv (initial_sp + 4) (initial_sp + 36) mem1) (\<lambda>mem2.
     Inr (setR 29 initial_sp (x\<lparr>memory := mem2, icount := 0, cur_pc := startpc, next_pc := startpc + 4\<rparr>))))"

section \<open>Statistics\<close>

definition log_stage :: "32 word \<Rightarrow> nat \<Rightarrow> 32 word \<times> nat \<Rightarrow> 32 word \<times> nat" where
  "log_stage bits n = (\<lambda>(i, l). let j = i AND bits in if j \<noteq> 0 then (j, l + n) else (i, l))"

definition ilog2 :: "32 word \<Rightarrow> nat" where
  "ilog2 i =
     (if i = 0 then 0
      else snd (log_stage 0xaaaaaaaa 1 (log_stage 0xcccccccc 2 (log_stage 0xf0f0f0f0 4
             (log_stage 0xff00ff00 8 (log_stage 0xffff0000 16 (i, 1)))))))"

text \<open>The histograms; \<open>NH\<close> of them, with \<open>NNN\<close> cells and a counter for what does not fit.\<close>

record histograms =
  hists :: "nat \<Rightarrow> nat \<Rightarrow> nat"
  hoflo :: "nat \<Rightarrow> nat"
  htotal :: "nat \<Rightarrow> nat"

definition henters :: "int \<Rightarrow> int \<Rightarrow> histograms \<Rightarrow> histograms res" where
  "henters n hist s =
     (if 0 \<le> hist \<and> hist < 32
      then (let h = nat hist;
                s' = (if 0 \<le> n \<and> n < 33 then s\<lparr>hists := (hists s)(h := (hists s h)(nat n := hists s h (nat n) + 1))\<rparr>
                      else s\<lparr>hoflo := (hoflo s)(h := hoflo s h + 1)\<rparr>)
            in Inr (s'\<lparr>htotal := (htotal s')(h := htotal s' h + 1)\<rparr>))
      else Inl WildAccess)"

text \<open>Every entry is counted exactly once.\<close>

definition hist_ok :: "histograms \<Rightarrow> bool" where
  "hist_ok s \<longleftrightarrow> (\<forall>h. htotal s h = (\<Sum>n < 33. hists s h n) + hoflo s h)"

lemma sum_count: "(n :: nat) < k \<Longrightarrow> (\<Sum>x < k. if x = n then Suc (f n) else f x) = Suc (sum f {..<k})"
  by (induction k) (auto simp: less_Suc_eq intro: sum.cong)

lemma henters_ok: "hist_ok s \<Longrightarrow> henters n hist s = Inr s' \<Longrightarrow> hist_ok s'"
  by (auto simp: henters_def hist_ok_def Let_def sum_count nat_less_iff split: if_splits)

end
