(* ===== verification/ExecuteCorrect.thy ===== *)
theory ExecuteCorrect
  imports ExecuteModel
begin

unbundle bit_operations_syntax

text \<open>
  The stand-alone simulator of bin/execute.c against the simulated processor of machine/mipssim.cc.

  Both execute the same instruction at the same address; \<open>agree\<close> relates their states between two instructions and
  \<open>common\<close> says for which instructions and operands they do the same: everything but memory accesses
  and system calls, as long as the differences of execute.c play no part (products that lose carries, overflow, immediate operands of the
  logical instructions, jumps in a delay slot). The last section shows these differences.
\<close>

section \<open>Products\<close>

text \<open>The carries that are lost when the high word of a product is computed from the products of the halves.\<close>

definition mul_carry :: "int \<Rightarrow> int \<Rightarrow> int" where
  "mul_carry a b =
     ((a div 2 ^ 16 * (b mod 2 ^ 16)) mod 2 ^ 16 + (b div 2 ^ 16 * (a mod 2 ^ 16)) mod 2 ^ 16
        + (a mod 2 ^ 16 * (b mod 2 ^ 16)) div 2 ^ 16) div 2 ^ 16"

lemma mul_carry_bound: "0 \<le> mul_carry a b \<and> mul_carry a b \<le> 2"
proof -
  define p q r where "p = (a div 2 ^ 16 * (b mod 2 ^ 16)) mod 2 ^ 16" "q = (b div 2 ^ 16 * (a mod 2 ^ 16)) mod 2 ^ 16"
    "r = a mod 2 ^ 16 * (b mod 2 ^ 16)"
  note d = this
  have "0 \<le> a mod 2 ^ 16" "a mod 2 ^ 16 \<le> 2 ^ 16" "0 \<le> b mod 2 ^ 16" "b mod 2 ^ 16 \<le> 2 ^ 16"
    using pos_mod_bound [of "2 ^ 16" a] pos_mod_bound [of "2 ^ 16" b] by simp_all
  then have "0 \<le> r" "r \<le> 2 ^ 16 * 2 ^ 16" unfolding d by (intro mult_nonneg_nonneg mult_mono; simp)+
  then have "0 \<le> r div 65536" "r div 65536 \<le> 65536"
    using zdiv_mono1 [of r "2 ^ 16 * 2 ^ 16" "65536"] by (simp_all add: pos_imp_zdiv_nonneg_iff)
  moreover have "0 \<le> p" "p < 65536" "0 \<le> q" "q < 65536" unfolding d by simp_all
  ultimately have "0 \<le> p + q + r div 65536" "p + q + r div 65536 < 3 * 65536" by linarith+
  then have "0 \<le> (p + q + r div 65536) div 65536 \<and> (p + q + r div 65536) div 65536 < 3"
    by (simp add: pos_imp_zdiv_nonneg_iff div_less_iff_less_mult)
  moreover have "mul_carry a b = (p + q + r div 65536) div 65536" unfolding mul_carry_def d by simp
  ultimately show ?thesis by linarith
qed

lemma product_high:
  "(a * b :: int) div 2 ^ 32 = a div 2 ^ 16 * (b div 2 ^ 16) + a div 2 ^ 16 * (b mod 2 ^ 16) div 2 ^ 16
     + b div 2 ^ 16 * (a mod 2 ^ 16) div 2 ^ 16 + mul_carry a b"
proof -
  define ah al bh bl where d: "ah = a div 2 ^ 16" "al = a mod 2 ^ 16" "bh = b div 2 ^ 16" "bl = b mod 2 ^ 16"
  define p q r where pqr: "p = ah * bl" "q = bh * al" "r = al * bl"
  have ab: "a = ah * 2 ^ 16 + al" "b = bh * 2 ^ 16 + bl" unfolding d by (simp_all only: div_mult_mod_eq)
  define pd pm qd qm rd rm where e: "pd = p div 65536" "pm = p mod 65536" "qd = q div 65536" "qm = q mod 65536"
    "rd = r div 65536" "rm = r mod 65536"
  have pe: "p = pd * 65536 + pm" "q = qd * 65536 + qm" "r = rd * 65536 + rm" unfolding e by (simp_all only: div_mult_mod_eq)
  define mid where "mid = pm + qm + rd"
  have "a * b = ah * bh * 4294967296 + p * 65536 + q * 65536 + r" unfolding ab pqr by (simp add: algebra_simps)
  also have "\<dots> = (ah * bh + pd + qd) * 4294967296 + (mid * 65536 + rm)"
    using pe unfolding mid_def by (simp add: algebra_simps)
  finally have "a * b div 4294967296 = ah * bh + pd + qd + (mid * 65536 + rm) div 4294967296"
    by (simp only:) simp
  moreover have "(mid * 65536 + rm) div 4294967296 = mid div 65536"
    using zdiv_zmult2_eq [of "65536" "mid * 65536 + rm" "65536"] unfolding e by simp
  moreover have "mul_carry a b = mid div 65536" unfolding mul_carry_def mid_def e pqr d by simp
  ultimately show ?thesis unfolding e pqr d by simp
qed

lemma uint_shift: "uint (drop_bit 16 (w :: 32 word)) = uint w div 2 ^ 16"
  by (simp add: drop_bit_eq_div uint_div_distrib)

lemma half_words: "uint ((a :: 32 word) AND 0xffff) = uint a mod 2 ^ 16" "uint (signed_drop_bit 16 a AND 0xffff) = uint a div 2 ^ 16"
proof -
  have m: "(0xffff :: 32 word) = mask 16" by (simp add: mask_eq_exp_minus_1)
  show "uint (a AND 0xffff) = uint a mod 2 ^ 16"
    unfolding m using unsigned_take_bit_eq [of 16 a, where 'a = int] by (simp flip: take_bit_eq_mask) (simp add: take_bit_eq_mod)
  have "signed_drop_bit 16 a AND 0xffff = drop_bit 16 a"
    unfolding m by (rule bit_word_eqI) (auto simp: bit_simps bit_signed_drop_bit_iff dest: bit_imp_le_length)
  then show "uint (signed_drop_bit 16 a AND 0xffff) = uint a div 2 ^ 16"
    by (simp only: uint_shift)
qed

lemma cross_term:
  assumes "uint x \<le> 2 ^ 15" "uint y < 2 ^ 16"
  shows "uint (signed_drop_bit 16 (x * y :: 32 word)) = uint x * uint y div 2 ^ 16"
proof -
  have "uint x * uint y \<le> 2 ^ 15 * (2 ^ 16 - 1)" using assms uint_ge_0 [of x] uint_ge_0 [of y] by (intro mult_mono) simp_all
  then have b: "uint x * uint y < 2 ^ 31" by simp
  then have u: "uint (x * y) = uint x * uint y" by (simp add: uint_word_ariths)
  have "\<not> bit (x * y) 31" unfolding bit31_iff u using b by simp
  then have "signed_drop_bit 16 (x * y) = drop_bit 16 (x * y)"
    by (intro bit_word_eqI) (auto simp: bit_simps bit_signed_drop_bit_iff dest: bit_imp_le_length)
  then show ?thesis by (simp only: uint_shift u)
qed

text \<open>The high word that the halves give is the true one, less the carries that they lose.\<close>

lemma mul_high_carry:
  assumes "uint a \<le> 2 ^ 31" "uint b \<le> 2 ^ 31"
  shows "uint (mul_high a b) = uint a * uint b div 2 ^ 32 - mul_carry (uint a) (uint b)"
proof -
  let ?ah = "signed_drop_bit 16 a AND 0xffff" let ?bh = "signed_drop_bit 16 b AND 0xffff" let ?al = "a AND 0xffff" let ?bl = "b AND 0xffff"
  have h: "uint ?ah \<le> 2 ^ 15" "uint ?bh \<le> 2 ^ 15" unfolding half_words(2)
    using zdiv_mono1 [OF assms(1), of "2 ^ 16"] zdiv_mono1 [OF assms(2), of "2 ^ 16"] by simp_all
  have l: "uint ?al < 2 ^ 16" "uint ?bl < 2 ^ 16" unfolding half_words by simp_all
  have hh: "uint ?ah * uint ?bh \<le> 2 ^ 15 * 2 ^ 15" using h uint_ge_0 [of ?bh] by (intro mult_mono) simp_all
  have c: "uint x * uint y div 2 ^ 16 \<le> 2 ^ 15" if "uint x \<le> 2 ^ 15" "uint y < 2 ^ 16" for x y :: "32 word"
  proof -
    have "uint x * uint y \<le> 2 ^ 15 * 2 ^ 16" using that uint_ge_0 [of x] uint_ge_0 [of y] by (intro mult_mono) simp_all
    then show ?thesis using zdiv_mono1 [of "uint x * uint y" "2 ^ 15 * 2 ^ 16" "2 ^ 16"] by simp
  qed
  let ?s = "uint ?ah * uint ?bh + uint ?ah * uint ?bl div 2 ^ 16 + uint ?bh * uint ?al div 2 ^ 16"
  have "0 \<le> ?s" by (simp add: pos_imp_zdiv_nonneg_iff)
  moreover have "?s < 2 ^ 32" using hh c [OF h(1) l(2)] c [OF h(2) l(1)] by simp
  ultimately have "?s mod 2 ^ 32 = ?s" by (rule mod_pos_pos_trivial)
  moreover have "uint (mul_high a b) = ?s mod 2 ^ 32"
    unfolding mul_high_def Let_def
    by (simp only: uint_word_ariths cross_term [OF h(1) l(2)] cross_term [OF h(2) l(1)]) (simp add: mod_simps)
  moreover have "?s = uint a * uint b div 2 ^ 32 - mul_carry (uint a) (uint b)"
    using product_high [of "uint a" "uint b"] unfolding half_words(2) unfolding half_words(1) by linarith
  ultimately show ?thesis by linarith
qed

lemma dword_inject: "dword h l = dword h' l' \<longleftrightarrow> h = h' \<and> l = l'"
proof
  assume e: "dword h l = dword h' l'"
  have b: "0 \<le> uint a * 2 ^ 32 + uint b" "uint a * 2 ^ 32 + uint b < 2 ^ 64" for a b :: "32 word"
    using uint_bounded [of a] uint_bounded [of b] by simp_all
  have "uint (dword a b) = uint a * 2 ^ 32 + uint b" for a b
    unfolding dword_def using b [of a b] by (simp only: uint_word_of_int) (simp add: take_bit_eq_mod)
  then have q: "uint h * 2 ^ 32 + uint l = uint h' * 2 ^ 32 + uint l'" using e by metis
  have "(uint a * 2 ^ 32 + uint b) div 2 ^ 32 = uint a" "(uint a * 2 ^ 32 + uint b) mod 2 ^ 32 = uint b" for a b :: "32 word"
    using uint_bounded [of b] by simp_all
  then have "uint h = uint h'" "uint l = uint l'" using q by metis+
  then show "h = h' \<and> l = l'" by (simp add: word_uint_eq_iff)
qed simp

lemma mul_high_dword:
  assumes "uint a \<le> 2 ^ 31" "uint b \<le> 2 ^ 31"
  shows "dword (mul_high a b) (a * b) = word_of_int (uint a * uint b - mul_carry (uint a) (uint b) * 2 ^ 32)"
proof -
  have "uint (a * b) = uint a * uint b mod 2 ^ 32" by (simp add: uint_word_ariths)
  then have "uint (mul_high a b) * 2 ^ 32 + uint (a * b) = uint a * uint b - mul_carry (uint a) (uint b) * 2 ^ 32"
    unfolding mul_high_carry [OF assms] left_diff_distrib using div_mult_mod_eq [of "uint a * uint b" "2 ^ 32"] by linarith
  then show ?thesis by (simp only: dword_def)
qed

lemma sint_abs_bound: "uint (if sint (a :: 32 word) < 0 then - a else a) \<le> 2 ^ 31"
  unfolding sint_abs using sint_range [of a] by (simp add: abs_le_iff)

lemma mul_carry_0 [simp]: "mul_carry 0 b = 0" "mul_carry a 0 = 0"
  by (simp_all add: mul_carry_def)

lemma mult_hilo_dword:
  assumes "mult_hilo a b = (hi, lo)"
  shows "dword hi lo = word_of_int (sint a * sint b - sgn (sint a * sint b) * mul_carry \<bar>sint a\<bar> \<bar>sint b\<bar> * 2 ^ 32)"
proof -
  let ?a = "if sint a < 0 then - a else a" let ?b = "if sint b < 0 then - b else b"
  have p: "dword (mul_high ?a ?b) (?a * ?b) = word_of_int (\<bar>sint a\<bar> * \<bar>sint b\<bar> - mul_carry \<bar>sint a\<bar> \<bar>sint b\<bar> * 2 ^ 32)"
    using mul_high_dword [OF sint_abs_bound [of a] sint_abs_bound [of b]] unfolding sint_abs .
  show ?thesis
  proof (cases "(sint a < 0) = (sint b < 0)")
    case True
    then have "(hi, lo) = (mul_high ?a ?b, ?a * ?b)" using assms by (simp add: mult_hilo_def Let_def)
    moreover have "sgn (sint a * sint b) = 1 \<or> sint a = 0 \<or> sint b = 0" using True unfolding sgn_mult by (auto simp: sgn_if)
    moreover have "\<bar>sint a\<bar> * \<bar>sint b\<bar> = sint a * sint b" using True by (auto simp: abs_if)
    ultimately show ?thesis using p by auto
  next
    case False
    have "dword hi lo = - dword (mul_high ?a ?b) (?a * ?b)"
      using assms False dword_neg [of "mul_high ?a ?b" "?a * ?b"] by (auto simp: mult_hilo_def Let_def split: if_splits)
    then have d: "dword hi lo = word_of_int (- (\<bar>sint a\<bar> * \<bar>sint b\<bar> - mul_carry \<bar>sint a\<bar> \<bar>sint b\<bar> * 2 ^ 32))"
      unfolding p by (simp only: wi_hom_neg)
    have "sgn (sint a * sint b) = - 1 \<or> sint a = 0 \<or> sint b = 0" using False unfolding sgn_mult by (auto simp: sgn_if)
    moreover have "\<bar>sint a\<bar> * \<bar>sint b\<bar> = - (sint a * sint b)" using False by (auto simp: abs_if)
    ultimately have "- (\<bar>sint a\<bar> * \<bar>sint b\<bar> - mul_carry \<bar>sint a\<bar> \<bar>sint b\<bar> * 2 ^ 32)
        = sint a * sint b - sgn (sint a * sint b) * mul_carry \<bar>sint a\<bar> \<bar>sint b\<bar> * 2 ^ 32" by auto
    then show ?thesis unfolding d by (rule arg_cong)
  qed
qed

lemma mult_hilo_exact:
  assumes "mul_carry \<bar>sint a\<bar> \<bar>sint b\<bar> = 0"
  shows "mult_hilo a b = Mult a b True"
proof -
  obtain hi lo where x: "mult_hilo a b = (hi, lo)" by fastforce
  obtain hi' lo' where m: "Mult a b True = (hi', lo')" by fastforce
  have "dword hi lo = dword hi' lo'" using mult_hilo_dword [OF x] Mult_dword [OF m] assms by simp
  then show ?thesis unfolding x m dword_inject by simp
qed

lemma multu_exact:
  assumes "uint a \<le> 2 ^ 31" "uint b \<le> 2 ^ 31" "mul_carry (uint a) (uint b) = 0"
  shows "(mul_high a b, a * b) = Mult a b False"
proof -
  obtain hi lo where m: "Mult a b False = (hi, lo)" by fastforce
  have "dword (mul_high a b) (a * b) = dword hi lo" using mul_high_dword [OF assms(1,2)] Mult_dword [OF m] assms(3) by simp
  then show ?thesis unfolding m dword_inject by simp
qed

section \<open>One instruction\<close>

text \<open>The states during an instruction: before it (\<open>mid\<close>) and after it, when the simulated processor is about to advance its program counters (\<open>post\<close>).\<close>

definition mid :: "machine \<Rightarrow> 'w xstate \<Rightarrow> 32 word \<Rightarrow> bool" where
  "mid m x xpc \<longleftrightarrow> (\<forall>r < 32. Reg x r = registers m r) \<and> registers m 0 = 0 \<and> HI x = registers m HiReg \<and> LO x = registers m LoReg
     \<and> xpc = registers m PCReg \<and> cur_pc x = registers m NextPCReg \<and> next_pc x = registers m NextPCReg + 4"

definition post :: "machine \<Rightarrow> machine \<Rightarrow> 'w xstate \<Rightarrow> 32 word \<Rightarrow> bool" where
  "post m0 m x pc \<longleftrightarrow> (\<forall>r. 1 \<le> r \<longrightarrow> r < 32 \<longrightarrow> Reg x r = registers m r) \<and> HI x = registers m HiReg \<and> LO x = registers m LoReg
     \<and> next_pc x = pc \<and> cur_pc x = registers m NextPCReg \<and> (\<forall>r. 34 \<le> r \<longrightarrow> registers m r = registers m0 r)"

lemma post_start: "mid m x xpc \<Longrightarrow> pc = registers m NextPCReg + 4 \<Longrightarrow> post m m x pc"
  by (simp add: mid_def post_def)

lemma post_setR: "post m0 m x pc \<Longrightarrow> v = v' \<Longrightarrow> r < 32 \<Longrightarrow> post m0 (setReg r v' m) (setR r v x) pc"
  by (auto simp: post_def setReg_def setR_def)

lemma post_HI: "post m0 m x pc \<Longrightarrow> v = v' \<Longrightarrow> post m0 (setReg HiReg v' m) (x\<lparr>HI := v\<rparr>) pc"
  by (auto simp: post_def setReg_def)

lemma post_LO: "post m0 m x pc \<Longrightarrow> v = v' \<Longrightarrow> post m0 (setReg LoReg v' m) (x\<lparr>LO := v\<rparr>) pc"
  by (auto simp: post_def setReg_def)

lemma post_next: "post m0 m x pc0 \<Longrightarrow> v = pc \<Longrightarrow> post m0 m (x\<lparr>next_pc := v\<rparr>) pc"
  by (auto simp: post_def)

lemma mid_regs:
  assumes "mid m x xpc"
  shows "Reg x (rs v) = registers m (rs v)" "Reg x (rt v) = registers m (rt v)" "HI x = registers m HiReg" "LO x = registers m LoReg"
    "xpc = registers m PCReg" "cur_pc x = registers m NextPCReg" "next_pc x = registers m NextPCReg + 4"
  using assms fields_less [of v] by (simp_all add: mid_def)

definition agree_exec :: "bool \<Rightarrow> exc_handler \<Rightarrow> bool \<Rightarrow> flags \<Rightarrow> 'w host \<Rightarrow> machine \<Rightarrow> 'w xstate \<Rightarrow> 32 word \<Rightarrow> 32 word \<Rightarrow> bool" where
  "agree_exec be H hbe fl host m x xpc v \<longleftrightarrow> (\<exists>m' pc x'. exec_instr be H (Decode v) (registers m NextPCReg + 4) m = Some (Inr (Next m' pc 0 0))
      \<and> execute hbe fl host v xpc x = Inr x' \<and> post m m' x' pc)"

lemmas exec_groups = exec_instr_def exec_arith_def exec_branch_def exec_div_jump_def exec_load_def exec_hilo_logic_def
   exec_store_shift_def exec_sub_store_def exec_misc_def or_else_def Let_def fin_def

lemmas x_groups = execute_def x_special_def x_shift_def x_jump_trap_def x_hilo_def x_muldiv_def x_alu_def default_def or_else_def Let_def ok_def
  top_field

lemma code_special: "unat (drop_bit 26 v) = 0 \<Longrightarrow> opCode (Decode v) = specialTable ! unat (v AND 0x3f) \<and> iextra (Decode v) = shamt v"
  by (simp add: Decode_code Decode_extra)

definition always :: "nat \<Rightarrow> bool" where
  "always k \<longleftrightarrow> k \<in> set [OP_SLL, OP_SRL, OP_SRA, OP_SLLV, OP_SRLV, OP_SRAV, OP_JR, OP_MFHI, OP_MTHI, OP_MFLO, OP_MTLO,
     OP_ADDU, OP_SUBU, OP_AND, OP_OR, OP_XOR, OP_NOR, OP_SLT, OP_SLTU, OP_ADDIU, OP_SLTI, OP_SLTIU, OP_LUI]"

definition common :: "32 word \<Rightarrow> machine \<Rightarrow> bool" where
  "common v m \<longleftrightarrow>
     (let i = Decode v; k = opCode i; a = registers m (irs i); b = registers m (irt i);
          straight = (registers m NextPCReg = registers m PCReg + 4) in
      always k
      \<or> k = OP_ADD \<and> in_int32 (sint a + sint b) \<or> k = OP_ADDI \<and> in_int32 (sint a + sint (iextra i))
      \<or> k = OP_SUB \<and> in_int32 (sint a - sint b)
      \<or> k \<in> set [OP_ANDI, OP_ORI, OP_XORI] \<and> iextra i AND 0x8000 = 0
      \<or> k = OP_DIV \<and> b \<noteq> 0 \<and> \<not> (a = SIGN_BIT \<and> b = - 1) \<or> k = OP_DIVU \<and> b \<noteq> 0
      \<or> k = OP_MULT \<and> mul_carry \<bar>sint a\<bar> \<bar>sint b\<bar> = 0
      \<or> k = OP_MULTU \<and> uint a \<le> 2 ^ 31 \<and> uint b \<le> 2 ^ 31 \<and> mul_carry (uint a) (uint b) = 0
      \<or> k \<in> set [OP_BEQ, OP_BNE, OP_BGEZ, OP_BGEZAL, OP_BGTZ, OP_BLEZ, OP_BLTZ, OP_BLTZAL] \<and> straight
      \<or> k \<in> set [OP_J, OP_JAL] \<and> straight \<and> (registers m PCReg + 8) AND 0xf0000000 = registers m PCReg AND 0xf0000000
      \<or> k = OP_JALR \<and> straight \<and> ird i \<noteq> irs i)"

lemma post_HILO: "post m0 m x pc \<Longrightarrow> post m0 (setReg LoReg l (setReg HiReg h m)) (x\<lparr>LO := l, HI := h\<rparr>) pc"
  by (auto simp: post_def setReg_def)

lemmas post_intros = post_start post_setR post_HI post_LO post_HILO post_next

lemma special_always:
  assumes "mid m x xpc" "unat (drop_bit 26 v) = 0"
    "unat (v AND 0x3f) \<in> set [I_SLL, I_SRL, I_SRA, I_SLLV, I_SRLV, I_SRAV, I_JR, I_MFHI, I_MTHI, I_MFLO, I_MTLO,
       I_ADDU, I_SUBU, I_AND, I_OR, I_XOR, I_NOR, I_SLT, I_SLTU]"
  shows "agree_exec be H hbe fl host m x xpc v"
  using assms(3) code_special [OF assms(2)] unfolding agree_exec_def
  apply (simp only: list.set insert_iff empty_iff simp_thms)
  apply (elim disjE)
  apply (simp_all add: exec_groups specialTable_def)
  apply (simp_all add: x_groups assms(2) mid_regs [OF assms(1)])
  apply (auto intro!: post_intros assms(1) simp: fields_less)
  done

lemma sign_iff: "(x :: 32 word) AND 0x80000000 = 0 \<longleftrightarrow> 0 \<le> sint x"
  using and_sign_bit [of x] bit31_sint [of x] by auto

lemma push_16_immed: "push_bit 16 (immed v) = push_bit 16 v"
proof (rule bit_word_eqI)
  fix n assume "n < LENGTH(32)"
  then show "bit (push_bit 16 (immed v)) n = bit (push_bit 16 v) n"
    by (cases "n - 16 = 15") (auto simp: bit_push_bit_iff immed_bits)
qed

lemma immed_positive: "immed v AND 0x8000 = 0 \<Longrightarrow> immed v AND 0xffff = immed v"
proof -
  have m: "(0xffff :: 32 word) = mask 16" "(0x8000 :: 32 word) = push_bit 15 1" by (simp_all add: mask_eq_exp_minus_1)
  assume "immed v AND 0x8000 = 0"
  then have "\<not> bit v 15" unfolding m using and_bit15 [of "immed v"] by (simp add: immed_bits)
  then show ?thesis unfolding m by (intro bit_word_eqI) (auto simp: bit_and_iff bit_mask_iff immed_bits)
qed

lemma agreeI:
  assumes "exec_instr be H (Decode v) (registers m NextPCReg + 4) m = Some (Inr (Next m' pc 0 0))"
    "execute hbe fl host v xpc x = Inr x'" "post m m' x' pc"
  shows "agree_exec be H hbe fl host m x xpc v"
  using assms by (auto simp: agree_exec_def)

lemma special_cond:
  assumes "mid m x xpc" "unat (drop_bit 26 v) = 0"
    "unat (v AND 0x3f) \<in> set [I_ADD, I_SUB, I_MULT, I_MULTU, I_DIV, I_DIVU, I_JALR]" "common v m"
  shows "agree_exec be H hbe fl host m x xpc v"
proof -
  note code = code_special [OF assms(2)] and x = x_groups assms(2) mid_regs [OF assms(1)]
  note close = post_intros assms(1) fields_less
  let ?a = "registers m (rs v)" let ?b = "registers m (rt v)"
  from assms(3) consider "unat (v AND 0x3f) = I_ADD" | "unat (v AND 0x3f) = I_SUB" | "unat (v AND 0x3f) = I_MULT"
    | "unat (v AND 0x3f) = I_MULTU" | "unat (v AND 0x3f) = I_DIV" | "unat (v AND 0x3f) = I_DIVU" | "unat (v AND 0x3f) = I_JALR"
    by auto
  then show ?thesis
  proof cases
    case 1
    then have k: "opCode (Decode v) = OP_ADD" using code by (simp add: specialTable_def)
    then have "in_int32 (sint ?a + sint ?b)" using assms(4) by (simp add: common_def always_def)
    then show ?thesis using 1 k add_overflow_iff [of ?a ?b]
      by (intro agreeI [where m' = "setReg (rd v) (?a + ?b) m" and x' = "setR (rd v) (?a + ?b) x" and pc = "registers m NextPCReg + 4"])
         (auto simp: exec_groups x intro!: close)
  next
    case 2
    then have k: "opCode (Decode v) = OP_SUB" using code by (simp add: specialTable_def)
    then have "in_int32 (sint ?a - sint ?b)" using assms(4) by (simp add: common_def always_def)
    then show ?thesis using 2 k sub_overflow_iff [of ?a ?b]
      by (intro agreeI [where m' = "setReg (rd v) (?a - ?b) m" and x' = "setR (rd v) (?a - ?b) x" and pc = "registers m NextPCReg + 4"])
         (auto simp: exec_groups x intro!: close)
  next
    case 3
    then have k: "opCode (Decode v) = OP_MULT" using code by (simp add: specialTable_def)
    then have "mult_hilo ?a ?b = Mult ?a ?b True" using assms(4) mult_hilo_exact [of ?a ?b] by (simp add: common_def always_def)
    then show ?thesis using 3 k
      by (cases "Mult ?a ?b True") (auto simp: agree_exec_def exec_groups x intro!: close)
  next
    case 4
    then have k: "opCode (Decode v) = OP_MULTU" using code by (simp add: specialTable_def)
    then have "(mul_high ?a ?b, ?a * ?b) = Mult ?a ?b False" using assms(4) multu_exact [of ?a ?b] by (simp add: common_def always_def Let_def)
    then show ?thesis using 4 k
      by (cases "Mult ?a ?b False") (auto simp: agree_exec_def exec_groups x intro!: close)
  next
    case 5
    then have k: "opCode (Decode v) = OP_DIV" using code by (simp add: specialTable_def)
    then have "?b \<noteq> 0 \<and> \<not> (?a = SIGN_BIT \<and> ?b = - 1)" using assms(4) by (simp add: common_def always_def Let_def)
    then show ?thesis using 5 k by (auto simp: agree_exec_def exec_groups x intro!: close)
  next
    case 6
    then have k: "opCode (Decode v) = OP_DIVU" using code by (simp add: specialTable_def)
    then have "?b \<noteq> 0" using assms(4) by (simp add: common_def always_def)
    then show ?thesis using 6 k by (auto simp: agree_exec_def exec_groups x intro!: close)
  next
    case 7
    then have k: "opCode (Decode v) = OP_JALR" using code by (simp add: specialTable_def)
    then have "registers m NextPCReg = registers m PCReg + 4 \<and> rd v \<noteq> rs v" using assms(4) by (simp add: common_def always_def)
    moreover have "rd v \<noteq> rs v \<Longrightarrow> registers (setReg (rd v) w m) (rs v) = ?a" for w by (simp add: setReg_def)
    ultimately show ?thesis using 7 k
      by (intro agreeI [where m' = "setReg (rd v) (registers m NextPCReg + 4) m" and x' = "setR (rd v) (registers m PCReg + 8) (x\<lparr>next_pc := ?a\<rparr>)" and pc = ?a])
         (auto simp: exec_groups x intro!: close)
  qed
qed

lemma code_bcond: "unat (drop_bit 26 v) = 1 \<Longrightarrow> opCode (Decode v) = bcond_code (rt v) \<and> iextra (Decode v) = immed v"
  by (simp add: Decode_code Decode_extra)

lemma bcond_agree:
  assumes "mid m x xpc" "unat (drop_bit 26 v) = 1" "rt v \<in> set [I_BLTZ, I_BGEZ, I_BLTZAL, I_BGEZAL]" "common v m"
  shows "agree_exec be H hbe fl host m x xpc v"
proof -
  have s: "registers m NextPCReg = registers m PCReg + 4"
    using assms(3,4) code_bcond [OF assms(2)] by (auto simp: common_def always_def bcond_code_def in_int32_def)
  have l: "Reg (setR 31 w x) r = (if r = 31 then w else Reg x r)" "registers (setReg 31 w m) r = (if r = 31 then w else registers m r)" for w r
    by (simp_all add: setR_def setReg_def)
  show ?thesis
    using assms(3) code_bcond [OF assms(2)]
    unfolding agree_exec_def
    apply (simp only: list.set insert_iff empty_iff simp_thms)
    apply (elim disjE)
    apply (simp_all add: exec_groups bcond_code_def sign_iff IndexToAddr_def s l)
    apply (auto simp: execute_def x_bcond_def branch_def Let_def top_field assms(2) mid_regs [OF assms(1)] l s algebra_simps
        intro!: post_intros assms(1))
    done
qed

lemma code_normal: "unat (drop_bit 26 v) = k \<Longrightarrow> 4 \<le> k \<Longrightarrow> opCode (Decode v) = fst (opTable ! k) \<and> iextra (Decode v) = immed v"
  by (auto simp: Decode_code Decode_extra)

lemmas x_normal = execute_def x_jump_branch_def x_immediate_def branch_def default_def or_else_def Let_def ok_def top_field

lemma branch_agree:
  assumes "mid m x xpc" "unat (drop_bit 26 v) \<in> set [I_BEQ, I_BNE, I_BLEZ, I_BGTZ]" "common v m"
  shows "agree_exec be H hbe fl host m x xpc v"
proof -
  have s: "registers m NextPCReg = registers m PCReg + 4"
    using assms(2,3) code_normal [of v] by (auto simp: common_def always_def opTable_def in_int32_def)
  show ?thesis
    using assms(2) code_normal [OF refl, of v]
    unfolding agree_exec_def
    apply (simp only: list.set insert_iff empty_iff simp_thms)
    apply (elim disjE)
    apply (simp_all add: exec_groups opTable_def IndexToAddr_def s)
    apply (auto simp: x_normal mid_regs [OF assms(1)] s algebra_simps intro!: post_intros assms(1))
    done
qed

lemma code_jump: "unat (drop_bit 26 v) = k \<Longrightarrow> k = 2 \<or> k = 3 \<Longrightarrow> opCode (Decode v) = fst (opTable ! k) \<and> iextra (Decode v) = v AND 0x3ffffff"
  by (auto simp: Decode_code Decode_extra)

lemma jump_agree:
  assumes "mid m x xpc" "unat (drop_bit 26 v) \<in> set [I_J, I_JAL]" "common v m"
  shows "agree_exec be H hbe fl host m x xpc v"
proof -
  have s: "registers m NextPCReg = registers m PCReg + 4"
    "(registers m PCReg + 8) AND 0xf0000000 = registers m PCReg AND 0xf0000000"
    using assms(2,3) code_jump [of v] by (auto simp: common_def always_def opTable_def in_int32_def Let_def)
  then have "(8 + registers m PCReg) AND 0xf0000000 = registers m PCReg AND 0xf0000000" by (simp add: add.commute)
  with s show ?thesis
    using assms(2) code_jump [OF refl, of v]
    unfolding agree_exec_def
    apply (simp only: list.set insert_iff empty_iff simp_thms)
    apply (elim disjE)
    apply (simp_all add: exec_groups opTable_def IndexToAddr_def)
    apply (auto simp: x_normal mid_regs [OF assms(1)] intro!: post_intros assms(1))
    done
qed

lemma immediate_agree:
  assumes "mid m x xpc" "unat (drop_bit 26 v) \<in> set [I_ADDI, I_ADDIU, I_SLTI, I_SLTIU, I_ANDI, I_ORI, I_XORI, I_LUI]" "common v m"
  shows "agree_exec be H hbe fl host m x xpc v"
proof -
  have o: "unat (drop_bit 26 v) = I_ADDI \<Longrightarrow> in_int32 (sint (registers m (rs v)) + sint (immed v))"
    "unat (drop_bit 26 v) \<in> set [I_ANDI, I_ORI, I_XORI] \<Longrightarrow> immed v AND 0x8000 = 0"
    using assms(3) code_normal [OF refl, of v] by (auto simp: common_def always_def opTable_def Let_def)
  note ov = add_overflow_iff [of "registers m (rs v)" "immed v"] xor_swap_sign [of "registers m (rs v)" "immed v" "registers m (rs v) + immed v"]
  show ?thesis
    using assms(2) code_normal [OF refl, of v] o immed_positive [of v] ov
    unfolding agree_exec_def
    apply (simp only: list.set insert_iff empty_iff simp_thms)
    apply (elim disjE)
    apply (simp_all add: exec_groups opTable_def)
    apply (auto simp: x_normal mid_regs [OF assms(1)] push_16_immed fields_less intro!: post_intros assms(1))
    done
qed

definition may_agree :: "nat \<Rightarrow> bool" where
  "may_agree k \<longleftrightarrow> always k \<or> k \<in> set [OP_ADD, OP_ADDI, OP_SUB, OP_ANDI, OP_ORI, OP_XORI, OP_DIV, OP_DIVU, OP_MULT, OP_MULTU,
     OP_BEQ, OP_BNE, OP_BGEZ, OP_BGEZAL, OP_BGTZ, OP_BLEZ, OP_BLTZ, OP_BLTZAL, OP_J, OP_JAL, OP_JALR]"

lemma special_codes:
  "f < 64 \<Longrightarrow> may_agree (specialTable ! f) \<longrightarrow>
    f \<in> set [I_SLL, I_SRL, I_SRA, I_SLLV, I_SRLV, I_SRAV, I_JR, I_MFHI, I_MTHI, I_MFLO, I_MTLO,
       I_ADDU, I_SUBU, I_AND, I_OR, I_XOR, I_NOR, I_SLT, I_SLTU] \<or>
    f \<in> set [I_ADD, I_SUB, I_MULT, I_MULTU, I_DIV, I_DIVU, I_JALR]"
  by (rule table_at [of _ 64]) code_simp

lemma normal_codes:
  "k < 64 \<Longrightarrow> k \<noteq> 0 \<longrightarrow> k \<noteq> 1 \<longrightarrow> may_agree (fst (opTable ! k)) \<longrightarrow>
    k \<in> set [I_BEQ, I_BNE, I_BLEZ, I_BGTZ] \<or> k \<in> set [I_J, I_JAL] \<or>
    k \<in> set [I_ADDI, I_ADDIU, I_SLTI, I_SLTIU, I_ANDI, I_ORI, I_XORI, I_LUI]"
  by (rule table_at [of _ 64]) code_simp

lemma common_agree:
  assumes "mid m x xpc" "common v m"
  shows "agree_exec be H hbe fl host m x xpc v"
proof -
  let ?k = "unat (drop_bit 26 v)"
  have c: "may_agree (opCode (Decode v))"
    using assms(2) unfolding common_def may_agree_def Let_def list.set by blast
  consider "?k = 0" | "?k = 1" | "?k \<noteq> 0" "?k \<noteq> 1" by blast
  then show ?thesis
  proof cases
    case 1
    then show ?thesis
      using c special_codes [OF and_mask_less(2) [of v]] code_special [OF 1] special_always [OF assms(1) 1] special_cond [OF assms(1) 1 _ assms(2)]
      by metis
  next
    case 2
    then have "rt v \<in> set [I_BLTZ, I_BGEZ, I_BLTZAL, I_BGEZAL]"
      using c code_bcond [OF 2] by (auto simp: bcond_code_def may_agree_def always_def split: if_splits)
    then show ?thesis by (rule bcond_agree [OF assms(1) 2 _ assms(2)])
  next
    case 3
    then have "opCode (Decode v) = fst (opTable ! ?k)" by (simp add: Decode_code)
    then show ?thesis
      using 3 c normal_codes [OF opcode_less [of v]] branch_agree [OF assms(1) _ assms(2)] jump_agree [OF assms(1) _ assms(2)]
        immediate_agree [OF assms(1) _ assms(2)] by metis
  qed
qed

text \<open>The two machines between instructions.\<close>

definition agree :: "machine \<Rightarrow> 'w xstate \<Rightarrow> bool" where
  "agree m x \<longleftrightarrow> (\<forall>r. 1 \<le> r \<longrightarrow> r < 32 \<longrightarrow> Reg x r = registers m r) \<and> registers m 0 = 0
     \<and> HI x = registers m HiReg \<and> LO x = registers m LoReg
     \<and> cur_pc x = registers m PCReg \<and> next_pc x = registers m NextPCReg \<and> registers m LoadReg = 0"

lemma update_entry_registers [simp]: "registers (update_entry loc e m) = registers m"
  by (cases loc) (simp_all add: update_entry_def)

lemma Translate_registers:
  assumes "Translate va n w m = Inr (Inr (pa, m'))"
  shows "registers m' = registers m"
proof -
  show ?thesis
  proof (cases "lookup_entry (va div 128) m")
    case (Inr found)
    then show ?thesis using assms
      by (cases found) (auto simp: Translate_def Let_def rbind_Inr_iff split: if_splits)
  qed (use assms in \<open>auto simp: Translate_def Let_def rbind_Inr_iff split: if_splits\<close>)
qed

lemma ReadMem_registers:
  assumes "ReadMem be H a n m = Inr (Some v, m1)"
  shows "registers m1 = registers m"
proof -
  obtain t where t: "Translate a n False m = Inr t" using assms by (auto simp: ReadMem_def res_simps)
  then show ?thesis
  proof (cases t)
    case (Inl e)
    then show ?thesis using assms t by (auto simp: ReadMem_def res_simps)
  next
    case (Inr p)
    then show ?thesis using assms t Translate_registers [of a n False m]
      by (cases p) (auto simp: ReadMem_def Let_def split: if_splits)
  qed
qed

lemma finish_agree:
  assumes "post m m2 x pc" "registers m LoadReg = 0"
  shows "\<exists>m3. finish_instr m2 pc 0 0 = Inr m3 \<and> agree m3 (trace_step fl v a x)"
  using assms by (auto simp: finish_instr_def DelayedLoad_def post_def agree_def trace_step_def put_def setReg_def Let_def)

lemma agree_mid:
  "agree m x \<Longrightarrow> registers m1 = registers m \<Longrightarrow>
   mid m1 (setR 0 0 (x\<lparr>icount := n, cur_pc := next_pc x, next_pc := next_pc x + 4\<rparr>)) (cur_pc x)"
  by (auto simp: agree_def mid_def setR_def)

lemma nop_agree:
  assumes "mid m x xpc"
  shows "\<exists>m'. exec_instr be H (Decode 0) (registers m NextPCReg + 4) m = Some (Inr (Next m' (registers m NextPCReg + 4) 0 0))
     \<and> post m m' x (registers m NextPCReg + 4)"
proof -
  have d: "opCode (Decode 0) = OP_SLL" "rd 0 = 0" "rt 0 = 0" "iextra (Decode 0) = 0"
    by (simp_all add: Decode_code Decode_extra specialTable_def rd_def rt_def shamt_def)
  then show ?thesis using assms by (auto simp: exec_groups post_def mid_def setReg_def)
qed

lemma instruction_agree:
  assumes "agree m x" "ReadMem be H (registers m PCReg) 4 m = Inr (Some v, m1)" "fetch hbe (memory x) (cur_pc x) = Inr v" "common v m"
  shows "\<exists>m' x'. OneInstruction be H m = Inr m' \<and> step hbe fl host x = Inr x' \<and> agree m' x'"
proof -
  have r: "registers m1 = registers m" using ReadMem_registers [OF assms(2)] .
  define x2 where "x2 = setR 0 0 (x\<lparr>icount := icount x + 1, cur_pc := next_pc x, next_pc := next_pc x + 4\<rparr>)"
  have mid: "mid m1 x2 (cur_pc x)" unfolding x2_def by (rule agree_mid [OF assms(1) r])
  obtain m2 pc x3 where e: "exec_instr be H (Decode v) (registers m1 NextPCReg + 4) m1 = Some (Inr (Next m2 pc 0 0))"
    "(if v = 0 then Inr x2 else execute hbe fl host v (cur_pc x) x2) = Inr x3" "post m1 m2 x3 pc"
  proof (cases "v = 0")
    case True
    then show thesis using nop_agree [OF mid, of be H] that by auto
  next
    case False
    have "common v m1" using assms(4) r by (simp add: common_def)
    then show thesis using common_agree [OF mid] False that unfolding agree_exec_def by metis
  qed
  obtain m3 where f: "finish_instr m2 pc 0 0 = Inr m3" "agree m3 (trace_step fl v (cur_pc x) x3)"
    using finish_agree [OF e(3), of fl v "cur_pc x"] assms(1) r unfolding agree_def [of m x] by auto
  have "OneInstruction be H m = Inr m3" using assms(2) e(1) f(1) by (simp add: OneInstruction_def Let_def)
  moreover have "step hbe fl host x = xbind (if v = 0 then Inr x2 else execute hbe fl host v (cur_pc x) x2) (\<lambda>x'. Inr (trace_step fl v (cur_pc x) x'))"
    using assms(3) by (simp add: step_def Let_def xfetch_def x2_def)
  ultimately show ?thesis using f(2) unfolding e(2) by simp
qed

section \<open>Runs\<close>

text \<open>The simulated processor and the stand-alone simulator for \<open>n\<close> instructions.\<close>

fun mips_run :: "bool \<Rightarrow> exc_handler \<Rightarrow> nat \<Rightarrow> machine \<Rightarrow> machine res" where
  "mips_run be H 0 m = Inr m"
| "mips_run be H (Suc n) m = rbind (OneInstruction be H m) (mips_run be H n)"

fun exec_run :: "bool \<Rightarrow> flags \<Rightarrow> 'w host \<Rightarrow> nat \<Rightarrow> 'w xstate \<Rightarrow> ('w, 'w xstate) xres" where
  "exec_run be fl host 0 x = Inr x"
| "exec_run be fl host (Suc n) x = xbind (step be fl host x) (exec_run be fl host n)"

text \<open>Both fetch the same word at each of the next \<open>n\<close> instructions, and it is one that they have in common.\<close>

definition same_instruction :: "bool \<Rightarrow> exc_handler \<Rightarrow> bool \<Rightarrow> machine \<Rightarrow> 'w xstate \<Rightarrow> bool" where
  "same_instruction be H hbe m x \<longleftrightarrow>
     (case (ReadMem be H (registers m PCReg) 4 m, fetch hbe (memory x) (cur_pc x)) of
        (Inr (Some v, m1), Inr w) \<Rightarrow> v = w \<and> common v m | _ \<Rightarrow> False)"

definition both :: "machine res \<Rightarrow> ('w, 'w xstate) xres \<Rightarrow> (machine \<Rightarrow> 'w xstate \<Rightarrow> bool) \<Rightarrow> bool" where
  "both r r' P = (case r of Inl e \<Rightarrow> True | Inr m \<Rightarrow> (case r' of Inl e \<Rightarrow> True | Inr x \<Rightarrow> P m x))"

fun comparable :: "bool \<Rightarrow> exc_handler \<Rightarrow> bool \<Rightarrow> flags \<Rightarrow> 'w host \<Rightarrow> nat \<Rightarrow> machine \<Rightarrow> 'w xstate \<Rightarrow> bool" where
  "comparable be H hbe fl host 0 m x \<longleftrightarrow> True"
| "comparable be H hbe fl host (Suc n) m x \<longleftrightarrow>
     same_instruction be H hbe m x \<and>
     both (OneInstruction be H m) (step hbe fl host x) (comparable be H hbe fl host n)"

lemma same_instruction_agree:
  assumes "agree m x" "same_instruction be H hbe m x"
  shows "\<exists>m' x'. OneInstruction be H m = Inr m' \<and> step hbe fl host x = Inr x' \<and> agree m' x'"
proof -
  obtain v m1 where r: "ReadMem be H (registers m PCReg) 4 m = Inr (Some v, m1)"
    using assms(2) unfolding same_instruction_def by (simp split: sum.split_asm prod.split_asm option.split_asm)
  moreover have "fetch hbe (memory x) (cur_pc x) = Inr v \<and> common v m"
    using assms(2) unfolding same_instruction_def r by (simp split: sum.split_asm)
  ultimately have "ReadMem be H (registers m PCReg) 4 m = Inr (Some v, m1)"
    "fetch hbe (memory x) (cur_pc x) = Inr v" "common v m" by blast+
  then show ?thesis by (rule instruction_agree [OF assms(1)])
qed

text \<open>C10: the two MIPS simulators of the repository agree. From states with the same registers and program counters, with no load
  pending, and as long as both fetch the same instructions and these are common to them, the processor that Nachos simulates and
  the stand-alone simulator of bin/ execute any number of instructions without an exception or a stop and reach
  states that agree again.\<close>

theorem simulators_agree:
  assumes "agree m x" "comparable be H hbe fl host n m x"
  shows "\<exists>m' x'. mips_run be H n m = Inr m' \<and> exec_run hbe fl host n x = Inr x' \<and> agree m' x'"
  using assms
proof (induction n arbitrary: m x)
  case (Suc n)
  have c: "same_instruction be H hbe m x" using Suc.prems(2) unfolding comparable.simps by blast
  obtain m1 x1 where s: "OneInstruction be H m = Inr m1" "step hbe fl host x = Inr x1" "agree m1 x1"
    using same_instruction_agree [OF Suc.prems(1) c] by blast
  have "comparable be H hbe fl host n m1 x1" using Suc.prems(2) unfolding comparable.simps s both_def by simp
  from Suc.IH [OF s(3) this] show ?case unfolding mips_run.simps exec_run.simps s rbind_simps xbind_simps .
qed simp

text \<open>ADDIU r2, r0, 5; MULT r2, r2; MFLO r3, on a machine with a TLB that maps the page of the program.\<close>

definition demo_program :: "nat \<Rightarrow> 8 word" where
  "demo_program p = (if p < 12 then [0x05, 0x00, 0x02, 0x24, 0x18, 0x00, 0x42, 0x00, 0x12, 0x18, 0x00, 0x00] ! p else 0)"

definition demo_cpu :: machine where
  "demo_cpu = (Machine_new True False UserMode)
     \<lparr>mainMemory := demo_program,
      tlb := Some [\<lparr>virtualPage = 0x200000, physicalPage = 0, valid = True, readOnly = False, usebit = False, dirty = False\<rparr>],
      registers := (\<lambda>_. 0)(PCReg := 0x10000000, NextPCReg := 0x10000004)\<rparr>"

definition demo_xstate :: "unit xstate" where
  "demo_xstate = \<lparr>Reg = (\<lambda>_. 0), HI = 0, LO = 0, memory = demo_program, cur_pc = 0x10000000, next_pc = 0x10000004, icount = 0,
     printed_out = [], world = ()\<rparr>"

definition no_flags :: flags where
  "no_flags = \<lparr>TRACE = False, Traptrace = False, Regtrace = False\<rparr>"

theorem simulators_agree_witness:
  "\<exists>m' x'. mips_run False (\<lambda>e m. Inl PowerDown) 3 demo_cpu = Inr m' \<and> exec_run False no_flags (\<lambda>c w m. (0, w, m)) 3 demo_xstate = Inr x'
     \<and> agree m' x' \<and> Reg x' 3 = 25 \<and> cur_pc x' = 0x1000000c"
proof -
  let ?host = "\<lambda>c w m. (0, w, m)"
  have "comparable False (\<lambda>e m. Inl PowerDown) False no_flags ?host 3 demo_cpu demo_xstate" by code_simp
  moreover have "agree demo_cpu demo_xstate" by (simp add: agree_def demo_cpu_def demo_xstate_def Machine_new_def)
  ultimately obtain m' x' where r: "mips_run False (\<lambda>e m. Inl PowerDown) 3 demo_cpu = Inr m'"
    "exec_run False no_flags ?host 3 demo_xstate = Inr x'" "agree m' x'"
    using simulators_agree [of demo_cpu demo_xstate False "\<lambda>e m. Inl PowerDown" False no_flags ?host 3] by blast
  have "both (Inr demo_cpu) (exec_run False no_flags ?host 3 demo_xstate) (\<lambda>m x. Reg x 3 = 25 \<and> cur_pc x = 0x1000000c)"
    by code_simp
  then show ?thesis using r by (auto simp: both_def)
qed

section \<open>Where they differ\<close>

text \<open>C20: the product of two registers as the stand-alone simulator's MULT computes it, exactly: LO is right, and HI is smaller in
  magnitude than the high word of the signed product by the carries between the partial products, of which at most two are lost.\<close>

theorem mult_loses_carries:
  assumes "mult_hilo a b = (hi, lo)"
  shows "\<exists>c. 0 \<le> c \<and> c \<le> 2 \<and> dword hi lo = word_of_int (sint a * sint b - sgn (sint a * sint b) * c * 2 ^ 32)"
  using mult_hilo_dword [OF assms] mul_carry_bound by blast

text \<open>The square of \<open>0x1ffff\<close> is \<open>0x3fffc0001\<close>; two carries are lost.\<close>

theorem mult_loses_carries_witness:
  "\<exists>c. 0 \<le> c \<and> c \<le> 2 \<and> dword 1 0xfffc0001 = word_of_int (0x1ffff * 0x1ffff - c * 2 ^ 32)"
proof -
  have "mult_hilo 0x1ffff 0x1ffff = (1, 0xfffc0001)" by code_simp
  moreover have "sint (0x1ffff :: 32 word) = 0x1ffff" "sgn (0x1ffff * 0x1ffff :: int) = 1" by simp_all
  ultimately show ?thesis using mult_loses_carries [of "0x1ffff" "0x1ffff" 1 "0xfffc0001"] by (simp only: simp_thms mult_1)
qed

lemma mult_lost: "mult_hilo 0x1ffff 0x1ffff = (1, 0xfffc0001)" "Mult 0x1ffff 0x1ffff True = (3, 0xfffc0001)"
  by code_simp+

text \<open>ORI r2, r0, 0x8000 sign-extends its operand, ADD r3, r2, r2 and ADDI do not trap when they overflow.\<close>

definition demo_regs :: "32 word \<Rightarrow> unit xstate" where
  "demo_regs v = demo_xstate\<lparr>Reg := (\<lambda>_. 0)(2 := v)\<rparr>"

definition result_is :: "nat \<Rightarrow> 32 word \<Rightarrow> ('w, 'w xstate) xres \<Rightarrow> bool" where
  "result_is r v res \<longleftrightarrow> (case res of Inl e \<Rightarrow> False | Inr x \<Rightarrow> Reg x r = v)"

lemma immediates_sign_extended:
  "result_is 2 0xffff8000 (execute False no_flags (\<lambda>c w m. (0, w, m)) 0x34028000 0x10000000 (demo_regs 0))"
  by code_simp

lemma overflow_not_trapped:
  "result_is 3 0x80000000 (execute False no_flags (\<lambda>c w m. (0, w, m)) 0x00421820 0x10000000 (demo_regs 0x40000000))"
  by code_simp

text \<open>LWL r2, 1(r4) with the word \<open>0x24020005\<close> at the start of the memory keeps none of the bytes of the register that it should
  keep, but joins all of them with those loaded.\<close>

lemma lwl_joins:
  "result_is 2 0xff0005ff (execute False no_flags (\<lambda>c w m. (0, w, m)) 0x88820001 0x10000000
     (demo_xstate\<lparr>Reg := (\<lambda>_. 0)(2 := 0xff0000ff, 4 := 0x10000000)\<rparr>))"
  by code_simp

end
