(* ===== verification/ToolsModel.thy ===== *)
theory ToolsModel
  imports ExecuteModel CoffModel
begin

unbundle bit_operations_syntax

text \<open>
  What the stand-alone simulator does around its loop (bin/execute.c): the logarithm with which it classifies
  values for its histograms, and the argument vector that it leaves on the stack of the program.
\<close>

section \<open>The logarithm of execute.c\<close>

text \<open>
  A stage of \<open>ilog2\<close> decides one binary digit of the position of the highest bit: \<open>top i p k (j, l)\<close> says
  that the bits left in \<open>j\<close>, among them the highest one, are at positions that agree with \<open>p\<close> but for the
  last \<open>k\<close> digits.
\<close>

definition highest :: "32 word \<Rightarrow> nat \<Rightarrow> bool" where
  "highest i p \<longleftrightarrow> bit i p \<and> (\<forall>n > p. \<not> bit i n)"

definition narrowed :: "nat \<Rightarrow> nat \<Rightarrow> 32 word \<times> nat \<Rightarrow> bool" where
  "narrowed p k = (\<lambda>(j, l). highest j p \<and> (\<forall>n. bit j n \<longrightarrow> n div 2 ^ k = p div 2 ^ k) \<and> l = p div 2 ^ k * 2 ^ k + 1)"

lemma narrow_stage:
  assumes "narrowed p (Suc k) (j, l)" "\<And>n. bit m n \<longleftrightarrow> n < 32 \<and> odd (n div 2 ^ k)"
  shows "narrowed p k (log_stage m (2 ^ k) (j, l))"
proof -
  have up: "n div 2 ^ Suc k = n div 2 ^ k div 2" for n :: nat by (simp only: power_Suc2 div_mult2_eq)
  have p: "bit j p" "n \<le> p" if "bit j n \<or> n = p" for n
    using assms(1) that not_less [of p n] unfolding narrowed_def highest_def by blast+
  have "p < 32" using p(1) [of p] bit_imp_le_length [of j p] by simp
  have a: "highest j p \<and> (\<forall>n. bit j n \<longrightarrow> n div 2 ^ k div 2 = p div 2 ^ k div 2) \<and> l = p div 2 ^ k div 2 * 2 ^ Suc k + 1"
    using assms(1) unfolding narrowed_def up by blast
  have same: "n div 2 ^ k div 2 = p div 2 ^ k div 2" "n div 2 ^ k \<le> p div 2 ^ k" if "bit j n" for n
    using a that p(2) [of n] by (blast intro: div_le_mono)+
  have half: "x div 2 = y div 2 \<Longrightarrow> odd x = odd y \<Longrightarrow> x = y" for x y :: nat by presburger
  have ev: "x div 2 = y div 2 \<Longrightarrow> x \<le> y \<Longrightarrow> odd x \<Longrightarrow> odd y" for x y :: nat by presburger
  define q where "q = p div 2 ^ k div 2"
  have l: "l = q * (2 * 2 ^ k) + 1" using a unfolding q_def power_Suc by blast
  show ?thesis
  proof (cases "odd (p div 2 ^ k)")
    case True
    then have b: "bit (j AND m) p" using p(1) [of p] \<open>p < 32\<close> assms(2) by (simp add: bit_and_iff)
    then have "j AND m \<noteq> 0" by (metis bit_0_eq bot_apply bot_bool_def)
    then have e: "log_stage m (2 ^ k) (j, l) = (j AND m, l + 2 ^ k)" by (simp add: log_stage_def)
    have "p div 2 ^ k = 2 * q + 1" unfolding q_def using True by (simp add: odd_two_times_div_two_succ)
    then have "l + 2 ^ k = p div 2 ^ k * 2 ^ k + 1" unfolding l by (simp add: algebra_simps)
    moreover have "n div 2 ^ k = p div 2 ^ k" if "bit (j AND m) n" for n
    proof -
      have "bit j n" "odd (n div 2 ^ k)" using that assms(2) [of n] by (simp_all add: bit_and_iff)
      then show ?thesis using half [OF same(1)] True by blast
    qed
    moreover have "highest (j AND m) p" using b conjunct1 [OF a] by (simp add: highest_def bit_and_iff)
    ultimately show ?thesis unfolding e narrowed_def prod.case by blast
  next
    case False
    have e: "even (n div 2 ^ k)" if "bit j n" for n using same [OF that] ev False by blast
    then have "\<not> bit (j AND m) n" for n using e [of n] assms(2) [of n] unfolding bit_and_iff by blast
    then have "j AND m = 0" by (simp add: bit_eq_iff)
    then have r: "log_stage m (2 ^ k) (j, l) = (j, l)" by (simp add: log_stage_def)
    have "p div 2 ^ k = 2 * q" unfolding q_def using False by simp
    then have "l = p div 2 ^ k * 2 ^ k + 1" unfolding l by simp
    moreover have "n div 2 ^ k = p div 2 ^ k" if "bit j n" for n
      using same(1) [OF that] e [OF that] False half by blast
    moreover note conjunct1 [OF a]
    ultimately show ?thesis unfolding r narrowed_def prod.case by blast
  qed
qed

lemma narrow:
  assumes "narrowed p K s" "K = Suc k" "d = 2 ^ k" "\<And>n. bit m n \<longleftrightarrow> n < 32 \<and> odd (n div 2 ^ k)"
  shows "narrowed p k (log_stage m d s)"
  using narrow_stage [of p k "fst s" "snd s" m] assms by simp

lemma log_masks:
  "bit (0xffff0000 :: 32 word) n \<longleftrightarrow> n < 32 \<and> odd (n div 2 ^ 4)" "bit (0xff00ff00 :: 32 word) n \<longleftrightarrow> n < 32 \<and> odd (n div 2 ^ 3)"
  "bit (0xf0f0f0f0 :: 32 word) n \<longleftrightarrow> n < 32 \<and> odd (n div 2 ^ 2)" "bit (0xcccccccc :: 32 word) n \<longleftrightarrow> n < 32 \<and> odd (n div 2 ^ 1)"
  "bit (0xaaaaaaaa :: 32 word) n \<longleftrightarrow> n < 32 \<and> odd (n div 2 ^ 0)"
proof -
  have l: "bit (m :: 32 word) n \<longleftrightarrow> n < 32 \<and> odd (n div 2 ^ k)"
    if "list_all (\<lambda>n. bit m n = odd (n div 2 ^ k)) [0..<32]" for m k
    using table_at [OF that, of n] bit_imp_le_length [of m n] by auto
  show "bit (0xffff0000 :: 32 word) n \<longleftrightarrow> n < 32 \<and> odd (n div 2 ^ 4)" by (rule l) code_simp
  show "bit (0xff00ff00 :: 32 word) n \<longleftrightarrow> n < 32 \<and> odd (n div 2 ^ 3)" by (rule l) code_simp
  show "bit (0xf0f0f0f0 :: 32 word) n \<longleftrightarrow> n < 32 \<and> odd (n div 2 ^ 2)" by (rule l) code_simp
  show "bit (0xcccccccc :: 32 word) n \<longleftrightarrow> n < 32 \<and> odd (n div 2 ^ 1)" by (rule l) code_simp
  show "bit (0xaaaaaaaa :: 32 word) n \<longleftrightarrow> n < 32 \<and> odd (n div 2 ^ 0)" by (rule l) code_simp
qed

lemma ilog2_highest:
  assumes "highest i p"
  shows "ilog2 i = p + 1"
proof -
  have "p < 32" using assms by (auto simp: highest_def dest: bit_imp_le_length)
  moreover have "bit i n \<Longrightarrow> n < 32" for n by (auto dest: bit_imp_le_length)
  ultimately have "narrowed p (Suc 4) (i, 1)" using assms by (auto simp: narrowed_def)
  then have "narrowed p 4 (log_stage 0xffff0000 16 (i, 1))" by (rule narrow) (simp_all only: log_masks, simp_all)
  then have "narrowed p 3 (log_stage 0xff00ff00 8 (log_stage 0xffff0000 16 (i, 1)))"
    by (rule narrow) (simp_all only: log_masks, simp_all)
  then have "narrowed p 2 (log_stage 0xf0f0f0f0 4 (log_stage 0xff00ff00 8 (log_stage 0xffff0000 16 (i, 1))))"
    by (rule narrow) (simp_all only: log_masks, simp_all)
  then have "narrowed p 1 (log_stage 0xcccccccc 2 (log_stage 0xf0f0f0f0 4 (log_stage 0xff00ff00 8 (log_stage 0xffff0000 16 (i, 1)))))"
    by (rule narrow) (simp_all only: log_masks, simp_all)
  then have "narrowed p 0 (log_stage 0xaaaaaaaa 1 (log_stage 0xcccccccc 2 (log_stage 0xf0f0f0f0 4
      (log_stage 0xff00ff00 8 (log_stage 0xffff0000 16 (i, 1))))))" (is "narrowed p 0 ?s0")
    by (rule narrow) (simp_all only: log_masks, simp_all)
  then have "snd ?s0 = p + 1" by (cases ?s0) (simp add: narrowed_def)
  moreover have "i \<noteq> 0" using assms by (auto simp: highest_def)
  ultimately show ?thesis by (simp add: ilog2_def)
qed

lemma highest_exists: "i \<noteq> 0 \<Longrightarrow> \<exists>p. highest i p"
proof -
  assume "i \<noteq> 0"
  then have ne: "{n. bit i n} \<noteq> {}" by (auto simp: bit_eq_iff)
  have "{n. bit i n} \<subseteq> {..<32}" using bit_imp_le_length [of i] by auto
  then have f: "finite {n. bit i n}" by (rule finite_subset) simp
  have "highest i (Max {n. bit i n})"
    using Max_in [OF f ne] Max_ge [OF f] unfolding highest_def by (metis mem_Collect_eq not_le)
  then show ?thesis ..
qed

lemma highest_bounds:
  assumes "highest i p"
  shows "2 ^ p \<le> unat i" "unat i < 2 ^ (p + 1)"
proof -
  have b: "bit (unat i) n \<longleftrightarrow> bit i n" for n by (auto simp: bit_unsigned_iff dest: bit_imp_le_length)
  have "odd (unat i div 2 ^ p)" using assms b [of p] by (simp add: highest_def bit_iff_odd)
  then have "unat i div 2 ^ p \<noteq> 0" by (auto intro: ccontr)
  then show "2 ^ p \<le> unat i" by (simp add: div_eq_0_iff not_less)
  have "n \<le> p" if "bit i n" for n using assms that not_less [of p n] unfolding highest_def by blast
  then have "take_bit (p + 1) (unat i) = unat i"
    by (intro bit_eqI) (auto simp: bit_take_bit_iff b less_Suc_eq_le)
  then show "unat i < 2 ^ (p + 1)" by (metis take_bit_nat_less_exp)
qed

text \<open>\<open>ilog2\<close> returns the number of binary digits of its argument, taken as unsigned: the only \<open>l\<close> with
  \<open>2 ^ (l - 1) \<le> i < 2 ^ l\<close>, and 0 for 0. (The table in its comment is the logarithm of \<open>i + 1\<close>, rounded down, which is one less for 2, 4, 5 and many others.)\<close>

lemma ilog2_digits: "unat i < 2 ^ ilog2 i \<and> 2 ^ ilog2 i \<le> 2 * unat i + 1"
proof (cases "i = 0")
  case True
  then show ?thesis by (simp add: ilog2_def)
next
  case False
  then obtain p where p: "highest i p" using highest_exists by blast
  then show ?thesis using highest_bounds [OF p] ilog2_highest [OF p] by simp
qed

lemma ilog2_comment: "map ilog2 [0, 1, 2, 3, 4, 5, 6, 7, 8, 9] = [0, 1, 2, 2, 3, 3, 3, 3, 4, 4]"
  by code_simp

section \<open>The arguments of a program\<close>

lemma stack_index:
  assumes "k \<le> 1024"
  shows "mem_index (initial_sp + of_nat k) = 0xfffc00 + int k"
proof -
  have "unat (of_nat k :: 32 word) = k" using assms by (simp add: unat_of_nat take_bit_nat_eq_self)
  then have "unat (initial_sp + of_nat k) = 0x10fffc00 + k" using assms by (simp add: unat_word_ariths)
  then have "sint (initial_sp + of_nat k) = 0x10fffc00 + int k" using assms by (simp add: sint_small)
  then show ?thesis by (simp add: mem_index_def)
qed

lemma stack_in_mem: "k + n \<le> 1024 \<Longrightarrow> in_mem (initial_sp + of_nat k) n"
  by (simp add: in_mem_def stack_index)

lemma stack_nat: "k \<le> 1024 \<Longrightarrow> nat (mem_index (initial_sp + of_nat k)) = 0xfffc00 + k"
  by (simp add: stack_index nat_add_distrib)

text \<open>A string on the stack, with the zero byte that ends it.\<close>

definition holds :: "(nat \<Rightarrow> 8 word) \<Rightarrow> nat \<Rightarrow> 8 word list \<Rightarrow> bool" where
  "holds mem p s \<longleftrightarrow> (\<forall>i < length s. mem (p + i) = s ! i)"

lemma strcpy_ok:
  "k + length s < 1024 \<Longrightarrow> \<exists>mem'. strcpy (initial_sp + of_nat k) s mem = Inr mem' \<and> holds mem' (0xfffc00 + k) (s @ [0])
     \<and> (\<forall>q. q < 0xfffc00 + k \<or> 0xfffc00 + k + length s < q \<longrightarrow> mem' q = mem q)"
proof (induction s arbitrary: k mem)
  case Nil
  then show ?case by (simp add: put_byte_def stack_in_mem stack_nat holds_def)
next
  case (Cons c s)
  let ?m = "mem(0xfffc00 + k := c)"
  have "k + 1 + length s < 1024" using Cons.prems by simp
  then obtain mem' where m: "strcpy (initial_sp + of_nat (k + 1)) s ?m = Inr mem'" "holds mem' (0xfffc00 + (k + 1)) (s @ [0])"
    "\<forall>q. q < 0xfffc00 + (k + 1) \<or> 0xfffc00 + (k + 1) + length s < q \<longrightarrow> mem' q = ?m q"
    using Cons.IH [of "k + 1" ?m] by blast
  have a: "initial_sp + of_nat k + 1 = initial_sp + of_nat (k + 1)" by (simp add: ac_simps)
  have "strcpy (initial_sp + of_nat k) (c # s) mem = Inr mem'"
    using Cons.prems m(1) unfolding strcpy.simps a by (simp add: put_byte_def stack_in_mem stack_nat)
  moreover have "holds mem' (0xfffc00 + k) ((c # s) @ [0])"
    unfolding holds_def
  proof (intro allI impI)
    fix i assume "i < length ((c # s) @ [0])"
    then show "mem' (0xfffc00 + k + i) = ((c # s) @ [0]) ! i"
      using m(2,3) by (cases i) (auto simp: holds_def add.assoc)
  qed
  ultimately show ?case using m(3) by auto
qed

lemma load_store_word: "host_load32 be (host_store32 be p w mem) p = w"
proof (cases be)
  case True
  have "host_load32 False (\<lambda>q. host_store32 True p w mem (2 * p + 3 - q)) p = w"
    unfolding host_load32_def host_store32_def if_True if_False
    by (rule word_eq_by_bytes) (simp_all add: bit_simps)
  then show ?thesis using True by (simp add: host_load32_def host_store32_def ac_simps)
qed (simp add: load_store32)

lemma load_word_frame: "(\<And>q. p \<le> q \<Longrightarrow> q < p + 4 \<Longrightarrow> mem' q = mem q) \<Longrightarrow> host_load32 be mem' p = host_load32 be mem p"
  by (simp add: host_load32_def)

lemma put_word_ok: "k + 4 \<le> 1024 \<Longrightarrow> put_word be (initial_sp + of_nat k) v mem = Inr (host_store32 be (0xfffc00 + k) v mem)"
  by (simp add: put_word_def stack_in_mem stack_nat)

lemma holds_frame: "holds mem p s \<Longrightarrow> (\<And>q. p \<le> q \<Longrightarrow> q < p + length s \<Longrightarrow> mem' q = mem q) \<Longrightarrow> holds mem' p s"
  by (simp add: holds_def)

text \<open>An entry of the array of pointers, with the string that it points to.\<close>

definition arg_at :: "bool \<Rightarrow> (nat \<Rightarrow> 8 word) \<Rightarrow> nat \<Rightarrow> nat \<Rightarrow> 8 word list \<Rightarrow> bool" where
  "arg_at be mem a b s \<longleftrightarrow> (\<exists>k \<ge> b. k + length s < 1024 \<and> host_load32 be mem (0xfffc00 + a) = initial_sp + of_nat k
     \<and> holds mem (0xfffc00 + k) (s @ [0]))"

lemma put_args_ok:
  assumes "a + 4 * length argv \<le> b" "b + sum_list (map (\<lambda>s. length s + 1) argv) \<le> 1024"
  shows "\<exists>mem'. put_args be argv (initial_sp + of_nat a) (initial_sp + of_nat b) mem = Inr mem'
     \<and> (\<forall>q. q < 0xfffc00 + a \<or> 0xfffc00 + a + 4 * length argv \<le> q \<and> q < 0xfffc00 + b \<longrightarrow> mem' q = mem q)
     \<and> (\<forall>j < length argv. arg_at be mem' (a + 4 * j) b (argv ! j))"
  using assms
proof (induction argv arbitrary: a b mem)
  case (Cons s argv)
  have r: "b + length s < 1024" "a + 4 \<le> 1024" "a + 4 + 4 * length argv \<le> b" "(a + 4) + 4 * length argv \<le> b + (length s + 1)"
    "b + (length s + 1) + sum_list (map (\<lambda>s. length s + 1) argv) \<le> 1024" using Cons.prems by simp_all
  obtain m1 where m1: "strcpy (initial_sp + of_nat b) s mem = Inr m1" "holds m1 (0xfffc00 + b) (s @ [0])"
    "\<forall>q. q < 0xfffc00 + b \<or> 0xfffc00 + b + length s < q \<longrightarrow> m1 q = mem q"
    using strcpy_ok [OF r(1)] by blast
  let ?m2 = "host_store32 be (0xfffc00 + a) (initial_sp + of_nat b) m1"
  obtain m' where m': "put_args be argv (initial_sp + of_nat (a + 4)) (initial_sp + of_nat (b + (length s + 1))) ?m2 = Inr m'"
    "\<forall>q. q < 0xfffc00 + (a + 4) \<or> 0xfffc00 + (a + 4) + 4 * length argv \<le> q \<and> q < 0xfffc00 + (b + (length s + 1)) \<longrightarrow> m' q = ?m2 q"
    "\<forall>j < length argv. arg_at be m' (a + 4 + 4 * j) (b + (length s + 1)) (argv ! j)"
    using Cons.IH [OF r(4,5), of ?m2] by blast
  have o: "initial_sp + of_nat a + 4 = initial_sp + of_nat (a + 4)"
    "initial_sp + of_nat b + (of_nat (length s) + 1) = initial_sp + of_nat (b + (length s + 1))" by (simp_all add: ac_simps)
  have run: "put_args be (s # argv) (initial_sp + of_nat a) (initial_sp + of_nat b) mem = Inr m'"
    unfolding put_args.simps o m1(1) rbind_simps put_word_ok [OF r(2)] by (rule m'(1))
  have frame: "m' q = mem q" if "q < 0xfffc00 + a \<or> 0xfffc00 + a + 4 * length (s # argv) \<le> q \<and> q < 0xfffc00 + b" for q
  proof -
    have "m' q = ?m2 q" using that m'(2) r by auto
    also have "\<dots> = m1 q" using that r by (intro host_store_frame) auto
    also have "\<dots> = mem q" using that m1(3) r by auto
    finally show ?thesis .
  qed
  have "host_load32 be m' (0xfffc00 + a) = host_load32 be ?m2 (0xfffc00 + a)" using m'(2) by (intro load_word_frame) simp
  then have "host_load32 be m' (0xfffc00 + a) = initial_sp + of_nat b" by (simp add: load_store_word)
  moreover have "holds ?m2 (0xfffc00 + b) (s @ [0])" using m1(2) r by (elim holds_frame) (auto intro: host_store_frame)
  then have "holds m' (0xfffc00 + b) (s @ [0])" using m'(2) r by (elim holds_frame) auto
  ultimately have "arg_at be m' a b s" using r(1) by (auto simp: arg_at_def)
  moreover have "arg_at be m' (a + 4 + 4 * j) b (argv ! j)" if "j < length argv" for j
    using m'(3) that unfolding arg_at_def by (meson le_trans le_add1)
  ultimately have "arg_at be m' (a + 4 * j) b ((s # argv) ! j)" if "j < length (s # argv)" for j
    using that by (cases j) (simp_all add: ac_simps)
  then show ?case using run frame by blast
qed simp

text \<open>C19: the stack that \<open>runprogram\<close> sets up can be read by the program. With at most eight arguments that fit in the last kilobyte of the
  memory the set-up succeeds; the stack pointer then points to the number of arguments, behind it is a
  pointer for every argument, and each points to the bytes of its argument and a zero byte, in either byte order.\<close>

theorem arguments_on_stack:
  assumes "length argv \<le> 8" "sum_list (map (\<lambda>s. length s + 1) argv) \<le> 988"
  shows "\<exists>x'. program_start_state be startpc argv x = Inr x' \<and> Reg x' 29 = initial_sp \<and> cur_pc x' = startpc
     \<and> fetch be (memory x') (Reg x' 29) = Inr (of_nat (length argv))
     \<and> (\<forall>j < length argv. \<exists>p. fetch be (memory x') (Reg x' 29 + 4 + 4 * of_nat j) = Inr p
          \<and> holds (memory x') (nat (mem_index p)) (argv ! j @ [0]))"
proof -
  let ?m1 = "host_store32 be (0xfffc00 + 0) (of_nat (length argv)) (memory x)"
  have w: "put_word be initial_sp (of_nat (length argv)) (memory x) = Inr ?m1"
    using put_word_ok [of 0 be "of_nat (length argv)" "memory x"] by simp
  obtain m2 where m2: "put_args be argv (initial_sp + of_nat 4) (initial_sp + of_nat 36) ?m1 = Inr m2"
    "\<forall>q. q < 0xfffc00 + 4 \<or> 0xfffc00 + 4 + 4 * length argv \<le> q \<and> q < 0xfffc00 + 36 \<longrightarrow> m2 q = ?m1 q"
    "\<forall>j < length argv. arg_at be m2 (4 + 4 * j) 36 (argv ! j)"
    using put_args_ok [of 4 argv 36 be ?m1] assms by auto
  let ?x = "setR 29 initial_sp (x\<lparr>memory := m2, icount := 0, cur_pc := startpc, next_pc := startpc + 4\<rparr>)"
  have "put_args be argv (initial_sp + 4) (initial_sp + 36) ?m1 = Inr m2" using m2(1) by simp
  then have "program_start_state be startpc argv x = Inr ?x"
    unfolding program_start_state_def w by simp
  moreover have "fetch be m2 initial_sp = Inr (of_nat (length argv))"
  proof -
    have "host_load32 be m2 (0xfffc00 + 0) = host_load32 be ?m1 (0xfffc00 + 0)" using m2(2) by (intro load_word_frame) simp
    then show ?thesis using stack_in_mem [of 0 4] stack_nat [of 0] by (simp add: fetch_def load_store_word)
  qed
  moreover have "\<exists>p. fetch be m2 (initial_sp + 4 + 4 * of_nat j) = Inr p \<and> holds m2 (nat (mem_index p)) (argv ! j @ [0])"
    if j: "j < length argv" for j
  proof -
    have o: "initial_sp + 4 + 4 * of_nat j = initial_sp + of_nat (4 + 4 * j)" by simp
    have "4 + 4 * j + 4 \<le> 1024" using j assms(1) by simp
    then have f: "fetch be m2 (initial_sp + of_nat (4 + 4 * j)) = Inr (host_load32 be m2 (0xfffc00 + (4 + 4 * j)))"
      unfolding fetch_def by (simp only: stack_in_mem stack_nat simp_thms if_True)
    obtain k where "k + length (argv ! j) < 1024" "host_load32 be m2 (0xfffc00 + (4 + 4 * j)) = initial_sp + of_nat k"
      "holds m2 (0xfffc00 + k) (argv ! j @ [0])" using m2(3) j by (auto simp: arg_at_def)
    then show ?thesis unfolding o f using stack_nat [of k] by (intro exI [of _ "initial_sp + of_nat k"]) simp
  qed
  ultimately show ?thesis by (intro exI [of _ ?x]) (simp add: setR_def)
qed

text \<open>The arguments 61 62 and 63.\<close>

theorem arguments_on_stack_witness:
  "\<exists>x' :: unit xstate. program_start_state False memoffset [[0x61, 0x62], [0x63]]
       \<lparr>Reg = (\<lambda>_. 0), HI = 0, LO = 0, memory = (\<lambda>_. 0), cur_pc = 0, next_pc = 0, icount = 0, printed_out = [], world = ()\<rparr> = Inr x'
     \<and> fetch False (memory x') (Reg x' 29) = Inr 2"
  using arguments_on_stack [of "[[0x61, 0x62], [0x63]]" False memoffset
      "\<lparr>Reg = (\<lambda>_. 0), HI = 0, LO = 0, memory = (\<lambda>_. 0), cur_pc = 0, next_pc = 0, icount = 0, printed_out = [], world = ()\<rparr> :: unit xstate"]
  by auto

text \<open>The ninth pointer is stored over the first argument, here the byte 61.\<close>

lemma ninth_argument:
  "res_sat (put_args False [[0x61], [0x61], [0x61], [0x61], [0x61], [0x61], [0x61], [0x61], [0x61]] (initial_sp + 4) (initial_sp + 36) (\<lambda>_. 0)) (\<lambda>m. \<not> holds m 0xfffc24 [0x61, 0])"
  by (simp add: put_word_def put_byte_def in_mem_def mem_index_def host_store32_def holds_def) (intro exI [of _ 0], simp)

end
