(* ===== verification/LoaderModel.thy ===== *)
theory LoaderModel
  imports ToolsModel
begin

unbundle bit_operations_syntax

text \<open>
  How the host tools read object files: the loaders of the stand-alone simulator (bin/main.c) and of the stand-alone
  disassembler (bin/disasm.c), and the converter to flat files (bin/coff2flat.c).

  The library that finds section headers in object files (\<open>ldopen\<close>, \<open>ldnshread\<close>) is an argument: whether the file could be opened, its
  type, and the header of a section by name. Both loaders position the stream of that library and then read from the
  stream \<open>fp\<close>, which they have closed; this works where the host reuses the closed stream, and is modelled so.
\<close>

section \<open>Loading sections\<close>

record loadhdr =
  s_vaddr :: "32 word"
  l_size :: "32 word"
  l_scnptr :: "32 word"

datatype load_error =
    LoadReadError   \<comment> \<open>\<open>ldopen\<close> failed: \<open>exit(0)\<close>\<close>
  | BigEndianFile   \<comment> \<open>the type is not \<open>0x162\<close>: \<open>exit(0)\<close>\<close>
  | MemsizeTooSmall \<comment> \<open>\<open>exit(1)\<close>\<close>
  | LoadWild        \<comment> \<open>a byte is stored outside the memory\<close>

type_synonym 'a lres = "load_error + 'a"

definition lbind :: "'a lres \<Rightarrow> ('a \<Rightarrow> 'b lres) \<Rightarrow> 'b lres" where
  "lbind r f = (case r of Inl e \<Rightarrow> Inl e | Inr x \<Rightarrow> f x)"

lemma lbind_simps [simp]: "lbind (Inr x) f = f x" "lbind (Inl e) f = Inl e"
  by (simp_all add: lbind_def)

text \<open>\<open>getc\<close> stores \<open>EOF\<close> as the byte \<open>0xff\<close>.\<close>

definition getc :: "unix_file \<Rightarrow> nat \<Rightarrow> 8 word" where
  "getc f pos = (if pos < fsize f then fbyte f pos else 0xff)"

fun load_bytes :: "bool \<Rightarrow> unix_file \<Rightarrow> nat \<Rightarrow> nat \<Rightarrow> 32 word \<Rightarrow> (nat \<Rightarrow> 8 word) \<Rightarrow> (32 word \<times> (nat \<Rightarrow> 8 word)) lres" where
  "load_bytes check f 0 pos pc mem = Inr (pc, mem)"
| "load_bytes check f (Suc n) pos pc mem =
     (if check \<and> mem_index pc \<ge> MEMSIZE then Inl MemsizeTooSmall
      else if in_mem pc 1 then load_bytes check f n (pos + 1) (pc + 1) (mem(nat (mem_index pc) := getc f pos))
      else Inl LoadWild)"

text \<open>\<open>load_section\<close> of disasm.c looks at the address before every byte; the macro of main.c only when all are stored.\<close>

definition load_section :: "unix_file \<Rightarrow> loadhdr \<Rightarrow> (nat \<Rightarrow> 8 word) \<Rightarrow> (nat \<Rightarrow> 8 word) lres" where
  "load_section f h mem =
     (if l_scnptr h \<noteq> 0
      then lbind (load_bytes True f (nat (sint (l_size h))) (unat (l_scnptr h)) (s_vaddr h) mem) (\<lambda>(pc, mem'). Inr mem')
      else Inr mem)"

definition LOADSECTION :: "unix_file \<Rightarrow> loadhdr \<Rightarrow> (nat \<Rightarrow> 8 word) \<Rightarrow> (nat \<Rightarrow> 8 word) lres" where
  "LOADSECTION f h mem =
     (if l_scnptr h \<noteq> 0
      then lbind (load_bytes False f (nat (sint (l_size h))) (unat (l_scnptr h)) (s_vaddr h) mem) (\<lambda>(pc, mem').
             if mem_index pc \<ge> MEMSIZE then Inl MemsizeTooSmall else Inr mem')
      else Inr mem)"

definition section_names :: "string list" where
  "section_names = [''.text'', ''.rdata'', ''.data'', ''.sdata'', ''.sbss'', ''.bss'']"

text \<open>A section that is not there is reported and passed over; the names reported are the second result.\<close>

fun load_sections :: "(unix_file \<Rightarrow> loadhdr \<Rightarrow> (nat \<Rightarrow> 8 word) \<Rightarrow> (nat \<Rightarrow> 8 word) lres) \<Rightarrow> unix_file \<Rightarrow> (string \<Rightarrow> loadhdr option)
    \<Rightarrow> string list \<Rightarrow> (nat \<Rightarrow> 8 word) \<Rightarrow> ((nat \<Rightarrow> 8 word) \<times> string list) lres" where
  "load_sections ld f ldnshread [] mem = Inr (mem, [])"
| "load_sections ld f ldnshread (s # ss) mem = (case ldnshread s of
       None \<Rightarrow> lbind (load_sections ld f ldnshread ss mem) (\<lambda>(mem', missing). Inr (mem', s # missing))
     | Some h \<Rightarrow> lbind (ld f h mem) (load_sections ld f ldnshread ss))"

definition load_program :: "unix_file option \<Rightarrow> 16 word \<Rightarrow> (string \<Rightarrow> loadhdr option) \<Rightarrow> (nat \<Rightarrow> 8 word) \<Rightarrow> ((nat \<Rightarrow> 8 word) \<times> string list) lres" where
  "load_program ldptr ftype ldnshread mem = (case ldptr of
       None \<Rightarrow> Inl LoadReadError
     | Some f \<Rightarrow> if ftype \<noteq> 0x162 then Inl BigEndianFile else load_sections LOADSECTION f ldnshread section_names mem)"

definition dis_load_program :: "unix_file option \<Rightarrow> 16 word \<Rightarrow> (string \<Rightarrow> loadhdr option) \<Rightarrow> (nat \<Rightarrow> 8 word) \<Rightarrow> ((nat \<Rightarrow> 8 word) \<times> string list) lres" where
  "dis_load_program ldptr ftype ldnshread mem = (case ldptr of
       None \<Rightarrow> Inl LoadReadError
     | Some f \<Rightarrow> if ftype \<noteq> 0x162 then Inl BigEndianFile else load_sections load_section f ldnshread section_names mem)"

text \<open>What a section does to the memory, as a function of the address.\<close>

definition overlay_section :: "unix_file \<Rightarrow> loadhdr \<Rightarrow> (nat \<Rightarrow> 8 word) \<Rightarrow> (nat \<Rightarrow> 8 word)" where
  "overlay_section f h mem = (\<lambda>q. let a = nat (mem_index (s_vaddr h)) in
     if l_scnptr h \<noteq> 0 \<and> a \<le> q \<and> q < a + nat (sint (l_size h)) then getc f (unat (l_scnptr h) + (q - a)) else mem q)"

definition overlay_all :: "unix_file \<Rightarrow> (string \<Rightarrow> loadhdr option) \<Rightarrow> (nat \<Rightarrow> 8 word) \<Rightarrow> (nat \<Rightarrow> 8 word)" where
  "overlay_all f ldnshread mem = fold (\<lambda>s m. case ldnshread s of None \<Rightarrow> m | Some h \<Rightarrow> overlay_section f h m) section_names mem"

definition section_fits :: "loadhdr \<Rightarrow> bool" where
  "section_fits h \<longleftrightarrow> l_scnptr h = 0 \<or> 0 \<le> mem_index (s_vaddr h) \<and> mem_index (s_vaddr h) + max 0 (sint (l_size h)) < MEMSIZE"

lemma mem_index_Suc:
  assumes "0 \<le> mem_index pc" "mem_index pc < MEMSIZE"
  shows "mem_index (pc + 1) = mem_index pc + 1"
proof -
  have "0 \<le> sint pc" "sint pc + 1 < 2 ^ 31" using assms by (simp_all add: mem_index_def)
  then show ?thesis using sint_add_cases [of pc 1] by (simp add: mem_index_def)
qed

lemma load_bytes_ok:
  assumes "0 \<le> mem_index pc" "mem_index pc + int n < MEMSIZE"
  shows "\<exists>pc'. load_bytes check f n pos pc mem = Inr (pc', \<lambda>q. let a = nat (mem_index pc) in
      if a \<le> q \<and> q < a + n then getc f (pos + (q - a)) else mem q) \<and> mem_index pc' = mem_index pc + int n"
  using assms
proof (induction n arbitrary: pos pc mem)
  case (Suc n)
  have i: "mem_index (pc + 1) = mem_index pc + 1" using mem_index_Suc [of pc] Suc.prems by simp
  let ?m = "mem(nat (mem_index pc) := getc f pos)" let ?a = "nat (mem_index pc)"
  have a: "nat (mem_index (pc + 1)) = ?a + 1" using i Suc.prems(1) by simp
  have pre: "0 \<le> mem_index (pc + 1)" "mem_index (pc + 1) + int n < MEMSIZE" using i Suc.prems by simp_all
  obtain pc' where ih: "load_bytes check f n (pos + 1) (pc + 1) ?m = Inr (pc', \<lambda>q. if ?a + 1 \<le> q \<and> q < ?a + 1 + n
      then getc f (pos + 1 + (q - (?a + 1))) else ?m q)" "mem_index pc' = mem_index pc + 1 + int n"
    using Suc.IH [OF pre, of "pos + 1" ?m] unfolding Let_def a unfolding i by blast
  have "(\<lambda>q. if ?a + 1 \<le> q \<and> q < ?a + 1 + n then getc f (pos + 1 + (q - (?a + 1))) else ?m q)
      = (\<lambda>q. if ?a \<le> q \<and> q < ?a + Suc n then getc f (pos + (q - ?a)) else mem q)"
  proof (rule ext)
    fix q
    have "?a + 1 \<le> q \<Longrightarrow> pos + 1 + (q - (?a + 1)) = pos + (q - ?a)" by simp
    then show "(if ?a + 1 \<le> q \<and> q < ?a + 1 + n then getc f (pos + 1 + (q - (?a + 1))) else ?m q)
      = (if ?a \<le> q \<and> q < ?a + Suc n then getc f (pos + (q - ?a)) else mem q)"
      by (cases "?a + 1 \<le> q") (simp_all only: simp_thms, auto)
  qed
  then have "load_bytes check f (Suc n) pos pc mem = Inr (pc', \<lambda>q. if ?a \<le> q \<and> q < ?a + Suc n then getc f (pos + (q - ?a)) else mem q)"
    using Suc.prems ih(1) by (simp add: in_mem_def)
  then show ?case using ih(2) by (simp add: Let_def)
qed (auto simp: fun_eq_iff Let_def)

lemma section_loaders:
  assumes "section_fits h"
  shows "LOADSECTION f h mem = Inr (overlay_section f h mem)" "load_section f h mem = Inr (overlay_section f h mem)"
proof -
  let ?n = "nat (sint (l_size h))"
  have "LOADSECTION f h mem = Inr (overlay_section f h mem) \<and> load_section f h mem = Inr (overlay_section f h mem)"
  proof (cases "l_scnptr h = 0")
    case True
    then show ?thesis by (simp add: LOADSECTION_def load_section_def overlay_section_def)
  next
    case False
    then have r: "0 \<le> mem_index (s_vaddr h)" "mem_index (s_vaddr h) + int ?n < MEMSIZE"
      using assms by (auto simp: section_fits_def)
    then show ?thesis
      using load_bytes_ok [OF r, of False f "unat (l_scnptr h)" mem] load_bytes_ok [OF r, of True f "unat (l_scnptr h)" mem] False
      by (auto simp: LOADSECTION_def load_section_def overlay_section_def Let_def)
  qed
  then show "LOADSECTION f h mem = Inr (overlay_section f h mem)" "load_section f h mem = Inr (overlay_section f h mem)" by blast+
qed

lemma load_sections_fold:
  assumes "\<And>s h. s \<in> set names \<Longrightarrow> ldnshread s = Some h \<Longrightarrow> section_fits h" "ld = LOADSECTION \<or> ld = load_section"
  shows "load_sections ld f ldnshread names mem = Inr (fold (\<lambda>s m. case ldnshread s of None \<Rightarrow> m | Some h \<Rightarrow> overlay_section f h m) names mem,
     filter (\<lambda>s. ldnshread s = None) names)"
  using assms(1)
proof (induction names arbitrary: mem)
  case (Cons s names)
  have "ld f h mem = Inr (overlay_section f h mem)" if "ldnshread s = Some h" for h
    using section_loaders [of h f mem] Cons.prems that assms(2) by auto
  moreover have "load_sections ld f ldnshread names m = Inr (fold (\<lambda>s m. case ldnshread s of None \<Rightarrow> m | Some h \<Rightarrow> overlay_section f h m) names m,
     filter (\<lambda>s. ldnshread s = None) names)" for m using Cons.IH Cons.prems by (meson list.set_intros(2))
  ultimately show ?case by (cases "ldnshread s") simp_all
qed simp

text \<open>C17: the loader of the stand-alone simulator and that of the disassembler, whose loops differ in where they check the bounds, load a
  little-endian object file alike when every section with contents lies in the memory and ends before its last byte: the memory
  receives the bytes of the sections in the order of the list of names, and the sections reported as missing are those without a header.\<close>

theorem loaders_agree:
  assumes "\<And>s h. s \<in> set section_names \<Longrightarrow> ldnshread s = Some h \<Longrightarrow> section_fits h"
  shows "load_program (Some f) 0x162 ldnshread mem = Inr (overlay_all f ldnshread mem, filter (\<lambda>s. ldnshread s = None) section_names)
     \<and> dis_load_program (Some f) 0x162 ldnshread mem = load_program (Some f) 0x162 ldnshread mem"
  using load_sections_fold [OF assms] by (simp add: load_program_def dis_load_program_def overlay_all_def)

text \<open>A file of four bytes with a text section of two bytes, its last two, at the start of the memory.\<close>

theorem loaders_agree_witness:
  "let f = \<lparr>fsize = 4, fbyte = (\<lambda>i. of_nat i)\<rparr>; hdr = (\<lambda>s. if s = ''.text'' then Some \<lparr>s_vaddr = memoffset, l_size = 2, l_scnptr = 2\<rparr> else None) in
   \<exists>mem missing. load_program (Some f) 0x162 hdr (\<lambda>_. 0) = Inr (mem, missing) \<and> dis_load_program (Some f) 0x162 hdr (\<lambda>_. 0) = Inr (mem, missing)
     \<and> mem 0 = 2 \<and> mem 1 = 3 \<and> mem 2 = 0 \<and> length missing = 5"
proof -
  define f :: unix_file where "f = \<lparr>fsize = 4, fbyte = (\<lambda>i. of_nat i)\<rparr>"
  define hdr where "hdr = (\<lambda>s. if s = ''.text'' then Some \<lparr>s_vaddr = memoffset, l_size = 2, l_scnptr = 2\<rparr> else None)"
  have "section_fits h" if "hdr s = Some h" for s h using that by (auto simp: hdr_def section_fits_def mem_index_def split: if_splits)
  then have "load_program (Some f) 0x162 hdr (\<lambda>_. 0) = Inr (overlay_all f hdr (\<lambda>_. 0), filter (\<lambda>s. hdr s = None) section_names)
     \<and> dis_load_program (Some f) 0x162 hdr (\<lambda>_. 0) = load_program (Some f) 0x162 hdr (\<lambda>_. 0)"
    using loaders_agree [of hdr f "\<lambda>_. 0"] by blast
  moreover have "overlay_all f hdr (\<lambda>_. 0) 0 = 2 \<and> overlay_all f hdr (\<lambda>_. 0) 1 = 3 \<and> overlay_all f hdr (\<lambda>_. 0) 2 = 0"
    by (simp add: overlay_all_def section_names_def hdr_def f_def overlay_section_def mem_index_def getc_def)
  moreover have "length (filter (\<lambda>s. hdr s = None) section_names) = 5" by (simp add: hdr_def section_names_def)
  ultimately show ?thesis unfolding Let_def f_def [symmetric] hdr_def [symmetric] by simp
qed

text \<open>A section that ends with the last byte of the memory fits, but only the disassembler accepts it.\<close>

lemma last_byte:
  fixes f :: unix_file
  defines "h \<equiv> \<lparr>s_vaddr = 0x10ffffff, l_size = 1, l_scnptr = 1\<rparr>"
  shows "LOADSECTION f h mem = Inl MemsizeTooSmall" "load_section f h mem = Inr (mem(0xffffff := getc f 1))"
  by (simp_all add: h_def LOADSECTION_def load_section_def mem_index_def in_mem_def)

end
