(* ===== verification/FlatModel.thy ===== *)
theory FlatModel
  imports CoffModel
begin

unbundle bit_operations_syntax

text \<open>
  The converter of executables to flat files (bin/coff2flat.c), with the structures of bin/coff.h.

  It differs from bin/coff2noff.c: the headers are used in the byte order of the host, the names are not cut, a section
  is copied whatever its name unless it is \<open>.bss\<close> or \<open>.sbss\<close>, and the sections are written one after another.
  The result is the flat file, or the reason for which the converter exits.
\<close>

section \<open>The conversion\<close>

abbreviation (input) "StackSize \<equiv> (1024 :: 32 word)"

definition raw_word :: "bool \<Rightarrow> byte list \<Rightarrow> nat \<Rightarrow> 32 word" where
  "raw_word be bs off = word_of_int (bytes_int be (take 4 (drop off bs)))"

definition raw_short :: "bool \<Rightarrow> byte list \<Rightarrow> nat \<Rightarrow> 16 word" where
  "raw_short be bs off =
     (let b0 = ucast (bs ! off) :: 16 word; b1 = ucast (bs ! (off + 1)) :: 16 word in
      if be then push_bit 8 b0 OR b1 else b0 OR push_bit 8 b1)"

definition raw_scnhdr :: "bool \<Rightarrow> byte list \<Rightarrow> scnhdr" where
  "raw_scnhdr be bs =
     \<lparr>s_name = take 8 bs, s_paddr = raw_word be bs 8, s_size = raw_word be bs 16, s_scnptr = raw_word be bs 20\<rparr>"

fun raw_scnhdrs :: "bool \<Rightarrow> nat \<Rightarrow> byte list \<Rightarrow> scnhdr list" where
  "raw_scnhdrs be 0 bs = []"
| "raw_scnhdrs be (Suc n) bs = raw_scnhdr be (take ScnhdrSize bs) # raw_scnhdrs be n (drop ScnhdrSize bs)"

text \<open>\<open>Read\<close>; nothing is read beyond the end of the file, where \<open>read\<close> of no bytes succeeds.\<close>

definition flat_Read :: "int \<Rightarrow> nat \<Rightarrow> unix_file \<Rightarrow> (byte list \<times> nat) cres" where
  "flat_Read nBytes pos f = (if nBytes = 0 then Inr ([], pos) else coff_Read nBytes pos f)"

text \<open>The variables of the loop: \<open>top\<close>, the position in the input, and the output with its position.\<close>

record flat_state =
  top :: "32 word"
  fInPos :: nat
  fOutPos :: nat
  fOut :: unix_file

definition flat_write :: "byte list \<Rightarrow> flat_state \<Rightarrow> flat_state" where
  "flat_write bs st = (if bs = [] then st else st\<lparr>fOut := WriteFile (fOutPos st) bs (fOut st), fOutPos := fOutPos st + length bs\<rparr>)"

definition flat_section :: "unix_file \<Rightarrow> scnhdr \<Rightarrow> flat_state \<Rightarrow> flat_state cres" where
  "flat_section f s st =
     (let st1 = (if sint (s_paddr s + s_size s) > sint (top st) then st\<lparr>top := s_paddr s + s_size s\<rparr> else st) in
      if \<not> is_bss s then
        (let pos = (if sint (s_scnptr s) \<ge> 0 then unat (s_scnptr s) else fInPos st1) in
         cbind (flat_Read (sint (s_size s)) pos f) (\<lambda>(bs, pos').
         Inr (flat_write bs (st1\<lparr>fInPos := pos'\<rparr>))))
      else Inr st1)"

fun flat_sections :: "unix_file \<Rightarrow> scnhdr list \<Rightarrow> flat_state \<Rightarrow> flat_state cres" where
  "flat_sections f [] st = Inr st"
| "flat_sections f (s # ss) st = cbind (flat_section f s st) (flat_sections f ss)"

definition empty_file :: unix_file where
  "empty_file = \<lparr>fsize = 0, fbyte = (\<lambda>_. 0)\<rparr>"

definition coff2flat :: "bool \<Rightarrow> unix_file \<Rightarrow> unix_file cres" where
  "coff2flat be f =
     cbind (flat_Read (int FilehdrSize) 0 f) (\<lambda>(fileh, p1).
     if raw_short be fileh 0 \<noteq> MIPSELMAGIC then Inl NotMipsel
     else
       cbind (flat_Read (int AouthdrSize) p1 f) (\<lambda>(systemh, p2).
       if raw_short be systemh 0 \<noteq> OMAGIC then Inl NotOmagic
       else
         let numsections = unat (raw_short be fileh 2) in
         cbind (flat_Read (int (numsections * ScnhdrSize)) p2 f) (\<lambda>(bs, p3).
         cbind (flat_sections f (raw_scnhdrs be numsections bs) \<lparr>top = 0, fInPos = p3, fOutPos = 0, fOut = empty_file\<rparr>) (\<lambda>st.
         let off = top st + StackSize - 4;
             st' = (if sint off \<ge> 0 then st\<lparr>fOutPos := unat off\<rparr> else st) in
         Inr (fOut (flat_write [0, 0, 0, 0] st'))))))"

section \<open>The file written\<close>

text \<open>A file that holds a list of bytes, the bytes of a section, and the end of the sections.\<close>

definition file_of :: "byte list \<Rightarrow> unix_file" where
  "file_of bs = \<lparr>fsize = length bs, fbyte = (\<lambda>i. if i < length bs then bs ! i else 0)\<rparr>"

definition section_bytes :: "unix_file \<Rightarrow> scnhdr \<Rightarrow> byte list" where
  "section_bytes f s = (if is_bss s then [] else map (fbyte f) [unat (s_scnptr s)..<unat (s_scnptr s) + unat (s_size s)])"

definition flat_top :: "scnhdr list \<Rightarrow> nat \<Rightarrow> nat" where
  "flat_top ss = fold (\<lambda>s t. max (unat (s_paddr s) + unat (s_size s)) t) ss"

definition flat_ok :: "unix_file \<Rightarrow> scnhdr \<Rightarrow> bool" where
  "flat_ok f s \<longleftrightarrow> unat (s_paddr s) + unat (s_size s) < 2 ^ 31 - 1024
     \<and> (is_bss s \<or> unat (s_scnptr s) < 2 ^ 31 \<and> unat (s_scnptr s) + unat (s_size s) \<le> fsize f)"

lemma empty_file_of: "empty_file = file_of []"
  by (simp add: empty_file_def file_of_def)

lemma append_file: "WriteFile (length bs) cs (file_of bs) = file_of (bs @ cs)"
  by (auto simp: WriteFile_def file_of_def nth_append fun_eq_iff)

lemma flat_Read_ok: "pos + n \<le> fsize f \<Longrightarrow> flat_Read (int n) pos f = Inr (map (fbyte f) [pos..<pos + n], pos + n)"
  by (auto simp: flat_Read_def coff_Read_ok)

lemma flat_section_ok:
  assumes "flat_ok f s" "top st = of_nat t" "t < 2 ^ 31 - 1024" "fOutPos st = length bs" "fOut st = file_of bs"
  shows "\<exists>st'. flat_section f s st = Inr st' \<and> top st' = of_nat (flat_top [s] t) \<and> flat_top [s] t < 2 ^ 31 - 1024
     \<and> fOutPos st' = length (bs @ section_bytes f s) \<and> fOut st' = file_of (bs @ section_bytes f s)"
proof -
  let ?e = "unat (s_paddr s) + unat (s_size s)" and ?n = "unat (s_size s)" and ?p = "unat (s_scnptr s)"
  have e: "?e < 2 ^ 31 - 1024" using assms(1) by (simp add: flat_ok_def)
  have w: "s_paddr s + s_size s = of_nat ?e" by simp
  have u: "unat (of_nat ?e :: 32 word) = ?e" "unat (of_nat t :: 32 word) = t" using e assms(3) by (simp_all only: unat_of_nat) simp_all
  have si: "sint (of_nat ?e :: 32 word) = int ?e" "sint (of_nat t :: 32 word) = int t"
    using sint_small [of "of_nat ?e"] sint_small [of "of_nat t"] e assms(3) unfolding u by simp_all
  define st1 where "st1 = (if sint (s_paddr s + s_size s) > sint (top st) then st\<lparr>top := s_paddr s + s_size s\<rparr> else st)"
  have st1: "top st1 = of_nat (flat_top [s] t)" "fOutPos st1 = length bs" "fOut st1 = file_of bs"
    unfolding st1_def w assms(2) si flat_top_def using assms(2,4,5) by (simp_all add: max_def del: of_nat_add)
  have t: "flat_top [s] t < 2 ^ 31 - 1024" using e assms(3) by (simp add: flat_top_def)
  show ?thesis
  proof (cases "is_bss s")
    case True
    then show ?thesis using st1 t unfolding flat_section_def Let_def st1_def [symmetric] by (simp add: section_bytes_def)
  next
    case False
    then have f: "?p < 2 ^ 31" "?p + ?n \<le> fsize f" using assms(1) by (simp_all add: flat_ok_def)
    then have p: "sint (s_scnptr s) \<ge> 0" "sint (s_size s) = int ?n" using e sint_small [of "s_scnptr s"] sint_small [of "s_size s"] by simp_all
    have "flat_Read (sint (s_size s)) ?p f = Inr (map (fbyte f) [?p..<?p + ?n], ?p + ?n)" unfolding p(2) by (rule flat_Read_ok [OF f(2)])
    then have "flat_section f s st = Inr (flat_write (section_bytes f s) (st1\<lparr>fInPos := ?p + ?n\<rparr>))"
      unfolding flat_section_def Let_def st1_def [symmetric] using False p(1) by (simp add: section_bytes_def)
    then show ?thesis using st1 t append_file [of bs "section_bytes f s"] by (auto simp: flat_write_def)
  qed
qed

lemma flat_sections_ok:
  assumes "list_all (flat_ok f) ss" "top st = of_nat t" "t < 2 ^ 31 - 1024" "fOutPos st = length bs" "fOut st = file_of bs"
  shows "\<exists>st'. flat_sections f ss st = Inr st' \<and> top st' = of_nat (flat_top ss t) \<and> flat_top ss t < 2 ^ 31 - 1024
     \<and> fOut st' = file_of (bs @ concat (map (section_bytes f) ss))"
  using assms
proof (induction ss arbitrary: st t bs)
  case (Cons s ss)
  have "flat_ok f s" "list_all (flat_ok f) ss" using Cons.prems(1) by simp_all
  from flat_section_ok [OF this(1) Cons.prems(2-5)]
  obtain st1 where s: "flat_section f s st = Inr st1" "top st1 = of_nat (flat_top [s] t)" "flat_top [s] t < 2 ^ 31 - 1024"
     "fOutPos st1 = length (bs @ section_bytes f s)" "fOut st1 = file_of (bs @ section_bytes f s)" by blast
  have "flat_top (s # ss) t = flat_top ss (flat_top [s] t)" by (simp add: flat_top_def)
  then show ?case using Cons.IH [OF \<open>list_all (flat_ok f) ss\<close> s(2-5)] s(1) by simp
qed (simp add: flat_top_def)

text \<open>An object file in the byte order of the host, with these sections.\<close>

definition flat_file :: "bool \<Rightarrow> unix_file \<Rightarrow> scnhdr list \<Rightarrow> bool" where
  "flat_file be f ss \<longleftrightarrow> (let h = map (fbyte f) [0..<20] in
     76 + length ss * 40 \<le> fsize f \<and> raw_short be h 0 = MIPSELMAGIC \<and> raw_short be (map (fbyte f) [20..<76]) 0 = OMAGIC
     \<and> unat (raw_short be h 2) = length ss \<and> raw_scnhdrs be (length ss) (map (fbyte f) [76..<76 + length ss * 40]) = ss)"

text \<open>What the flat file holds: the bytes of the sections one after another.\<close>

lemma coff2flat_bytes:
  assumes "flat_file be f ss" "list_all (flat_ok f) ss" "length (concat (map (section_bytes f) ss)) \<le> flat_top ss 0 + 1020"
  shows "\<exists>out. coff2flat be f = Inr out \<and> fsize out = flat_top ss 0 + 1024
     \<and> (\<forall>i. fbyte out i = (let bs = concat (map (section_bytes f) ss) in if i < length bs then bs ! i else 0))"
proof -
  let ?bs = "concat (map (section_bytes f) ss)"
  have h: "76 + length ss * 40 \<le> fsize f" using assms(1) by (simp add: flat_file_def Let_def)
  have r: "flat_Read 20 0 f = Inr (map (fbyte f) [0..<20], 20)" "flat_Read 56 20 f = Inr (map (fbyte f) [20..<76], 76)"
    "flat_Read (int (length ss * 40)) 76 f = Inr (map (fbyte f) [76..<76 + length ss * 40], 76 + length ss * 40)"
    using h flat_Read_ok [of 0 20 f] flat_Read_ok [of 20 56 f] flat_Read_ok [of 76 "length ss * 40" f]
    by (simp_all del: upt_rec_numeral)
  obtain st where s: "flat_sections f ss \<lparr>top = 0, fInPos = 76 + length ss * 40, fOutPos = 0, fOut = empty_file\<rparr> = Inr st"
    "top st = of_nat (flat_top ss 0)" "flat_top ss 0 < 2 ^ 31 - 1024" "fOut st = file_of ?bs"
    using flat_sections_ok [OF assms(2), of "\<lparr>top = 0, fInPos = 76 + length ss * 40, fOutPos = 0, fOut = empty_file\<rparr>" 0 "[]"]
    by (auto simp: empty_file_of)
  define off where "off = top st + StackSize - 4"
  have o: "off = of_nat (flat_top ss 0 + 1020)" "1020 + of_nat (flat_top ss 0) = off" unfolding off_def s(2) by simp_all
  from o(1) have u: "unat off = flat_top ss 0 + 1020" using s(3) by (simp only: unat_of_nat) simp
  then have i: "sint off \<ge> 0" using sint_small [of off] s(3) by simp
  have "coff2flat be f = Inr (WriteFile (flat_top ss 0 + 1020) [0, 0, 0, 0] (file_of ?bs))"
    using assms(1) r s unfolding coff2flat_def flat_file_def Let_def
    by (simp add: flat_write_def i u o(2) del: upt_rec_numeral)
  then show ?thesis using assms(3) by (auto simp: WriteFile_def file_of_def Let_def nth_Cons' split: nat.split)
qed

text \<open>Sections with contents that follow one another from an address on.\<close>

fun contiguous :: "nat \<Rightarrow> scnhdr list \<Rightarrow> bool" where
  "contiguous a [] = True"
| "contiguous a (s # ss) = (if is_bss s then contiguous a ss else unat (s_paddr s) = a \<and> contiguous (a + unat (s_size s)) ss)"

lemma flat_top_mono: "t \<le> flat_top ss t" "t \<le> u \<Longrightarrow> flat_top ss t \<le> flat_top ss u"
  by (induction ss arbitrary: t u) (simp_all add: flat_top_def, (meson max.cobounded2 max.mono order_refl order_trans)+)

lemma section_bytes_simps [simp]:
  "is_bss s \<Longrightarrow> section_bytes f s = []" "\<not> is_bss s \<Longrightarrow> length (section_bytes f s) = unat (s_size s)"
  "\<not> is_bss s \<Longrightarrow> i < unat (s_size s) \<Longrightarrow> section_bytes f s ! i = fbyte f (unat (s_scnptr s) + i)"
  by (simp_all add: section_bytes_def)

lemma contiguous_top: "contiguous a ss \<Longrightarrow> a + length (concat (map (section_bytes f) ss)) \<le> flat_top ss a"
proof (induction ss arbitrary: a)
  case (Cons s ss)
  have "flat_top (s # ss) a = flat_top ss (max (unat (s_paddr s) + unat (s_size s)) a)" by (simp add: flat_top_def)
  moreover have "flat_top ss (if is_bss s then a else a + unat (s_size s)) \<le> flat_top ss (max (unat (s_paddr s) + unat (s_size s)) a)"
    using Cons.prems by (intro flat_top_mono(2)) (simp add: max_def)
  ultimately show ?case using Cons.IH [of "if is_bss s then a else a + unat (s_size s)"] Cons.prems by (cases "is_bss s") simp_all
qed (simp add: flat_top_def)

lemma contiguous_covers:
  "contiguous a ss \<Longrightarrow> (a \<le> q \<and> q < a + length (concat (map (section_bytes f) ss))) = (\<exists>s \<in> set ss. \<not> is_bss s \<and> section_covers s q)"
proof (induction ss arbitrary: a)
  case (Cons s ss)
  then show ?case
  proof (cases "is_bss s")
    case False
    then have c: "unat (s_paddr s) = a" "contiguous (a + unat (s_size s)) ss" using Cons.prems by simp_all
    have "(a \<le> q \<and> q < a + length (concat (map (section_bytes f) (s # ss))))
        = ((a \<le> q \<and> q < a + unat (s_size s)) \<or> (a + unat (s_size s) \<le> q \<and> q < a + unat (s_size s) + length (concat (map (section_bytes f) ss))))"
      using False by auto
    then show ?thesis unfolding Cons.IH [OF c(2)] using False c(1) by (simp add: section_covers_def)
  qed simp
qed simp

lemma contiguous_nth:
  "contiguous a ss \<Longrightarrow> s \<in> set ss \<Longrightarrow> \<not> is_bss s \<Longrightarrow> i < unat (s_size s)
   \<Longrightarrow> a \<le> unat (s_paddr s) \<and> concat (map (section_bytes f) ss) ! (unat (s_paddr s) + i - a) = fbyte f (unat (s_scnptr s) + i)"
proof (induction ss arbitrary: a)
  case (Cons s' ss)
  show ?case
  proof (cases "s = s'")
    case True
    then show ?thesis using Cons.prems by (simp add: nth_append)
  next
    case False
    then have "s \<in> set ss" using Cons.prems(2) by simp
    then show ?thesis
      using Cons.IH [of "if is_bss s' then a else a + unat (s_size s')"] Cons.prems by (cases "is_bss s'") (auto simp: nth_append)
  qed
qed simp

text \<open>C18: the flat file of an object file whose sections with contents follow one another from address 0 is the image of the program
  in memory: every section is at its address, all other bytes are zero, and it ends 1024 bytes after the sections, with the stack.\<close>

theorem flat_file_is_image:
  assumes "flat_file be f ss" "list_all (flat_ok f) ss" "contiguous 0 ss"
  shows "\<exists>out. coff2flat be f = Inr out \<and> fsize out = flat_top ss 0 + 1024
     \<and> (\<forall>s \<in> set ss. \<not> is_bss s \<longrightarrow> (\<forall>i < unat (s_size s). fbyte out (unat (s_paddr s) + i) = fbyte f (unat (s_scnptr s) + i)))
     \<and> (\<forall>q. (\<forall>s \<in> set ss. is_bss s \<or> \<not> section_covers s q) \<longrightarrow> fbyte out q = 0)"
proof -
  let ?bs = "concat (map (section_bytes f) ss)"
  have "length ?bs \<le> flat_top ss 0 + 1020" using contiguous_top [OF assms(3), of f] by simp
  from coff2flat_bytes [OF assms(1,2) this]
  obtain out where o: "coff2flat be f = Inr out" "fsize out = flat_top ss 0 + 1024" "\<And>i. fbyte out i = (if i < length ?bs then ?bs ! i else 0)"
    unfolding Let_def by blast
  note c = contiguous_covers [OF assms(3), of _ f, simplified add_0 simp_thms]
  have "fbyte out (unat (s_paddr s) + i) = fbyte f (unat (s_scnptr s) + i)" if "s \<in> set ss" "\<not> is_bss s" "i < unat (s_size s)" for s i
  proof -
    have "section_covers s (unat (s_paddr s) + i)" using that(3) by (simp add: section_covers_def)
    then have "unat (s_paddr s) + i < length ?bs" using c [of "unat (s_paddr s) + i"] that(1,2) by auto
    then show ?thesis using o(3) contiguous_nth [OF assms(3) that, of f] by simp
  qed
  moreover have "fbyte out q = 0" if "\<forall>s \<in> set ss. is_bss s \<or> \<not> section_covers s q" for q
    using that c [of q] o(3) by auto
  ultimately show ?thesis using o(1,2) by blast
qed

text \<open>The text section at address 0, the uninitialised data at 1024.\<close>

definition flat_demo :: unix_file where
  "flat_demo = demo_coff\<lparr>fbyte := (fbyte demo_coff)(84 := 0)\<rparr>"

definition flat_demo_sections :: "scnhdr list" where
  "flat_demo_sections = [\<lparr>s_name = [46, 116, 101, 120, 116, 0, 0, 0], s_paddr = 0, s_size = 8, s_scnptr = 156\<rparr>,
     \<lparr>s_name = [46, 98, 115, 115, 0, 0, 0, 0], s_paddr = 1024, s_size = 16, s_scnptr = 0\<rparr>]"

lemma flat_demo_kinds: "map is_bss flat_demo_sections = [False, True]" "map is_bss demo_sections = [False, True]"
  by code_simp+

lemma flat_demos: "flat_file False flat_demo flat_demo_sections" "flat_file False demo_coff demo_sections"
proof -
  have "map (fbyte flat_demo) [0..<20] = [98, 1, 2] @ replicate 17 0" "map (fbyte flat_demo) [20..<76] = [7, 1] @ replicate 54 0"
      "raw_scnhdrs False 2 (map (fbyte flat_demo) [76..<156]) = flat_demo_sections" "length flat_demo_sections = 2" by code_simp+
  then show "flat_file False flat_demo flat_demo_sections" unfolding flat_file_def by code_simp
  have "map (fbyte demo_coff) [0..<20] = [98, 1, 2] @ replicate 17 0" "map (fbyte demo_coff) [20..<76] = [7, 1] @ replicate 54 0"
      "raw_scnhdrs False 2 (map (fbyte demo_coff) [76..<156]) = demo_sections" "length demo_sections = 2" by code_simp+
  then show "flat_file False demo_coff demo_sections" unfolding flat_file_def by code_simp
qed

theorem flat_file_is_image_witness:
  "\<exists>out. coff2flat False flat_demo = Inr out \<and> fsize out = 2064 \<and> fbyte out 0 = 4 \<and> fbyte out 3 = 0x24 \<and> fbyte out 8 = 0"
proof -
  let ?t = "\<lparr>s_name = [46, 116, 101, 120, 116, 0, 0, 0], s_paddr = 0, s_size = 8, s_scnptr = 156\<rparr>"
  have k: "\<not> is_bss (flat_demo_sections ! 0)" "is_bss (flat_demo_sections ! 1)" using flat_demo_kinds by (simp_all add: flat_demo_sections_def)
  have ok: "list_all (flat_ok flat_demo) flat_demo_sections" "contiguous 0 flat_demo_sections" "flat_top flat_demo_sections 0 = 1040"
    using k by (simp_all add: flat_ok_def flat_demo_sections_def flat_demo_def demo_coff_def flat_top_def)
  obtain out where o: "coff2flat False flat_demo = Inr out" "fsize out = flat_top flat_demo_sections 0 + 1024"
    "\<forall>s \<in> set flat_demo_sections. \<not> is_bss s \<longrightarrow> (\<forall>i < unat (s_size s). fbyte out (unat (s_paddr s) + i) = fbyte flat_demo (unat (s_scnptr s) + i))"
    "\<forall>q. (\<forall>s \<in> set flat_demo_sections. is_bss s \<or> \<not> section_covers s q) \<longrightarrow> fbyte out q = 0"
    using flat_file_is_image [OF flat_demos(1) ok(1,2)] by blast
  have t: "\<forall>i < 8. fbyte out i = fbyte flat_demo (156 + i)" using o(3) k(1) by (simp add: flat_demo_sections_def)
  have "fbyte flat_demo 156 = 4" "fbyte flat_demo 159 = 0x24" by (simp_all add: flat_demo_def demo_coff_def demo_coff_bytes_def nth_append)
  then have "fbyte out 0 = 4" "fbyte out 3 = 0x24" using t [rule_format, of 0] t [rule_format, of 3] by simp_all
  moreover have "fbyte out 8 = 0" using k by (intro o(4) [rule_format]) (auto simp: flat_demo_sections_def section_covers_def)
  ultimately show ?thesis using o(1,2) ok(3) by auto
qed

text \<open>A section that is not at the end of those before it is misplaced: the code that belongs at 128 is at 0.\<close>

lemma flat_file_gap:
  "\<exists>out. coff2flat False demo_coff = Inr out \<and> s_paddr (demo_sections ! 0) = 128 \<and> fbyte out 0 = fbyte demo_coff 156 \<and> fbyte out 128 = 0"
proof -
  have k: "\<not> is_bss (demo_sections ! 0)" "is_bss (demo_sections ! 1)" using flat_demo_kinds by (simp_all add: demo_sections_def)
  have ok: "list_all (flat_ok demo_coff) demo_sections" "flat_top demo_sections 0 = 1040"
    using k by (simp_all add: flat_ok_def demo_sections_def demo_coff_def flat_top_def)
  have c: "concat (map (section_bytes demo_coff) demo_sections) = section_bytes demo_coff (demo_sections ! 0)"
    using k by (simp add: demo_sections_def)
  have l: "length (section_bytes demo_coff (demo_sections ! 0)) = 8" "section_bytes demo_coff (demo_sections ! 0) ! 0 = fbyte demo_coff 156"
    using k by (simp_all add: demo_sections_def)
  obtain out where o: "coff2flat False demo_coff = Inr out"
    "\<forall>i. fbyte out i = (if i < 8 then section_bytes demo_coff (demo_sections ! 0) ! i else 0)"
    using coff2flat_bytes [OF flat_demos(2) ok(1)] unfolding c Let_def ok(2) l(1) by auto
  then have "fbyte out 0 = fbyte demo_coff 156" "fbyte out 128 = 0" unfolding l(2) [symmetric] by simp_all
  then show ?thesis using o(1) by (auto simp: demo_sections_def)
qed

end
