(* ===== verification/DrawModel.thy ===== *)
theory DrawModel
  imports PrintModel UserProgModel ThreadModel
begin

unbundle bit_operations_syntax

text \<open>
  Debugging output of the simulated machine: the dump of the registers and the drawing of memory, address spaces and threads
  as a file in SVG format (machine/machine.cc, userprog/addrspace.cc, threads/thread.cc).

  The text written is the result of the functions. The drawing reads user memory through \<open>Translate\<close> and \<open>ReadMem\<close>, for
  which it makes the page table that it draws the current one; so its state is the machine and the address spaces, and
  which of them is current. All coordinates are of type \<open>unsigned\<close>.
\<close>

section \<open>Registers\<close>

definition dump_one :: "string \<Rightarrow> nat \<Rightarrow> machine \<Rightarrow> string" where
  "dump_one fmt i m =
     printf (TAB # fmt @ '':'' @ [TAB] @ ''0x%x%s'') [PInt (of_nat i), PInt (registers m i), PStr (if i mod 4 = 3 then [NL] else [])]"

definition DumpState :: "machine \<Rightarrow> string" where
  "DumpState m =
     ''Machine registers:'' @ [NL] @
     concat (map (\<lambda>i. dump_one (if i = StackReg then ''SP(%d)'' else if i = RetAddrReg then ''RA(%d)'' else ''%d'') i m) [0..<32]) @
     printf (TAB # ''Hi:'' @ [TAB] @ ''0x%x'') [PInt (registers m HiReg)] @
     printf (TAB # ''Lo:'' @ [TAB] @ ''0x%x'' @ [NL]) [PInt (registers m LoReg)] @
     printf (TAB # ''PC:'' @ [TAB] @ ''0x%x'') [PInt (registers m PCReg)] @
     printf (TAB # ''NextPC:'' @ [TAB] @ ''0x%x'') [PInt (registers m NextPCReg)] @
     printf (TAB # ''PrevPC:'' @ [TAB] @ ''0x%x'' @ [NL]) [PInt (registers m PrevPCReg)] @
     printf (TAB # ''Load:'' @ [TAB] @ ''0x%x'') [PInt (registers m LoadReg)] @
     printf (TAB # ''LoadV:'' @ [TAB] @ ''0x%x'' @ [NL]) [PInt (registers m LoadValueReg)] @ [NL]"

text \<open>A register that points into the address space; the division is that of \<open>int\<close>.\<close>

definition DumpReg :: "32 word \<Rightarrow> string \<Rightarrow> string \<Rightarrow> 32 word \<Rightarrow> 32 word \<Rightarrow> 32 word \<Rightarrow> 32 word \<Rightarrow> 32 word \<Rightarrow> string" where
  "DumpReg val name color ptr_x ptr_y virtual_x y blocksize =
     (let page = word_of_int (sint val sdiv 128); offset = word_of_int (sint val smod 128) in
      printf (''<text x=\"%d\" y=\"%u\" stroke=\"%s\" fill=\"%s\" font-size=\"%u\">%s</text>'' @ [NL])
        [PInt ptr_x, PInt (y - page * blocksize), PStr color, PStr color, PInt blocksize, PStr name] @
      printf (''<line x1=\"%d\" y1=\"%u\" x2=\"%u\" y2=\"%u\" stroke=\"#808080\" stroke-width=\"5\"/>'' @ [NL])
        [PInt (ptr_x + 3 * blocksize div 2), PInt (ptr_y - page * blocksize - blocksize div 2),
         PInt (virtual_x + offset * blocksize + blocksize div 2), PInt (ptr_y - page * blocksize - blocksize div 2)])"

definition DumpRegs :: "machine \<Rightarrow> 32 word \<Rightarrow> 32 word \<Rightarrow> 32 word \<Rightarrow> 32 word \<Rightarrow> 32 word \<Rightarrow> string" where
  "DumpRegs m ptr_x ptr_y virtual_x y blocksize =
     DumpReg (registers m PCReg) ''PC'' ''#FF0000'' ptr_x ptr_y virtual_x y blocksize @
     DumpReg (registers m StackReg) ''SP'' ''#FF0000'' ptr_x ptr_y virtual_x y blocksize"

definition PageTableRoom :: "32 word \<Rightarrow> 32 word \<Rightarrow> 32 word" where
  "PageTableRoom n blocksize = (n + 1) * blocksize"

definition get_RGB :: "8 word \<Rightarrow> 8 word \<times> 8 word \<times> 8 word" where
  "get_RGB v = (push_bit 5 (v AND 0x7), push_bit 2 (v AND 0x38), push_bit 0 (v AND 0xc0))"

section \<open>Page tables\<close>

record draw =
  dm :: machine
  space_at :: "addr \<Rightarrow> AddrSpace"
  current :: "addr option"

text \<open>The machine sees the page table of the current address space.\<close>

definition refresh :: "draw \<Rightarrow> draw" where
  "refresh s = s\<lparr>dm := (dm s)\<lparr>currentPageTable := map_option (\<lambda>a. pageTable (space_at s a)) (current s)\<rparr>\<rparr>"

text \<open>
  The value of a byte of an address space: \<open>Translate\<close> and \<open>ReadMem\<close> with the page table of the space instead of the
  current one, which is restored. A \<open>ReadMem\<close> that fails leaves the variable \<open>value\<close> as it was, not initialised.
\<close>

definition draw_value :: "bool \<Rightarrow> exc_handler \<Rightarrow> 32 word \<Rightarrow> addr \<Rightarrow> 32 word \<Rightarrow> 32 word \<Rightarrow> draw \<Rightarrow> (32 word \<times> draw) res" where
  "draw_value be H uninit a sz virt s =
     (let m = (dm s)\<lparr>currentPageTable := Some (pageTable (space_at s a)), currentPageTableSize := sz\<rparr>;
          put_back = (\<lambda>m'. refresh (s\<lparr>space_at := (space_at s)(a := (space_at s a)\<lparr>pageTable := the (currentPageTable m')\<rparr>),
                                      dm := m'\<lparr>currentPageTableSize := currentPageTableSize (dm s)\<rparr>\<rparr>)) in
      rbind (Translate virt 1 False m) (\<lambda>t. case t of
         Inl e \<Rightarrow> Inr (- 1, put_back m)
       | Inr (pa, m1) \<Rightarrow>
           rbind (ReadMem be H virt 1 m1) (\<lambda>(v, m2). Inr (case v of None \<Rightarrow> uninit | Some w \<Rightarrow> w, put_back m2))))"

definition draw_cell :: "32 word \<Rightarrow> 32 word \<Rightarrow> 32 word \<Rightarrow> 32 word \<Rightarrow> string" where
  "draw_cell x y blocksize v =
     (case get_RGB (ucast v) of (r, g, b) \<Rightarrow>
      printf (''<rect x=\"%u\" y=\"%u\" width=\"%u\" height=\"%u\" fill=\"#%02x%02x%02x\" stroke=\"#000000\" stroke-width=\"1\"/>'' @ [NL])
        [PInt x, PInt y, PInt blocksize, PInt blocksize, PInt (ucast r), PInt (ucast g), PInt (ucast b)])"

fun draw_cells :: "bool \<Rightarrow> exc_handler \<Rightarrow> 32 word \<Rightarrow> addr \<Rightarrow> 32 word \<Rightarrow> nat \<Rightarrow> 32 word \<Rightarrow> 32 word \<Rightarrow> 32 word \<Rightarrow> nat list \<Rightarrow> draw
    \<Rightarrow> (string \<times> draw) res" where
  "draw_cells be H uninit a sz page virtual_x virtual_y blocksize [] s = Inr ([], s)"
| "draw_cells be H uninit a sz page virtual_x virtual_y blocksize (offset # offs) s =
     rbind (draw_value be H uninit a sz (of_nat (page * PageSize + offset)) s) (\<lambda>(v, s1).
     rbind (draw_cells be H uninit a sz page virtual_x virtual_y blocksize offs s1) (\<lambda>(out, s2).
     Inr (draw_cell (virtual_x + of_nat offset * blocksize) (virtual_y - of_nat page * blocksize - blocksize) blocksize v @ out, s2)))"

fun draw_pages :: "bool \<Rightarrow> exc_handler \<Rightarrow> 32 word \<Rightarrow> addr \<Rightarrow> 32 word \<Rightarrow> 32 word \<Rightarrow> 32 word \<Rightarrow> 32 word \<Rightarrow> 32 word \<Rightarrow> 32 word \<Rightarrow> 32 word \<Rightarrow> 32 word
    \<Rightarrow> nat list \<Rightarrow> draw \<Rightarrow> (string \<times> draw) res" where
  "draw_pages be H uninit a sz addr_x virtual_x virtual_width physical_x virtual_y y blocksize [] s = Inr ([], s)"
| "draw_pages be H uninit a sz addr_x virtual_x virtual_width physical_x virtual_y y blocksize (page # pages) s =
     (if \<not> page < length (pageTable (space_at s a)) then Inl WildAccess
      else
        let e = pageTable (space_at s a) ! page;
            label = printf (''<text x=\"%u\" y=\"%u\" font-size=\"%u\">0x%04x</text>'' @ [NL])
              [PInt addr_x, PInt (virtual_y - of_nat page * blocksize), PInt blocksize, PInt (of_nat (page * PageSize))];
            mapping = printf (''<line x1=\"%u\" y1=\"%u\" x2=\"%u\" y2=\"%u\" stroke=\"#000000\" stroke-width=\"1\"/>'' @ [NL])
              [PInt (virtual_x + virtual_width), PInt (virtual_y - of_nat page * blocksize - blocksize div 2),
               PInt physical_x, PInt (y - physicalPage e * blocksize - blocksize div 2)] in
        rbind (if valid e then
                 rbind (draw_cells be H uninit a sz page virtual_x virtual_y blocksize [0..<PageSize] s) (\<lambda>(out, s1). Inr (out @ mapping, s1))
               else Inr ([], s)) (\<lambda>(o1, s1).
        rbind (draw_pages be H uninit a sz addr_x virtual_x virtual_width physical_x virtual_y y blocksize pages s1) (\<lambda>(o2, s2).
        Inr (label @ o1 @ o2, s2))))"

definition DumpPageTable :: "bool \<Rightarrow> exc_handler \<Rightarrow> 32 word \<Rightarrow> addr \<Rightarrow> 32 word \<Rightarrow> 32 word \<Rightarrow> 32 word \<Rightarrow> 32 word \<Rightarrow> 32 word \<Rightarrow> 32 word \<Rightarrow> 32 word \<Rightarrow> 32 word
    \<Rightarrow> draw \<Rightarrow> (string \<times> 32 word \<times> draw) res" where
  "DumpPageTable be H uninit a sz addr_x virtual_x virtual_width physical_x virtual_y y blocksize s =
     rbind (draw_pages be H uninit a sz addr_x virtual_x virtual_width physical_x virtual_y y blocksize [0..<unat sz] s) (\<lambda>(out, s1).
     let frame = (if current s1 = Some a
                  then printf (''<rect x=\"%u\" y=\"%u\" width=\"%u\" height=\"%u\" fill-opacity=\"0.0\" stroke=\"#FF0000\" stroke-width=\"2\"/>'' @ [NL])
                         [PInt virtual_x, PInt (virtual_y - sz * blocksize), PInt virtual_width, PInt (sz * blocksize)]
                  else []) in
     Inr (out @ frame, PageTableRoom sz blocksize, s1))"

section \<open>Address spaces and threads\<close>

definition DrawArea :: "32 word \<Rightarrow> 32 word \<Rightarrow> 32 word \<Rightarrow> 32 word \<Rightarrow> Segment \<Rightarrow> string \<Rightarrow> string res" where
  "DrawArea sections_x virtual_x y blocksize segment name =
     (if segsize segment = 0 then Inr []
      else
        rbind (ASSERT (sint (virtualAddr segment) smod 128 = 0)) (\<lambda>_.
        rbind (ASSERT (sint (segsize segment) smod 128 = 0)) (\<lambda>_.
        let page = word_of_int (sint (virtualAddr segment) sdiv 128);
            last = word_of_int (sint (virtualAddr segment + segsize segment) sdiv 128) in
        Inr (printf (''<rect x=\"%u\" y=\"%u\" width=\"%u\" height=\"%u\" fill=\"#ffffff\" stroke=\"#000000\" stroke-width=\"1\"/>'' @ [NL])
               [PInt sections_x, PInt (y - last * blocksize), PInt (virtual_x - sections_x), PInt ((last - page) * blocksize)] @
             printf (''<text x=\"%u\" y=\"%u\" fill=\"#000000\" font-size=\"%u\">%s</text>'' @ [NL])
               [PInt sections_x, PInt (y - page * blocksize), PInt blocksize, PStr name]))))"

definition DumpThreadState :: "bool \<Rightarrow> machine \<Rightarrow> Thread \<Rightarrow> 32 word \<Rightarrow> 32 word \<Rightarrow> 32 word \<Rightarrow> 32 word \<Rightarrow> 32 word \<Rightarrow> string" where
  "DumpThreadState is_current m t ptr_x ptr_y virtual_x virtual_y blocksize =
     (if is_current then DumpRegs m ptr_x ptr_y virtual_x virtual_y blocksize
      else DumpReg (userRegisters t PCReg) ''PC'' ''#000000'' ptr_x ptr_y virtual_x virtual_y blocksize @
           DumpReg (userRegisters t StackReg) ''SP'' ''#000000'' ptr_x ptr_y virtual_x virtual_y blocksize)"

text \<open>The threads of the list with their objects; \<open>cur\<close> is \<open>currentThread\<close>.\<close>

fun dump_threads :: "addr \<Rightarrow> machine \<Rightarrow> addr \<Rightarrow> 32 word \<Rightarrow> 32 word \<Rightarrow> 32 word \<Rightarrow> 32 word \<Rightarrow> (addr \<times> Thread) list \<Rightarrow> 32 word \<Rightarrow> 32 word \<Rightarrow> string" where
  "dump_threads cur m a virtual_x virtual_y blocksize y_offset [] ptr_x ptr_y = []"
| "dump_threads cur m a virtual_x virtual_y blocksize y_offset ((p, t) # ts) ptr_x ptr_y =
     (if space t \<noteq> a then dump_threads cur m a virtual_x virtual_y blocksize y_offset ts ptr_x ptr_y
      else DumpThreadState (p = cur) m t ptr_x ptr_y virtual_x virtual_y blocksize @
           dump_threads cur m a virtual_x virtual_y blocksize y_offset ts (ptr_x - blocksize) (ptr_y + y_offset))"

definition DumpThreadsState :: "addr \<Rightarrow> machine \<Rightarrow> (addr \<times> Thread) list \<Rightarrow> addr \<Rightarrow> 32 word \<Rightarrow> 32 word \<Rightarrow> 32 word \<Rightarrow> 32 word \<Rightarrow> string" where
  "DumpThreadsState cur m ths a ptr_x virtual_x virtual_y blocksize =
     (let nthreads = of_nat (length ths) :: 32 word;
          (y_offset, ptr_y) = (if nthreads = 1 then (0, virtual_y) else ((blocksize div 2) div (nthreads - 1), virtual_y - blocksize div 4)) in
      dump_threads cur m a virtual_x virtual_y blocksize y_offset ths (ptr_x + 4 * blocksize) ptr_y)"

text \<open>The constants of a drawing that all functions pass on: positions and widths of the columns, the bottom, the size of a byte.\<close>

definition AddrSpace_Dump :: "bool \<Rightarrow> exc_handler \<Rightarrow> 32 word \<Rightarrow> addr \<Rightarrow> (addr \<times> Thread) list \<Rightarrow> 32 word \<Rightarrow> 32 word \<Rightarrow> 32 word \<Rightarrow> 32 word \<Rightarrow> 32 word
    \<Rightarrow> 32 word \<Rightarrow> 32 word \<Rightarrow> addr \<Rightarrow> 32 word \<Rightarrow> draw \<Rightarrow> (string \<times> 32 word \<times> draw) res" where
  "AddrSpace_Dump be H uninit cur ths addr_x sections_x virtual_x virtual_width physical_x y blocksize a virtual_y s =
     rbind (DumpPageTable be H uninit a (numPages (space_at s a)) addr_x virtual_x virtual_width physical_x virtual_y y blocksize s) (\<lambda>(o1, ret, s1).
     rbind (DrawArea sections_x virtual_x virtual_y blocksize (code (noffH (space_at s1 a))) ''code'') (\<lambda>o2.
     rbind (DrawArea sections_x virtual_x virtual_y blocksize (initData (noffH (space_at s1 a))) ''data'') (\<lambda>o3.
     rbind (DrawArea sections_x virtual_x virtual_y blocksize (uninitData (noffH (space_at s1 a))) ''bss'') (\<lambda>o4.
     Inr (o1 @ o2 @ o3 @ o4 @ DumpThreadsState cur (dm s1) ths a sections_x virtual_x virtual_y blocksize, ret, s1)))))"

fun rooms :: "32 word \<Rightarrow> draw \<Rightarrow> addr list \<Rightarrow> 32 word \<Rightarrow> 32 word" where
  "rooms blocksize s [] room = room"
| "rooms blocksize s (a # lst) room = rooms blocksize s lst (room + PageTableRoom (numPages (space_at s a)) blocksize)"

definition AddrSpacesRoom :: "32 word \<Rightarrow> addr list \<Rightarrow> draw \<Rightarrow> 32 word" where
  "AddrSpacesRoom blocksize lst s = rooms blocksize s lst 0"

fun DumpAddrSpaces :: "bool \<Rightarrow> exc_handler \<Rightarrow> 32 word \<Rightarrow> addr \<Rightarrow> (addr \<times> Thread) list \<Rightarrow> 32 word \<Rightarrow> 32 word \<Rightarrow> 32 word \<Rightarrow> 32 word \<Rightarrow> 32 word
    \<Rightarrow> 32 word \<Rightarrow> 32 word \<Rightarrow> addr list \<Rightarrow> 32 word \<Rightarrow> draw \<Rightarrow> (string \<times> draw) res" where
  "DumpAddrSpaces be H uninit cur ths addr_x sections_x virtual_x virtual_width physical_x y blocksize [] virtual_y s = Inr ([], s)"
| "DumpAddrSpaces be H uninit cur ths addr_x sections_x virtual_x virtual_width physical_x y blocksize (a # lst) virtual_y s =
     rbind (AddrSpace_Dump be H uninit cur ths addr_x sections_x virtual_x virtual_width physical_x y blocksize a virtual_y s) (\<lambda>(o1, ret, s1).
     rbind (DumpAddrSpaces be H uninit cur ths addr_x sections_x virtual_x virtual_width physical_x y blocksize lst (virtual_y - ret) s1) (\<lambda>(o2, s2).
     Inr (o1 @ o2, s2)))"

text \<open>The file around the address spaces: its head, the frame of the current page table, and the physical memory.\<close>

definition mem_picture :: "32 word \<Rightarrow> 32 word \<Rightarrow> 32 word \<Rightarrow> 32 word \<Rightarrow> 32 word \<Rightarrow> 32 word \<Rightarrow> string \<Rightarrow> machine \<Rightarrow> string" where
  "mem_picture blocksize virtual_x virtual_width physical_x height n spaces_text m =
     ''<?xml version=\"1.0\" encoding=\"UTF-8\"?>'' @ [NL] @
     printf (''<svg xmlns=\"http://www.w3.org/2000/svg\" xmlns:xlink=\"http://www.w3.org/1999/xlink\" viewBox = \"0 0 %u %u\" version = \"1.1\">'' @ [NL])
       [PInt (physical_x + 128 * blocksize), PInt height] @
     printf (''<rect x=\"%u\" y=\"%u\" width=\"%u\" height=\"%u\" fill=\"#ffffff\" stroke=\"#000000\" stroke-width=\"1\"/>'' @ [NL])
       [PInt virtual_x, PInt (height - n * blocksize), PInt virtual_width, PInt (n * blocksize)] @
     spaces_text @
     concat (map (\<lambda>i. draw_cell (physical_x + of_nat (i mod PageSize) * blocksize) (height - of_nat (i div PageSize) * blocksize - blocksize)
                        blocksize (scast (mainMemory m i))) [0..<MemorySize]) @
     ''</svg>'' @ [NL]"

definition DumpMem :: "bool \<Rightarrow> exc_handler \<Rightarrow> 32 word \<Rightarrow> addr \<Rightarrow> (addr \<times> Thread) list \<Rightarrow> addr list \<Rightarrow> draw \<Rightarrow> (string \<times> draw) res" where
  "DumpMem be H uninit cur ths lst s =
     (let blocksize = 32; addr_x = 0; addr_width = 4 * blocksize; ptr_x = addr_x + addr_width; ptr_width = 6 * blocksize;
          virtual_x = ptr_x + ptr_width; virtual_width = 128 * blocksize; physical_x = virtual_x + virtual_width + 30 * blocksize;
          virtual_height = AddrSpacesRoom blocksize lst s; physical_height = 64 * blocksize;
          height = (if virtual_height > physical_height then virtual_height else physical_height) in
      rbind (DumpAddrSpaces be H uninit cur ths addr_x ptr_x virtual_x virtual_width physical_x height blocksize lst height s) (\<lambda>(o1, s1).
      Inr (mem_picture blocksize virtual_x virtual_width physical_x height (currentPageTableSize (dm s)) o1 (dm s1), s1)))"

section \<open>What drawing changes\<close>

text \<open>The machine sees the page table of the current address space, and every page table that is drawn has its announced size.\<close>

definition draw_ok :: "addr list \<Rightarrow> draw \<Rightarrow> bool" where
  "draw_ok lst s \<longleftrightarrow> refresh s = s \<and> tlb (dm s) = None
     \<and> (\<forall>a \<in> set lst. unat (numPages (space_at s a)) = length (pageTable (space_at s a)) \<and> length (pageTable (space_at s a)) \<le> 2 ^ 25)"

text \<open>An entry through which a byte is drawn is marked as used.\<close>

definition mark :: "TranslationEntry \<Rightarrow> TranslationEntry" where
  "mark e = (if valid e \<and> physicalPage e < 64 then e\<lparr>usebit := True\<rparr> else e)"

definition mark_page :: "addr \<Rightarrow> nat \<Rightarrow> draw \<Rightarrow> draw" where
  "mark_page a i s = refresh (s\<lparr>space_at := (space_at s)(a := (space_at s a)\<lparr>pageTable := (pageTable (space_at s a))[i := mark (pageTable (space_at s a) ! i)]\<rparr>)\<rparr>)"

lemma mark_simps [simp]: "valid (mark e) = valid e" "physicalPage (mark e) = physicalPage e" "mark (mark e) = mark e"
  by (simp_all add: mark_def)

lemma refresh_simps [simp]: "space_at (refresh s) = space_at s" "current (refresh s) = current s" "refresh (refresh s) = refresh s"
  "mainMemory (dm (refresh s)) = mainMemory (dm s)" "registers (dm (refresh s)) = registers (dm s)" "tlb (dm (refresh s)) = tlb (dm s)"
  by (simp_all add: refresh_def)

lemma refresh_table: "refresh (s\<lparr>dm := m\<lparr>currentPageTable := t\<rparr>\<rparr>) = refresh (s\<lparr>dm := m\<rparr>)"
  by (simp add: refresh_def)

lemma unused_space: "refresh (s\<lparr>space_at := (space_at s)(a := space_at s a)\<rparr>) = refresh s"
  by simp

lemma lookup_drawn:
  assumes "tlb m = None" "currentPageTable m = Some pt" "unat (currentPageTableSize m) = length pt" "length pt \<le> 2 ^ 25"
    "page < length pt" "offset < 128" "valid (pt ! page)"
  shows "lookup_entry (of_nat (page * 128 + offset) div 128) m = Inr (Inr (InTable page, pt ! page))"
    "of_nat (page * 128 + offset) mod 128 = (of_nat offset :: 32 word)" "unat (of_nat offset :: 32 word) = offset"
proof -
  have "page * 128 + offset < 2 ^ 32" using assms(4-6) by simp
  then have u: "unat (of_nat (page * 128 + offset) :: 32 word) = page * 128 + offset" by (simp only: unat_of_nat) simp
  have d: "unat (of_nat (page * 128 + offset) div 128 :: 32 word) = page" unfolding unat_div u using assms(6) by simp
  then have "\<not> of_nat (page * 128 + offset) div 128 \<ge> currentPageTableSize m" using assms(3,5) by (simp add: word_le_nat_alt)
  then show "lookup_entry (of_nat (page * 128 + offset) div 128) m = Inr (Inr (InTable page, pt ! page))"
    using assms(1,2,5,7) d by (simp add: lookup_entry_def)
  show o: "unat (of_nat offset :: 32 word) = offset" using assms(6) by (simp add: unat_of_nat)
  have "unat (of_nat (page * 128 + offset) mod 128 :: 32 word) = offset" unfolding unat_mod u using assms(6) by simp
  then show "of_nat (page * 128 + offset) mod 128 = (of_nat offset :: 32 word)" using o by (simp add: word_unat_eq_iff)
qed

text \<open>The value drawn for a byte of a valid page.\<close>

definition shown :: "draw \<Rightarrow> addr \<Rightarrow> nat \<Rightarrow> nat \<Rightarrow> 32 word" where
  "shown s a page offset =
     (let e = pageTable (space_at s a) ! page in
      if physicalPage e < 64 then scast (mainMemory (dm s) (unat (physicalPage e) * 128 + offset)) else - 1)"

definition drawable :: "addr \<Rightarrow> draw \<Rightarrow> bool" where
  "drawable a s \<longleftrightarrow> refresh s = s \<and> tlb (dm s) = None
     \<and> unat (numPages (space_at s a)) = length (pageTable (space_at s a)) \<and> length (pageTable (space_at s a)) \<le> 2 ^ 25"

lemma draw_value_ok:
  assumes "drawable a s" "page < length (pageTable (space_at s a))" "offset < 128" "valid (pageTable (space_at s a) ! page)"
  shows "draw_value be H uninit a (numPages (space_at s a)) (of_nat (page * 128 + offset)) s = Inr (shown s a page offset, mark_page a page s)"
proof -
  let ?pt = "pageTable (space_at s a)" let ?e = "?pt ! page" let ?va = "of_nat (page * 128 + offset) :: 32 word"
  let ?m = "(dm s)\<lparr>currentPageTable := Some ?pt, currentPageTableSize := numPages (space_at s a)\<rparr>"
  have d: "refresh s = s" "tlb (dm s) = None" "unat (numPages (space_at s a)) = length ?pt" "length ?pt \<le> 2 ^ 25"
    using assms(1) by (simp_all add: drawable_def)
  have ok: "mmu_ok ?m" using d by (simp add: mmu_ok_def)
  have sz: "access_size 1" "aligned 1 ?va" by (simp_all add: access_size_def aligned_def)
  have l: "lookup_entry (?va div 128) ?m = Inr (Inr (InTable page, ?pt ! page))" "?va mod 128 = of_nat offset" "unat (of_nat offset :: 32 word) = offset"
    using lookup_drawn [of ?m ?pt page offset] d assms(2-4) by simp_all
  have tr: "Translate ?va 1 False ?m = (if physicalPage ?e \<ge> 64 then Inr (Inl BusErrorException)
      else Inr (Inr (physicalPage ?e * 128 + of_nat offset, ?m\<lparr>currentPageTable := Some (?pt[page := ?e\<lparr>usebit := True\<rparr>])\<rparr>)))"
    unfolding Translate_eq [OF ok sz(1)] l(1,2) using sz(2) by (simp add: update_entry_def)
  show ?thesis
  proof (cases "physicalPage ?e \<ge> 64")
    case True
    then have "mark ?e = ?e" by (simp add: mark_def not_less [symmetric])
    then have "mark_page a page s = s" using d(1) by (simp add: mark_page_def)
    moreover have "shown s a page offset = - 1" using True by (simp add: shown_def not_less [symmetric])
    moreover have "refresh (s\<lparr>dm := ?m\<lparr>currentPageTableSize := currentPageTableSize (dm s)\<rparr>\<rparr>) = s"
      using d(1) refresh_table [where s = s and m = "dm s"] by (simp add: refresh_def)
    ultimately show ?thesis using tr True unfolding draw_value_def Let_def by simp
  next
    case False
    let ?e' = "?e\<lparr>usebit := True\<rparr>" let ?m1 = "?m\<lparr>currentPageTable := Some (?pt[page := ?e'])\<rparr>"
    have m: "mark ?e = ?e'" using False assms(4) by (simp add: mark_def not_le)
    have ok1: "mmu_ok ?m1" using d by (simp add: mmu_ok_def)
    have l1: "lookup_entry (?va div 128) ?m1 = Inr (Inr (InTable page, ?e'))"
      using lookup_drawn(1) [of ?m1 "?pt[page := ?e']" page offset] d assms(2-4) by simp
    have "Translate ?va 1 False ?m1 = Inr (Inr (physicalPage ?e * 128 + of_nat offset, ?m1))"
      unfolding Translate_eq [OF ok1 sz(1)] l1 l(2) using sz(2) False assms(2) by (simp add: update_entry_def)
    moreover have f: "unat (physicalPage ?e) < 64" using False by (simp add: word_le_nat_alt)
    moreover have "unat (physicalPage ?e * 128 + of_nat offset) = unat (physicalPage ?e) * 128 + offset"
      using f assms(3) l(3) by (simp add: unat_word_ariths)
    moreover have "shown s a page offset = scast (mainMemory (dm s) (unat (physicalPage ?e) * 128 + offset))"
      using False by (simp add: shown_def not_le)
    moreover have "refresh (s\<lparr>space_at := (space_at s)(a := (space_at s a)\<lparr>pageTable := ?pt[page := ?e']\<rparr>),
        dm := ?m1\<lparr>currentPageTableSize := currentPageTableSize (dm s)\<rparr>\<rparr>) = mark_page a page s"
      unfolding mark_page_def refresh_def m by (intro draw.equality machine.equality) simp_all
    ultimately show ?thesis using tr False unfolding draw_value_def Let_def by (simp add: ReadMem_def)
  qed
qed

lemma mark_page_simps [simp]:
  "numPages (space_at (mark_page a i s) b) = numPages (space_at s b)" "noffH (space_at (mark_page a i s) b) = noffH (space_at s b)"
  "current (mark_page a i s) = current s" "mainMemory (dm (mark_page a i s)) = mainMemory (dm s)"
  "length (pageTable (space_at (mark_page a i s) b)) = length (pageTable (space_at s b))"
  "tlb (dm (mark_page a i s)) = tlb (dm s)" "refresh (mark_page a i s) = mark_page a i s"
  by (simp_all add: mark_page_def)

lemma mark_page_entry [simp]:
  "j < length (pageTable (space_at s a)) \<Longrightarrow> valid (pageTable (space_at (mark_page a i s) a) ! j) = valid (pageTable (space_at s a) ! j)"
  "j < length (pageTable (space_at s a)) \<Longrightarrow> physicalPage (pageTable (space_at (mark_page a i s) a) ! j) = physicalPage (pageTable (space_at s a) ! j)"
  by (cases "i = j"; simp add: mark_page_def nth_list_update)+

lemma mark_page_drawable [simp]: "drawable b s \<Longrightarrow> drawable b (mark_page a i s)"
  by (simp add: drawable_def)

lemma mark_page_idem: "mark_page a i (mark_page a i s) = mark_page a i s"
  by (cases "i < length (pageTable (space_at s a))") (simp_all add: mark_page_def refresh_def list_update_beyond)

lemma shown_mark [simp]: "j < length (pageTable (space_at s a)) \<Longrightarrow> shown (mark_page a i s) a j k = shown s a j k"
  by (simp add: shown_def)

text \<open>The text of the row of a page, and the state after drawing it.\<close>

definition row_text :: "draw \<Rightarrow> addr \<Rightarrow> nat \<Rightarrow> 32 word \<Rightarrow> 32 word \<Rightarrow> 32 word \<Rightarrow> nat list \<Rightarrow> string" where
  "row_text s a page virtual_x virtual_y blocksize offs =
     concat (map (\<lambda>k. draw_cell (virtual_x + of_nat k * blocksize) (virtual_y - of_nat page * blocksize - blocksize) blocksize (shown s a page k)) offs)"

lemma draw_cells_ok:
  assumes "drawable a s" "page < length (pageTable (space_at s a))" "valid (pageTable (space_at s a) ! page)" "\<forall>k \<in> set offs. k < 128"
  shows "draw_cells be H uninit a (numPages (space_at s a)) page virtual_x virtual_y blocksize offs s
    = Inr (row_text s a page virtual_x virtual_y blocksize offs, if offs = [] then s else mark_page a page s)"
  using assms
proof (induction offs arbitrary: s)
  case (Cons k offs)
  have v: "draw_value be H uninit a (numPages (space_at s a)) (of_nat (page * 128 + k)) s = Inr (shown s a page k, mark_page a page s)"
    using draw_value_ok [OF Cons.prems(1,2) _ Cons.prems(3)] Cons.prems(4) by simp
  have "draw_cells be H uninit a (numPages (space_at s a)) page virtual_x virtual_y blocksize offs (mark_page a page s)
      = Inr (row_text s a page virtual_x virtual_y blocksize offs, mark_page a page s)"
    using Cons.IH [of "mark_page a page s"] Cons.prems by (simp add: mark_page_idem row_text_def cong: map_cong)
  then show ?case using v by (simp add: row_text_def)
qed (simp add: row_text_def)

lemma draw_pages_ok:
  assumes "drawable a s" "\<forall>i \<in> set pages. i < length (pageTable (space_at s a))"
  shows "\<exists>out. draw_pages be H uninit a (numPages (space_at s a)) addr_x virtual_x virtual_width physical_x virtual_y y blocksize pages s
    = Inr (out, fold (mark_page a) pages s)"
  using assms
proof (induction pages arbitrary: s)
  case (Cons i pages)
  let ?e = "pageTable (space_at s a) ! i"
  have i: "i < length (pageTable (space_at s a))" using Cons.prems(2) by simp
  have "mark_page a i s = s" if "\<not> valid ?e"
    using that Cons.prems(1) by (simp add: mark_page_def mark_def drawable_def)
  moreover have "\<exists>out. draw_cells be H uninit a (numPages (space_at s a)) i virtual_x virtual_y blocksize [0..<128] s = Inr (out, mark_page a i s)" if "valid ?e"
    using draw_cells_ok [OF Cons.prems(1) i that, of "[0..<128]"] by simp
  ultimately obtain o1 where o1: "(if valid ?e then draw_cells be H uninit a (numPages (space_at s a)) i virtual_x virtual_y blocksize [0..<128] s
      else Inr ([], s)) = Inr (o1, mark_page a i s)" by (metis (full_types))
  obtain o2 where o2: "draw_pages be H uninit a (numPages (space_at s a)) addr_x virtual_x virtual_width physical_x virtual_y y blocksize pages (mark_page a i s)
      = Inr (o2, fold (mark_page a) pages (mark_page a i s))"
    using Cons.IH [of "mark_page a i s"] Cons.prems by auto
  show ?case using i o1 o2 by (cases "valid ?e") (simp_all add: Let_def del: upt_rec_numeral)
qed simp

definition mark_space :: "addr \<Rightarrow> draw \<Rightarrow> draw" where
  "mark_space a s = refresh (s\<lparr>space_at := (space_at s)(a := (space_at s a)\<lparr>pageTable := map mark (pageTable (space_at s a))\<rparr>)\<rparr>)"

lemma mark_page_table:
  "mark_page a i (refresh (s\<lparr>space_at := (space_at s)(a := (space_at s a)\<lparr>pageTable := t\<rparr>)\<rparr>))
     = refresh (s\<lparr>space_at := (space_at s)(a := (space_at s a)\<lparr>pageTable := t[i := mark (t ! i)]\<rparr>)\<rparr>)"
  unfolding mark_page_def by (intro draw.equality machine.equality) (auto simp: refresh_def fun_eq_iff map_option_case split: option.split)

lemma mark_pages:
  assumes "refresh s = s" "k \<le> length (pageTable (space_at s a))"
  shows "fold (mark_page a) [0..<k] s = refresh (s\<lparr>space_at := (space_at s)(a := (space_at s a)\<lparr>pageTable :=
     map mark (take k (pageTable (space_at s a))) @ drop k (pageTable (space_at s a))\<rparr>)\<rparr>)"
  using assms(2)
proof (induction k)
  case (Suc k)
  let ?pt = "pageTable (space_at s a)"
  have "(map mark (take k ?pt) @ drop k ?pt)[k := mark ((map mark (take k ?pt) @ drop k ?pt) ! k)] = map mark (take (Suc k) ?pt) @ drop (Suc k) ?pt"
    using Suc.prems by (intro nth_equalityI) (auto simp: nth_append nth_list_update min_def less_Suc_eq)
  moreover have "fold (mark_page a) [0..<Suc k] s = mark_page a k (fold (mark_page a) [0..<k] s)" by simp
  moreover note Suc.IH [OF Suc_leD [OF Suc.prems]]
  ultimately show ?case by (simp only: mark_page_table)
qed (use assms(1) in simp)

lemma mark_space_all:
  assumes "refresh s = s" "n = length (pageTable (space_at s a))"
  shows "fold (mark_page a) [0..<n] s = mark_space a s"
  using mark_pages [OF assms(1), of n a] assms(2) by (simp add: mark_space_def)

lemma mark_space_simps [simp]:
  "numPages (space_at (mark_space a s) b) = numPages (space_at s b)" "noffH (space_at (mark_space a s) b) = noffH (space_at s b)"
  "current (mark_space a s) = current s" "mainMemory (dm (mark_space a s)) = mainMemory (dm s)" "registers (dm (mark_space a s)) = registers (dm s)"
  "length (pageTable (space_at (mark_space a s) b)) = length (pageTable (space_at s b))"
  "tlb (dm (mark_space a s)) = tlb (dm s)" "refresh (mark_space a s) = mark_space a s"
  "pageTable (space_at (mark_space a s) b) = (if a = b then map mark (pageTable (space_at s b)) else pageTable (space_at s b))"
  by (simp_all add: mark_space_def)

lemma mark_space_dm: "dm (mark_space a s) = (dm s)\<lparr>currentPageTable := currentPageTable (dm (mark_space a s))\<rparr>"
  by (simp add: mark_space_def refresh_def split: option.split)

lemma mark_space_drawable [simp]: "drawable b s \<Longrightarrow> drawable b (mark_space a s)"
  by (simp add: drawable_def)

section \<open>Drawing everything\<close>

text \<open>What \<open>DrawArea\<close> asserts of the segments of a program.\<close>

definition page_aligned :: "Segment \<Rightarrow> bool" where
  "page_aligned g \<longleftrightarrow> segsize g = 0 \<or> sint (virtualAddr g) smod 128 = 0 \<and> sint (segsize g) smod 128 = 0"

definition areas_ok :: "AddrSpace \<Rightarrow> bool" where
  "areas_ok sp \<longleftrightarrow> page_aligned (code (noffH sp)) \<and> page_aligned (initData (noffH sp)) \<and> page_aligned (uninitData (noffH sp))"

lemma DrawArea_ok: "page_aligned g \<Longrightarrow> \<exists>out. DrawArea x vx y bs g name = Inr out"
  by (auto simp: DrawArea_def page_aligned_def ASSERT_def Let_def)

lemma DrawArea_fails: "\<not> page_aligned g \<Longrightarrow> DrawArea x vx y bs g name = Inl AssertFail"
  by (auto simp: DrawArea_def page_aligned_def ASSERT_def Let_def)

lemma DumpPageTable_ok:
  assumes "drawable a s"
  shows "\<exists>out. DumpPageTable be H uninit a (numPages (space_at s a)) addr_x virtual_x virtual_width physical_x virtual_y y blocksize s
     = Inr (out, PageTableRoom (numPages (space_at s a)) blocksize, mark_space a s)"
proof -
  have "fold (mark_page a) [0..<unat (numPages (space_at s a))] s = mark_space a s"
    using assms by (intro mark_space_all) (simp_all add: drawable_def)
  then show ?thesis
    using draw_pages_ok [OF assms, of "[0..<unat (numPages (space_at s a))]" be H uninit addr_x virtual_x virtual_width physical_x virtual_y y blocksize] assms
    by (auto simp: DumpPageTable_def drawable_def)
qed

lemma AddrSpace_Dump_ok:
  assumes "drawable a s" "areas_ok (space_at s a)"
  shows "\<exists>out. AddrSpace_Dump be H uninit cur ths addr_x sections_x virtual_x virtual_width physical_x y blocksize a virtual_y s
     = Inr (out, PageTableRoom (numPages (space_at s a)) blocksize, mark_space a s)"
  using DumpPageTable_ok [OF assms(1), of be H uninit addr_x virtual_x virtual_width physical_x virtual_y y blocksize] assms(2)
    DrawArea_ok [of "code (noffH (space_at s a))" sections_x virtual_x virtual_y blocksize "''code''"]
    DrawArea_ok [of "initData (noffH (space_at s a))" sections_x virtual_x virtual_y blocksize "''data''"]
    DrawArea_ok [of "uninitData (noffH (space_at s a))" sections_x virtual_x virtual_y blocksize "''bss''"]
  by (auto simp: AddrSpace_Dump_def areas_ok_def)

lemma DumpAddrSpaces_ok:
  assumes "\<forall>a \<in> set lst. drawable a s \<and> areas_ok (space_at s a)"
  shows "\<exists>out. DumpAddrSpaces be H uninit cur ths addr_x sections_x virtual_x virtual_width physical_x y blocksize lst virtual_y s
     = Inr (out, fold mark_space lst s)"
  using assms
proof (induction lst arbitrary: s virtual_y)
  case (Cons a lst)
  have "drawable a s" "areas_ok (space_at s a)" using Cons.prems by simp_all
  from AddrSpace_Dump_ok [OF this, of be H uninit cur ths addr_x sections_x virtual_x virtual_width physical_x y blocksize virtual_y]
  obtain o1 where o1: "AddrSpace_Dump be H uninit cur ths addr_x sections_x virtual_x virtual_width physical_x y blocksize a virtual_y s
     = Inr (o1, PageTableRoom (numPages (space_at s a)) blocksize, mark_space a s)" by blast
  have "\<forall>b \<in> set lst. drawable b (mark_space a s) \<and> areas_ok (space_at (mark_space a s) b)"
    using Cons.prems by (simp add: areas_ok_def)
  from Cons.IH [OF this, of "virtual_y - PageTableRoom (numPages (space_at s a)) blocksize"] show ?case using o1 by auto
qed simp

lemma marked_spaces:
  "mainMemory (dm (fold mark_space lst s)) = mainMemory (dm s)" "registers (dm (fold mark_space lst s)) = registers (dm s)"
  "tlb (dm (fold mark_space lst s)) = tlb (dm s)" "current (fold mark_space lst s) = current s"
  "numPages (space_at (fold mark_space lst s) b) = numPages (space_at s b)" "noffH (space_at (fold mark_space lst s) b) = noffH (space_at s b)"
  "pageTable (space_at (fold mark_space lst s) b) = (if b \<in> set lst then map mark (pageTable (space_at s b)) else pageTable (space_at s b))"
  by (induction lst arbitrary: s) auto

lemma marked_machine:
  "dm (fold mark_space lst s) = (dm s)\<lparr>currentPageTable := currentPageTable (dm (fold mark_space lst s))\<rparr>"
proof (induction lst arbitrary: s)
  case (Cons a lst)
  have "dm (fold mark_space lst (mark_space a s))
      = (dm (mark_space a s))\<lparr>currentPageTable := currentPageTable (dm (fold mark_space lst (mark_space a s)))\<rparr>" by (rule Cons.IH)
  also have "\<dots> = (dm s)\<lparr>currentPageTable := currentPageTable (dm (fold mark_space lst (mark_space a s)))\<rparr>"
    by (subst mark_space_dm) simp
  finally show ?case by simp
qed simp

lemma marked_coherent: "refresh s = s \<Longrightarrow> refresh (fold mark_space lst s) = fold mark_space lst s"
  by (induction lst arbitrary: s) simp_all

lemma DumpMem_eq:
  "\<exists>f. DumpMem be H uninit cur ths lst s =
     (let height = (if AddrSpacesRoom 32 lst s > 2048 then AddrSpacesRoom 32 lst s else 2048) in
      rbind (DumpAddrSpaces be H uninit cur ths 0 128 320 4096 5376 height 32 lst height s) (\<lambda>(o1, s1). Inr (f o1 s1, s1)))"
  by (rule exI [of _ "\<lambda>o1 s1. mem_picture 32 320 4096 5376 (if AddrSpacesRoom 32 lst s > 2048 then AddrSpacesRoom 32 lst s else 2048)
        (currentPageTableSize (dm s)) o1 (dm s1)"]) (simp add: DumpMem_def Let_def)

text \<open>C16: on a machine without a TLB, drawing the memory always succeeds when every address space of the list has a page table of its announced
  size, of at most 2^25 pages, and segments that consist of whole pages. It leaves the whole machine - memory, registers, the size of the page table, the status - and
  every other address space alone, but it is not without effect: in every address space of the list, every valid page whose frame is one of the 64
  of the machine is marked as used, and the page table in use is still that of the current address space, with these marks.\<close>

theorem drawing_marks_pages_used:
  assumes "draw_ok lst s" "\<forall>a \<in> set lst. areas_ok (space_at s a)"
  shows "\<exists>out s'. DumpMem be H uninit cur ths lst s = Inr (out, s')
     \<and> dm s' = (dm s)\<lparr>currentPageTable := currentPageTable (dm s')\<rparr> \<and> current s' = current s \<and> refresh s' = s'
     \<and> (\<forall>a. numPages (space_at s' a) = numPages (space_at s a) \<and> noffH (space_at s' a) = noffH (space_at s a)
          \<and> pageTable (space_at s' a) = (if a \<in> set lst then map mark (pageTable (space_at s a)) else pageTable (space_at s a)))"
proof -
  have "\<forall>a \<in> set lst. drawable a s \<and> areas_ok (space_at s a)" using assms by (simp add: draw_ok_def drawable_def)
  note d = DumpAddrSpaces_ok [OF this, of be H uninit cur ths 0 128 320 4096 5376]
  obtain f where f: "DumpMem be H uninit cur ths lst s =
     (let height = (if AddrSpacesRoom 32 lst s > 2048 then AddrSpacesRoom 32 lst s else 2048) in
      rbind (DumpAddrSpaces be H uninit cur ths 0 128 320 4096 5376 height 32 lst height s) (\<lambda>(o1, s1). Inr (f o1 s1, s1)))"
    using DumpMem_eq [of be H uninit cur ths lst s] by blast
  obtain o1 where "DumpMem be H uninit cur ths lst s = Inr (f o1 (fold mark_space lst s), fold mark_space lst s)"
    using d unfolding f Let_def by (metis (no_types, lifting) case_prod_conv rbind_simps(1))
  moreover have "refresh s = s" using assms(1) by (simp add: draw_ok_def)
  ultimately show ?thesis using marked_machine [of lst s] marked_coherent [of s lst] by (simp add: marked_spaces)
qed

text \<open>A program of two pages, of which the first is not valid.\<close>

definition demo_entry :: "32 word \<Rightarrow> bool \<Rightarrow> TranslationEntry" where
  "demo_entry frame v = \<lparr>virtualPage = 0, physicalPage = frame, valid = v, readOnly = False, usebit = False, dirty = False\<rparr>"

definition demo_draw :: draw where
  "demo_draw = refresh \<lparr>dm = Machine_new False False UserMode,
     space_at = (\<lambda>_. \<lparr>noffH = \<lparr>noffMagic = NOFFMAGIC, code = \<lparr>virtualAddr = 128, inFileAddr = 40, segsize = 128\<rparr>,
                       initData = \<lparr>virtualAddr = 0, inFileAddr = 0, segsize = 0\<rparr>, uninitData = \<lparr>virtualAddr = 0, inFileAddr = 0, segsize = 0\<rparr>\<rparr>,
                     pageTable = [demo_entry 0 False, demo_entry 1 True], numPages = 2\<rparr>),
     current = Some 7\<rparr>"

theorem drawing_marks_pages_used_witness:
  "\<exists>out s'. DumpMem False (\<lambda>e m. Inl PowerDown) 0 1 [] [7] demo_draw = Inr (out, s')
     \<and> \<not> usebit (pageTable (space_at demo_draw 7) ! 1) \<and> usebit (pageTable (space_at s' 7) ! 1) \<and> \<not> usebit (pageTable (space_at s' 7) ! 0)"
proof -
  have pt: "pageTable (space_at demo_draw 7) = [demo_entry 0 False, demo_entry 1 True]" by (simp add: demo_draw_def)
  have "draw_ok [7] demo_draw" by (simp add: draw_ok_def demo_draw_def Machine_new_def)
  moreover have "\<forall>a \<in> set [7]. areas_ok (space_at demo_draw a)" by (simp add: areas_ok_def page_aligned_def demo_draw_def)
  ultimately obtain out s' where "DumpMem False (\<lambda>e m. Inl PowerDown) 0 1 [] [7] demo_draw = Inr (out, s')"
    "\<forall>a. pageTable (space_at s' a) = (if a \<in> set [7] then map mark (pageTable (space_at demo_draw a)) else pageTable (space_at demo_draw a))"
    using drawing_marks_pages_used by metis
  then show ?thesis using pt by (auto simp: mark_def demo_entry_def)
qed

text \<open>
  Drawing fails with a TLB, and with a program that has a segment which does not consist of whole pages; \<open>StartProcess\<close> draws
  every program that it starts, and \<open>Abort\<close> draws again when an assertion fails.
\<close>

lemma drawing_with_tlb:
  assumes "tlb (dm s) = Some es"
  shows "draw_value be H uninit a sz virt s = Inl AssertFail"
  using assms by (simp add: draw_value_def Translate_def ASSERT_def Let_def)

lemma drawing_unaligned:
  assumes "draw_ok [a] s" "\<not> page_aligned (code (noffH (space_at s a)))"
  shows "DumpMem be H uninit cur ths [a] s = Inl AssertFail"
proof -
  have "drawable a s" using assms(1) by (simp add: draw_ok_def drawable_def)
  note t = DumpPageTable_ok [OF this, of be H uninit 0 320 4096 5376 _ _ 32]
  have "AddrSpace_Dump be H uninit cur ths 0 128 320 4096 5376 y 32 a vy s = Inl AssertFail" for y vy
    using t [of vy y] DrawArea_fails [OF assms(2), of 128 320 vy 32 "''code''"] by (auto simp: AddrSpace_Dump_def)
  then show ?thesis using DumpMem_eq [of be H uninit cur ths "[a]" s] by (auto simp: Let_def)
qed

text \<open>The picture is high enough: the spaces before one and that space together need no more than the room computed.\<close>

lemma rooms_sum:
  assumes "unat room + (\<Sum>a \<leftarrow> lst. (unat (numPages (space_at s a)) + 1) * 32) < 2 ^ 32"
  shows "unat (rooms 32 s lst room) = unat room + (\<Sum>a \<leftarrow> lst. (unat (numPages (space_at s a)) + 1) * 32)"
  using assms
proof (induction lst arbitrary: room)
  case (Cons a lst)
  let ?n = "(unat (numPages (space_at s a)) + 1) * 32"
  have "PageTableRoom (numPages (space_at s a)) 32 = of_nat ?n" by (simp add: PageTableRoom_def algebra_simps)
  then have "room + PageTableRoom (numPages (space_at s a)) 32 = of_nat (unat room + ?n)" by simp
  moreover have "unat room + ?n < 2 ^ 32" using Cons.prems by simp
  then have "unat (of_nat (unat room + ?n) :: 32 word) = unat room + ?n" by (simp only: unat_of_nat) simp
  ultimately have "unat (room + PageTableRoom (numPages (space_at s a)) 32) = unat room + ?n" by simp
  then show ?case using Cons.IH [of "room + PageTableRoom (numPages (space_at s a)) 32"] Cons.prems by simp
qed simp

lemma picture_high_enough:
  assumes "(\<Sum>a \<leftarrow> xs @ a # ys. (unat (numPages (space_at s a)) + 1) * 32) < 2 ^ 32" "AddrSpacesRoom 32 (xs @ a # ys) s \<le> height"
  shows "unat (AddrSpacesRoom 32 xs s) + (unat (numPages (space_at s a)) + 1) * 32 \<le> unat height"
  using rooms_sum [of 0 s "xs @ a # ys"] rooms_sum [of 0 s xs] assms by (simp add: AddrSpacesRoom_def word_le_nat_alt)

end
