(* ===== verification/Spec2Isabelle.thy ===== *)
theory Spec2Isabelle
  imports Prelude NachosList BitMapModel MachineModel InterruptModel ThreadModel MipsModel MipsCorrect DiskModel
    FileModel FileCorrect FileSysModel FileSysCorrect UserProgModel CoffModel ConsoleModel NetworkModel PostModel
    FsTestModel SystemModel ThreadTestModel PrintModel DisasmModel ExecuteModel ExecuteCorrect ToolsModel LoaderModel
    FlatModel DrawModel
begin

text \<open>
  Nachos, verified: the instructional operating system under src/nachos/code.

  \<^bold>\<open>The program.\<close> Nachos is one host process that holds a simulated machine (machine/) and the
  kernel that runs on it (threads/, userprog/, filesys/, network/). The interrupt simulation
  advances a clock on every enabling of interrupts and on every user instruction and calls the
  handlers of devices (timer, disk, console, network) when their time has come. The kernel
  multiplexes threads by explicit context switches, synchronizes them with semaphores, runs user
  programs on the MIPS interpreter through address translation, and keeps files on the
  simulated disk.

  \<^bold>\<open>Theories and sources.\<close>
  \<^item> Prelude: errors as values (a failed ASSERT, a wild pointer, a host trap, an allocation that
    throws, a C int that overflows, the power-down), the result monad, C division (threads/utility.h).
  \<^item> NachosList: threads/list.h, threads/list.cc. Cells and list headers on an explicit heap; every
    operation with its pointer accesses. The representation predicate ties a header to a sequence of
    keyed items; the lemmas show refinement of the abstract sequence, FIFO and priority order,
    separation of lists, and termination of the walks.
  \<^item> BitMapModel: userprog/bitmap.h, userprog/bitmap.cc, on 32-bit words, with its abstract set of
    marked numbers. The locale allocator is the contract that files use; it is interpreted on
    the bit map.
  \<^item> MachineModel: machine/machine.cc, machine/translate.cc. Registers, memory, page table or TLB,
    translation, loads and stores in either host byte order, exceptions. The exception handler is
    an argument.
  \<^item> MipsModel and MipsCorrect: machine/mipssim.h, machine/mipssim.cc. The instruction tables, Decode, Mult
    and every case of OneInstruction, grouped in the order of the switch. The lemmas: exact 64-bit
    product, total decoding, precise exceptions, exact overflow tests, unaligned stores and loads.
  \<^item> InterruptModel: machine/interrupt.cc, machine/stats.cc, machine/timer.cc. The pending list, ticks,
    levels, Idle and the timer. The state is an extensible record; handlers are dispatched by an
    argument, whose contract is the locale interrupt_client, interpreted on the timer.
  \<^item> ThreadModel: threads/thread.cc, threads/scheduler.cc, threads/synch.cc, the thread part of
    Initialize in threads/system.cc. A thread that waits keeps the list of the code sections it
    has still to run; routines are cut where SWITCH may be called. The step relation kstep runs the
    innermost section of the current thread or a call of its body; the kernel invariant holds in
    every reachable state. The locale kernel_client states what handlers may do and is interpreted
    on the kernel with the timer. The last section follows what is saved of a thread (registers, address space, stack) through the steps
    of all others; others_run is a run in which one thread does not have the processor.
  \<^item> DiskModel: machine/disk.cc, the host file accesses of machine/sysdep.cc, filesys/synchdisk.cc. Latency
    with the track buffer and with the wrap-around of the clock to int, requests, completion.
  \<^item> FileModel and FileCorrect: filesys/filehdr.cc, filesys/openfile.cc, FetchFrom and WriteBack of userprog/bitmap.cc.
    The sector operations are arguments; the locale sector_store is what files rely on,
    interpreted on the disk of DiskModel with the completion interrupt taken by CheckIfDue. The lemmas: files
    are byte sequences, headers survive the disk, allocation takes and returns free sectors.
  \<^item> FileSysModel: filesys/directory.cc, filesys/filesys.cc. Directories with their memory layout, and
    the operations of the file system; a directory is a finite map.
  \<^item> FileSysCorrect: the file system as a whole. Its invariant ties the free map, the directory and the headers on the
    disk together (no sector in two files, the map marks exactly the sectors in use). In the context of the
    locale sector_store every operation is shown to keep it and to act on the map from names to contents; the theorems are
    these facts on the disk. The specification is the relation spec_step, in which Create may fail and
    the contents of a new file are arbitrary.
  \<^item> UserProgModel: userprog/addrspace.cc, bin/noff.h, userprog/progtest.cc, userprog/exception.cc, the loop of
    Machine::Run. Loading of executables, the exception handler and its system calls; a program that
    has been started stays confined to the simulated machine, and a well-formed one is loaded as its header says.
  \<^item> CoffModel: bin/coff2noff.c, bin/coff.h. The conversion of a COFF file into the executable that AddrSpace loads, from the bytes of one file to the
    bytes of the other with every reason to give up; what is converted and then loaded is in memory where the section headers say.
  \<^item> ConsoleModel: machine/console.cc and the console test of userprog/progtest.cc. Polling with the UTF-8 decoder, transmission,
    destruction. The kernel with the console attached is another interpretation of the locale kernel_client.
  \<^item> NetworkModel: machine/network.cc. The wire format, polling, sending over sockets that are queues of datagrams.
  \<^item> PostModel: threads/synchlist.cc, network/post.cc. Synchronized lists, mail, mail boxes and the post
    office; a message goes from one machine through the network to another, where the worker sorts it for the right box.
  \<^item> FsTestModel: filesys/fstest.cc. Copying a host file into the file system, printing a file, the performance test; in the context
    of the locale sector_store a copied file has the bytes of the host file, and the performance test is shown to fail.
  \<^item> SystemModel: the command line in threads/system.cc and threads/main.cc, for every combination of the build macros,
    and the commands of the debugger in machine/machine.cc.
  \<^item> ThreadTestModel: threads/threadtest.cc, run step by step on the kernel from start-up to power-down; the 90 steps that it needs
    are counted by evaluation.
  \<^item> PrintModel: the formatted output of the C library, as far as the sources use it, with what is needed to read numbers back.
  \<^item> DisasmModel: bin/d.c, bin/opstrings.c, bin/disasm.c, bin/instr.h and the trace in machine/mipssim.h. The text of every instruction; it names
    the operation as the trace of the simulated processor does and determines operation and operands.
  \<^item> ExecuteModel and ExecuteCorrect: bin/execute.c, bin/system.c, bin/int.h, the stand-alone simulator. Its loop is related to
    OneInstruction step by step: both agree on the instructions and operands that the definition common describes, and
    the last section shows where they differ.
  \<^item> ToolsModel and LoaderModel: the logarithm and the argument vector of bin/execute.c; the loaders of bin/main.c and bin/disasm.c,
    which agree.
  \<^item> FlatModel: bin/coff2flat.c. The flat file is the memory image when the sections are contiguous from address 0.
  \<^item> DrawModel: the dumps of machine/machine.cc, userprog/addrspace.cc and threads/thread.cc. The text drawn, what drawing changes (the use bits),
    and when it fails.

  \<^bold>\<open>Conventions.\<close> Registers, memory words and bit map words are words of their width; a C \<open>int\<close> whose
  overflow matters goes through \<open>int32\<close> or \<open>sint\<close>, and the value of a semaphore, which V increments, fails with
  \<open>IntOverflow\<close> beyond the largest \<open>int\<close>; tick counters, which are \<open>long long\<close>, and the lengths of
  lists, which the memory of the host bounds, are unbounded. A pointer is a
  number, with 0 for NULL. The machine points to the page table of an address space; the kernel state keeps whose table it is (\<open>tablePtr\<close>), and
  what the machine marks in it belongs to that address space (\<open>cur_spaces\<close>). Uninitialised storage is an argument of the definition that allocates
  it. Loops that the code bounds are structural recursions on the number of rounds left or
  functions with a measure; loops that may run for ever (the interrupt loop, the idle loop of Sleep, the
  walks over linked lists) are partial functions to option, and their return is proved. Only
  the run of the thread test counts its steps.

  What comes from outside is an argument: which bytes the host has ready (\<open>poll\<close>), its locale, its random numbers, the
  product of floating-point numbers in the network, the descriptors of opened files.

  \<^bold>\<open>Not modelled.\<close> Colours and messages of debugging output; the host's system calls beyond the accesses that the devices
  make; the assembly of threads/switch.S, of which only the effect is described; Cleanup, which
  frees the global objects; the driver network/nettest.cc. Lock and Condition are stubs in the code
  and are modelled as such: the synchronous disk, synchronized lists and the post office fail as they do there. The
  file theories take the sector operations as arguments instead, and in the post office the parts between the locks are definitions of
  their own, which the theorem is about. StartProcess is modelled without the drawing of memory.svg, which is the
  definition DumpMem. Of bin/ the printer out.c, the options and the statistics of the stand-alone simulator are left
  out, because they only print. The programs under test/ are user programs.
\<close>

end
